(* ===== verification/Prelude.thy ===== *)
theory Prelude
  imports Complex_Main "HOL-Library.AList" "HOL-Library.Multiset" "HOL-Library.Char_ord" "HOL-Library.Sublist"
begin

text \<open>
  Shared vocabulary of the development: the types every component uses, database rows as
  lists with a primary key, the contract of a keyed table, and the transition-system
  scheme by which the components prove their invariants.

  \<^item> A Python \<^verbatim>\<open>datetime\<close> (always timezone-aware UTC in this code base) is an
    integer number of microseconds since the Unix epoch, its own resolution; a
    \<^verbatim>\<open>timedelta\<close> is an integer number of microseconds.
  \<^item> A UUID is an opaque natural number, a BIGSERIAL id a natural number.
  \<^item> An \<^verbatim>\<open>HTTPException\<close> is a value \<open>HTTPException status detail\<close>; a route-facing
    function returns a sum whose left side is that error.
  \<^item> A table is the list of its rows. \<open>row_get\<close>, \<open>row_update\<close> and \<open>update_where\<close> are the
    lookups and bulk updates the SQL performs.
\<close>

type_synonym datetime = int
type_synonym timedelta = int
type_synonym uuid = nat

datatype http_error = HTTPException (status_code: nat) (detail: string)

text \<open>A JSON value, as a JSONB column or a payload dictionary holds it; a float is the rational it stands for.\<close>

datatype json =
  JNull | JBool bool | JInt int | JFloat rat | JStr string | JList "json list" | JObj "(string \<times> json) list"

named_theorems table_simps \<open>rewrites of the table operations\<close>

text \<open>A loop over a list whose body may raise: the first error ends it.\<close>

fun traverse :: "('a \<Rightarrow> 'e + 'b) \<Rightarrow> 'a list \<Rightarrow> 'e + 'b list" where
  "traverse f [] = Inr []"
| "traverse f (x # xs) = (case f x of Inl e \<Rightarrow> Inl e | Inr y \<Rightarrow> (case traverse f xs of Inl e \<Rightarrow> Inl e | Inr ys \<Rightarrow> Inr (y # ys)))"

lemma traverse_Inr_iff: "traverse f xs = Inr ys \<longleftrightarrow> list_all2 (\<lambda>x y. f x = Inr y) xs ys"
proof (induction xs arbitrary: ys)
  case (Cons x xs)
  show ?case by (cases ys; cases "f x"; cases "traverse f xs") (auto simp: Cons.IH [symmetric])
qed auto

lemma traverse_Inl: "x \<in> set xs \<Longrightarrow> f x = Inl e \<Longrightarrow> \<exists>e'. traverse f xs = Inl e'"
  by (induction xs) (auto split: sum.split)

section \<open>Strings\<close>

text \<open>Python's \<^verbatim>\<open>str.strip()\<close> on ASCII text, \<^verbatim>\<open>startswith\<close> and \<^verbatim>\<open>removeprefix\<close>.\<close>

definition is_space :: "char \<Rightarrow> bool" where
  "is_space ch \<longleftrightarrow> ch \<in> {CHR '' '', CHR 0x09, CHR 0x0A, CHR 0x0B, CHR 0x0C, CHR 0x0D}"

definition py_strip :: "string \<Rightarrow> string" where
  "py_strip s = rev (dropWhile is_space (rev (dropWhile is_space s)))"

definition starts_with :: "string \<Rightarrow> string \<Rightarrow> bool" where
  "starts_with p s \<longleftrightarrow> take (length p) s = p"

definition remove_prefix :: "string \<Rightarrow> string \<Rightarrow> string" where
  "remove_prefix p s = (if starts_with p s then drop (length p) s else s)"

text \<open>\<^verbatim>\<open>lower()\<close> and \<^verbatim>\<open>upper()\<close> on ASCII letters, the \<^verbatim>\<open>in\<close> test, decimal digits and the decimal text
  of a number.\<close>

definition lower_char :: "char \<Rightarrow> char" where
  "lower_char ch = (if CHR ''A'' \<le> ch \<and> ch \<le> CHR ''Z'' then char_of ((of_char ch :: nat) + 32) else ch)"

definition upper_char :: "char \<Rightarrow> char" where
  "upper_char ch = (if CHR ''a'' \<le> ch \<and> ch \<le> CHR ''z'' then char_of ((of_char ch :: nat) - 32) else ch)"

definition py_lower :: "string \<Rightarrow> string" where
  "py_lower s = map lower_char s"

definition py_upper :: "string \<Rightarrow> string" where
  "py_upper s = map upper_char s"

definition is_digit :: "char \<Rightarrow> bool" where
  "is_digit ch \<longleftrightarrow> CHR ''0'' \<le> ch \<and> ch \<le> CHR ''9''"

definition digits_value :: "string \<Rightarrow> nat" where
  "digits_value s = foldl (\<lambda>n ch. 10 * n + (of_char ch - 48)) 0 s"

fun nat_str :: "nat \<Rightarrow> string" where
  "nat_str n = (if n < 10 then [char_of (48 + n)] else nat_str (n div 10) @ [char_of (48 + n mod 10)])"

declare nat_str.simps [simp del]

text \<open>\<^verbatim>\<open>split\<close> at a character and \<^verbatim>\<open>int(text)\<close>, no value for its \<^verbatim>\<open>ValueError\<close>.\<close>

fun split_on :: "char \<Rightarrow> string \<Rightarrow> string list" where
  "split_on ch [] = [[]]"
| "split_on ch (x # xs) = (if x = ch then [] # split_on ch xs else (case split_on ch xs of [] \<Rightarrow> [[x]] | g # gs \<Rightarrow> (x # g) # gs))"

definition py_int :: "string \<Rightarrow> int option" where
  "py_int s =
    (let t = py_strip s;
         (sign, body) = (case t of [] \<Rightarrow> (1, []) | ch # rest \<Rightarrow> if ch = CHR ''-'' then (- 1, rest) else if ch = CHR ''+'' then (1, rest) else (1, t));
         groups = split_on CHR ''_'' body
     in if list_all (\<lambda>g. g \<noteq> [] \<and> list_all is_digit g) groups then Some (sign * int (digits_value (concat groups))) else None)"

section \<open>Durations\<close>

definition microseconds :: "int \<Rightarrow> timedelta" where
  "microseconds n = n"

definition milliseconds :: "int \<Rightarrow> timedelta" where
  "milliseconds n = 1000 * n"

definition seconds :: "int \<Rightarrow> timedelta" where
  "seconds n = 1000000 * n"

definition minutes :: "int \<Rightarrow> timedelta" where
  "minutes n = 60 * 1000000 * n"

definition hours :: "int \<Rightarrow> timedelta" where
  "hours n = 3600 * 1000000 * n"

definition days :: "int \<Rightarrow> timedelta" where
  "days n = 86400 * 1000000 * n"

lemmas duration_defs =
  microseconds_def milliseconds_def seconds_def minutes_def hours_def days_def

section \<open>Lists\<close>

lemma sorted_le_last: "sorted xs \<Longrightarrow> x \<in> set xs \<Longrightarrow> x \<le> last xs"
  by (induction xs) auto

lemma strict_sorted_last: "sorted_wrt (<) (map f xs) \<Longrightarrow> x \<in> set xs \<Longrightarrow> f x \<le> f (last xs)"
  for f :: "'a \<Rightarrow> nat"
  by (induction xs) (auto intro: less_imp_le)

lemma filter_le_sorted: "sorted (map f xs) \<Longrightarrow> sorted (map f (filter P xs))"
  by (induction xs) auto

lemma length_filter_mono: "(\<And>x. x \<in> set xs \<Longrightarrow> P x \<Longrightarrow> Q x) \<Longrightarrow> length (filter P xs) \<le> length (filter Q xs)"
  by (induction xs) auto

lemma image_disjointI:
  assumes "\<And>y. y \<in> B \<Longrightarrow> f y \<notin> f ` A"
  shows "f ` A \<inter> f ` B = {}"
proof (rule equals0I)
  fix z assume "z \<in> f ` A \<inter> f ` B"
  then obtain y where "y \<in> B" "z = f y" "z \<in> f ` A" by blast
  with assms show False by blast
qed

lemma distinct_map_sort_key: "distinct (map f (sort_key g xs)) \<longleftrightarrow> distinct (map f xs)"
  by (rule mset_eq_imp_distinct_iff) simp

section \<open>Rows with a primary key\<close>

definition row_get :: "('r \<Rightarrow> 'k) \<Rightarrow> 'k \<Rightarrow> 'r list \<Rightarrow> 'r option" where
  "row_get key k rows = find (\<lambda>r. key r = k) rows"

definition row_update :: "('r \<Rightarrow> 'k) \<Rightarrow> 'k \<Rightarrow> ('r \<Rightarrow> 'r) \<Rightarrow> 'r list \<Rightarrow> 'r list" where
  "row_update key k f rows = map (\<lambda>r. if key r = k then f r else r) rows"

definition update_where :: "('r \<Rightarrow> bool) \<Rightarrow> ('r \<Rightarrow> 'r) \<Rightarrow> 'r list \<Rightarrow> 'r list" where
  "update_where P f rows = map (\<lambda>r. if P r then f r else r) rows"

lemma row_update_as_update_where: "row_update key k f rows = update_where (\<lambda>r. key r = k) f rows"
  by (simp add: row_update_def update_where_def)

lemma row_get_Nil [simp]: "row_get key k [] = None"
  by (simp add: row_get_def)

lemma row_get_Cons [simp]:
  "row_get key k (r # rows) = (if key r = k then Some r else row_get key k rows)"
  by (simp add: row_get_def)

lemma row_get_append [simp]:
  "row_get key k (xs @ ys) = (case row_get key k xs of None \<Rightarrow> row_get key k ys | Some r \<Rightarrow> Some r)"
  by (induction xs) auto

lemma row_get_SomeD: "row_get key k rows = Some r \<Longrightarrow> r \<in> set rows \<and> key r = k"
  by (induction rows) (auto split: if_splits)

lemma row_get_None_iff: "row_get key k rows = None \<longleftrightarrow> k \<notin> key ` set rows"
  by (induction rows) auto

lemma row_get_in_set: "distinct (map key rows) \<Longrightarrow> r \<in> set rows \<Longrightarrow> row_get key (key r) rows = Some r"
  by (induction rows) (auto simp: rev_image_eqI)

lemma row_get_eq_iff:
  "distinct (map key rows) \<Longrightarrow> row_get key k rows = Some r \<longleftrightarrow> r \<in> set rows \<and> key r = k"
  using row_get_SomeD row_get_in_set by fastforce

lemma set_update_where:
  "set (update_where P f rows) = f ` {r \<in> set rows. P r} \<union> {r \<in> set rows. \<not> P r}"
  by (auto simp: update_where_def)

lemma map_key_update_where:
  "(\<And>r. key (f r) = key r) \<Longrightarrow> map key (update_where P f rows) = map key rows"
  by (induction rows) (auto simp: update_where_def)

lemma row_get_update_where:
  assumes "\<And>r. key (f r) = key r"
  shows "row_get key k (update_where P f rows) =
    map_option (\<lambda>r. if P r then f r else r) (row_get key k rows)"
  using assms by (induction rows) (auto simp: update_where_def)

lemma row_get_row_update [table_simps]:
  assumes "\<And>r. key (f r) = key r"
  shows "row_get key k (row_update key j f rows) =
    (if j = k then map_option f (row_get key k rows) else row_get key k rows)"
  using assms by (induction rows) (auto simp: row_update_def)

lemma map_key_row_update [table_simps]:
  "(\<And>r. key (f r) = key r) \<Longrightarrow> map key (row_update key k f rows) = map key rows"
  by (simp add: row_update_as_update_where map_key_update_where)

lemma length_row_update [simp]: "length (row_update key k f rows) = length rows"
  by (simp add: row_update_def)

lemma length_update_where [simp]: "length (update_where P f rows) = length rows"
  by (simp add: update_where_def)

lemma row_update_Nil [simp]: "row_update key k f [] = []"
  by (simp add: row_update_def)

lemma row_update_Cons [simp]:
  "row_update key k f (r # rows) = (if key r = k then f r else r) # row_update key k f rows"
  by (simp add: row_update_def)

lemma update_where_Nil [simp]: "update_where P f [] = []"
  by (simp add: update_where_def)

lemma update_where_Cons [simp]:
  "update_where P f (r # rows) = (if P r then f r else r) # update_where P f rows"
  by (simp add: update_where_def)

lemma row_update_absent: "k \<notin> key ` set rows \<Longrightarrow> row_update key k f rows = rows"
  by (induction rows) auto

lemma set_row_update:
  assumes "distinct (map key rows)" "row_get key k rows = Some r"
  shows "set (row_update key k f rows) = insert (f r) (set rows - {r})"
  using assms by (induction rows) (auto split: if_splits dest: row_get_SomeD simp: rev_image_eqI row_update_absent)

section \<open>Transition systems and their invariants\<close>

text \<open>
  Every stateful component is a state type, an initial predicate and a step relation.
  \<open>reaches\<close> is the reflexive transitive closure from an initial state; an invariant that
  holds initially and is kept by every step holds in every reachable state.
\<close>

inductive reaches :: "('s \<Rightarrow> bool) \<Rightarrow> ('s \<Rightarrow> 's \<Rightarrow> bool) \<Rightarrow> 's \<Rightarrow> bool"
  for init :: "'s \<Rightarrow> bool" and step :: "'s \<Rightarrow> 's \<Rightarrow> bool" where
  reaches_init: "init s \<Longrightarrow> reaches init step s"
| reaches_step: "reaches init step s \<Longrightarrow> step s t \<Longrightarrow> reaches init step t"

locale invariant_system =
  fixes init :: "'s \<Rightarrow> bool" and step :: "'s \<Rightarrow> 's \<Rightarrow> bool" and inv :: "'s \<Rightarrow> bool"
  assumes inv_init: "init s \<Longrightarrow> inv s"
    and inv_step: "inv s \<Longrightarrow> step s t \<Longrightarrow> inv t"
begin

lemma reaches_inv: "reaches init step s \<Longrightarrow> inv s"
  by (induction rule: reaches.induct) (auto intro: inv_init inv_step)

lemma steps_inv: "rtranclp step s t \<Longrightarrow> inv s \<Longrightarrow> inv t"
  by (induction rule: rtranclp_induct) (auto intro: inv_step)

end

end
