(* ===== verification/Changelog.thy ===== *)
theory Changelog
  imports Prelude
begin

text \<open>
  The per-user change log, \<^verbatim>\<open>server/sync/changelog.py\<close>, and its retention,
  \<^verbatim>\<open>server/sync/retention.py\<close>. \<open>log_db\<close> holds the committed rows of \<^verbatim>\<open>user_change_log\<close> in
  revision order, the \<^verbatim>\<open>user_sync_state\<close> rows and the global revision sequence.

  Three layers. The operations: \<open>lock_sync_state\<close>, \<open>append_change\<close>, \<open>read_changes\<close> and
  \<open>purge_expired_changelog\<close>, on one database. The well-formedness \<open>log_wf\<close> they keep. And the
  concurrent system: transactions of many users in flight, the sequence handing out numbers
  at insert time, each user's appends serialised by the row lock, commits in any order. Its
  invariant is the ordering rule of the module's header: a reader's watermark never runs
  past a revision of that user that has yet to commit.
\<close>

section \<open>Data\<close>

record change_row =
  ch_revision :: nat
  ch_user :: uuid
  ch_entity_type :: string
  ch_entity_id :: string
  ch_operation :: string
  ch_payload :: "json option"
  ch_device :: "uuid option"
  ch_created_at :: datetime

record sync_state =
  ss_user :: uuid
  current_revision :: nat
  compacted_revision :: nat

record log_db =
  change_log :: "change_row list"
  sync_states :: "sync_state list"
  revision_seq :: nat

record change_entry =
  ce_revision :: nat
  ce_entity_type :: string
  ce_entity_id :: string
  ce_operation :: string
  ce_payload :: "json option"

record change_page =
  changes :: "change_entry list"
  pg_current_revision :: nat
  returned_until_revision :: nat
  has_more :: bool

datatype revision_expired = RevisionExpired (min_available_revision: nat) (expired_current: nat)

text \<open>What an append supplies: the changelog row less its revision.\<close>

record change_draft =
  cd_entity_type :: string
  cd_entity_id :: string
  cd_operation :: string
  cd_payload :: "json option"
  cd_device :: "uuid option"
  cd_created_at :: datetime

section \<open>Operations\<close>

definition state_of :: "log_db \<Rightarrow> uuid \<Rightarrow> sync_state option" where
  "state_of db u = row_get ss_user u (sync_states db)"

definition lock_sync_state :: "log_db \<Rightarrow> uuid \<Rightarrow> log_db" where
  "lock_sync_state db u =
    (case state_of db u of
       Some _ \<Rightarrow> db
     | None \<Rightarrow> db\<lparr>sync_states := sync_states db @ [\<lparr>ss_user = u, current_revision = 0, compacted_revision = 0\<rparr>]\<rparr>)"

definition draft_row :: "uuid \<Rightarrow> nat \<Rightarrow> change_draft \<Rightarrow> change_row" where
  "draft_row u n d = \<lparr>ch_revision = n, ch_user = u, ch_entity_type = cd_entity_type d,
     ch_entity_id = cd_entity_id d, ch_operation = cd_operation d, ch_payload = cd_payload d,
     ch_device = cd_device d, ch_created_at = cd_created_at d\<rparr>"

definition append_change :: "log_db \<Rightarrow> uuid \<Rightarrow> change_draft \<Rightarrow> nat \<times> log_db" where
  "append_change db0 u d =
    (let db = lock_sync_state db0 u; n = revision_seq db in
     (n, db\<lparr>change_log := change_log db @ [draft_row u n d], revision_seq := Suc n,
       sync_states := row_update ss_user u (\<lambda>s. s\<lparr>current_revision := n\<rparr>) (sync_states db)\<rparr>))"

definition entry_of :: "change_row \<Rightarrow> change_entry" where
  "entry_of r = \<lparr>ce_revision = ch_revision r, ce_entity_type = ch_entity_type r,
     ce_entity_id = ch_entity_id r, ce_operation = ch_operation r, ce_payload = ch_payload r\<rparr>"

definition read_changes :: "log_db \<Rightarrow> uuid \<Rightarrow> nat \<Rightarrow> nat \<Rightarrow> revision_expired + change_page" where
  "read_changes db u since_revision limit =
    (let current = (case state_of db u of Some s \<Rightarrow> current_revision s | None \<Rightarrow> 0);
         compacted = (case state_of db u of Some s \<Rightarrow> compacted_revision s | None \<Rightarrow> 0)
     in if since_revision < compacted then Inl (RevisionExpired compacted current)
     else
       let rows = take (limit + 1) (sort_key ch_revision
             (filter (\<lambda>r. ch_user r = u \<and> since_revision < ch_revision r \<and> ch_revision r \<le> current) (change_log db)));
           more = limit < length rows;
           entries = map entry_of (take limit rows)
       in Inr \<lparr>changes = entries, pg_current_revision = current,
            returned_until_revision = (if more \<and> entries \<noteq> [] then ce_revision (last entries) else current),
            has_more = more\<rparr>)"

text \<open>\<^verbatim>\<open>purge_expired_changelog\<close>: the users with expired rows and, per user, the watermark; then
  each user's rows up to it deleted and the compacted revision raised. The result is the number
  of rows deleted and the database.\<close>

definition expired_rows :: "log_db \<Rightarrow> datetime \<Rightarrow> change_row list" where
  "expired_rows db cutoff = filter (\<lambda>r. ch_created_at r < cutoff) (change_log db)"

definition watermarks :: "log_db \<Rightarrow> datetime \<Rightarrow> (uuid \<times> nat) list" where
  "watermarks db cutoff =
    map (\<lambda>u. (u, fold max (map ch_revision (filter (\<lambda>r. ch_user r = u) (expired_rows db cutoff))) 0))
      (remdups (map ch_user (expired_rows db cutoff)))"

definition purge_user :: "uuid \<times> nat \<Rightarrow> log_db \<Rightarrow> log_db" where
  "purge_user uw db =
    (let (u, w) = uw in
     db\<lparr>change_log := filter (\<lambda>r. \<not> (ch_user r = u \<and> ch_revision r \<le> w)) (change_log db),
        sync_states := row_update ss_user u
          (\<lambda>s. s\<lparr>compacted_revision := max (compacted_revision s) w\<rparr>) (sync_states db)\<rparr>)"

definition purge_expired_changelog :: "log_db \<Rightarrow> datetime \<Rightarrow> int \<Rightarrow> nat \<times> log_db" where
  "purge_expired_changelog db now retention_days =
    (let cutoff = now - days retention_days;
         db' = fold purge_user (watermarks db cutoff) db
     in (length (change_log db) - length (change_log db'), db'))"

section \<open>Well-formedness\<close>

definition log_wf :: "log_db \<Rightarrow> bool" where
  "log_wf db \<longleftrightarrow> 0 < revision_seq db \<and>
     sorted_wrt (<) (map ch_revision (change_log db)) \<and>
     (\<forall>r \<in> set (change_log db). ch_revision r < revision_seq db) \<and>
     distinct (map ss_user (sync_states db)) \<and>
     (\<forall>s \<in> set (sync_states db). compacted_revision s \<le> current_revision s \<and>
        current_revision s < revision_seq db) \<and>
     (\<forall>r \<in> set (change_log db). \<exists>s. state_of db (ch_user r) = Some s \<and>
        compacted_revision s < ch_revision r \<and> ch_revision r \<le> current_revision s)"

definition empty_log :: log_db where
  "empty_log = \<lparr>change_log = [], sync_states = [], revision_seq = 1\<rparr>"

lemma log_wf_empty: "log_wf empty_log"
  by (simp add: log_wf_def empty_log_def)

lemma state_of_lock: "state_of (lock_sync_state db u) v =
    (if v = u then Some (case state_of db u of Some s \<Rightarrow> s
       | None \<Rightarrow> \<lparr>ss_user = u, current_revision = 0, compacted_revision = 0\<rparr>) else state_of db v)"
  by (auto simp: lock_sync_state_def state_of_def split: option.splits)

lemma lock_frame [simp]:
  "change_log (lock_sync_state db u) = change_log db"
  "revision_seq (lock_sync_state db u) = revision_seq db"
  by (auto simp: lock_sync_state_def split: option.splits)

lemma log_wf_lock: "log_wf db \<Longrightarrow> log_wf (lock_sync_state db u)"
proof -
  assume wf: "log_wf db"
  show ?thesis
  proof (cases "state_of db u")
    case None
    then have "u \<notin> ss_user ` set (sync_states db)" by (simp add: state_of_def row_get_None_iff)
    moreover have "\<exists>s. state_of (lock_sync_state db u) (ch_user r) = Some s \<and>
        compacted_revision s < ch_revision r \<and> ch_revision r \<le> current_revision s"
      if "r \<in> set (change_log db)" for r
      using wf that None by (fastforce simp: log_wf_def state_of_lock)
    ultimately show ?thesis
      using wf None by (auto simp: log_wf_def lock_sync_state_def)
  qed (use wf in \<open>simp add: lock_sync_state_def\<close>)
qed

lemma append_change_simps:
  assumes "append_change db u d = (n, db')"
  shows "n = revision_seq db" "change_log db' = change_log db @ [draft_row u n d]"
    "revision_seq db' = Suc n"
    "state_of db' v = (if v = u then map_option (\<lambda>s. s\<lparr>current_revision := n\<rparr>) (state_of (lock_sync_state db u) u)
       else state_of db v)"
  using assms
  by (auto simp: append_change_def Let_def state_of_def row_get_row_update)
     (metis state_of_def state_of_lock)+

lemma log_wf_append:
  assumes wf: "log_wf db" and ap: "append_change db u d = (n, db')"
  shows "log_wf db'"
proof -
  let ?db = "lock_sync_state db u"
  have wf1: "log_wf ?db" by (rule log_wf_lock [OF wf])
  obtain s where s: "state_of ?db u = Some s" by (simp add: state_of_lock)
  have n: "n = revision_seq ?db" and log: "change_log db' = change_log ?db @ [draft_row u n d]"
    and seq: "revision_seq db' = Suc n"
    using append_change_simps [OF ap] by simp_all
  have ss: "sync_states db' = row_update ss_user u (\<lambda>s. s\<lparr>current_revision := n\<rparr>) (sync_states ?db)"
    using ap n by (auto simp: append_change_def Let_def)
  have cur: "compacted_revision s \<le> current_revision s" "current_revision s < n"
    using wf1 s n by (auto simp: log_wf_def state_of_def dest: row_get_SomeD)
  have st: "state_of db' v = (if v = u then Some (s\<lparr>current_revision := n\<rparr>) else state_of ?db v)" for v
    using append_change_simps(4) [OF ap, of v] s by (simp add: state_of_lock)
  have rows: "\<exists>s'. state_of db' (ch_user r) = Some s' \<and> compacted_revision s' < ch_revision r \<and>
      ch_revision r \<le> current_revision s'" if "r \<in> set (change_log ?db)" for r
    using wf1 that s cur n by (fastforce simp: log_wf_def st)
  have states: "\<forall>x \<in> set (sync_states db'). compacted_revision x \<le> current_revision x \<and>
      current_revision x < revision_seq db'"
    using wf1 s cur set_row_update [of ss_user "sync_states ?db" u s]
    by (auto simp: ss seq log_wf_def state_of_def n)
  show ?thesis
    unfolding log_wf_def
  proof (intro conjI)
    show "sorted_wrt (<) (map ch_revision (change_log db'))"
      using wf1 by (auto simp: log_wf_def log sorted_wrt_append n draft_row_def)
    show "\<forall>r \<in> set (change_log db'). ch_revision r < revision_seq db'"
      using wf1 by (auto simp: log_wf_def log seq n draft_row_def less_Suc_eq)
    show "distinct (map ss_user (sync_states db'))"
      using wf1 by (simp add: log_wf_def ss map_key_row_update)
    show "\<forall>r \<in> set (change_log db'). \<exists>s. state_of db' (ch_user r) = Some s \<and>
        compacted_revision s < ch_revision r \<and> ch_revision r \<le> current_revision s"
      using rows cur by (auto simp: log draft_row_def st)
  qed (use states seq in auto)
qed

lemma log_wf_append_snd: "log_wf db \<Longrightarrow> log_wf (snd (append_change db u d))"
  using log_wf_append [of db u d "fst (append_change db u d)"] by simp

lemma log_wf_purge_user:
  assumes wf: "log_wf db" and w: "\<And>s. state_of db u = Some s \<Longrightarrow> w \<le> current_revision s"
  shows "log_wf (purge_user (u, w) db)"
proof -
  let ?db = "purge_user (u, w) db"
  have st: "state_of ?db v = (if v = u then map_option (\<lambda>s. s\<lparr>compacted_revision := max (compacted_revision s) w\<rparr>)
      (state_of db u) else state_of db v)" for v
    by (auto simp: purge_user_def state_of_def row_get_row_update)
  have log: "change_log ?db = filter (\<lambda>r. \<not> (ch_user r = u \<and> ch_revision r \<le> w)) (change_log db)"
    and seq: "revision_seq ?db = revision_seq db"
    and ss: "sync_states ?db = row_update ss_user u
      (\<lambda>s. s\<lparr>compacted_revision := max (compacted_revision s) w\<rparr>) (sync_states db)"
    by (simp_all add: purge_user_def)
  have states: "compacted_revision x \<le> current_revision x \<and> current_revision x < revision_seq db"
    if "x \<in> set (sync_states ?db)" for x
  proof (cases "state_of db u")
    case None
    then have "sync_states ?db = sync_states db"
      by (simp add: ss state_of_def row_get_None_iff row_update_absent)
    with wf that show ?thesis by (simp add: log_wf_def)
  next
    case (Some s)
    then have "s \<in> set (sync_states db)" by (auto simp: state_of_def dest: row_get_SomeD)
    with wf that Some w [OF Some] set_row_update [of ss_user "sync_states db" u s] show ?thesis
      by (auto simp: ss log_wf_def state_of_def)
  qed
  show ?thesis
    unfolding log_wf_def
  proof (intro conjI)
    show "sorted_wrt (<) (map ch_revision (change_log ?db))"
      using wf by (auto simp: log log_wf_def sorted_wrt_map intro: sorted_wrt_filter)
    show "distinct (map ss_user (sync_states ?db))"
      using wf by (simp add: log_wf_def ss map_key_row_update)
    show "\<forall>r \<in> set (change_log ?db). \<exists>s. state_of ?db (ch_user r) = Some s \<and>
        compacted_revision s < ch_revision r \<and> ch_revision r \<le> current_revision s"
      using wf by (fastforce simp: log log_wf_def st)
  qed (use wf states in \<open>auto simp: log_wf_def log seq\<close>)
qed

lemma watermark_bound:
  assumes "log_wf db" "(u, w) \<in> set (watermarks db cutoff)" "state_of db u = Some s"
  shows "w \<le> current_revision s"
proof -
  let ?rs = "map ch_revision (filter (\<lambda>r. ch_user r = u) (expired_rows db cutoff))"
  have "w = fold max ?rs 0" using assms(2) by (auto simp: watermarks_def)
  moreover have "x \<le> current_revision s" if "x \<in> set ?rs" for x
    using assms(1,3) that by (fastforce simp: log_wf_def expired_rows_def)
  moreover have "fold max xs a \<le> b" if "\<forall>x \<in> set xs. x \<le> b" "a \<le> b" for xs and a b :: nat
    using that by (induction xs arbitrary: a) auto
  ultimately show ?thesis by auto
qed

lemma purge_user_current:
  "map_option current_revision (state_of (purge_user uw db) v) = map_option current_revision (state_of db v)"
  by (auto simp: purge_user_def state_of_def row_get_row_update option.map_comp comp_def split: prod.splits)

lemma log_wf_purge_fold:
  assumes "log_wf db" "\<forall>(u, w) \<in> set ws. \<forall>s. state_of db u = Some s \<longrightarrow> w \<le> current_revision s"
  shows "log_wf (fold purge_user ws db)"
  using assms
proof (induction ws arbitrary: db)
  case (Cons uw ws)
  obtain u w where uw: "uw = (u, w)" by force
  have "w' \<le> current_revision s" if vw: "(v, w') \<in> set ws" and st: "state_of (purge_user uw db) v = Some s" for v w' s
  proof -
    obtain s0 where "state_of db v = Some s0" "current_revision s0 = current_revision s"
      using purge_user_current [of uw db v] st by (cases "state_of db v") auto
    with Cons.prems(2) vw show ?thesis by fastforce
  qed
  then have "\<forall>(v, w') \<in> set ws. \<forall>s. state_of (purge_user uw db) v = Some s \<longrightarrow> w' \<le> current_revision s"
    by blast
  moreover have "log_wf (purge_user uw db)"
    using Cons.prems by (auto simp: uw intro: log_wf_purge_user)
  ultimately show ?case using Cons.IH by simp
qed simp

lemma log_wf_purge:
  assumes "log_wf db"
  shows "log_wf (snd (purge_expired_changelog db now retention_days))"
  using log_wf_purge_fold [OF assms] watermark_bound [OF assms]
  by (fastforce simp: purge_expired_changelog_def Let_def)

section \<open>Reading\<close>

definition rows_between :: "log_db \<Rightarrow> uuid \<Rightarrow> nat \<Rightarrow> nat \<Rightarrow> change_row list" where
  "rows_between db u a b = filter (\<lambda>r. ch_user r = u \<and> a < ch_revision r \<and> ch_revision r \<le> b) (change_log db)"

definition watermark :: "log_db \<Rightarrow> uuid \<Rightarrow> nat" where
  "watermark db u = (case state_of db u of Some s \<Rightarrow> current_revision s | None \<Rightarrow> 0)"

definition compacted :: "log_db \<Rightarrow> uuid \<Rightarrow> nat" where
  "compacted db u = (case state_of db u of Some s \<Rightarrow> compacted_revision s | None \<Rightarrow> 0)"

lemma rows_between_sorted: "log_wf db \<Longrightarrow> sorted_wrt (<) (map ch_revision (rows_between db u a b))"
  by (auto simp: rows_between_def log_wf_def sorted_wrt_map intro: sorted_wrt_filter)

lemma read_changes_eq:
  assumes "log_wf db"
  shows "read_changes db u since limit =
    (if since < compacted db u then Inl (RevisionExpired (compacted db u) (watermark db u))
     else let xs = rows_between db u since (watermark db u); es = map entry_of (take limit xs) in
       Inr \<lparr>changes = es, pg_current_revision = watermark db u,
         returned_until_revision = (if limit < length xs \<and> es \<noteq> [] then ce_revision (last es) else watermark db u),
         has_more = limit < length xs\<rparr>)"
proof -
  have "sorted (map ch_revision (rows_between db u since (watermark db u)))"
    using rows_between_sorted [OF assms] by (auto intro: strict_sorted_imp_sorted)
  then have "sort_key ch_revision (rows_between db u since (watermark db u)) = rows_between db u since (watermark db u)"
    by (rule sort_key_id_if_sorted)
  then show ?thesis
    by (auto simp: read_changes_def rows_between_def watermark_def compacted_def Let_def min_def)
qed

lemma rows_between_split:
  assumes "log_wf db" "limit < length (rows_between db u a b)" "0 < limit"
  shows "rows_between db u (ch_revision (last (take limit (rows_between db u a b)))) b =
    drop limit (rows_between db u a b)"
proof -
  let ?xs = "rows_between db u a b" let ?m = "ch_revision (last (take limit ?xs))"
  have srt: "sorted_wrt (\<lambda>x y. ch_revision x < ch_revision y) ?xs"
    using rows_between_sorted [OF assms(1)] by (simp add: sorted_wrt_map)
  have m: "?m = ch_revision (?xs ! (limit - 1))"
    using assms by (subst last_conv_nth) (auto simp: min_def)
  have drop: "filter (\<lambda>r. ?m < ch_revision r) (drop limit ?xs) = drop limit ?xs"
    using srt assms(2,3) by (intro filter_True) (auto simp: m in_set_conv_nth sorted_wrt_iff_nth_less)
  have take: "filter (\<lambda>r. ?m < ch_revision r) (take limit ?xs) = []"
  proof (rule filter_False, rule ballI)
    fix x assume "x \<in> set (take limit ?xs)"
    then obtain i where i: "i < limit" "i < length ?xs" "x = ?xs ! i" by (auto simp: in_set_conv_nth)
    then show "\<not> ?m < ch_revision x"
      using srt assms(2) by (cases "i = limit - 1") (auto simp: m sorted_wrt_iff_nth_less dest: less_not_sym)
  qed
  have a: "a < ?m"
  proof -
    have "?xs ! (limit - 1) \<in> set ?xs" using assms(2,3) by (intro nth_mem) simp
    then show ?thesis unfolding m by (simp add: rows_between_def)
  qed
  have "rows_between db u ?m b = filter (\<lambda>r. ?m < ch_revision r) ?xs"
    unfolding rows_between_def filter_filter using a rows_between_def
    by (intro filter_cong refl) (auto simp: rows_between_def)
  also have "\<dots> = filter (\<lambda>r. ?m < ch_revision r) (take limit ?xs @ drop limit ?xs)" by simp
  also have "\<dots> = drop limit ?xs" by (simp only: filter_append drop take append_Nil)
  finally show ?thesis .
qed

text \<open>A client following the pages: it asks again from \<open>returned_until_revision\<close> while the page
  says there is more. The fuel bounds the number of requests.\<close>

fun client_pull :: "nat \<Rightarrow> log_db \<Rightarrow> uuid \<Rightarrow> nat \<Rightarrow> nat \<Rightarrow> (revision_expired + change_entry list \<times> nat) option" where
  "client_pull 0 db u since limit = None"
| "client_pull (Suc fuel) db u since limit =
    (case read_changes db u since limit of
       Inl e \<Rightarrow> Some (Inl e)
     | Inr p \<Rightarrow>
        if has_more p then
          (case client_pull fuel db u (returned_until_revision p) limit of
             Some (Inr (es, w)) \<Rightarrow> Some (Inr (changes p @ es, w))
           | r \<Rightarrow> r)
        else Some (Inr (changes p, returned_until_revision p)))"

lemma client_pull_complete:
  assumes "log_wf db" "0 < limit"
  shows "compacted db u \<le> since \<Longrightarrow> length (rows_between db u since (watermark db u)) < fuel \<Longrightarrow>
    client_pull fuel db u since limit =
      Some (Inr (map entry_of (rows_between db u since (watermark db u)), watermark db u))"
proof (induction fuel arbitrary: since)
  case (Suc fuel)
  let ?xs = "rows_between db u since (watermark db u)"
  let ?m = "ch_revision (last (take limit ?xs))"
  show ?case
  proof (cases "limit < length ?xs")
    case True
    have ne: "take limit ?xs \<noteq> []" using True assms(2) by (cases ?xs) auto
    then have mem: "last (take limit ?xs) \<in> set ?xs" by (blast intro: in_set_takeD last_in_set)
    then have m: "since < ?m" by (simp add: rows_between_def)
    have split: "rows_between db u ?m (watermark db u) = drop limit ?xs"
      by (rule rows_between_split [OF assms(1) True assms(2)])
    have "client_pull fuel db u ?m limit = Some (Inr (map entry_of (drop limit ?xs), watermark db u))"
      using Suc.IH [of ?m] Suc.prems m assms(2) True by (simp add: split)
    moreover have "ce_revision (last (map entry_of (take limit ?xs))) = ?m"
      using ne by (simp add: last_map entry_of_def)
    ultimately show ?thesis
      using True Suc.prems ne
      by (simp add: read_changes_eq [OF assms(1)] Let_def flip: map_append)
  next
    case False
    then show ?thesis using Suc.prems by (simp add: read_changes_eq [OF assms(1)] Let_def)
  qed
qed simp

section \<open>Concurrent transactions\<close>

text \<open>
  Postgres runs many requests at once. A transaction that writes for a user holds that user's
  \<^verbatim>\<open>user_sync_state\<close> row lock from its first append to its end; the revision sequence hands out
  numbers at once and never takes them back, so revisions of different users commit in any
  order. \<open>open_txns\<close> maps a transaction to what it has written so far.
\<close>

record open_txn =
  tx_user :: uuid
  tx_rows :: "change_row list"

record log_system =
  committed :: log_db
  open_txns :: "nat \<Rightarrow> open_txn option"

definition user_locked :: "log_system \<Rightarrow> uuid \<Rightarrow> bool" where
  "user_locked S u \<longleftrightarrow> (\<exists>t x. open_txns S t = Some x \<and> tx_user x = u)"

definition commit_rows :: "log_db \<Rightarrow> open_txn \<Rightarrow> log_db" where
  "commit_rows db0 x =
    (let db = lock_sync_state db0 (tx_user x) in
     db\<lparr>change_log := sort_key ch_revision (change_log db @ tx_rows x),
        sync_states := (if tx_rows x = [] then sync_states db
          else row_update ss_user (tx_user x) (\<lambda>s. s\<lparr>current_revision := ch_revision (last (tx_rows x))\<rparr>) (sync_states db))\<rparr>)"

inductive log_step :: "log_system \<Rightarrow> log_system \<Rightarrow> bool" where
  begin_txn: "open_txns S t = None \<Longrightarrow> \<not> user_locked S u \<Longrightarrow>
    log_step S (S\<lparr>open_txns := (open_txns S)(t \<mapsto> \<lparr>tx_user = u, tx_rows = []\<rparr>)\<rparr>)"
| append_txn: "open_txns S t = Some x \<Longrightarrow>
    log_step S (S\<lparr>open_txns := (open_txns S)(t \<mapsto> x\<lparr>tx_rows := tx_rows x @
        [draft_row (tx_user x) (revision_seq (committed S)) d]\<rparr>),
      committed := (committed S)\<lparr>revision_seq := Suc (revision_seq (committed S))\<rparr>\<rparr>)"
| commit_txn: "open_txns S t = Some x \<Longrightarrow>
    log_step S (S\<lparr>open_txns := (open_txns S)(t := None), committed := commit_rows (committed S) x\<rparr>)"
| abort_txn: "open_txns S t = Some x \<Longrightarrow> log_step S (S\<lparr>open_txns := (open_txns S)(t := None)\<rparr>)"
| purge_txn: "\<not> user_locked S u \<Longrightarrow> w \<le> watermark (committed S) u \<Longrightarrow>
    log_step S (S\<lparr>committed := purge_user (u, w) (committed S)\<rparr>)"

definition log_init :: "log_system \<Rightarrow> bool" where
  "log_init S \<longleftrightarrow> S = \<lparr>committed = empty_log, open_txns = Map.empty\<rparr>"

definition tx_revs :: "open_txn \<Rightarrow> nat set" where
  "tx_revs x = ch_revision ` set (tx_rows x)"

lemma tx_revs_append [simp]: "tx_revs (x\<lparr>tx_rows := tx_rows x @ [draft_row u n d]\<rparr>) = insert n (tx_revs x)"
  by (simp add: tx_revs_def draft_row_def)

lemma tx_revs_empty [simp]: "tx_revs \<lparr>tx_user = u, tx_rows = []\<rparr> = {}"
  by (simp add: tx_revs_def)

definition pending_ok :: "log_db \<Rightarrow> open_txn \<Rightarrow> bool" where
  "pending_ok db x \<longleftrightarrow> sorted_wrt (<) (map ch_revision (tx_rows x)) \<and>
     (\<forall>r \<in> set (tx_rows x). ch_user r = tx_user x \<and> ch_revision r < revision_seq db \<and>
        watermark db (tx_user x) < ch_revision r \<and> ch_revision r \<notin> ch_revision ` set (change_log db))"

definition log_inv :: "log_system \<Rightarrow> bool" where
  "log_inv S \<longleftrightarrow> log_wf (committed S) \<and>
     (\<forall>t x. open_txns S t = Some x \<longrightarrow> pending_ok (committed S) x) \<and>
     (\<forall>t t' x x'. open_txns S t = Some x \<longrightarrow> open_txns S t' = Some x' \<longrightarrow> t \<noteq> t' \<longrightarrow>
        tx_user x \<noteq> tx_user x' \<and> tx_revs x \<inter> tx_revs x' = {})"

lemma watermark_lock [simp]: "watermark (lock_sync_state db u) v = watermark db v"
  by (simp add: watermark_def state_of_lock split: option.splits)

lemma watermark_less_seq: "log_wf db \<Longrightarrow> watermark db u < revision_seq db"
  by (auto simp: watermark_def log_wf_def state_of_def dest: row_get_SomeD split: option.splits)

lemma state_of_commit:
  "state_of (commit_rows db x) v =
    (if v = tx_user x then map_option (\<lambda>s. if tx_rows x = [] then s
        else s\<lparr>current_revision := ch_revision (last (tx_rows x))\<rparr>) (state_of (lock_sync_state db v) v)
     else state_of db v)"
  using state_of_lock [of db "tx_user x" v]
  by (auto simp: commit_rows_def state_of_def Let_def row_get_row_update option.map_ident)

lemma watermark_commit:
  "watermark (commit_rows db x) v =
    (if v = tx_user x \<and> tx_rows x \<noteq> [] then ch_revision (last (tx_rows x)) else watermark db v)"
  by (auto simp: watermark_def state_of_commit state_of_lock split: option.splits)

lemma revision_seq_commit [simp]: "revision_seq (commit_rows db x) = revision_seq db"
  by (simp add: commit_rows_def Let_def)

lemma set_change_log_commit [simp]:
  "set (change_log (commit_rows db x)) = set (change_log db) \<union> set (tx_rows x)"
  by (simp add: commit_rows_def Let_def)

lemma sorted_distinct_strict: "sorted xs \<Longrightarrow> distinct xs \<Longrightarrow> sorted_wrt (<) (xs :: nat list)"
  by (simp add: strict_sorted_iff)

lemma log_wf_commit:
  assumes wf: "log_wf db" and px: "pending_ok db x"
  shows "log_wf (commit_rows db x)"
proof -
  let ?l = "lock_sync_state db (tx_user x)" let ?c = "commit_rows db x"
  have wl: "log_wf ?l" by (rule log_wf_lock [OF wf])
  obtain s where s: "state_of ?l (tx_user x) = Some s" by (simp add: state_of_lock)
  then have sin: "s \<in> set (sync_states ?l)" by (auto simp: state_of_def dest: row_get_SomeD)
  have cs: "current_revision s = watermark db (tx_user x)"
    using s watermark_lock [of db "tx_user x" "tx_user x"] by (simp add: watermark_def)
  have last: "watermark db (tx_user x) < ch_revision (last (tx_rows x)) \<and>
      (\<forall>r \<in> set (tx_rows x). ch_revision r \<le> ch_revision (last (tx_rows x))) \<and>
      ch_revision (last (tx_rows x)) < revision_seq db" if "tx_rows x \<noteq> []"
    using px that by (auto simp: pending_ok_def intro: strict_sorted_last)
  have "distinct (map ch_revision (change_log db @ tx_rows x))"
  proof -
    have "distinct (map ch_revision (change_log db))" "distinct (map ch_revision (tx_rows x))"
      using wf px by (simp_all add: log_wf_def pending_ok_def strict_sorted_iff)
    moreover have "ch_revision ` set (change_log db) \<inter> ch_revision ` set (tx_rows x) = {}"
      using px by (intro image_disjointI) (simp add: pending_ok_def)
    ultimately show ?thesis by (simp only: map_append distinct_append set_map)
  qed
  then have "distinct (map ch_revision (change_log ?c))"
    by (simp add: commit_rows_def Let_def distinct_map_sort_key del: map_append)
  then have srt: "sorted_wrt (<) (map ch_revision (change_log ?c))"
    by (intro sorted_distinct_strict) (auto simp: commit_rows_def Let_def)
  have "compacted_revision y \<le> current_revision y \<and> current_revision y < revision_seq ?c"
    if "y \<in> set (sync_states ?c)" for y
  proof -
    have ok: "\<forall>y \<in> set (sync_states ?l). compacted_revision y \<le> current_revision y \<and> current_revision y < revision_seq db"
      and d: "distinct (map ss_user (sync_states ?l))"
      using wl by (simp_all add: log_wf_def)
    have "set (sync_states ?c) \<subseteq> insert (if tx_rows x = [] then s
        else s\<lparr>current_revision := ch_revision (last (tx_rows x))\<rparr>) (set (sync_states ?l))"
      using set_row_update [OF d] s sin by (auto simp: commit_rows_def Let_def state_of_def)
    with that ok sin cs last show ?thesis by fastforce
  qed
  moreover have "\<exists>y. state_of ?c (ch_user r) = Some y \<and> compacted_revision y < ch_revision r \<and>
      ch_revision r \<le> current_revision y" if r: "r \<in> set (change_log ?c)" for r
  proof (cases "r \<in> set (tx_rows x)")
    case True
    then have "tx_rows x \<noteq> []" by auto
    moreover have "compacted_revision s \<le> watermark db (tx_user x)"
      using wl sin cs by (auto simp: log_wf_def)
    ultimately show ?thesis
      using px True s last by (fastforce simp: state_of_commit pending_ok_def)
  next
    case False
    then have "r \<in> set (change_log ?l)" using r by simp
    then obtain y where "state_of ?l (ch_user r) = Some y" "compacted_revision y < ch_revision r"
      "ch_revision r \<le> current_revision y" using wl by (auto simp: log_wf_def)
    with s cs last show ?thesis
      by (auto simp: state_of_commit state_of_lock split: if_splits)
  qed
  ultimately show ?thesis
    using wl srt px by (auto simp: log_wf_def commit_rows_def Let_def map_key_row_update pending_ok_def)
qed

lemma log_wf_bump_seq: "log_wf db \<Longrightarrow> log_wf (db\<lparr>revision_seq := Suc (revision_seq db)\<rparr>)"
  by (auto simp: log_wf_def state_of_def less_Suc_eq)

lemma watermark_bump_seq [simp]: "watermark (db\<lparr>revision_seq := n\<rparr>) u = watermark db u"
  by (simp add: watermark_def state_of_def)

lemma watermark_purge [simp]: "watermark (purge_user uw db) v = watermark db v"
  using purge_user_current [of uw db v] by (auto simp: watermark_def split: option.splits)

lemma revision_seq_purge [simp]: "revision_seq (purge_user uw db) = revision_seq db"
  by (simp add: purge_user_def split: prod.splits)

lemma change_log_purge: "set (change_log (purge_user uw db)) \<subseteq> set (change_log db)"
  by (auto simp: purge_user_def split: prod.splits)

lemma pending_ok_other_commit:
  assumes "pending_ok db y" "tx_user y \<noteq> tx_user x"
    "tx_revs y \<inter> tx_revs x = {}"
  shows "pending_ok (commit_rows db x) y"
  using assms by (fastforce simp: pending_ok_def watermark_commit tx_revs_def)

lemma log_inv_append:
  assumes inv: "log_inv S" and x: "open_txns S t = Some x"
  shows "log_inv (S\<lparr>open_txns := (open_txns S)(t \<mapsto> x\<lparr>tx_rows := tx_rows x @
        [draft_row (tx_user x) (revision_seq (committed S)) d]\<rparr>),
      committed := (committed S)\<lparr>revision_seq := Suc (revision_seq (committed S))\<rparr>\<rparr>)"
proof -
  let ?db = "committed S" let ?n = "revision_seq ?db"
  have wf: "log_wf ?db" using inv by (simp add: log_inv_def)
  have old: "\<forall>r \<in> set (change_log ?db). ch_revision r < ?n" using wf by (auto simp: log_wf_def)
  have px: "pending_ok ?db y" if "open_txns S t' = Some y" for t' y
    using inv that by (auto simp: log_inv_def)
  have keep: "pending_ok (?db\<lparr>revision_seq := Suc ?n\<rparr>) y" if "pending_ok ?db y" for y
    using that by (auto simp: pending_ok_def)
  have new: "pending_ok (?db\<lparr>revision_seq := Suc ?n\<rparr>) (x\<lparr>tx_rows := tx_rows x @ [draft_row (tx_user x) ?n d]\<rparr>)"
  proof -
    have "?n \<notin> ch_revision ` set (change_log ?db)" using old by auto
    moreover have "\<forall>r \<in> set (tx_rows x). ch_revision r < ?n" using px [OF x] by (simp add: pending_ok_def)
    ultimately show ?thesis
      using px [OF x] watermark_less_seq [OF wf, of "tx_user x"]
      by (auto simp: pending_ok_def draft_row_def sorted_wrt_append)
  qed
  have lt: "\<forall>r \<in> set (tx_rows y). ch_revision r < ?n" if "open_txns S t' = Some y" for t' y
    using px [OF that] by (auto simp: pending_ok_def)
  show ?thesis
    unfolding log_inv_def
  proof (intro conjI allI impI)
    fix t1 t2 y z
    let ?S = "S\<lparr>open_txns := (open_txns S)(t \<mapsto> x\<lparr>tx_rows := tx_rows x @
        [draft_row (tx_user x) (revision_seq (committed S)) d]\<rparr>),
      committed := (committed S)\<lparr>revision_seq := Suc (revision_seq (committed S))\<rparr>\<rparr>"
    assume yz: "open_txns ?S t1 = Some y" "open_txns ?S t2 = Some z" "t1 \<noteq> t2"
    have D: "tx_user a \<noteq> tx_user b \<and> tx_revs a \<inter> tx_revs b = {}"
      if "open_txns S t1 = Some a" "open_txns S t2 = Some b" for a b
      using inv that yz(3) by (simp add: log_inv_def)
    have nin: "?n \<notin> tx_revs a" if "open_txns S t' = Some a" for t' a
      using lt [OF that] by (auto simp: tx_revs_def)
    show "tx_user y \<noteq> tx_user z" using D x yz by (auto split: if_splits)
    show "tx_revs y \<inter> tx_revs z = {}"
      using D [of x z] D [of y x] D [of y z] x yz nin by (cases "t1 = t"; cases "t2 = t") auto
  qed (use log_wf_bump_seq [OF wf] keep new px in \<open>auto split: if_splits\<close>)
qed

lemma log_inv_step:
  assumes inv: "log_inv S" and st: "log_step S T"
  shows "log_inv T"
proof -
  from st show "log_inv T"
  proof cases
    case (begin_txn t u)
    with inv show ?thesis
      by (auto simp: log_inv_def pending_ok_def user_locked_def)
  next
    case (append_txn t x d)
    with log_inv_append [OF inv] show ?thesis by simp
  next
    case (commit_txn t x)
    have px: "pending_ok (committed S) x" using inv commit_txn by (auto simp: log_inv_def)
    have "pending_ok (commit_rows (committed S) x) y" if "open_txns S t' = Some y" "t' \<noteq> t" for t' y
    proof (rule pending_ok_other_commit)
      show "pending_ok (committed S) y" using inv that by (auto simp: log_inv_def)
    qed (use inv that commit_txn in \<open>simp_all add: log_inv_def\<close>)
    then show ?thesis
      using inv commit_txn log_wf_commit [OF _ px] by (fastforce simp: log_inv_def)
  next
    case (abort_txn t x)
    with inv show ?thesis by (fastforce simp: log_inv_def)
  next
    case (purge_txn u w)
    have wf: "log_wf (purge_user (u, w) (committed S))"
      using inv purge_txn by (intro log_wf_purge_user) (auto simp: log_inv_def watermark_def)
    have "pending_ok (purge_user (u, w) (committed S)) y" if "pending_ok (committed S) y" for y
      using that change_log_purge [of "(u, w)" "committed S"] by (auto simp: pending_ok_def)
    with inv wf purge_txn show ?thesis by (auto simp: log_inv_def)
  qed
qed

interpretation log_sys: invariant_system log_init log_step log_inv
proof
  show "log_inv S" if "log_init S" for S
    using that by (auto simp: log_init_def log_inv_def log_wf_empty)
qed (rule log_inv_step)

lemma log_step_watermark_mono:
  assumes "log_inv S" "log_step S T"
  shows "watermark (committed S) u \<le> watermark (committed T) u"
  using assms(2)
proof cases
  case (commit_txn t x)
  then have "pending_ok (committed S) x" using assms(1) by (auto simp: log_inv_def)
  with commit_txn show ?thesis
    by (auto simp: watermark_commit pending_ok_def intro: less_imp_le)
qed auto

lemma log_step_new_rows:
  assumes "log_inv S" "log_step S T" "r \<in> set (change_log (committed T))" "r \<notin> set (change_log (committed S))"
  shows "watermark (committed S) (ch_user r) < ch_revision r"
  using assms(2)
proof cases
  case (commit_txn t x)
  then have "pending_ok (committed S) x" using assms(1) by (auto simp: log_inv_def)
  with commit_txn assms(3,4) show ?thesis by (auto simp: pending_ok_def)
next
  case (purge_txn u w)
  with assms(3,4) change_log_purge [of "(u, w)" "committed S"] show ?thesis by auto
qed (use assms in auto)

section \<open>Properties\<close>



lemma rows_between_new:
  "log_wf db \<Longrightarrow> r \<in> set (change_log db) \<Longrightarrow> a < ch_revision r \<Longrightarrow>
    r \<in> set (rows_between db (ch_user r) a (watermark db (ch_user r)))"
  by (fastforce simp: rows_between_def watermark_def log_wf_def)

text \<open>
  C18. A client that pages from a revision the server still holds gets every change of its user
  after that revision, each exactly once, in revision order, and ends at the current revision;
  the number of requests is bounded by the number of changes.
\<close>

theorem client_pull_exact:
  assumes "log_wf db" "0 < limit" "compacted db u \<le> since"
  shows "client_pull (Suc (length (change_log db))) db u since limit =
      Some (Inr (map entry_of (rows_between db u since (watermark db u)), watermark db u)) \<and>
    distinct (map ch_revision (rows_between db u since (watermark db u)))"
proof -
  have "length (rows_between db u since (watermark db u)) \<le> length (change_log db)"
    by (simp add: rows_between_def)
  with client_pull_complete [OF assms, of "Suc (length (change_log db))"] rows_between_sorted [OF assms(1)]
  show ?thesis
    by (simp only: less_Suc_eq_le strict_sorted_iff simp_thms)
qed

definition sample_log :: log_db where
  "sample_log = snd (append_change (snd (append_change empty_log 7
      \<lparr>cd_entity_type = ''course'', cd_entity_id = ''1'', cd_operation = ''upsert'', cd_payload = None,
       cd_device = None, cd_created_at = 0\<rparr>)) 7
      \<lparr>cd_entity_type = ''course'', cd_entity_id = ''2'', cd_operation = ''delete'', cd_payload = None,
       cd_device = None, cd_created_at = 5\<rparr>)"

lemma sample_log_wf: "log_wf sample_log"
  unfolding sample_log_def by (intro log_wf_append_snd log_wf_empty)

theorem client_pull_exact_witness:
  "client_pull (Suc (length (change_log sample_log))) sample_log 7 0 1 =
      Some (Inr (map entry_of (rows_between sample_log 7 0 (watermark sample_log 7)), watermark sample_log 7)) \<and>
   map ch_revision (rows_between sample_log 7 0 (watermark sample_log 7)) = [1, 2]"
proof -
  have "compacted sample_log 7 \<le> 0" by code_simp
  moreover have "map ch_revision (rows_between sample_log 7 0 (watermark sample_log 7)) = [1, 2]" by code_simp
  ultimately show ?thesis using client_pull_exact [OF sample_log_wf, of 1 7 0] by simp
qed

lemma purge_user_gone:
  "r \<in> set (change_log db) \<Longrightarrow> r \<notin> set (change_log (purge_user uw db)) \<Longrightarrow>
    fst uw = ch_user r \<and> ch_revision r \<le> snd uw"
  by (cases uw) (auto simp: purge_user_def)

lemma purge_fold_gone:
  assumes "r \<in> set (change_log db)" "r \<notin> set (change_log (fold purge_user ws db))"
  shows "\<exists>w. (ch_user r, w) \<in> set ws \<and> ch_revision r \<le> w"
  using assms
proof (induction ws arbitrary: db)
  case (Cons uw ws)
  show ?case
  proof (cases "r \<in> set (change_log (purge_user uw db))")
    case True
    with Cons.IH Cons.prems(2) show ?thesis by auto
  next
    case False
    with Cons.prems(1) purge_user_gone show ?thesis by (cases uw) fastforce
  qed
qed simp

lemma purge_user_states: "state_of (purge_user uw db) v = None \<longleftrightarrow> state_of db v = None"
  using purge_user_current [of uw db v] by (cases "state_of db v") auto

lemma purge_user_compacted:
  assumes "state_of db v \<noteq> None"
  shows "compacted (purge_user uw db) v = (if v = fst uw then max (compacted db v) (snd uw) else compacted db v)"
  using assms by (cases uw) (auto simp: compacted_def purge_user_def state_of_def row_get_row_update)

lemma purge_fold_compacted_mono:
  "state_of db v \<noteq> None \<Longrightarrow> compacted db v \<le> compacted (fold purge_user ws db) v"
proof (induction ws arbitrary: db)
  case (Cons uw ws)
  with purge_user_states [of uw db v] have "compacted (purge_user uw db) v \<le> compacted (fold purge_user ws (purge_user uw db)) v"
    by auto
  with purge_user_compacted [OF Cons.prems, of uw] show ?case by (auto split: if_splits)
qed simp

lemma purge_fold_compacted:
  "(v, w) \<in> set ws \<Longrightarrow> state_of db v \<noteq> None \<Longrightarrow> w \<le> compacted (fold purge_user ws db) v"
proof (induction ws arbitrary: db)
  case (Cons uw ws)
  show ?case
  proof (cases "uw = (v, w)")
    case True
    with purge_fold_compacted_mono [of "purge_user uw db" v ws] purge_user_states [of uw db v]
      purge_user_compacted [OF Cons.prems(2), of uw] Cons.prems(2) show ?thesis by auto
  next
    case False
    with Cons purge_user_states [of uw db v] show ?thesis by auto
  qed
qed simp

text \<open>
  A purged revision is never silently missing: after a purge, a client that has not seen
  every deleted change of its user is answered with \<open>RevisionExpired\<close> (the API's 410), never
  with a page that leaves the deleted changes out.
\<close>

theorem purge_forces_full_sync:
  assumes "log_wf db" "purge_expired_changelog db now retention = (n, db')"
    and "r \<in> set (change_log db)" "r \<notin> set (change_log db')" "since < ch_revision r"
  shows "\<exists>m c. read_changes db' (ch_user r) since limit = Inl (RevisionExpired m c)"
proof -
  let ?ws = "watermarks db (now - days retention)"
  have db': "db' = fold purge_user ?ws db"
    using assms(2) by (simp add: purge_expired_changelog_def Let_def)
  obtain w where w: "(ch_user r, w) \<in> set ?ws" "ch_revision r \<le> w"
    using purge_fold_gone [OF assms(3)] assms(4) by (auto simp: db')
  have "state_of db (ch_user r) \<noteq> None" using assms(1,3) by (fastforce simp: log_wf_def)
  then have "since < compacted db' (ch_user r)"
    using purge_fold_compacted [OF w(1), of db] w(2) assms(5) by (simp add: db')
  moreover have "log_wf db'" using log_wf_purge [OF assms(1)] assms(2) by (metis snd_conv)
  ultimately show ?thesis by (simp add: read_changes_eq)
qed

theorem purge_forces_full_sync_witness:
  "\<exists>m c. read_changes (snd (purge_expired_changelog sample_log 3 0)) 7 0 10 = Inl (RevisionExpired m c)"
proof -
  let ?r = "hd (change_log sample_log)" let ?p = "purge_expired_changelog sample_log 3 0"
  have "?p = (fst ?p, snd ?p)" by simp
  moreover have "?r \<in> set (change_log sample_log)" by code_simp
  moreover have "?r \<notin> set (change_log (snd ?p))" by code_simp
  moreover have "0 < ch_revision ?r" "ch_user ?r = 7" by code_simp+
  ultimately show ?thesis using purge_forces_full_sync [OF sample_log_wf, of 3 0 "fst ?p" "snd ?p" ?r 0 10] by simp
qed

end
