(* ===== verification/PushTables.thy ===== *)
theory PushTables
  imports Changelog
begin

text \<open>
  The tables of the push pipeline and what its parts share: \<open>push_db\<close> holds the rows that
  \<^verbatim>\<open>server/push\<close> reads and writes (\<^verbatim>\<open>auth/models/push.py\<close>, \<^verbatim>\<open>auth/models/device.py\<close>,
  \<^verbatim>\<open>sync/models\<close>, \<^verbatim>\<open>academic_calendar/models.py\<close>) with the columns used there, and the user's change
  log (theory \<open>Changelog\<close>). Then the dedupe keys of \<^verbatim>\<open>push/dedupe.py\<close>, which job the check before a send
  guards (\<^verbatim>\<open>push/presend.py\<close>, \<open>needs_check\<close>) and the insert of a job under the partial unique index
  \<^verbatim>\<open>ux_push_jobs_dedupe_active\<close>.
\<close>

section \<open>Data\<close>

datatype push_job_status = PPending | PProcessing | PSent | PPartialFailed | PFailed | PCancelled

datatype push_delivery_status = DPending | DSent | DFailed | DSkipped

type_synonym payload = "(string \<times> json) list"

record push_job =
  j_id :: nat
  j_user :: uuid
  j_device :: "uuid option"
  dedupe_key :: string
  channel :: string
  scenario :: string
  fire_at :: datetime
  available_at :: datetime
  priority :: int
  j_payload :: payload
  j_status :: push_job_status
  attempts :: nat
  max_attempts :: nat
  j_locked_at :: "datetime option"
  j_locked_by :: "string option"
  j_last_error :: "string option"
  j_sent_at :: "datetime option"
  cancelled_at :: "datetime option"

record push_delivery =
  pd_id :: nat
  pd_job :: nat
  pd_user :: uuid
  pd_device :: "uuid option"
  pd_token :: "nat option"
  provider :: string
  pd_token_kind :: string
  pd_token_hash :: string
  pd_scope_key :: string
  pd_status :: push_delivery_status
  pd_attempts :: nat
  pd_max_attempts :: nat
  provider_message_id :: "string option"
  failure_code :: "string option"
  failure_message :: "string option"
  pd_sent_at :: "datetime option"
  next_retry_at :: datetime

record push_token =
  tk_id :: nat
  tk_device :: uuid
  tk_provider :: string
  tk_kind :: string
  tk_hash :: string
  tk_value :: string
  tk_scope_key :: string
  tk_expires_at :: "datetime option"
  tk_status :: string
  tk_last_success_at :: "datetime option"
  tk_last_failure_at :: "datetime option"
  tk_last_failure_code :: "string option"

record push_device =
  pv_id :: uuid
  pv_user :: uuid
  pv_platform :: string
  pv_app_version :: "string option"
  pv_locale :: "string option"
  bulletin_push_enabled :: bool
  cloud_sync_enabled :: bool
  sync_assignment_reminders :: bool
  pv_deleted_at :: "datetime option"

text \<open>Days of the school calendar are day numbers.\<close>

record holiday =
  h_id :: nat
  h_start :: int
  h_end :: int

record holiday_override =
  ho_user :: uuid
  ho_holiday :: nat
  ho_notify :: bool

record semester_term =
  tm_code :: string
  tm_start :: int
  tm_end :: int

record user_assignment =
  ua_id :: nat
  ua_user :: uuid
  ua_user_course :: "nat option"
  ua_moodle_course :: int
  ua_moodle_assignment :: int
  ua_moodle_semester :: "string option"
  ua_course_no :: "string option"
  ua_course_name :: "string option"
  ua_title :: string
  ua_due_at :: "datetime option"
  ua_cutoff_at :: "datetime option"
  ua_extension_due_at :: "datetime option"
  ua_allow_from_at :: "datetime option"
  ua_moodle_url :: "string option"
  ua_intro_html :: "string option"
  ua_is_submitted :: bool
  ua_submitted_at :: "datetime option"
  ua_grade :: "string option"
  ua_fetched_at :: datetime
  ua_last_seen_at :: datetime
  ua_deleted_at :: "datetime option"

text \<open>A row of \<^verbatim>\<open>user_assignment_overrides\<close>, of \<^verbatim>\<open>user_courses\<close> and of \<^verbatim>\<open>user_course_overrides\<close>, with the
  columns the check before a send reads.\<close>

record assignment_mark =
  am_assignment :: nat
  local_status :: string

record user_course =
  uc_id :: nat
  uc_course_no :: "string option"
  uc_semester :: string

record course_override =
  co_user :: uuid
  co_course :: nat
  co_moodle_course :: "int option"
  ignore_assignments :: bool

record push_db =
  jobs :: "push_job list"
  push_job_seq :: nat
  deliveries :: "push_delivery list"
  delivery_seq :: nat
  tokens :: "push_token list"
  devices :: "push_device list"
  terms :: "semester_term list"
  holidays :: "holiday list"
  holiday_overrides :: "holiday_override list"
  assignments :: "user_assignment list"
  assignment_seq :: nat
  assignment_marks :: "assignment_mark list"
  user_courses :: "user_course list"
  course_overrides :: "course_override list"
  sync_log :: log_db

record push_settings =
  push_job_stale_lock_minutes :: int
  push_retry_round_delay_seconds :: int
  push_pipeline_batch_size :: nat
  push_presend_grace_minutes :: int
  push_presend_retry_seconds :: int
  push_countdown_dedupe_window_seconds :: int

definition get_job :: "push_db \<Rightarrow> nat \<Rightarrow> push_job option" where
  "get_job db i = row_get j_id i (jobs db)"

definition modify_job :: "nat \<Rightarrow> (push_job \<Rightarrow> push_job) \<Rightarrow> push_db \<Rightarrow> push_db" where
  "modify_job i f db = db\<lparr>jobs := row_update j_id i f (jobs db)\<rparr>"

text \<open>A value of the JSON payload; a missing key is \<open>JNull\<close>, as \<^verbatim>\<open>payload.get\<close> gives \<^verbatim>\<open>None\<close>.\<close>

definition payload_get :: "payload \<Rightarrow> string \<Rightarrow> json" where
  "payload_get p k = (case map_of p k of None \<Rightarrow> JNull | Some v \<Rightarrow> v)"

section \<open>Channels and scenarios\<close>

definition SCHEDULE_CHANNEL :: string where "SCHEDULE_CHANNEL = ''schedule''"
definition REMINDER_CHANNEL :: string where "REMINDER_CHANNEL = ''assignment''"
definition COURSE_CHANNEL :: string where "COURSE_CHANNEL = ''course''"
definition BULLETIN_CHANNEL :: string where "BULLETIN_CHANNEL = ''bulletin''"

definition DEVICE_CHANNELS :: "string list" where
  "DEVICE_CHANNELS = [SCHEDULE_CHANNEL, ''custom'']"

definition CLASS_SCENARIOS :: "string list" where
  "CLASS_SCENARIOS = [''classPreparing'', ''inClass'']"

definition REAUTH_SCENARIO :: string where "REAUTH_SCENARIO = ''reauth_required''"

definition APPLE_HANDHELD_PLATFORMS :: "string list" where
  "APPLE_HANDHELD_PLATFORMS = [''ios'', ''ipados'']"

definition COUNTDOWN_WAIT_UNTIL :: timedelta where "COUNTDOWN_WAIT_UNTIL = seconds 30"
definition COUNTDOWN_WAIT :: timedelta where "COUNTDOWN_WAIT = seconds 60"
definition SYNC_TRIGGER_GAP :: timedelta where "SYNC_TRIGGER_GAP = minutes 20"
definition HELD_START_RECHECK :: timedelta where "HELD_START_RECHECK = minutes 5"

lemmas channel_defs = SCHEDULE_CHANNEL_def REMINDER_CHANNEL_def COURSE_CHANNEL_def BULLETIN_CHANNEL_def
  DEVICE_CHANNELS_def CLASS_SCENARIOS_def REAUTH_SCENARIO_def

section \<open>Keys\<close>

text \<open>\<^verbatim>\<open>str(uuid)\<close>: 32 hexadecimal digits of the 128-bit number in groups, and \<^verbatim>\<open>str(int)\<close>.\<close>

definition hex_digit :: "nat \<Rightarrow> char" where
  "hex_digit n = (if n < 10 then char_of (48 + n) else char_of (87 + n))"

fun hex_text :: "nat \<Rightarrow> nat \<Rightarrow> string" where
  "hex_text 0 n = []"
| "hex_text (Suc k) n = hex_text k (n div 16) @ [hex_digit (n mod 16)]"

definition uuid_text :: "uuid \<Rightarrow> string" where
  "uuid_text u = (let h = hex_text 32 u in
     take 8 h @ ''-'' @ take 4 (drop 8 h) @ ''-'' @ take 4 (drop 12 h) @ ''-'' @ take 4 (drop 16 h) @ ''-'' @ drop 20 h)"

definition int_str :: "int \<Rightarrow> string" where
  "int_str n = (if n < 0 then ''-'' @ nat_str (nat (- n)) else nat_str (nat n))"

definition schedule_prefix :: "uuid \<Rightarrow> string" where
  "schedule_prefix dev = ''schedule:'' @ uuid_text dev @ '':''"

definition schedule_key :: "uuid \<Rightarrow> string \<Rightarrow> string \<Rightarrow> string" where
  "schedule_key dev source_id sc = schedule_prefix dev @ source_id @ '':'' @ sc"

definition activity_end_prefix :: "uuid \<Rightarrow> string" where
  "activity_end_prefix dev = ''la_end:'' @ uuid_text dev @ '':''"

definition activity_end_key :: "uuid \<Rightarrow> string \<Rightarrow> string" where
  "activity_end_key dev act = activity_end_prefix dev @ act"

definition activity_id :: "string \<Rightarrow> string \<Rightarrow> string" where
  "activity_id source_id sc = sc @ ''::'' @ source_id"

definition needs_check :: "push_job \<Rightarrow> bool" where
  "needs_check j =
    (if channel j = REMINDER_CHANNEL then starts_with ''reminder_'' (scenario j)
     else channel j = SCHEDULE_CHANNEL \<and> scenario j = ''assignmentUrgent'' \<and>
       payload_get (j_payload j) ''kind'' \<noteq> JStr ''live_activity_end'' \<and>
       (case j_device j of None \<Rightarrow> False | Some d \<Rightarrow> starts_with (schedule_prefix d) (dedupe_key j)))"

definition assignment_id :: "push_job \<Rightarrow> int option" where
  "assignment_id j =
    (if channel j = REMINDER_CHANNEL
     then (case payload_get (j_payload j) ''moodle_assignment_id'' of JInt n \<Rightarrow> Some n | _ \<Rightarrow> None)
     else (case payload_get (j_payload j) ''source_id'' of
             JStr s \<Rightarrow> if s \<noteq> [] \<and> (\<forall>ch \<in> set s. is_digit ch) then Some (int (digits_value s)) else None
           | _ \<Rightarrow> None))"

section \<open>Rows and filing\<close>

definition has_deliveries :: "push_db \<Rightarrow> nat \<Rightarrow> bool" where
  "has_deliveries db i \<longleftrightarrow> (\<exists>d \<in> set (deliveries db). pd_job d = i)"

definition dedupe_active :: "push_job \<Rightarrow> bool" where
  "dedupe_active j \<longleftrightarrow> j_status j \<in> {PPending, PProcessing, PSent, PPartialFailed}"

text \<open>A row as an insert into \<^verbatim>\<open>push_jobs\<close> leaves it, column defaults included; the id comes from the
  sequence. \<open>conflicting_job\<close> is the row that holds the key in the partial unique index.\<close>

definition new_job ::
  "uuid \<Rightarrow> uuid option \<Rightarrow> string \<Rightarrow> string \<Rightarrow> string \<Rightarrow> datetime \<Rightarrow> int \<Rightarrow> payload \<Rightarrow> datetime \<Rightarrow> nat \<Rightarrow> push_job" where
  "new_job u dev key chan sc fire prio payload now i =
    \<lparr>j_id = i, j_user = u, j_device = dev, dedupe_key = key, channel = chan, scenario = sc, fire_at = fire,
     available_at = now, priority = prio, j_payload = payload, j_status = PPending, attempts = 0, max_attempts = 3,
     j_locked_at = None, j_locked_by = None, j_last_error = None, j_sent_at = None, cancelled_at = None\<rparr>"

definition conflicting_job :: "push_db \<Rightarrow> uuid \<Rightarrow> string \<Rightarrow> push_job option" where
  "conflicting_job db u key = find (\<lambda>j. j_user j = u \<and> dedupe_key j = key \<and> dedupe_active j) (jobs db)"

definition insert_job :: "(nat \<Rightarrow> push_job) \<Rightarrow> push_db \<Rightarrow> push_db" where
  "insert_job mk db = db\<lparr>jobs := jobs db @ [mk (push_job_seq db)], push_job_seq := Suc (push_job_seq db)\<rparr>"

section \<open>Well-formed tables\<close>

text \<open>The job ids are distinct and below the sequence.\<close>

definition jobs_wf :: "push_db \<Rightarrow> bool" where
  "jobs_wf db \<longleftrightarrow> distinct (map j_id (jobs db)) \<and> (\<forall>j \<in> set (jobs db). j_id j < push_job_seq db)"

definition held_by :: "string \<Rightarrow> push_db \<Rightarrow> nat set" where
  "held_by worker db = {i. \<exists>j. get_job db i = Some j \<and> j_status j = PProcessing \<and> j_locked_by j = Some worker}"

definition job_ids :: "push_db \<Rightarrow> nat set" where
  "job_ids db = j_id ` set (jobs db)"

definition guarded :: "push_db \<Rightarrow> nat \<Rightarrow> bool" where
  "guarded db i \<longleftrightarrow> (\<exists>j. get_job db i = Some j \<and> needs_check j)"

lemma jobs_wf_ids:
  "map j_id (jobs db') = map j_id (jobs db) \<Longrightarrow> push_job_seq db' = push_job_seq db \<Longrightarrow> jobs_wf db' = jobs_wf db"
proof -
  have "jobs_wf d \<longleftrightarrow> distinct (map j_id (jobs d)) \<and> (\<forall>i \<in> set (map j_id (jobs d)). i < push_job_seq d)" for d
    by (simp add: jobs_wf_def)
  then show "map j_id (jobs db') = map j_id (jobs db) \<Longrightarrow> push_job_seq db' = push_job_seq db \<Longrightarrow> jobs_wf db' = jobs_wf db"
    by (simp only:)
qed

lemma job_ids_map: "job_ids db = set (map j_id (jobs db))"
  by (simp add: job_ids_def)

lemma get_job_None: "get_job db i = None \<longleftrightarrow> i \<notin> job_ids db"
  by (simp add: get_job_def job_ids_def row_get_None_iff)

lemma get_job_id: "get_job db i = Some j \<Longrightarrow> j_id j = i"
  by (auto simp: get_job_def dest: row_get_SomeD)

lemma get_job_in: "get_job db i = Some j \<Longrightarrow> j \<in> set (jobs db)"
  by (auto simp: get_job_def dest: row_get_SomeD)

end
