(* ===== verification/PushQueue.thy ===== *)
theory PushQueue
  imports PushTables
begin

text \<open>
  The push job queue, \<^verbatim>\<open>server/push/pipeline.py\<close>: stale recovery, the claim under the advisory
  lock, the check for a job that outranks the batch, the hand-back and the drain of one tick
  (\<open>run_push_tick\<close>). \<open>push_db\<close> holds the tables the pipeline reads and writes; what happens to
  one claimed job (\<open>process_job\<close>, theory \<open>PushDelivery\<close>) is an argument of the tick here, with
  the contract the tick relies on in the locale \<open>job_processor\<close>.

  The tick is a loop that runs as long as jobs come due, and processing a job can file new ones, so it
  takes fuel; with more fuel than \<open>workload\<close> it is shown to end.
\<close>

section \<open>Queue operations\<close>

definition unlock :: "push_job \<Rightarrow> push_job" where
  "unlock j = j\<lparr>j_locked_by := None, j_locked_at := None\<rparr>"

lemma j_id_unlock [simp]: "j_id (unlock j) = j_id j" "j_locked_by (unlock j) = None" "j_status (unlock j) = j_status j"
  by (simp_all add: unlock_def)

definition recover_job :: "push_settings \<Rightarrow> datetime \<Rightarrow> push_job \<Rightarrow> push_job" where
  "recover_job st now j =
    (let j1 = (unlock j)\<lparr>attempts := attempts j + 1\<rparr> in
     if attempts j1 \<ge> max_attempts j1 then j1\<lparr>j_status := PFailed, j_last_error := Some ''stale_lock''\<rparr>
     else j1\<lparr>j_status := PPending,
       available_at := now + seconds (push_retry_round_delay_seconds st * 2 ^ (attempts j1 - 1))\<rparr>)"

definition stale :: "datetime \<Rightarrow> push_job \<Rightarrow> bool" where
  "stale cutoff j \<longleftrightarrow> j_status j = PProcessing \<and> (case j_locked_at j of Some t \<Rightarrow> t < cutoff | None \<Rightarrow> False)"

definition recover_stale_jobs :: "push_settings \<Rightarrow> datetime \<Rightarrow> push_db \<Rightarrow> push_db" where
  "recover_stale_jobs st now db =
    db\<lparr>jobs := update_where (stale (now - minutes (push_job_stale_lock_minutes st))) (recover_job st now) (jobs db)\<rparr>"

definition due :: "datetime \<Rightarrow> nat list \<Rightarrow> push_job \<Rightarrow> bool" where
  "due now skip j \<longleftrightarrow> j_status j = PPending \<and> fire_at j \<le> now \<and> available_at j \<le> now \<and> j_id j \<notin> set skip"

text \<open>\<^verbatim>\<open>ORDER BY priority, fire_at\<close>: a stable sort on the pair; rows that tie come in table order.\<close>

definition claim_order :: "push_job list \<Rightarrow> push_job list" where
  "claim_order js = sort_key priority (sort_key fire_at js)"

definition to_claim :: "push_settings \<Rightarrow> datetime \<Rightarrow> nat list \<Rightarrow> push_db \<Rightarrow> push_job list" where
  "to_claim st now skip db = take (push_pipeline_batch_size st) (claim_order (filter (due now skip) (jobs db)))"

definition claim_due_jobs ::
  "push_settings \<Rightarrow> string \<Rightarrow> datetime \<Rightarrow> nat list \<Rightarrow> push_db \<Rightarrow> (nat \<times> int \<times> bool) list \<times> push_db" where
  "claim_due_jobs st worker now skip db =
    (let js = to_claim st now skip db in
     (map (\<lambda>j. (j_id j, priority j, needs_check j)) js,
      db\<lparr>jobs := update_where (\<lambda>j. j_id j \<in> j_id ` set js)
        (\<lambda>j. j\<lparr>j_status := PProcessing, j_locked_by := Some worker, j_locked_at := Some now\<rparr>) (jobs db)\<rparr>))"

definition outranked :: "datetime \<Rightarrow> int \<Rightarrow> nat list \<Rightarrow> push_db \<Rightarrow> bool" where
  "outranked now prio skip db \<longleftrightarrow> (\<exists>j \<in> set (jobs db). due now skip j \<and> priority j < prio)"

definition release_claimed :: "string \<Rightarrow> nat list \<Rightarrow> push_db \<Rightarrow> push_db" where
  "release_claimed worker ids db =
    db\<lparr>jobs := update_where (\<lambda>j. j_id j \<in> set ids \<and> j_status j = PProcessing \<and> j_locked_by j = Some worker)
      (\<lambda>j. (unlock j)\<lparr>j_status := PPending\<rparr>) (jobs db)\<rparr>"

text \<open>One batch: the first job always goes, and before each later one the tick looks for a due job
  that outranks it. \<open>clock\<close> gives the reading of each check, indexed by how many jobs the tick has
  handled; \<open>proc n i checked\<close> is \<open>_process_job\<close> for the job \<open>i\<close>, the \<open>n\<close>-th the tick handles, with the check
  \<open>_start_checks\<close> began for it when \<open>checked\<close>.\<close>

fun run_batch ::
  "(nat \<Rightarrow> datetime) \<Rightarrow> string \<Rightarrow> (nat \<Rightarrow> nat \<Rightarrow> bool \<Rightarrow> push_db \<Rightarrow> push_db) \<Rightarrow> bool \<Rightarrow> (nat \<times> int \<times> bool) list \<Rightarrow> nat list \<Rightarrow> push_db \<Rightarrow> nat list \<times> push_db" where
  "run_batch clock worker proc first [] processed db = (processed, db)"
| "run_batch clock worker proc first ((i, prio, checked) # rest) processed db =
    (if \<not> first \<and> outranked (clock (length processed)) prio processed db
     then (processed, release_claimed worker (i # map fst rest) db)
     else run_batch clock worker proc False rest (i # processed) (proc (length processed) i checked db))"

fun drain ::
  "nat \<Rightarrow> push_settings \<Rightarrow> (nat \<Rightarrow> datetime) \<Rightarrow> string \<Rightarrow> (nat \<Rightarrow> nat \<Rightarrow> bool \<Rightarrow> push_db \<Rightarrow> push_db) \<Rightarrow> nat list \<Rightarrow> push_db \<Rightarrow> (nat list \<times> push_db) option" where
  "drain 0 st clock worker proc processed db = None"
| "drain (Suc n) st clock worker proc processed db =
    (let (claimed, db1) = claim_due_jobs st worker (clock (length processed)) processed db in
     if claimed = [] then Some (processed, db1)
     else let (processed', db2) = run_batch clock worker proc True claimed processed db1
          in drain n st clock worker proc processed' db2)"

definition run_push_tick ::
  "nat \<Rightarrow> push_settings \<Rightarrow> (nat \<Rightarrow> datetime) \<Rightarrow> string \<Rightarrow> (nat \<Rightarrow> nat \<Rightarrow> bool \<Rightarrow> push_db \<Rightarrow> push_db) \<Rightarrow> push_db \<Rightarrow> (nat \<times> push_db) option" where
  "run_push_tick fuel st clock worker proc db =
    map_option (\<lambda>(processed, db'). (length processed, db'))
      (drain fuel st clock worker proc [] (recover_stale_jobs st (clock 0) db))"

section \<open>The claim\<close>

lemma set_claim_order [simp]: "set (claim_order js) = set js"
  by (simp add: claim_order_def)

lemma distinct_claim_order: "distinct (map j_id js) \<Longrightarrow> distinct (map j_id (claim_order js))"
  by (simp add: claim_order_def distinct_map_sort_key)

lemma to_claim_due: "j \<in> set (to_claim st now skip db) \<Longrightarrow> j \<in> set (jobs db) \<and> due now skip j"
  by (auto simp: to_claim_def dest: in_set_takeD)

lemma distinct_to_claim:
  assumes "jobs_wf db"
  shows "distinct (map j_id (to_claim st now skip db))"
proof -
  have "distinct (map j_id (claim_order (filter (due now skip) (jobs db))))"
    using assms by (intro distinct_claim_order distinct_map_filter) (simp add: jobs_wf_def)
  then show ?thesis by (simp add: to_claim_def take_map [symmetric])
qed

lemma claim_frames:
  assumes "claim_due_jobs st worker now skip db = (claimed, db')"
  shows "map j_id (jobs db') = map j_id (jobs db)" "map fst claimed = map j_id (to_claim st now skip db)"
    "get_job db' i = map_option (\<lambda>j. if i \<in> set (map fst claimed)
       then j\<lparr>j_status := PProcessing, j_locked_by := Some worker, j_locked_at := Some now\<rparr> else j) (get_job db i)"
proof -
  let ?js = "to_claim st now skip db"
  have c: "claimed = map (\<lambda>j. (j_id j, priority j, needs_check j)) ?js" and db': "db' = db\<lparr>jobs := update_where (\<lambda>j. j_id j \<in> j_id ` set ?js)
        (\<lambda>j. j\<lparr>j_status := PProcessing, j_locked_by := Some worker, j_locked_at := Some now\<rparr>) (jobs db)\<rparr>"
    using assms by (auto simp: claim_due_jobs_def Let_def)
  show "map j_id (jobs db') = map j_id (jobs db)" by (simp add: db' map_key_update_where)
  show m: "map fst claimed = map j_id ?js" by (simp add: c comp_def)
  have s: "set (map fst claimed) = j_id ` set ?js" unfolding m by simp
  show "get_job db' i = map_option (\<lambda>j. if i \<in> set (map fst claimed)
       then j\<lparr>j_status := PProcessing, j_locked_by := Some worker, j_locked_at := Some now\<rparr> else j) (get_job db i)"
    unfolding s by (cases "row_get j_id i (jobs db)")
      (auto simp: get_job_def db' row_get_update_where dest: row_get_SomeD)
qed

lemma held_after_claim:
  assumes "claim_due_jobs st worker now skip db = (claimed, db')"
  shows "held_by worker db' \<subseteq> held_by worker db \<union> set (map fst claimed)"
  by (auto simp: held_by_def claim_frames(3) [OF assms] split: if_splits)

lemma job_ids_claim:
  assumes "claim_due_jobs st worker now skip db = (claimed, db')"
  shows "job_ids db' = job_ids db" "jobs_wf db' = jobs_wf db"
proof -
  show "job_ids db' = job_ids db" using claim_frames(1) [OF assms] by (simp add: job_ids_map del: set_map)
  have "push_job_seq db' = push_job_seq db" using assms by (auto simp: claim_due_jobs_def Let_def)
  then show "jobs_wf db' = jobs_wf db" by (rule jobs_wf_ids [OF claim_frames(1) [OF assms]])
qed

lemma claimed_ids:
  assumes "claim_due_jobs st worker now skip db = (claimed, db')" "jobs_wf db"
  shows "distinct (map fst claimed)" "set (map fst claimed) \<subseteq> job_ids db" "set (map fst claimed) \<inter> set skip = {}"
    "claimed = [] \<Longrightarrow> 0 < push_pipeline_batch_size st \<Longrightarrow> \<forall>j \<in> set (jobs db). \<not> due now skip j"
proof -
  note c = claim_frames(2) [OF assms(1)]
  show "distinct (map fst claimed)" unfolding c by (rule distinct_to_claim [OF assms(2)])
  show "set (map fst claimed) \<subseteq> job_ids db" unfolding c by (auto simp: job_ids_def dest: to_claim_due)
  show "set (map fst claimed) \<inter> set skip = {}" unfolding c by (auto simp: due_def dest!: to_claim_due)
  assume "claimed = []" "0 < push_pipeline_batch_size st"
  then have "claim_order (filter (due now skip) (jobs db)) = []" using c by (auto simp: to_claim_def)
  then have "set (filter (due now skip) (jobs db)) = {}" by (metis list.set(1) set_claim_order)
  then show "\<forall>j \<in> set (jobs db). \<not> due now skip j" by (auto simp: filter_empty_conv)
qed

lemma needs_check_lock [simp]:
  "needs_check (j\<lparr>j_status := s\<rparr>) = needs_check j" "needs_check (j\<lparr>j_locked_by := w\<rparr>) = needs_check j"
  "needs_check (j\<lparr>j_locked_at := t\<rparr>) = needs_check j" "needs_check (unlock j) = needs_check j"
  by (simp_all add: needs_check_def unlock_def cong: option.case_cong)

lemma claim_guard:
  assumes "claim_due_jobs st worker now skip db = (claimed, db')" "(i, prio, checked) \<in> set claimed" "jobs_wf db" "checked"
  shows "guarded db' i"
proof -
  obtain j where j: "j \<in> set (to_claim st now skip db)" "j_id j = i" "needs_check j"
    using assms by (auto simp: claim_due_jobs_def Let_def)
  then have "get_job db i = Some j"
    using to_claim_due [OF j(1)] row_get_in_set [of j_id "jobs db" j] assms(3) by (simp add: get_job_def jobs_wf_def)
  then show ?thesis using j(3) by (auto simp: guarded_def claim_frames(3) [OF assms(1)])
qed

section \<open>The work left in a tick\<close>

text \<open>A bound on the jobs a tick still handles: one for each job not yet handled, and for one the check
  guards as many more as its write-back can file, an end for each token and a sync trigger.\<close>

definition job_weight :: "push_db \<Rightarrow> push_job \<Rightarrow> nat" where
  "job_weight db j = (if needs_check j then length (tokens db) + 2 else 1)"

definition workload :: "nat list \<Rightarrow> push_db \<Rightarrow> nat" where
  "workload skip db = sum_list (map (job_weight db) (filter (\<lambda>j. j_id j \<notin> set skip) (jobs db)))"

lemma sum_list_filter_map_cong:
  "(\<And>x. x \<in> set xs \<Longrightarrow> P (f x) = P x \<and> (P x \<longrightarrow> g (f x) \<le> h x)) \<Longrightarrow>
   sum_list (map g (filter P (map f xs))) \<le> (sum_list (map h (filter P xs)) :: nat)"
  by (induction xs) (auto intro!: add_mono)

lemma workload_update_where:
  assumes "\<And>j. j_id (f j) = j_id j" "\<And>j. needs_check (f j) \<Longrightarrow> needs_check j"
  shows "workload skip (db\<lparr>jobs := update_where P f (jobs db)\<rparr>) \<le> workload skip db"
  unfolding workload_def update_where_def
  by (simp, rule sum_list_filter_map_cong) (auto simp: assms job_weight_def)

lemma workload_claim:
  assumes "claim_due_jobs st worker now skip db = (claimed, db')"
  shows "workload done db' \<le> workload done db"
proof -
  have "db' = db\<lparr>jobs := update_where (\<lambda>j. j_id j \<in> j_id ` set (to_claim st now skip db))
        (\<lambda>j. j\<lparr>j_status := PProcessing, j_locked_by := Some worker, j_locked_at := Some now\<rparr>) (jobs db)\<rparr>"
    using assms by (auto simp: claim_due_jobs_def Let_def)
  then show ?thesis by (simp only:) (rule workload_update_where, simp_all)
qed

lemma workload_release: "workload done (release_claimed worker ids db) \<le> workload done db"
  unfolding release_claimed_def by (rule workload_update_where) simp_all

text \<open>What a batch keeps, with \<open>n\<close> the work left before it.\<close>

definition batch_ok :: "string \<Rightarrow> nat set \<Rightarrow> nat \<Rightarrow> nat list \<Rightarrow> push_db \<Rightarrow> bool" where
  "batch_ok worker H n processed db \<longleftrightarrow> jobs_wf db \<and> distinct processed \<and> set processed \<subseteq> job_ids db \<and> held_by worker db \<subseteq> H \<and>
     workload processed db \<le> n"

section \<open>The contract of processing a job\<close>

text \<open>\<open>proc n i checked db\<close> is the database after the tick's job number \<open>n\<close>, of id \<open>i\<close>; \<open>checked\<close> tells
  whether the claim started a check for it.\<close>

locale job_processor =
  fixes proc :: "nat \<Rightarrow> nat \<Rightarrow> bool \<Rightarrow> push_db \<Rightarrow> push_db" and worker :: string
  assumes proc_wf: "jobs_wf db \<Longrightarrow> jobs_wf (proc n i c db)"
    and proc_ids: "jobs_wf db \<Longrightarrow> job_ids db \<subseteq> job_ids (proc n i c db)"
    and proc_settles: "jobs_wf db \<Longrightarrow> held_by worker (proc n i c db) \<subseteq> held_by worker db - {i}"
    and proc_guarded: "jobs_wf db \<Longrightarrow> k \<noteq> i \<Longrightarrow> guarded db k \<Longrightarrow> guarded (proc n i c db) k"
    and proc_workload: "jobs_wf db \<Longrightarrow> i \<in> job_ids db \<Longrightarrow> i \<notin> set processed \<Longrightarrow> (c \<Longrightarrow> guarded db i) \<Longrightarrow>
      workload (i # processed) (proc n i c db) < workload processed db"
begin

lemma held_release:
  "held_by worker (release_claimed worker ids db) \<subseteq> held_by worker db - set ids"
proof
  fix i assume "i \<in> held_by worker (release_claimed worker ids db)"
  then obtain j where j: "get_job db i = Some j"
      "j_status (if j_id j \<in> set ids \<and> j_status j = PProcessing \<and> j_locked_by j = Some worker then (unlock j)\<lparr>j_status := PPending\<rparr> else j) = PProcessing"
      "j_locked_by (if j_id j \<in> set ids \<and> j_status j = PProcessing \<and> j_locked_by j = Some worker then (unlock j)\<lparr>j_status := PPending\<rparr> else j) = Some worker"
    by (auto simp: held_by_def get_job_def release_claimed_def row_get_update_where)
  then have "j_id j \<notin> set ids" "j_status j = PProcessing" "j_locked_by j = Some worker" by (auto split: if_splits)
  then show "i \<in> held_by worker db - set ids" using j(1) get_job_id [OF j(1)] by (auto simp: held_by_def)
qed

lemma release_frames:
  "job_ids (release_claimed worker ids db) = job_ids db" "jobs_wf (release_claimed worker ids db) = jobs_wf db"
proof -
  have m: "map j_id (jobs (release_claimed worker ids db)) = map j_id (jobs db)"
    by (simp add: release_claimed_def map_key_update_where unlock_def)
  then show "job_ids (release_claimed worker ids db) = job_ids db" by (simp add: job_ids_map del: set_map)
  show "jobs_wf (release_claimed worker ids db) = jobs_wf db" by (rule jobs_wf_ids [OF m]) (simp add: release_claimed_def)
qed

lemma run_batch_inv:
  assumes "run_batch clock worker proc first claimed processed db = (processed', db')"
    and "jobs_wf db" "distinct (map fst claimed)" "set (map fst claimed) \<inter> set processed = {}" "distinct processed"
    and "set processed \<subseteq> job_ids db" "set (map fst claimed) \<subseteq> job_ids db" "held_by worker db \<subseteq> H \<union> set (map fst claimed)"
    and "\<forall>(i, p, ck) \<in> set claimed. ck \<longrightarrow> guarded db i"
  shows "set processed \<subseteq> set processed' \<and>
    batch_ok worker H (workload processed db - (if first \<and> claimed \<noteq> [] then 1 else 0)) processed' db' \<and>
    (first \<and> claimed \<noteq> [] \<longrightarrow> 0 < workload processed db)"
  using assms
proof (induction claimed arbitrary: first processed db)
  case Nil
  then show ?case by (auto simp: batch_ok_def)
next
  case (Cons c rest)
  obtain i prio ck where c: "c = (i, prio, ck)" by (cases c)
  show ?case
  proof (cases "\<not> first \<and> outranked (clock (length processed)) prio processed db")
    case True
    then have e: "processed' = processed" "db' = release_claimed worker (i # map fst rest) db" using Cons.prems(1) by (auto simp: c)
    have "held_by worker db' \<subseteq> H"
      using held_release [of "i # map fst rest" db] Cons.prems(8) by (auto simp: e c)
    then show ?thesis using Cons.prems release_frames workload_release True by (simp add: e batch_ok_def)
  next
    case False
    let ?db = "proc (length processed) i ck db"
    have r: "run_batch clock worker proc False rest (i # processed) ?db = (processed', db')"
      using Cons.prems(1) False by (simp only: c run_batch.simps if_False)
    have w: "workload (i # processed) ?db < workload processed db"
      using proc_workload [OF Cons.prems(2), of i processed ck] Cons.prems(4,7,9) by (auto simp: c)
    have h: "held_by worker ?db \<subseteq> H \<union> set (map fst rest)"
      using proc_settles [OF Cons.prems(2), of "length processed" i ck] Cons.prems(8) by (auto simp: c)
    have "guarded ?db k" if k: "(k, p, True) \<in> set rest" for k p
    proof (rule proc_guarded [OF Cons.prems(2)])
      show "k \<noteq> i" using k Cons.prems(3) by (force simp: c)
      show "guarded db k" using k Cons.prems(9) by auto
    qed
    then have g: "\<forall>(k, p, ck') \<in> set rest. ck' \<longrightarrow> guarded ?db k" by auto
    have sub: "set (i # processed) \<subseteq> job_ids ?db" "set (map fst rest) \<subseteq> job_ids ?db"
      using Cons.prems(6,7) proc_ids [OF Cons.prems(2), of "length processed" i ck] by (auto simp: c)
    have "set (i # processed) \<subseteq> set processed' \<and> batch_ok worker H (workload (i # processed) ?db) processed' db'"
      using Cons.IH [OF r proc_wf [OF Cons.prems(2)] _ _ _ sub h g] Cons.prems(3-5) by (simp add: c)
    then show ?thesis using w by (auto simp: batch_ok_def)
  qed
qed

text \<open>With more fuel than work left, the drain ends; it has handled no job twice, holds no claim of its
  own, and no job it did not handle is due.\<close>

lemma drain_ends:
  assumes "0 < push_pipeline_batch_size st"
    and "batch_ok worker H n processed db" "n < fuel"
  shows "\<exists>processed' db'. drain fuel st clock worker proc processed db = Some (processed', db') \<and>
    set processed \<subseteq> set processed' \<and> batch_ok worker H n processed' db' \<and>
    (\<forall>j \<in> set (jobs db'). \<not> due (clock (length processed')) processed' j)"
  using assms(2,3)
proof (induction fuel arbitrary: processed db n)
  case 0
  then show ?case by simp
next
  case (Suc m)
  obtain claimed db1 where c: "claim_due_jobs st worker (clock (length processed)) processed db = (claimed, db1)" by fastforce
  have ok: "jobs_wf db" "distinct processed" "set processed \<subseteq> job_ids db" "held_by worker db \<subseteq> H" "workload processed db \<le> n"
    using Suc.prems(1) by (auto simp: batch_ok_def)
  note C = claimed_ids [OF c ok(1)] job_ids_claim [OF c]
  show ?case
  proof (cases "claimed = []")
    case True
    have e: "jobs db1 = jobs db"
    proof -
      have e: "to_claim st (clock (length processed)) processed db = []" using claim_frames(2) [OF c] True by simp
      show ?thesis using c by (auto simp: claim_due_jobs_def Let_def e update_where_def)
    qed
    then have "held_by worker db1 = held_by worker db" by (simp add: held_by_def get_job_def)
    then have "batch_ok worker H n processed db1"
      using C(5,6) ok workload_claim [OF c, of processed] by (simp add: batch_ok_def)
    then show ?thesis using c True C(4) [OF True assms(1)] e by (simp add: Let_def)
  next
    case False
    obtain processed' db2 where b: "run_batch clock worker proc True claimed processed db1 = (processed', db2)" by fastforce
    have h: "held_by worker db1 \<subseteq> H \<union> set (map fst claimed)" using held_after_claim [OF c] ok(4) by blast
    have "\<forall>(i, p, ck) \<in> set claimed. ck \<longrightarrow> guarded db1 i" using claim_guard [OF c _ ok(1)] by blast
    then have B: "set processed \<subseteq> set processed'" "batch_ok worker H (workload processed db1 - 1) processed' db2" "0 < workload processed db1"
      using run_batch_inv [where H = H, OF b _ C(1,3) ok(2) _ _ h] C ok(1,3) False by auto
    have w: "workload processed db1 - 1 < m" "workload processed db1 - 1 \<le> n"
      using workload_claim [OF c, of processed] B(3) ok(5) Suc.prems(2) by linarith+
    obtain q d where "drain m st clock worker proc processed' db2 = Some (q, d)" "set processed' \<subseteq> set q"
        "batch_ok worker H (workload processed db1 - 1) q d" "\<forall>j \<in> set (jobs d). \<not> due (clock (length q)) q j"
      using Suc.IH [OF B(2) w(1)] by blast
    then show ?thesis using c b False B(1) w(2) by (auto simp: Let_def batch_ok_def)
  qed
qed

end

section \<open>Urgency\<close>

definition no_less_urgent :: "push_job \<Rightarrow> push_job \<Rightarrow> bool" where
  "no_less_urgent a b \<longleftrightarrow> priority a < priority b \<or> priority a = priority b \<and> fire_at a \<le> fire_at b"

lemma insort_urgent:
  "sorted_wrt no_less_urgent ys \<Longrightarrow> \<forall>y \<in> set ys. fire_at x \<le> fire_at y \<Longrightarrow> sorted_wrt no_less_urgent (insort_key priority x ys)"
  by (induction ys) (auto simp: no_less_urgent_def set_insort_key)

lemma claim_order_urgent: "sorted_wrt no_less_urgent (claim_order js)"
proof -
  have "sorted (map fire_at xs) \<Longrightarrow> sorted_wrt no_less_urgent (sort_key priority xs)" for xs
    by (induction xs) (auto simp: insort_urgent)
  then show ?thesis by (simp add: claim_order_def)
qed

lemma sorted_wrt_take_drop:
  "sorted_wrt R xs \<Longrightarrow> x \<in> set (take n xs) \<Longrightarrow> y \<in> set xs \<Longrightarrow> y \<notin> set (take n xs) \<Longrightarrow> R x y"
proof -
  assume a: "sorted_wrt R xs" "x \<in> set (take n xs)" "y \<in> set xs" "y \<notin> set (take n xs)"
  have "y \<in> set (take n xs) \<union> set (drop n xs)" using a(3) by (metis append_take_drop_id set_append)
  then have "y \<in> set (drop n xs)" using a(4) by blast
  moreover have "sorted_wrt R (take n xs @ drop n xs)" using a(1) by (simp only: append_take_drop_id)
  ultimately show ?thesis using a(2) unfolding sorted_wrt_append by blast
qed

section \<open>Properties\<close>

text \<open>A claim takes due jobs only, at most a batch, most urgent first, and leaves a due job behind
  only when the batch is full of jobs no less urgent. A claimed job is locked for the worker and every
  other job is unchanged.\<close>

theorem claim_takes_most_urgent:
  assumes "jobs_wf db" and "claim_due_jobs st worker now skip db = (claimed, db')"
  shows "length claimed \<le> push_pipeline_batch_size st \<and>
    (\<exists>js. map j_id js = map fst claimed \<and> sorted_wrt no_less_urgent js \<and> set js \<subseteq> set (jobs db) \<and> (\<forall>j \<in> set js. due now skip j) \<and>
      (\<forall>j \<in> set (jobs db). due now skip j \<and> j_id j \<notin> set (map fst claimed) \<longrightarrow>
         length claimed = push_pipeline_batch_size st \<and> (\<forall>k \<in> set js. no_less_urgent k j))) \<and>
    (\<forall>i. get_job db' i = map_option (\<lambda>j. if i \<in> set (map fst claimed)
       then j\<lparr>j_status := PProcessing, j_locked_by := Some worker, j_locked_at := Some now\<rparr> else j) (get_job db i))"
proof -
  let ?all = "claim_order (filter (due now skip) (jobs db))" let ?js = "to_claim st now skip db"
  note F = claim_frames [OF assms(2)]
  have len: "length claimed = min (length ?all) (push_pipeline_batch_size st)"
    using arg_cong [OF F(2), of length] by (simp add: to_claim_def min.commute)
  have left: "length claimed = push_pipeline_batch_size st \<and> (\<forall>k \<in> set ?js. no_less_urgent k j)"
    if j: "j \<in> set (jobs db)" "due now skip j" "j_id j \<notin> set (map fst claimed)" for j
  proof -
    have nj: "j \<notin> set ?js" using j(3) unfolding F(2) by auto
    have ja: "j \<in> set ?all" using j(1,2) by simp
    have "\<not> length ?all \<le> push_pipeline_batch_size st" using nj ja by (auto simp: to_claim_def)
    then have "length claimed = push_pipeline_batch_size st" unfolding len by simp
    moreover have "no_less_urgent k j" if "k \<in> set ?js" for k
      using sorted_wrt_take_drop [OF claim_order_urgent _ ja] nj that unfolding to_claim_def by blast
    ultimately show ?thesis by blast
  qed
  have "sorted_wrt no_less_urgent ?js" unfolding to_claim_def by (rule sorted_wrt_take [OF claim_order_urgent])
  moreover have "set ?js \<subseteq> set (jobs db)" "\<forall>j \<in> set ?js. due now skip j" using to_claim_due by blast+
  moreover have "length claimed \<le> push_pipeline_batch_size st" unfolding len by simp
  ultimately show ?thesis using left F(2,3) by (intro conjI exI [of _ ?js]) auto
qed

definition sample_job :: "nat \<Rightarrow> int \<Rightarrow> push_job" where
  "sample_job i prio = \<lparr>j_id = i, j_user = 1, j_device = None, dedupe_key = ''k'', channel = ''system'', scenario = ''test'',
     fire_at = 0, available_at = 0, priority = prio, j_payload = [], j_status = PPending, attempts = 0, max_attempts = 3,
     j_locked_at = None, j_locked_by = None, j_last_error = None, j_sent_at = None, cancelled_at = None\<rparr>"

definition sample_db :: push_db where
  "sample_db = \<lparr>jobs = [sample_job 1 100, sample_job 2 10, sample_job 3 50], push_job_seq = 4, deliveries = [], delivery_seq = 1,
     tokens = [], devices = [], terms = [], holidays = [], holiday_overrides = [], assignments = [], assignment_seq = 0, assignment_marks = [],
     user_courses = [], course_overrides = [], sync_log = empty_log\<rparr>"

definition sample_settings :: push_settings where
  "sample_settings = \<lparr>push_job_stale_lock_minutes = 5, push_retry_round_delay_seconds = 60, push_pipeline_batch_size = 2,
     push_presend_grace_minutes = 30, push_presend_retry_seconds = 60, push_countdown_dedupe_window_seconds = 300\<rparr>"

theorem claim_takes_most_urgent_witness:
  "length (fst (claim_due_jobs sample_settings ''w'' 5 [] sample_db)) \<le> 2 \<and>
   map fst (fst (claim_due_jobs sample_settings ''w'' 5 [] sample_db)) = [2, 3]"
proof -
  have "jobs_wf sample_db" by (simp add: jobs_wf_def sample_db_def sample_job_def)
  from claim_takes_most_urgent [OF this surjective_pairing]
  have "length (fst (claim_due_jobs sample_settings ''w'' 5 [] sample_db)) \<le> push_pipeline_batch_size sample_settings" by blast
  moreover have "push_pipeline_batch_size sample_settings = 2" by (simp add: sample_settings_def)
  moreover have "map fst (fst (claim_due_jobs sample_settings ''w'' 5 [] sample_db)) = [2, 3]" by code_simp
  ultimately show ?thesis by simp
qed

text \<open>Stale recovery frees every job whose lock is older than the limit: it goes back to pending with
  an attempt spent and a delay of the round time doubled per earlier attempt, or is failed once its
  attempts are spent; a job within the limit is untouched.\<close>

theorem recover_stale_spec:
  assumes "get_job db i = Some j"
  shows "get_job (recover_stale_jobs st now db) i = Some (
    if j_status j = PProcessing \<and> (\<exists>t. j_locked_at j = Some t \<and> t < now - minutes (push_job_stale_lock_minutes st))
    then (if Suc (attempts j) < max_attempts j
          then j\<lparr>j_status := PPending, j_locked_by := None, j_locked_at := None, attempts := Suc (attempts j),
                 available_at := now + seconds (push_retry_round_delay_seconds st * 2 ^ attempts j)\<rparr>
          else j\<lparr>j_status := PFailed, j_locked_by := None, j_locked_at := None, attempts := Suc (attempts j),
                 j_last_error := Some ''stale_lock''\<rparr>)
    else j)"
proof -
  have "j_id (recover_job st now r) = j_id r" for r by (simp add: recover_job_def Let_def)
  then have "get_job (recover_stale_jobs st now db) i =
      Some (if stale (now - minutes (push_job_stale_lock_minutes st)) j then recover_job st now j else j)"
    using assms by (simp add: get_job_def recover_stale_jobs_def row_get_update_where)
  moreover have "stale (now - minutes (push_job_stale_lock_minutes st)) j \<longleftrightarrow>
      j_status j = PProcessing \<and> (\<exists>t. j_locked_at j = Some t \<and> t < now - minutes (push_job_stale_lock_minutes st))"
    by (auto simp: stale_def split: option.splits)
  ultimately show ?thesis by (auto simp: recover_job_def Let_def unlock_def)
qed

theorem recover_stale_spec_witness:
  "map_option j_status (get_job (recover_stale_jobs sample_settings (minutes 10)
     (sample_db\<lparr>jobs := [(sample_job 7 1)\<lparr>j_status := PProcessing, j_locked_at := Some 0\<rparr>]\<rparr>)) 7) = Some PPending"
proof -
  let ?j = "(sample_job 7 1)\<lparr>j_status := PProcessing, j_locked_at := Some 0\<rparr>"
  have "get_job (sample_db\<lparr>jobs := [?j]\<rparr>) 7 = Some ?j" by (simp add: get_job_def sample_job_def)
  from recover_stale_spec [OF this, of sample_settings "minutes 10"] show ?thesis
    by (simp add: sample_job_def sample_settings_def minutes_def)
qed

end
