(* ===== verification/Terms.thy ===== *)
theory Terms
  imports PushTables
begin

text \<open>
  The published calendar as the apps read it, \<^verbatim>\<open>server/academic_calendar/terms.py\<close>: the current term
  (\<open>current_term_code\<close>), the shape of a term's code and the days no term runs on (\<open>outside_term\<close>). Days
  are numbered from 1970-01-01; the school's zone is Asia/Taipei, eight hours ahead of UTC all year.
\<close>

definition school_day :: "datetime \<Rightarrow> int" where
  "school_day now = (now + hours 8) div days 1"

definition is_term_code :: "string \<Rightarrow> bool" where
  "is_term_code code = (case code of
     [a, b, c, d] \<Rightarrow> is_digit a \<and> is_digit b \<and> is_digit c \<and> d \<in> {CHR ''1'', CHR ''2'', CHR ''H''}
   | _ \<Rightarrow> False)"

text \<open>\<^verbatim>\<open>ORDER BY ... LIMIT 1\<close>: the first row no other row comes before.\<close>

definition first_by :: "('a \<Rightarrow> 'a \<Rightarrow> bool) \<Rightarrow> 'a list \<Rightarrow> 'a option" where
  "first_by before xs = find (\<lambda>x. \<not> (\<exists>y \<in> set xs. before y x)) xs"

definition latest_first :: "semester_term \<Rightarrow> semester_term \<Rightarrow> bool" where
  "latest_first s t \<longleftrightarrow> tm_start t < tm_start s \<or> tm_start s = tm_start t \<and> ord_class.lexordp (tm_code t) (tm_code s)"

definition earliest_first :: "semester_term \<Rightarrow> semester_term \<Rightarrow> bool" where
  "earliest_first s t \<longleftrightarrow> tm_start s < tm_start t \<or> tm_start s = tm_start t \<and> ord_class.lexordp (tm_code t) (tm_code s)"

definition current_term_code :: "semester_term list \<Rightarrow> datetime \<Rightarrow> string option" where
  "current_term_code ts now =
    (case first_by latest_first (filter (\<lambda>t. tm_start t \<le> school_day now) ts) of
       Some t \<Rightarrow> Some (tm_code t)
     | None \<Rightarrow> map_option tm_code (first_by earliest_first ts))"

definition load_term_dates :: "push_db \<Rightarrow> (int \<times> int) list" where
  "load_term_dates db = map (\<lambda>t. (tm_start t, tm_end t)) (terms db)"

definition outside_term :: "int \<Rightarrow> (int \<times> int) list \<Rightarrow> bool" where
  "outside_term day ts \<longleftrightarrow> ts \<noteq> [] \<and> \<not> (\<exists>(s, e) \<in> set ts. s \<le> day \<and> day \<le> e)"

section \<open>The row an order picks\<close>

lemma first_by_SomeD: "first_by before xs = Some x \<Longrightarrow> x \<in> set xs \<and> (\<forall>y \<in> set xs. \<not> before y x)"
  by (auto simp: first_by_def find_Some_iff)

lemma first_by_exists:
  assumes "transp before" "irreflp before" "xs \<noteq> []"
  shows "\<exists>x. first_by before xs = Some x"
proof -
  have a: "asymp_on (set xs) before" using assms(1,2) by (intro asymp_onI) (blast dest: transpD irreflpD)
  have t: "transp_on (set xs) before" by (rule transp_on_subset [OF assms(1)]) simp
  have "\<exists>x \<in> set xs. \<forall>y \<in> set xs. y \<noteq> x \<longrightarrow> \<not> before y x"
    using Finite_Set.bex_min_element [OF finite_set a t] assms(3) by simp
  then obtain x where "x \<in> set xs" "\<forall>y \<in> set xs. y \<noteq> x \<longrightarrow> \<not> before y x" by blast
  moreover have "\<not> before x x" using assms(2) by (rule irreflpD)
  ultimately have x: "x \<in> set xs" "\<forall>y \<in> set xs. \<not> before y x" by metis+
  have "first_by before xs \<noteq> None" using x by (auto simp: first_by_def find_None_iff)
  then show ?thesis by blast
qed

lemma term_orders: "transp latest_first" "irreflp latest_first" "transp earliest_first" "irreflp earliest_first"
  by (auto simp: transp_def irreflp_def latest_first_def earliest_first_def lexordp_irreflexive' dest: lexordp_trans)

section \<open>Properties\<close>

text \<open>The current term is the one that began most recently by the school's day, so a break belongs to
  the term before it; while none has begun it is the earliest one, and there is none only while no term is
  published.\<close>

theorem current_term_spec:
  "(current_term_code ts now = None \<longleftrightarrow> ts = []) \<and>
   (\<forall>code. current_term_code ts now = Some code \<longrightarrow> (\<exists>t \<in> set ts. tm_code t = code \<and>
     (if \<exists>s \<in> set ts. tm_start s \<le> school_day now
      then tm_start t \<le> school_day now \<and> (\<forall>s \<in> set ts. tm_start s \<le> school_day now \<longrightarrow> tm_start s \<le> tm_start t)
      else \<forall>s \<in> set ts. tm_start t \<le> tm_start s)))"
proof (cases "\<exists>s \<in> set ts. tm_start s \<le> school_day now")
  case True
  let ?b = "filter (\<lambda>t. tm_start t \<le> school_day now) ts"
  have "?b \<noteq> []" using True by (auto simp: filter_empty_conv)
  then obtain t where t: "first_by latest_first ?b = Some t" using first_by_exists [OF term_orders(1,2)] by blast
  then have "t \<in> set ?b" "\<forall>s \<in> set ?b. \<not> latest_first s t" by (auto dest: first_by_SomeD)
  then have "t \<in> set ts" "tm_start t \<le> school_day now" "\<forall>s \<in> set ts. tm_start s \<le> school_day now \<longrightarrow> tm_start s \<le> tm_start t"
    by (auto simp: latest_first_def not_less)
  then show ?thesis using True t by (auto simp: current_term_code_def)
next
  case False
  then have b: "filter (\<lambda>t. tm_start t \<le> school_day now) ts = []" by (auto simp: filter_empty_conv)
  then have c: "current_term_code ts now = map_option tm_code (first_by earliest_first ts)"
    by (simp add: current_term_code_def first_by_def)
  show ?thesis
  proof (cases "ts = []")
    case True
    then show ?thesis using c by (simp add: first_by_def)
  next
    case ne: False
    then obtain t where t: "first_by earliest_first ts = Some t" using first_by_exists [OF term_orders(3,4)] by blast
    then have "t \<in> set ts" "\<forall>s \<in> set ts. tm_start t \<le> tm_start s"
      by (auto dest!: first_by_SomeD simp: earliest_first_def not_less)
    then show ?thesis using False c t ne by auto
  qed
qed

definition fall :: semester_term where "fall = \<lparr>tm_code = ''1141'', tm_start = 20000, tm_end = 20120\<rparr>"
definition spring :: semester_term where "spring = \<lparr>tm_code = ''1142'', tm_start = 20160, tm_end = 20280\<rparr>"

theorem current_term_spec_witness:
  "\<exists>t \<in> set [fall, spring]. tm_code t = ''1141'' \<and> tm_start t \<le> school_day (days 20130)"
proof -
  have c: "current_term_code [fall, spring] (days 20130) = Some ''1141''" by code_simp
  moreover have "\<exists>s \<in> set [fall, spring]. tm_start s \<le> school_day (days 20130)" by code_simp
  ultimately show ?thesis using current_term_spec [of "[fall, spring]" "days 20130"] by (metis (no_types, lifting))
qed

end
