(* ===== verification/PyFloat.thy ===== *)
theory PyFloat
  imports Prelude
begin

text \<open>
  Python's \<^verbatim>\<open>float\<close> as the code uses it: a finite double is the rational it stands for, an operation rounds its exact result to the
  nearest double (\<open>nearest_double\<close>, no value for an \<^verbatim>\<open>OverflowError\<close>). Then the two texts of a float, \<^verbatim>\<open>f"{x:g}"\<close> and
  \<^verbatim>\<open>str(x)\<close>, and \<^verbatim>\<open>timedelta\<close> of a float. The infinities, which JSON numbers beyond the doubles turn into, and the sign of
  zero are left out.
\<close>

section \<open>Rounding\<close>

definition round_half_even :: "rat \<Rightarrow> int" where
  "round_half_even r = (let n = \<lfloor>r\<rfloor>; d = r - of_int n in if d < 1 / 2 \<or> d = 1 / 2 \<and> even n then n else n + 1)"

definition whole_part :: "rat \<Rightarrow> int" where
  "whole_part r = (if r < 0 then - \<lfloor>- r\<rfloor> else \<lfloor>r\<rfloor>)"

function digit_count :: "int \<Rightarrow> int \<Rightarrow> int" where
  "digit_count base n = (if n \<le> 0 \<or> base < 2 then 0 else 1 + digit_count base (n div base))"
  by pat_completeness auto
termination
proof (relation "measure (\<lambda>(base, n). nat n)")
  fix base n :: int
  assume "\<not> (n \<le> 0 \<or> base < 2)"
  then have "n div base < n" by (intro int_div_less_self) auto
  then show "((base, n div base), (base, n)) \<in> measure (\<lambda>(base, n). nat n)" using \<open>\<not> (n \<le> 0 \<or> base < 2)\<close> by auto
qed simp

declare digit_count.simps [simp del]

definition scale :: "int \<Rightarrow> int \<Rightarrow> rat" where
  "scale base e = (if 0 \<le> e then of_int (base ^ nat e) else 1 / of_int (base ^ nat (- e)))"

text \<open>The exponent \<open>e\<close> of a positive number, with \<open>base\<^sup>e\<close> the greatest power not above it.\<close>

definition leading_exponent :: "int \<Rightarrow> rat \<Rightarrow> int" where
  "leading_exponent base r =
    (let (a, b) = quotient_of r; k = digit_count base a - digit_count base b in if scale base k \<le> r then k else k - 1)"

definition nearest_double :: "rat \<Rightarrow> rat option" where
  "nearest_double r =
    (if r = 0 then Some 0
     else let e = max (leading_exponent 2 \<bar>r\<bar> - 52) (- 1074); v = of_int (round_half_even (\<bar>r\<bar> / scale 2 e)) * scale 2 e
       in if scale 2 1024 \<le> v then None else Some (if r < 0 then - v else v))"

section \<open>Text\<close>

fun digits_text :: "nat \<Rightarrow> int \<Rightarrow> string" where
  "digits_text 0 n = []"
| "digits_text (Suc k) n = digits_text k (n div 10) @ [char_of (48 + nat (n mod 10))]"

text \<open>A positive number rounded to \<open>n\<close> significant digits: the digits and the exponent of the first.\<close>

definition rounded_digits :: "nat \<Rightarrow> rat \<Rightarrow> int \<times> int" where
  "rounded_digits n r =
    (let e = leading_exponent 10 r; d = round_half_even (r / scale 10 (e - int n + 1)) in if d = 10 ^ n then (10 ^ (n - 1), e + 1) else (d, e))"

definition strip_zeros :: "string \<Rightarrow> string" where
  "strip_zeros s = rev (dropWhile (\<lambda>ch. ch = CHR ''0'') (rev s))"

definition fixed_text :: "string \<Rightarrow> int \<Rightarrow> string \<times> string" where
  "fixed_text s e =
    (if 0 \<le> e then (take (nat e + 1) (s @ replicate (nat e + 1 - length s) CHR ''0''), drop (nat e + 1) s)
     else (''0'', replicate (nat (- e) - 1) CHR ''0'' @ s))"

definition exponent_text :: "int \<Rightarrow> string" where
  "exponent_text e = ((if e < 0 then ''e-'' else ''e+'') @ digits_text (max 2 (nat (digit_count 10 \<bar>e\<bar>))) \<bar>e\<bar>)"

definition decimal_text :: "int \<Rightarrow> string \<Rightarrow> string \<Rightarrow> int \<Rightarrow> string" where
  "decimal_text limit whole s e =
    (if - 4 \<le> e \<and> e < limit then (let (i, f) = fixed_text s e in if f = [] then i @ whole else i @ ''.'' @ f)
     else (case s of [] \<Rightarrow> [] | ch # rest \<Rightarrow> (if rest = [] then [ch] else ch # ''.'' @ rest) @ exponent_text e))"

definition format_g :: "rat \<Rightarrow> string" where
  "format_g r =
    (if r = 0 then ''0''
     else let (d, e) = rounded_digits 6 \<bar>r\<bar> in (if r < 0 then ''-'' else []) @ decimal_text 6 [] (strip_zeros (digits_text 6 d)) e)"

text \<open>\<^verbatim>\<open>str\<close> takes the fewest digits that read back as the same double; 17 always do.\<close>

fun shortest_digits :: "nat \<Rightarrow> nat \<Rightarrow> rat \<Rightarrow> nat \<times> int \<times> int" where
  "shortest_digits 0 n r = (n, rounded_digits n r)"
| "shortest_digits (Suc k) n r =
    (let (d, e) = rounded_digits n r in
     if nearest_double (of_int d * scale 10 (e - int n + 1)) = Some r then (n, d, e) else shortest_digits k (Suc n) r)"

definition float_str :: "rat \<Rightarrow> string" where
  "float_str r =
    (if r = 0 then ''0.0''
     else let (n, d, e) = shortest_digits 16 1 \<bar>r\<bar> in (if r < 0 then ''-'' else []) @ decimal_text 16 ''.0'' (strip_zeros (digits_text n d)) e)"

section \<open>Times\<close>

text \<open>\<^verbatim>\<open>timedelta(hours=x)\<close>: the whole units exactly, the fraction as one product of doubles, the sum rounded to microseconds; then
  a time less it. Both raise an \<^verbatim>\<open>OverflowError\<close> out of range.\<close>

definition timedelta_of :: "int \<Rightarrow> rat \<Rightarrow> int option" where
  "timedelta_of unit_us x =
    (let w = whole_part x; p = (case nearest_double (of_int unit_us * (x - of_int w)) of Some p \<Rightarrow> p | None \<Rightarrow> 0);
         us = round_half_even (of_int (w * unit_us) + p)
     in if \<bar>us div 86400000000\<bar> \<le> 999999999 then Some us else None)"

definition MIN_DATETIME :: int where "MIN_DATETIME = - 62135596800000000"
definition MAX_DATETIME :: int where "MAX_DATETIME = 253402300799999999"

definition time_before :: "int \<Rightarrow> int \<Rightarrow> rat \<Rightarrow> int option" where
  "time_before t unit_us x =
    Option.bind (timedelta_of unit_us x) (\<lambda>d. if MIN_DATETIME \<le> t - d \<and> t - d \<le> MAX_DATETIME then Some (t - d) else None)"

section \<open>Facts\<close>

lemma round_half_even_int [simp]: "round_half_even (of_int n) = n"
  by (simp add: round_half_even_def)

end
