(* ===== verification/Presend.thy ===== *)
theory Presend
  imports Terms PyFloat "HOL-Library.AList"
begin

text \<open>
  The check right before an assignment reminder or countdown start goes out, \<^verbatim>\<open>server/push/presend.py\<close>,
  and what a submission found there writes back: \<open>apply_submission_status\<close>
  (\<^verbatim>\<open>syncjobs/submissions.py\<close>), \<open>cancel_for_submitted\<close> (\<^verbatim>\<open>push/submission_cancel.py\<close>) and
  \<open>enqueue_sync_trigger\<close> (\<^verbatim>\<open>push/sync_trigger.py\<close>).

  \<open>presend_env\<close> holds what is asked of outside: the stored Moodle token, Moodle's answer, and the reading
  of an ISO date. The rows are read twice, before Moodle is asked and again under the job's lock
  (\<open>recheck_rows\<close>); both readings are \<open>rows_verdict\<close>. The write-back changes the queue itself, and
  \<open>grows\<close> bounds by how much: what the pipeline's drain needs to end.
\<close>

section \<open>Data\<close>

datatype verdict = VSend | VSubmitted | VGone | VUnverified

record presend_check =
  pc_verdict :: verdict
  pc_reason :: string
  pc_assignment :: "int option"
  pc_submitted_at :: "datetime option"

text \<open>Whether Moodle failed for everyone in this tick, and whether it has answered.\<close>

record moodle_breaker =
  opened_by :: "string option"
  answered :: bool

record fetched_submission =
  is_submitted :: bool
  submitted_at :: "datetime option"
  submissions_enabled :: bool
  locked :: bool
  extension_due_at :: "datetime option"

text \<open>How a call to Moodle ends: an answer, no answer for the assignment, or one of the exceptions.\<close>

datatype moodle_outcome =
  MAnswer fetched_submission | MNoAnswer | MTimeout | MUnavailable | MRateLimited | MTokenInvalid | MRefused | MError

record presend_env =
  moodle_configured :: bool
  load_moodle_token :: "uuid \<Rightarrow> string + string"
  check_submission_status :: "string \<Rightarrow> int \<Rightarrow> moodle_outcome"
  fromisoformat :: "string \<Rightarrow> datetime option"

definition EXCLUDED_LOCAL_STATUSES :: "string list" where
  "EXCLUDED_LOCAL_STATUSES = [''locally_completed'', ''ignored'', ''archived'']"

definition gone :: "string \<Rightarrow> presend_check" where
  "gone reason = \<lparr>pc_verdict = VGone, pc_reason = reason, pc_assignment = None, pc_submitted_at = None\<rparr>"

definition unverified :: "string \<Rightarrow> presend_check" where
  "unverified reason = \<lparr>pc_verdict = VUnverified, pc_reason = reason, pc_assignment = None, pc_submitted_at = None\<rparr>"

section \<open>Dates in a payload\<close>

text \<open>\<^verbatim>\<open>int(t.timestamp())\<close>, and the snapshot dates of \<^verbatim>\<open>push/payload.py\<close>: a number counts from 2001-01-01.\<close>

definition epoch_seconds :: "datetime \<Rightarrow> int" where
  "epoch_seconds t = (if t < 0 then - ((- t) div seconds 1) else t div seconds 1)"

definition SWIFT_REFERENCE_EPOCH :: int where "SWIFT_REFERENCE_EPOCH = 978307200"

definition to_unix_seconds :: "presend_env \<Rightarrow> json \<Rightarrow> int option" where
  "to_unix_seconds env v = (case v of
     JInt n \<Rightarrow> Some (n + SWIFT_REFERENCE_EPOCH)
   | JFloat r \<Rightarrow> map_option whole_part (nearest_double (r + of_int SWIFT_REFERENCE_EPOCH))
   | JBool b \<Rightarrow> Some (of_bool b + SWIFT_REFERENCE_EPOCH)
   | JStr s \<Rightarrow> map_option epoch_seconds (fromisoformat env s)
   | _ \<Rightarrow> None)"

section \<open>The user's rows of the assignment\<close>

text \<open>Every row of the assignment with its mark, an outer join.\<close>

definition assignment_rows :: "push_db \<Rightarrow> uuid \<Rightarrow> int \<Rightarrow> (user_assignment \<times> string option) list" where
  "assignment_rows db u aid =
    concat (map (\<lambda>a. case filter (\<lambda>m. am_assignment m = ua_id a) (assignment_marks db) of
        [] \<Rightarrow> [(a, None)] | ms \<Rightarrow> map (\<lambda>m. (a, Some (local_status m))) ms)
      (filter (\<lambda>a. ua_user a = u \<and> ua_moodle_assignment a = aid) (assignments db)))"

text \<open>\<open>ignored_courses\<close> for one user: the Moodle ids and the course numbers.\<close>

definition ignored_courses :: "push_db \<Rightarrow> uuid \<Rightarrow> datetime \<Rightarrow> int list \<times> string list" where
  "ignored_courses db u now =
    (let code = current_term_code (terms db) now;
         rows = [(co_moodle_course x, uc_course_no c, uc_semester c). x \<leftarrow> course_overrides db, co_user x = u \<and> ignore_assignments x,
                   c \<leftarrow> filter (\<lambda>c. uc_id c = co_course x) (user_courses db)]
     in ([m. (Some m, _, _) \<leftarrow> rows],
         [no. (_, Some no, sem) \<leftarrow> rows, no \<noteq> [] \<and> (code = None \<or> Some sem = code)]))"

definition in_ignored_course :: "user_assignment \<Rightarrow> int list \<times> string list \<Rightarrow> bool" where
  "in_ignored_course a ignored =
    (ua_moodle_course a \<in> set (fst ignored) \<or>
     ua_moodle_course a = 0 \<and> (case ua_course_no a of None \<Rightarrow> False | Some no \<Rightarrow> no \<in> set (snd ignored)))"

definition alive_rows :: "(user_assignment \<times> string option) list \<Rightarrow> user_assignment list" where
  "alive_rows rows = filter (\<lambda>a. ua_deleted_at a = None) (map fst rows)"

definition max_option :: "int list \<Rightarrow> int option" where
  "max_option xs = (case xs of [] \<Rightarrow> None | y # ys \<Rightarrow> Some (fold max ys y))"

definition due_epoch :: "presend_env \<Rightarrow> push_job \<Rightarrow> user_assignment list \<Rightarrow> int option" where
  "due_epoch env j alive =
    (if channel j = REMINDER_CHANNEL
     then (case payload_get (j_payload j) ''due_epoch'' of JInt n \<Rightarrow> Some n | JBool b \<Rightarrow> Some (of_bool b) | _ \<Rightarrow> None)
     else (case to_unix_seconds env (payload_get (j_payload j) ''countdownTarget'') of
        Some t \<Rightarrow> Some t
      | None \<Rightarrow> max_option [epoch_seconds t. a \<leftarrow> alive, Some t \<leftarrow> [ua_due_at a]]))"

definition database_verdict ::
  "push_db \<Rightarrow> push_job \<Rightarrow> int \<Rightarrow> (user_assignment \<times> string option) list \<Rightarrow> int option \<Rightarrow> datetime \<Rightarrow> presend_check option" where
  "database_verdict db j aid rows due now =
    (let rs = map fst rows; alive = alive_rows rows in
     case find ua_is_submitted rs of
       Some a \<Rightarrow> Some \<lparr>pc_verdict = VSubmitted, pc_reason = ''database'', pc_assignment = Some aid, pc_submitted_at = ua_submitted_at a\<rparr>
     | None \<Rightarrow>
       if \<exists>r \<in> set rows. (case snd r of None \<Rightarrow> False | Some st \<Rightarrow> st \<in> set EXCLUDED_LOCAL_STATUSES) then Some (gone ''marked'')
       else if \<exists>a \<in> set rs. in_ignored_course a (ignored_courses db (j_user j) now) then Some (gone ''course_ignored'')
       else if alive = [] then Some (gone ''no_row'')
       else if (channel j = REMINDER_CHANNEL \<or> due \<noteq> None) \<and>
          \<not> (\<exists>a \<in> set alive. case ua_due_at a of None \<Rightarrow> False | Some t \<Rightarrow> Some (epoch_seconds t) = due) then Some (gone ''due_changed'')
       else if (case due of None \<Rightarrow> False | Some e \<Rightarrow> seconds e \<le> now) then Some (gone ''due_passed'')
       else None)"

definition rows_verdict ::
  "presend_env \<Rightarrow> push_db \<Rightarrow> push_job \<Rightarrow> int \<Rightarrow> datetime \<Rightarrow> presend_check option \<times> int option \<times> bool" where
  "rows_verdict env db j aid now =
    (let rows = assignment_rows db (j_user j) aid; alive = alive_rows rows; due = due_epoch env j alive in
     (database_verdict db j aid rows due now, due,
      due \<noteq> None \<and> (\<exists>a \<in> set alive. case ua_extension_due_at a of None \<Rightarrow> False | Some t \<Rightarrow> Some (epoch_seconds t) = due)))"

definition recheck_rows :: "presend_env \<Rightarrow> push_db \<Rightarrow> push_job \<Rightarrow> datetime \<Rightarrow> presend_check option" where
  "recheck_rows env db j now =
    (case assignment_id j of
       None \<Rightarrow> Some (gone ''no_assignment_id'')
     | Some aid \<Rightarrow> fst (rows_verdict env db j aid now))"

section \<open>Asking Moodle\<close>

definition open_breaker :: "moodle_breaker \<Rightarrow> string \<Rightarrow> presend_check \<times> moodle_breaker" where
  "open_breaker b reason = (unverified reason, b\<lparr>opened_by := Some reason\<rparr>)"

definition read_answer :: "int \<Rightarrow> int option \<Rightarrow> bool \<Rightarrow> fetched_submission \<Rightarrow> presend_check" where
  "read_answer aid due extended answer =
    (let ext = map_option epoch_seconds (extension_due_at answer) in
     if is_submitted answer then \<lparr>pc_verdict = VSubmitted, pc_reason = ''moodle'', pc_assignment = Some aid, pc_submitted_at = submitted_at answer\<rparr>
     else if \<not> submissions_enabled answer then gone ''submissions_disabled''
     else if locked answer then gone ''locked''
     else if (case ext of None \<Rightarrow> False | Some e \<Rightarrow> (case due of None \<Rightarrow> True | Some d \<Rightarrow> d < e)) then gone ''extension''
     else if extended \<and> (case ext of None \<Rightarrow> True | Some e \<Rightarrow> (case due of None \<Rightarrow> False | Some d \<Rightarrow> e < d)) then gone ''extension_withdrawn''
     else \<lparr>pc_verdict = VSend, pc_reason = ''moodle'', pc_assignment = Some aid, pc_submitted_at = None\<rparr>)"

definition ask_moodle ::
  "presend_env \<Rightarrow> string \<Rightarrow> int \<Rightarrow> int option \<Rightarrow> bool \<Rightarrow> moodle_breaker \<Rightarrow> presend_check \<times> moodle_breaker" where
  "ask_moodle env token aid due extended b =
    (case check_submission_status env token aid of
       MTimeout \<Rightarrow> open_breaker b ''timeout''
     | MUnavailable \<Rightarrow> open_breaker b ''unavailable''
     | MRateLimited \<Rightarrow> open_breaker b ''rate_limited''
     | MTokenInvalid \<Rightarrow> (unverified ''token_invalid'', b)
     | MRefused \<Rightarrow> (unverified ''refused'', b)
     | MError \<Rightarrow> (unverified ''error'', b)
     | MNoAnswer \<Rightarrow> (unverified ''no_answer'', b)
     | MAnswer answer \<Rightarrow> (read_answer aid due extended answer, b))"

text \<open>The verdict on a claimed job, \<open>None\<close> when the check does not apply to it, with the breaker after.\<close>

definition check_before_send ::
  "presend_env \<Rightarrow> string \<Rightarrow> datetime \<Rightarrow> nat \<Rightarrow> moodle_breaker \<Rightarrow> push_db \<Rightarrow> presend_check option \<times> moodle_breaker" where
  "check_before_send env worker now i b db =
    (case get_job db i of
       None \<Rightarrow> (None, b)
     | Some j \<Rightarrow>
       if j_status j \<noteq> PProcessing \<or> j_locked_by j \<noteq> Some worker \<or> \<not> needs_check j \<or> has_deliveries db i then (None, b)
       else (case assignment_id j of
          None \<Rightarrow> (Some (gone ''no_assignment_id''), b)
        | Some aid \<Rightarrow>
          (case rows_verdict env db j aid now of
             (Some settled, _, _) \<Rightarrow> (Some settled, b)
           | (None, due, extended) \<Rightarrow>
             if opened_by b \<noteq> None then (Some (unverified ''breaker_open''), b)
             else if \<not> moodle_configured env then (Some (unverified ''moodle_unconfigured''), b)
             else (case load_moodle_token env (j_user j) of
                Inl reason \<Rightarrow> (Some (unverified reason), b)
              | Inr token \<Rightarrow>
                (let (check, b') = ask_moodle env token aid due extended b in
                 (Some check, b'\<lparr>answered := answered b' \<or> opened_by b' = None\<rparr>))))))"

text \<open>The checks of a batch, in claim order, each after the one before: how \<open>_start_checks\<close> runs them
  until Moodle has answered. \<open>asks\<close> tells whether a check reaches the call to Moodle.\<close>

definition asks :: "presend_env \<Rightarrow> string \<Rightarrow> datetime \<Rightarrow> nat \<Rightarrow> moodle_breaker \<Rightarrow> push_db \<Rightarrow> bool" where
  "asks env worker now i b db \<longleftrightarrow>
    (case get_job db i of
       None \<Rightarrow> False
     | Some j \<Rightarrow> j_status j = PProcessing \<and> j_locked_by j = Some worker \<and> needs_check j \<and> \<not> has_deliveries db i \<and>
        (case assignment_id j of
           None \<Rightarrow> False
         | Some aid \<Rightarrow> fst (rows_verdict env db j aid now) = None \<and> opened_by b = None \<and> moodle_configured env \<and>
             \<not> isl (load_moodle_token env (j_user j))))"

fun start_checks ::
  "presend_env \<Rightarrow> string \<Rightarrow> datetime \<Rightarrow> (nat \<times> int \<times> bool) list \<Rightarrow> moodle_breaker \<Rightarrow> push_db \<Rightarrow> (nat \<times> presend_check option) list \<times> moodle_breaker" where
  "start_checks env worker now [] b db = ([], b)"
| "start_checks env worker now ((i, prio, checked) # rest) b db =
    (if checked then
       (let (c, b1) = check_before_send env worker now i b db; (cs, b2) = start_checks env worker now rest b1 db in ((i, c) # cs, b2))
     else start_checks env worker now rest b db)"

section \<open>Writing a submission back\<close>

text \<open>\<open>apply_submission_status\<close>: the unsubmitted rows the probe found submitted flip, each with an entry in
  the user's change log under the lock of its sync state. \<open>fetched\<close> maps assignment ids to answers.\<close>

definition flip_row :: "(int \<times> fetched_submission) list \<Rightarrow> datetime \<Rightarrow> user_assignment \<Rightarrow> user_assignment" where
  "flip_row fetched now a = a\<lparr>ua_is_submitted := True,
     ua_submitted_at := Some (case map_of fetched (ua_moodle_assignment a) of
        Some f \<Rightarrow> (case submitted_at f of Some t \<Rightarrow> t | None \<Rightarrow> now) | None \<Rightarrow> now)\<rparr>"

definition to_flip :: "push_db \<Rightarrow> uuid \<Rightarrow> (int \<times> fetched_submission) list \<Rightarrow> user_assignment \<Rightarrow> bool" where
  "to_flip db u fetched a \<longleftrightarrow> ua_user a = u \<and> ua_deleted_at a = None \<and> \<not> ua_is_submitted a \<and>
     ua_moodle_assignment a \<in> set [aid. (aid, f) \<leftarrow> fetched, is_submitted f]"

definition flip_entry :: "datetime \<Rightarrow> user_assignment \<Rightarrow> change_draft" where
  "flip_entry now a = \<lparr>cd_entity_type = ''assignment'', cd_entity_id = nat_str (ua_id a), cd_operation = ''upsert'',
     cd_payload = Some (JObj [(''fields'', JList [JStr ''provider_is_submitted'', JStr ''provider_submitted_at''])]),
     cd_device = None, cd_created_at = now\<rparr>"

definition apply_submission_status ::
  "push_db \<Rightarrow> uuid \<Rightarrow> (int \<times> fetched_submission) list \<Rightarrow> datetime \<Rightarrow> int list \<times> push_db" where
  "apply_submission_status db u fetched now =
    (if [aid. (aid, f) \<leftarrow> fetched, is_submitted f] = [] then ([], db)
     else let flipped = filter (to_flip db u fetched) (assignments db) in
       (map ua_moodle_assignment flipped,
        db\<lparr>assignments := update_where (to_flip db u fetched) (flip_row fetched now) (assignments db),
           sync_log := fold (\<lambda>a lg. snd (append_change lg u (flip_entry now a))) flipped (lock_sync_state (sync_log db) u)\<rparr>))"

definition reminder_key_prefix :: "int \<Rightarrow> string" where
  "reminder_key_prefix aid = ''assignment:moodle:'' @ int_str aid @ '':reminder_''"

definition cancel_pending_reminders :: "push_db \<Rightarrow> uuid \<Rightarrow> int list \<Rightarrow> datetime \<Rightarrow> push_db" where
  "cancel_pending_reminders db u aids now =
    db\<lparr>jobs := update_where (\<lambda>j. j_user j = u \<and> channel j = REMINDER_CHANNEL \<and> j_status j = PPending \<and>
        (\<exists>aid \<in> set aids. starts_with (reminder_key_prefix aid) (dedupe_key j)))
      (\<lambda>j. j\<lparr>j_status := PCancelled, cancelled_at := Some now\<rparr>) (jobs db)\<rparr>"

text \<open>\<open>_end_running_activities\<close>: an end job at once for every device with an active update token of the
  assignment's activity, or the waiting one brought forward.\<close>

definition LIVE_ACTIVITY_JOB_PRIORITY :: int where "LIVE_ACTIVITY_JOB_PRIORITY = 10"

definition activity_id_for_assignment :: "int \<Rightarrow> string" where
  "activity_id_for_assignment aid = activity_id (int_str aid) ''assignmentUrgent''"

definition token_live :: "datetime \<Rightarrow> push_token \<Rightarrow> bool" where
  "token_live now t \<longleftrightarrow> tk_status t = ''active'' \<and> (case tk_expires_at t of None \<Rightarrow> True | Some e \<Rightarrow> now < e)"

definition end_targets :: "push_db \<Rightarrow> uuid \<Rightarrow> int list \<Rightarrow> datetime \<Rightarrow> (uuid \<times> int) list" where
  "end_targets db u aids now =
    remdups [(tk_device t, aid). t \<leftarrow> tokens db, token_live now t \<and> tk_kind t = ''live_activity_update'',
       aid \<leftarrow> aids, tk_scope_key t = activity_id_for_assignment aid \<and>
         (\<exists>d \<in> set (devices db). pv_id d = tk_device t \<and> pv_user d = u \<and> pv_deleted_at d = None)]"

definition fresh_end_payload :: "(datetime \<Rightarrow> string) \<Rightarrow> user_assignment \<Rightarrow> int \<Rightarrow> payload" where
  "fresh_end_payload isoformat a aid =
    [(''kind'', JStr ''live_activity_end''), (''activity_id'', JStr (activity_id_for_assignment aid)),
     (''source_id'', JStr (int_str aid)), (''scenario'', JStr ''assignmentUrgent''), (''title'', JStr (ua_title a)),
     (''subtitle'', JStr (case ua_course_name a of None \<Rightarrow> [] | Some n \<Rightarrow> n)), (''accentHex'', JInt 0),
     (''sourceId'', JStr (int_str aid)),
     (''countdownTarget'', case ua_due_at a of None \<Rightarrow> JNull | Some t \<Rightarrow> JStr (isoformat t))]"

definition end_activity ::
  "(datetime \<Rightarrow> string) \<Rightarrow> uuid \<Rightarrow> datetime \<Rightarrow> uuid \<times> int \<Rightarrow> push_db \<Rightarrow> push_db" where
  "end_activity isoformat u now target db =
    (let (dev, aid) = target; key = activity_end_key dev (activity_id_for_assignment aid) in
     case conflicting_job db u key of
       Some j \<Rightarrow>
         if j_status j \<in> {PPending, PProcessing}
         then modify_job (j_id j) (\<lambda>x. x\<lparr>fire_at := now, priority := LIVE_ACTIVITY_JOB_PRIORITY, j_status := PPending\<rparr>) db
         else db
     | None \<Rightarrow>
         (case find (\<lambda>a. ua_user a = u \<and> ua_moodle_assignment a = aid \<and> ua_deleted_at a = None) (rev (assignments db)) of
            None \<Rightarrow> db
          | Some a \<Rightarrow> insert_job (new_job u (Some dev) key SCHEDULE_CHANNEL ''activityEnd'' now LIVE_ACTIVITY_JOB_PRIORITY
              (fresh_end_payload isoformat a aid) now) db))"

definition end_running_activities :: "(datetime \<Rightarrow> string) \<Rightarrow> push_db \<Rightarrow> uuid \<Rightarrow> int list \<Rightarrow> datetime \<Rightarrow> push_db" where
  "end_running_activities isoformat db u aids now = fold (end_activity isoformat u now) (end_targets db u aids now) db"

definition cancel_for_submitted :: "(datetime \<Rightarrow> string) \<Rightarrow> push_db \<Rightarrow> uuid \<Rightarrow> int list \<Rightarrow> datetime \<Rightarrow> push_db" where
  "cancel_for_submitted isoformat db u aids now =
    (if aids = [] then db else end_running_activities isoformat (cancel_pending_reminders db u aids now) u aids now)"

section \<open>The sync trigger\<close>

definition MAX_ROUNDS :: nat where "MAX_ROUNDS = 5"

definition active_triggers :: "push_db \<Rightarrow> uuid \<Rightarrow> push_job list" where
  "active_triggers db u = filter (\<lambda>j. j_user j = u \<and> scenario j = ''sync_trigger'' \<and> dedupe_active j) (jobs db)"

definition newest_first :: "push_job \<Rightarrow> push_job \<Rightarrow> bool" where
  "newest_first a b \<longleftrightarrow> fire_at b < fire_at a \<or> fire_at a = fire_at b \<and> j_id b < j_id a"

definition source_json :: "string option \<Rightarrow> json" where
  "source_json source = (case source of None \<Rightarrow> JNull | Some s \<Rightarrow> JStr s)"

text \<open>\<open>_ride\<close>: the change goes out with a trigger that has yet to; \<open>None\<close> when it cannot.\<close>

definition ride :: "push_db \<Rightarrow> nat \<Rightarrow> string option \<Rightarrow> push_db option" where
  "ride db i source =
    (case get_job db i of
       Some j \<Rightarrow>
         if j_status j = PPending \<and> \<not> has_deliveries db i
         then Some (if payload_get (j_payload j) ''source_device_id'' \<noteq> source_json source
                    then modify_job i (\<lambda>x. x\<lparr>j_payload := AList.update ''source_device_id'' JNull (j_payload x)\<rparr>) db else db)
         else None
     | None \<Rightarrow> None)"

definition trigger_key :: "uuid \<Rightarrow> push_job option \<Rightarrow> string" where
  "trigger_key u latest = ''sync_trigger:'' @ uuid_text u @ '':after:'' @ nat_str (case latest of None \<Rightarrow> 0 | Some j \<Rightarrow> j_id j)"

definition new_trigger :: "uuid \<Rightarrow> push_job option \<Rightarrow> string option \<Rightarrow> datetime \<Rightarrow> nat \<Rightarrow> push_job" where
  "new_trigger u latest source now =
    new_job u None (trigger_key u latest) ''system'' ''sync_trigger''
      (case latest of None \<Rightarrow> now | Some j \<Rightarrow> max now (fire_at j + SYNC_TRIGGER_GAP)) 100
      [(''kind'', JStr ''sync_trigger''), (''source_device_id'', source_json source)] now"

fun trigger_rounds ::
  "nat \<Rightarrow> push_db \<Rightarrow> uuid \<Rightarrow> push_job option \<Rightarrow> string option \<Rightarrow> datetime \<Rightarrow> nat option \<times> push_db" where
  "trigger_rounds 0 db u latest source now = (None, db)"
| "trigger_rounds (Suc n) db u latest source now =
    (case Option.bind latest (\<lambda>j. ride db (j_id j) source) of
       Some db' \<Rightarrow> (None, db')
     | None \<Rightarrow>
       (case conflicting_job db u (trigger_key u latest) of
          None \<Rightarrow> (Some (push_job_seq db), insert_job (new_trigger u latest source now) db)
        | Some _ \<Rightarrow>
          trigger_rounds n db u
            (case find (\<lambda>j. dedupe_key j = trigger_key u latest) (active_triggers db u) of None \<Rightarrow> latest | Some j \<Rightarrow> Some j)
            source now))"

definition enqueue_sync_trigger :: "push_db \<Rightarrow> uuid \<Rightarrow> string option \<Rightarrow> datetime \<Rightarrow> nat option \<times> push_db" where
  "enqueue_sync_trigger db u source now = trigger_rounds MAX_ROUNDS db u (first_by newest_first (active_triggers db u)) source now"

definition record_submitted :: "(datetime \<Rightarrow> string) \<Rightarrow> push_db \<Rightarrow> uuid \<Rightarrow> presend_check \<Rightarrow> datetime \<Rightarrow> push_db" where
  "record_submitted isoformat db u check now =
    (case pc_assignment check of
       None \<Rightarrow> db
     | Some aid \<Rightarrow>
       let (changed, db1) = apply_submission_status db u
             [(aid, \<lparr>is_submitted = True, submitted_at = pc_submitted_at check, submissions_enabled = True, locked = False, extension_due_at = None\<rparr>)] now;
           db2 = cancel_for_submitted isoformat db1 u [aid] now
       in if changed \<noteq> [] then snd (enqueue_sync_trigger db2 u None now) else db2)"

section \<open>How much the write-back can grow the queue\<close>

definition job_sig :: "push_job \<Rightarrow> nat \<times> bool" where
  "job_sig j = (j_id j, needs_check j)"

text \<open>At most \<open>n\<close> jobs are new, none of them guarded; the others keep their ids and whether the check guards
  them, the tokens keep their number and no job is newly claimed.\<close>

definition grows :: "nat \<Rightarrow> push_db \<Rightarrow> push_db \<Rightarrow> bool" where
  "grows n db db' \<longleftrightarrow> push_job_seq db \<le> push_job_seq db' \<and> push_job_seq db' \<le> push_job_seq db + n \<and>
     map job_sig (jobs db') = map job_sig (jobs db) @ map (\<lambda>i. (i, False)) [push_job_seq db ..< push_job_seq db'] \<and>
     length (tokens db') = length (tokens db) \<and> (\<forall>w. held_by w db' \<subseteq> held_by w db)"

lemma grows_refl [simp]: "grows n db db"
  by (simp add: grows_def)

lemma grows_mono: "grows m db db' \<Longrightarrow> m \<le> n \<Longrightarrow> grows n db db'"
  by (auto simp: grows_def)

lemma upt_append_between: "i \<le> j \<Longrightarrow> j \<le> k \<Longrightarrow> [i ..< k] = [i ..< j] @ [j ..< k]"
  by (metis le_Suc_ex upt_add_eq_append)

lemma grows_trans:
  assumes "grows m a b" "grows n b c"
  shows "grows (m + n) a c"
proof -
  have "[push_job_seq a ..< push_job_seq c] = [push_job_seq a ..< push_job_seq b] @ [push_job_seq b ..< push_job_seq c]"
    using assms by (intro upt_append_between) (auto simp: grows_def)
  then show ?thesis using assms by (fastforce simp: grows_def)
qed

lemma grows_fold:
  assumes "\<And>x db. grows 1 db (f x db)"
  shows "grows (length xs) db (fold f xs db)"
proof (induction xs arbitrary: db)
  case (Cons x xs)
  then show ?case using grows_trans [OF assms [of db x]] by fastforce
qed simp

lemma grows_jobs:
  assumes "\<And>j. j \<in> set (jobs db) \<Longrightarrow> job_sig (f j) = job_sig j"
    and "\<And>j. j \<in> set (jobs db) \<Longrightarrow> j_status (f j) = PProcessing \<Longrightarrow> j_status j = PProcessing \<and> j_locked_by (f j) = j_locked_by j"
  shows "grows 0 db (db\<lparr>jobs := update_where P f (jobs db)\<rparr>)"
proof -
  have id: "j_id (f j) = j_id j" if "j \<in> set (jobs db)" for j using assms(1) [OF that] by (simp add: job_sig_def)
  have "get_job (db\<lparr>jobs := update_where P f (jobs db)\<rparr>) i = map_option (\<lambda>j. if P j then f j else j) (get_job db i)" for i
  proof -
    have "find (\<lambda>r. j_id r = i) (update_where P f xs) = map_option (\<lambda>j. if P j then f j else j) (find (\<lambda>r. j_id r = i) xs)"
      if "set xs \<subseteq> set (jobs db)" for xs using that by (induction xs) (auto simp: update_where_def id)
    then show ?thesis by (simp add: get_job_def row_get_def)
  qed
  then have g: "get_job (db\<lparr>jobs := update_where P f (jobs db)\<rparr>) i = Some k \<Longrightarrow>
      \<exists>j. get_job db i = Some j \<and> k = (if P j then f j else j)" for i k by auto
  have "held_by w (db\<lparr>jobs := update_where P f (jobs db)\<rparr>) \<subseteq> held_by w db" for w
  proof
    fix i assume "i \<in> held_by w (db\<lparr>jobs := update_where P f (jobs db)\<rparr>)"
    then obtain j where j: "get_job db i = Some j" "j_status (if P j then f j else j) = PProcessing"
        "j_locked_by (if P j then f j else j) = Some w" by (auto simp: held_by_def dest!: g)
    then have "j_status j = PProcessing \<and> j_locked_by j = Some w"
      using assms(2) [OF get_job_in [OF j(1)]] by (cases "P j") auto
    then show "i \<in> held_by w db" using j(1) by (auto simp: held_by_def)
  qed
  then show ?thesis using assms(1) by (auto simp: grows_def update_where_def)
qed

lemma grows_same_jobs:
  "jobs db' = jobs db \<Longrightarrow> push_job_seq db' = push_job_seq db \<Longrightarrow> length (tokens db') = length (tokens db) \<Longrightarrow> grows 0 db db'"
  by (simp add: grows_def held_by_def get_job_def)

lemma grows_insert:
  assumes "\<And>i. job_sig (mk i) = (i, False) \<and> j_status (mk i) = PPending"
  shows "grows 1 db (insert_job mk db)"
proof -
  have "held_by w (insert_job mk db) \<subseteq> held_by w db" for w
    using assms by (auto simp: held_by_def get_job_def insert_job_def row_get_append split: option.splits if_splits)
  then show ?thesis using assms by (auto simp: grows_def insert_job_def)
qed

lemma grows_wf:
  assumes "grows n db db'" "jobs_wf db"
  shows "jobs_wf db'"
proof -
  have "map fst (map job_sig (jobs db')) = map fst (map job_sig (jobs db)) @ [push_job_seq db ..< push_job_seq db']"
    using assms(1) by (simp add: grows_def comp_def)
  then have m: "map j_id (jobs db') = map j_id (jobs db) @ [push_job_seq db ..< push_job_seq db']"
    by (simp add: comp_def job_sig_def)
  have lt: "\<forall>i \<in> set (map j_id (jobs db)). i < push_job_seq db" using assms(2) by (auto simp: jobs_wf_def)
  have "distinct (map j_id (jobs db'))" unfolding m using assms(2) lt by (auto simp: jobs_wf_def)
  moreover have "\<forall>i \<in> set (map j_id (jobs db')). i < push_job_seq db'"
    unfolding m using lt assms(1) by (auto simp: grows_def intro: less_le_trans)
  ultimately show ?thesis by (simp add: jobs_wf_def)
qed

lemma grows_sig: "grows n db db' \<Longrightarrow> job_sig ` set (jobs db) \<subseteq> job_sig ` set (jobs db')"
  by (metis (no_types, lifting) grows_def list.set_map set_append sup_ge1)

lemma grows_ids: "grows n db db' \<Longrightarrow> job_ids db \<subseteq> job_ids db'"
proof -
  assume "grows n db db'"
  then have "fst ` job_sig ` set (jobs db) \<subseteq> fst ` job_sig ` set (jobs db')" by (intro image_mono grows_sig)
  then show ?thesis by (simp add: job_ids_def image_image job_sig_def)
qed

lemma find_sig:
  "find (\<lambda>r. j_id r = i) xs = Some j \<Longrightarrow> map job_sig ys = map job_sig xs @ zs \<Longrightarrow>
   \<exists>k. find (\<lambda>r. j_id r = i) ys = Some k \<and> needs_check k = needs_check j"
proof (induction xs arbitrary: ys)
  case (Cons x xs)
  obtain y ys' where y: "ys = y # ys'" "job_sig y = job_sig x" "map job_sig ys' = map job_sig xs @ zs"
    using Cons.prems(2) by (auto simp: map_eq_Cons_conv)
  then show ?case using Cons.prems(1) Cons.IH [OF _ y(3)] by (cases "j_id x = i") (auto simp: job_sig_def)
qed simp

lemma grows_guarded:
  assumes "grows n db db'" "guarded db i"
  shows "guarded db' i"
proof -
  obtain j where j: "find (\<lambda>r. j_id r = i) (jobs db) = Some j" "needs_check j"
    using assms(2) by (auto simp: guarded_def get_job_def row_get_def)
  have "map job_sig (jobs db') = map job_sig (jobs db) @ map (\<lambda>i. (i, False)) [push_job_seq db ..< push_job_seq db']"
    using assms(1) by (simp add: grows_def)
  from find_sig [OF j(1) this] j(2) show ?thesis by (auto simp: guarded_def get_job_def row_get_def)
qed

lemma sig_cong:
  "j_id a = j_id b \<Longrightarrow> channel a = channel b \<Longrightarrow> scenario a = scenario b \<Longrightarrow> j_payload a = j_payload b \<Longrightarrow>
   j_device a = j_device b \<Longrightarrow> dedupe_key a = dedupe_key b \<Longrightarrow> job_sig a = job_sig b"
  by (simp add: job_sig_def needs_check_def cong: option.case_cong)

lemma apply_submission_grows: "apply_submission_status db u fetched now = (changed, db') \<Longrightarrow> grows 0 db db'"
  by (auto simp: apply_submission_status_def Let_def intro!: grows_same_jobs split: if_splits)

lemma cancel_reminders_grows: "grows 0 db (cancel_pending_reminders db u aids now)"
  unfolding cancel_pending_reminders_def by (rule grows_jobs) (auto intro: sig_cong)

lemma grows_modify:
  assumes "\<And>j. get_job db i = Some j \<Longrightarrow> job_sig (f j) = job_sig j"
    and "\<And>j. get_job db i = Some j \<Longrightarrow> j_status (f j) = PProcessing \<Longrightarrow>
      j_status j = PProcessing \<and> j_locked_by (f j) = j_locked_by j"
    and "jobs_wf db"
  shows "grows 0 db (modify_job i f db)"
proof -
  have g: "get_job db i = Some j" if "j \<in> set (jobs db)" "j_id j = i" for j
    using that assms(3) row_get_in_set [of j_id "jobs db" j] by (simp add: get_job_def jobs_wf_def)
  have "update_where (\<lambda>j. j_id j = i) f (jobs db) = update_where (\<lambda>j. j_id j = i) (\<lambda>j. if j_id j = i then f j else j) (jobs db)"
    by (simp add: update_where_def)
  moreover have "grows 0 db (db\<lparr>jobs := update_where (\<lambda>j. j_id j = i) (\<lambda>j. if j_id j = i then f j else j) (jobs db)\<rparr>)"
    by (rule grows_jobs) (use assms(1,2) g in \<open>auto split: if_splits\<close>)
  ultimately show ?thesis by (simp add: modify_job_def row_update_as_update_where)
qed

lemma end_activity_grows:
  assumes "jobs_wf db"
  shows "grows 1 db (end_activity isoformat u now target db)"
proof -
  obtain dev aid where t: "target = (dev, aid)" by (cases target)
  let ?key = "activity_end_key dev (activity_id_for_assignment aid)"
  show ?thesis
  proof (cases "conflicting_job db u ?key")
    case None
    have "grows 1 db (insert_job (new_job u d k SCHEDULE_CHANNEL ''activityEnd'' x p pl y) db)" for d k x p pl y
      by (rule grows_insert) (simp add: new_job_def job_sig_def needs_check_def channel_defs)
    then show ?thesis using None grows_mono [OF grows_refl] by (auto simp: end_activity_def t Let_def split: option.splits)
  next
    case (Some j)
    have "grows 0 db (modify_job (j_id j) (\<lambda>x. x\<lparr>fire_at := now, priority := LIVE_ACTIVITY_JOB_PRIORITY, j_status := PPending\<rparr>) db)"
      by (rule grows_modify [OF _ _ assms]) (auto intro: sig_cong)
    then show ?thesis using Some grows_mono [OF grows_refl] by (auto simp: end_activity_def t Let_def intro: grows_mono)
  qed
qed

lemma fold_end_grows: "jobs_wf db \<Longrightarrow> grows (length ts) db (fold (end_activity isoformat u now) ts db)"
proof (induction ts arbitrary: db)
  case (Cons t ts)
  note g = end_activity_grows [OF Cons.prems, of isoformat u now t]
  show ?case using grows_trans [OF g Cons.IH [OF grows_wf [OF g Cons.prems]]] by simp
qed simp

lemma length_end_targets: "length (end_targets db u [aid] now) \<le> length (tokens db)"
proof -
  have "length [(tk_device t, aid). t \<leftarrow> ts, P t, aid \<leftarrow> [aid], Q t aid] \<le> length ts" for ts :: "push_token list" and P Q
    by (induction ts) auto
  then show ?thesis unfolding end_targets_def by (meson le_trans length_remdups_leq)
qed

lemma trigger_not_guarded: "scenario j = ''sync_trigger'' \<Longrightarrow> \<not> needs_check j"
  by (simp add: needs_check_def starts_with_def)

lemma ride_grows:
  assumes "ride db i source = Some db'" "jobs_wf db" "\<And>j. get_job db i = Some j \<Longrightarrow> scenario j = ''sync_trigger''"
  shows "grows 0 db db'"
proof -
  have "grows 0 db (modify_job i (\<lambda>x. x\<lparr>j_payload := AList.update ''source_device_id'' JNull (j_payload x)\<rparr>) db)"
    using assms(3) by (intro grows_modify [OF _ _ assms(2)]) (auto simp: job_sig_def trigger_not_guarded)
  then show ?thesis using assms(1) by (auto simp: ride_def split: option.splits if_splits)
qed

lemma active_trigger_job: "j \<in> set (active_triggers db u) \<Longrightarrow> j \<in> set (jobs db) \<and> scenario j = ''sync_trigger''"
  by (simp add: active_triggers_def)

lemma trigger_rounds_grows:
  assumes "jobs_wf db" "\<forall>j. latest = Some j \<longrightarrow> j \<in> set (jobs db) \<and> scenario j = ''sync_trigger''"
  shows "grows 1 db (snd (trigger_rounds n db u latest source now))"
  using assms(2)
proof (induction n arbitrary: latest)
  case (Suc n)
  show ?case
  proof (cases "Option.bind latest (\<lambda>j. ride db (j_id j) source)")
    case (Some db')
    then obtain j where j: "latest = Some j" "ride db (j_id j) source = Some db'" by (auto simp: Option.bind_eq_Some_conv)
    have "get_job db (j_id j) = Some j"
      using Suc.prems j(1) assms(1) by (auto simp: get_job_def jobs_wf_def intro: row_get_in_set)
    then have "grows 0 db db'" using Suc.prems j(1) by (intro ride_grows [OF j(2) assms(1)]) auto
    then show ?thesis using Some by (auto intro: grows_mono)
  next
    case None
    have i: "grows 1 db (insert_job (new_trigger u latest source now) db)"
      by (rule grows_insert) (simp add: new_trigger_def new_job_def job_sig_def trigger_not_guarded)
    have "\<forall>j. (case find P (active_triggers db u) of None \<Rightarrow> latest | Some j \<Rightarrow> Some j) = Some j \<longrightarrow>
        j \<in> set (jobs db) \<and> scenario j = ''sync_trigger''" for P
      using Suc.prems active_trigger_job by (auto simp: find_Some_iff split: option.splits) (metis nth_mem active_trigger_job)+
    from Suc.IH [OF this] i show ?thesis using None by (auto split: option.splits)
  qed
qed (auto intro: grows_mono)

lemma enqueue_grows: "jobs_wf db \<Longrightarrow> grows 1 db (snd (enqueue_sync_trigger db u source now))"
  unfolding enqueue_sync_trigger_def
  by (rule trigger_rounds_grows) (auto dest!: first_by_SomeD dest: active_trigger_job)

lemma record_submitted_grows:
  assumes "jobs_wf db"
  shows "grows (length (tokens db) + 1) db (record_submitted isoformat db u check now)"
proof (cases "pc_assignment check")
  case None
  then show ?thesis by (auto simp: record_submitted_def intro: grows_mono)
next
  case (Some aid)
  let ?f = "[(aid, \<lparr>is_submitted = True, submitted_at = pc_submitted_at check, submissions_enabled = True, locked = False, extension_due_at = None\<rparr>)]"
  obtain changed db1 where a: "apply_submission_status db u ?f now = (changed, db1)" by fastforce
  let ?dbc = "cancel_pending_reminders db1 u [aid] now"
  have g1: "grows 0 db ?dbc" using grows_trans [OF apply_submission_grows [OF a] cancel_reminders_grows] by simp
  then have "length (tokens ?dbc) = length (tokens db)" by (simp add: grows_def)
  then have l: "length (end_targets ?dbc u [aid] now) \<le> length (tokens db)" by (metis length_end_targets)
  have "grows (length (end_targets ?dbc u [aid] now)) ?dbc (cancel_for_submitted isoformat db1 u [aid] now)"
    by (simp add: cancel_for_submitted_def end_running_activities_def fold_end_grows [OF grows_wf [OF g1 assms]])
  then have g2: "grows (length (tokens db)) db (cancel_for_submitted isoformat db1 u [aid] now)"
    using grows_mono [OF _ l] grows_trans [OF g1] by fastforce
  have "grows (length (tokens db) + 1) db (snd (enqueue_sync_trigger (cancel_for_submitted isoformat db1 u [aid] now) u None now))"
    by (rule grows_trans [OF g2 enqueue_grows [OF grows_wf [OF g2 assms]]])
  then show ?thesis using Some a grows_mono [OF g2] by (auto simp: record_submitted_def Let_def)
qed

section \<open>Verdicts\<close>

lemma database_verdict_not_send: "database_verdict db j aid rows due now = Some c \<Longrightarrow> pc_verdict c \<noteq> VSend"
  by (auto simp: database_verdict_def Let_def gone_def split: option.splits if_splits)

lemma database_verdict_None:
  assumes "database_verdict db j aid rows due now = None"
  shows "(\<forall>(a, st) \<in> set rows. \<not> ua_is_submitted a \<and> st \<notin> Some ` set EXCLUDED_LOCAL_STATUSES \<and>
      \<not> in_ignored_course a (ignored_courses db (j_user j) now)) \<and>
    alive_rows rows \<noteq> [] \<and>
    (channel j = REMINDER_CHANNEL \<or> due \<noteq> None \<longrightarrow>
       (\<exists>a \<in> set (alive_rows rows). \<exists>t. ua_due_at a = Some t \<and> due = Some (epoch_seconds t) \<and> now < seconds (epoch_seconds t)))"
proof -
  have s: "find ua_is_submitted (map fst rows) = None"
    using assms by (auto simp: database_verdict_def Let_def split: option.splits)
  then have n: "\<forall>r \<in> set rows. \<not> (case snd r of None \<Rightarrow> False | Some st \<Rightarrow> st \<in> set EXCLUDED_LOCAL_STATUSES)"
      "\<forall>r \<in> set rows. \<not> in_ignored_course (fst r) (ignored_courses db (j_user j) now)" "alive_rows rows \<noteq> []"
      "channel j = REMINDER_CHANNEL \<or> due \<noteq> None \<longrightarrow>
        (\<exists>a \<in> set (alive_rows rows). case ua_due_at a of None \<Rightarrow> False | Some t \<Rightarrow> Some (epoch_seconds t) = due)"
      "\<not> (case due of None \<Rightarrow> False | Some e \<Rightarrow> seconds e \<le> now)"
    using assms by (simp_all add: database_verdict_def Let_def split: if_splits; auto)+
  have "\<forall>r \<in> set rows. \<not> ua_is_submitted (fst r)" using s by (auto simp: find_None_iff)
  moreover have "\<forall>r \<in> set rows. snd r \<notin> Some ` set EXCLUDED_LOCAL_STATUSES" using n(1) by force
  moreover have "\<exists>a \<in> set (alive_rows rows). \<exists>t. ua_due_at a = Some t \<and> due = Some (epoch_seconds t) \<and> now < seconds (epoch_seconds t)"
    if "channel j = REMINDER_CHANNEL \<or> due \<noteq> None"
    using n(4) that n(5) by (auto split: option.splits) (metis not_le)+
  ultimately show ?thesis using n(2,3) by fastforce
qed

lemma read_answer_send:
  "pc_verdict (read_answer aid due extended answer) = VSend \<longleftrightarrow>
   \<not> is_submitted answer \<and> submissions_enabled answer \<and> \<not> locked answer \<and>
   (\<forall>t. extension_due_at answer = Some t \<longrightarrow> (\<exists>d. due = Some d \<and> epoch_seconds t \<le> d)) \<and>
   (extended \<longrightarrow> (\<exists>t. extension_due_at answer = Some t \<and> (\<forall>d. due = Some d \<longrightarrow> d \<le> epoch_seconds t)))"
  by (cases "extension_due_at answer"; cases due) (auto simp: read_answer_def Let_def gone_def)

lemma ask_moodle_send:
  assumes "ask_moodle env token aid due extended b = (c, b')" "pc_verdict c = VSend"
  shows "\<exists>answer. check_submission_status env token aid = MAnswer answer \<and> c = read_answer aid due extended answer"
  using assms by (auto simp: ask_moodle_def open_breaker_def unverified_def split: moodle_outcome.splits)

section \<open>Properties\<close>


text \<open>An open assignment of user 1, its reminder claimed by the worker, and a Moodle that says it is open.\<close>

definition open_assignment :: user_assignment where
  "open_assignment = \<lparr>ua_id = 4, ua_user = 1, ua_user_course = None, ua_moodle_course = 9, ua_moodle_assignment = 77,
     ua_moodle_semester = None, ua_course_no = None, ua_course_name = None, ua_title = ''hw1'', ua_due_at = Some (seconds 1000),
     ua_cutoff_at = None, ua_extension_due_at = None, ua_allow_from_at = None, ua_moodle_url = None, ua_intro_html = None,
     ua_is_submitted = False, ua_submitted_at = None, ua_grade = None, ua_fetched_at = 0, ua_last_seen_at = 0, ua_deleted_at = None\<rparr>"

definition claimed_reminder :: push_job where
  "claimed_reminder = (new_job 1 None ''assignment:moodle:77:reminder_1h:1000'' REMINDER_CHANNEL ''reminder_1h'' 0 100
     [(''moodle_assignment_id'', JInt 77), (''due_epoch'', JInt 1000)] 0 5)\<lparr>j_status := PProcessing, j_locked_by := Some ''w''\<rparr>"

definition reminder_db :: push_db where
  "reminder_db = \<lparr>jobs = [claimed_reminder], push_job_seq = 6, deliveries = [], delivery_seq = 1, tokens = [], devices = [],
     terms = [], holidays = [], holiday_overrides = [], assignments = [open_assignment], assignment_seq = 5, assignment_marks = [],
     user_courses = [], course_overrides = [], sync_log = empty_log\<rparr>"

definition open_answer :: fetched_submission where
  "open_answer = \<lparr>is_submitted = False, submitted_at = None, submissions_enabled = True, locked = False, extension_due_at = None\<rparr>"

definition moodle_says :: "moodle_outcome \<Rightarrow> presend_env" where
  "moodle_says outcome = \<lparr>moodle_configured = True, load_moodle_token = (\<lambda>_. Inr ''tok''), check_submission_status = (\<lambda>_ _. outcome),
     fromisoformat = (\<lambda>_. None)\<rparr>"

definition fresh_breaker :: moodle_breaker where
  "fresh_breaker = \<lparr>opened_by = None, answered = False\<rparr>"


text \<open>How many of a batch's checks call Moodle.\<close>

fun moodle_calls ::
  "presend_env \<Rightarrow> string \<Rightarrow> datetime \<Rightarrow> (nat \<times> int \<times> bool) list \<Rightarrow> moodle_breaker \<Rightarrow> push_db \<Rightarrow> nat" where
  "moodle_calls env worker now [] b db = 0"
| "moodle_calls env worker now ((i, prio, checked) # rest) b db =
    (if checked then of_bool (asks env worker now i b db) + moodle_calls env worker now rest (snd (check_before_send env worker now i b db)) db
     else moodle_calls env worker now rest b db)"

lemma outage_check:
  assumes "\<forall>token aid. check_submission_status env token aid \<in> {MTimeout, MUnavailable, MRateLimited}"
  shows "if asks env worker now i b db
    then opened_by b = None \<and> (\<exists>r b'. check_before_send env worker now i b db = (Some (unverified r), b') \<and> opened_by b' \<noteq> None)
    else snd (check_before_send env worker now i b db) = b \<and>
      (\<forall>c. fst (check_before_send env worker now i b db) = Some c \<longrightarrow> pc_verdict c \<noteq> VSend)"
proof -
  have m: "\<exists>r. ask_moodle env token aid due ext b = (unverified r, b\<lparr>opened_by := Some r\<rparr>)" for token aid due ext
    using assms [rule_format, of token aid] by (auto simp: ask_moodle_def open_breaker_def)
  have v: "fst (rows_verdict env db j aid now) = Some c \<Longrightarrow> pc_verdict c \<noteq> VSend" for j aid c
    by (auto simp: rows_verdict_def Let_def dest: database_verdict_not_send)
  show ?thesis
  proof (cases "get_job db i")
    case (Some j)
    show ?thesis
    proof (cases "j_status j \<noteq> PProcessing \<or> j_locked_by j \<noteq> Some worker \<or> \<not> needs_check j \<or> has_deliveries db i \<or> assignment_id j = None")
      case True
      then show ?thesis using Some by (auto simp: asks_def check_before_send_def gone_def)
    next
      case False
      then obtain aid where aid: "assignment_id j = Some aid" by auto
      obtain s due ext where r: "rows_verdict env db j aid now = (s, due, ext)" by (cases "rows_verdict env db j aid now")
      show ?thesis
      proof (cases s)
        case None
        show ?thesis
        proof (cases "load_moodle_token env (j_user j)")
          case (Inl reason)
          then show ?thesis using False None by (simp add: asks_def check_before_send_def Some aid r unverified_def)
        next
          case (Inr token)
          obtain x where "ask_moodle env token aid due ext b = (unverified x, b\<lparr>opened_by := Some x\<rparr>)" using m by blast
          then show ?thesis using False None Inr by (auto simp: asks_def check_before_send_def Some aid r unverified_def)
        qed
      next
        case (Some c)
        then show ?thesis using False v [of j aid c] by (auto simp: asks_def check_before_send_def \<open>get_job db i = Some j\<close> aid r)
      qed
    qed
  qed (simp add: asks_def check_before_send_def)
qed

text \<open>While Moodle fails for everyone, by a timeout, an unreachable server or rate limiting, the checks of a
  batch call it at most once, and not at all once the tick's breaker is open; a call leaves it open for the
  batches after. No job is let through.\<close>

theorem outage_costs_one_call:
  assumes "\<forall>token aid. check_submission_status env token aid \<in> {MTimeout, MUnavailable, MRateLimited}"
    and "start_checks env worker now claimed b db = (checks, b')"
  shows "moodle_calls env worker now claimed b db \<le> (if opened_by b = None then 1 else 0) \<and>
    (0 < moodle_calls env worker now claimed b db \<longrightarrow> opened_by b' \<noteq> None) \<and> (opened_by b \<noteq> None \<longrightarrow> opened_by b' \<noteq> None) \<and>
    (\<forall>(i, c) \<in> set checks. \<forall>x. c = Some x \<longrightarrow> pc_verdict x \<noteq> VSend)"
  using assms(2)
proof (induction claimed arbitrary: b checks)
  case Nil
  then show ?case by simp
next
  case (Cons x rest)
  obtain i prio checked where x: "x = (i, prio, checked)" by (cases x)
  show ?case
  proof (cases checked)
    case False
    then show ?thesis using Cons by (simp add: x)
  next
    case True
    obtain c b1 where c: "check_before_send env worker now i b db = (c, b1)" by fastforce
    obtain cs where cs: "start_checks env worker now rest b1 db = (cs, b')" "checks = (i, c) # cs"
      using Cons.prems True c by (auto simp: x Let_def split: prod.splits)
    note O = outage_check [OF assms(1), of worker now i b db, unfolded c]
    show ?thesis
      using Cons.IH [OF cs(1)] O True
      by (cases "asks env worker now i b db") (auto simp: x c cs(2) unverified_def)
  qed
qed

theorem outage_costs_one_call_witness:
  "moodle_calls (moodle_says MTimeout) ''w'' 10 [(5, 100, True), (5, 100, True)] fresh_breaker reminder_db \<le> 1 \<and>
   0 < moodle_calls (moodle_says MTimeout) ''w'' 10 [(5, 100, True), (5, 100, True)] fresh_breaker reminder_db"
proof -
  have "\<forall>token aid. check_submission_status (moodle_says MTimeout) token aid \<in> {MTimeout, MUnavailable, MRateLimited}"
    by (simp add: moodle_says_def)
  from outage_costs_one_call [OF this surjective_pairing, of "''w''" 10 "[(5, 100, True), (5, 100, True)]" fresh_breaker reminder_db]
  have "moodle_calls (moodle_says MTimeout) ''w'' 10 [(5, 100, True), (5, 100, True)] fresh_breaker reminder_db \<le> 1"
    by (simp add: fresh_breaker_def)
  moreover have "0 < moodle_calls (moodle_says MTimeout) ''w'' 10 [(5, 100, True), (5, 100, True)] fresh_breaker reminder_db"
    by code_simp
  ultimately show ?thesis by simp
qed


section \<open>What a submission leaves\<close>

definition reminder_waits :: "push_db \<Rightarrow> uuid \<Rightarrow> int \<Rightarrow> bool" where
  "reminder_waits db u aid \<longleftrightarrow> (\<exists>j \<in> set (jobs db). j_user j = u \<and> channel j = REMINDER_CHANNEL \<and>
     starts_with (reminder_key_prefix aid) (dedupe_key j) \<and> j_status j = PPending)"

lemma bex_update_where:
  "(\<And>r. Q (f r) = Q r) \<Longrightarrow> (\<exists>r \<in> set (update_where P f rows). Q r) = (\<exists>r \<in> set rows. Q r)"
  by (induction rows) auto

lemma nbex_update_where:
  "(\<And>r. Q r \<Longrightarrow> P r) \<Longrightarrow> (\<And>r. \<not> Q (f r)) \<Longrightarrow> \<not> (\<exists>r \<in> set (update_where P f rows). Q r)"
  by (induction rows) auto

lemma end_key_not_reminder: "\<not> starts_with (reminder_key_prefix aid) (activity_end_key dev act)"
  by (simp add: starts_with_def reminder_key_prefix_def activity_end_key_def activity_end_prefix_def)

lemma conflicting_job_key: "conflicting_job db u key = Some j \<Longrightarrow> j \<in> set (jobs db) \<and> j_user j = u \<and> dedupe_key j = key"
  by (auto simp: conflicting_job_def find_Some_iff)

lemma end_activity_frame:
  "assignments (end_activity isoformat u now t db) = assignments db"
  "sync_log (end_activity isoformat u now t db) = sync_log db"
  by (auto simp: end_activity_def Let_def modify_job_def insert_job_def split: prod.splits option.splits)

lemma fold_end_frame:
  "assignments (fold (end_activity isoformat u now) ts db) = assignments db"
  "sync_log (fold (end_activity isoformat u now) ts db) = sync_log db"
  by (induction ts arbitrary: db) (simp_all add: end_activity_frame)

lemma end_activity_reminders:
  assumes "jobs_wf db" "\<not> reminder_waits db u aid"
  shows "\<not> reminder_waits (end_activity isoformat u' now target db) u aid"
proof -
  obtain dev aid' where t: "target = (dev, aid')" by (cases target)
  let ?key = "activity_end_key dev (activity_id_for_assignment aid')"
  show ?thesis
  proof (cases "conflicting_job db u' ?key")
    case None
    have "\<not> reminder_waits (insert_job (new_job u' (Some dev) ?key SCHEDULE_CHANNEL s f p pl n) db) u aid" for s f p pl n
      using assms(2) by (auto simp: reminder_waits_def insert_job_def new_job_def channel_defs)
    then show ?thesis using None assms(2) by (auto simp: end_activity_def t Let_def split: option.splits)
  next
    case (Some j)
    note j = conflicting_job_key [OF this]
    have "dedupe_key x = ?key" if "x \<in> set (jobs db)" "j_id x = j_id j" for x
      using assms(1) j that by (metis jobs_wf_def inj_on_eq_iff distinct_map)
    then have "\<not> reminder_waits (modify_job (j_id j) (\<lambda>x. x\<lparr>fire_at := now, priority := p, j_status := PPending\<rparr>) db) u aid" for p
      using assms(2) end_key_not_reminder
      by (auto simp: reminder_waits_def modify_job_def row_update_as_update_where set_update_where split: if_splits)
    then show ?thesis using Some assms(2) by (auto simp: end_activity_def t Let_def)
  qed
qed

lemma fold_end_reminders:
  "jobs_wf db \<Longrightarrow> \<not> reminder_waits db u aid \<Longrightarrow> \<not> reminder_waits (fold (end_activity isoformat u' now) ts db) u aid"
  by (induction ts arbitrary: db) (simp_all add: end_activity_reminders grows_wf [OF end_activity_grows])

lemma payload_update_waits: "reminder_waits (modify_job i (\<lambda>x. x\<lparr>j_payload := g x\<rparr>) db) u aid = reminder_waits db u aid"
  by (simp add: reminder_waits_def modify_job_def row_update_as_update_where bex_update_where)

lemma ride_frame:
  assumes "ride db i source = Some db'"
  shows "assignments db' = assignments db \<and> sync_log db' = sync_log db \<and> reminder_waits db' u aid = reminder_waits db u aid"
proof -
  consider "db' = db" | "db' = modify_job i (\<lambda>x. x\<lparr>j_payload := AList.update ''source_device_id'' JNull (j_payload x)\<rparr>) db"
    using assms by (auto simp: ride_def split: option.splits if_splits)
  then show ?thesis
  proof cases
    case 2
    then show ?thesis using payload_update_waits by (simp add: modify_job_def)
  qed simp
qed

lemma new_trigger_frame:
  "assignments (insert_job (new_trigger u latest source now) db) = assignments db \<and>
   sync_log (insert_job (new_trigger u latest source now) db) = sync_log db \<and>
   reminder_waits (insert_job (new_trigger u latest source now) db) v aid = reminder_waits db v aid"
  by (simp add: insert_job_def reminder_waits_def new_trigger_def new_job_def REMINDER_CHANNEL_def)

lemma trigger_rounds_frame:
  "assignments (snd (trigger_rounds n db u latest source now)) = assignments db \<and>
   sync_log (snd (trigger_rounds n db u latest source now)) = sync_log db \<and>
   reminder_waits (snd (trigger_rounds n db u latest source now)) v aid = reminder_waits db v aid"
proof (induction n arbitrary: latest)
  case (Suc n)
  show ?case
  proof (cases "Option.bind latest (\<lambda>j. ride db (j_id j) source)")
    case None
    then show ?thesis
      using Suc.IH new_trigger_frame by (cases "conflicting_job db u (trigger_key u latest)") simp_all
  next
    case (Some db')
    then obtain j where j: "latest = Some j" "ride db (j_id j) source = Some db'" by (auto simp: bind_eq_Some_conv)
    from ride_frame [OF j(2)] Some show ?thesis by simp
  qed
qed simp

lemma cancel_clears_reminders:
  assumes "aid \<in> set aids"
  shows "\<not> reminder_waits (cancel_pending_reminders db u aids now) u aid"
proof -
  have "\<not> (\<exists>j \<in> set (update_where (\<lambda>j. j_user j = u \<and> channel j = REMINDER_CHANNEL \<and> j_status j = PPending \<and>
        (\<exists>aid \<in> set aids. starts_with (reminder_key_prefix aid) (dedupe_key j)))
      (\<lambda>j. j\<lparr>j_status := PCancelled, cancelled_at := Some now\<rparr>) (jobs db)).
      j_user j = u \<and> channel j = REMINDER_CHANNEL \<and> starts_with (reminder_key_prefix aid) (dedupe_key j) \<and> j_status j = PPending)"
    using assms by (intro nbex_update_where) auto
  then show ?thesis by (simp add: reminder_waits_def cancel_pending_reminders_def)
qed

lemma append_change_log: "change_log (snd (append_change lg u d)) = change_log lg @ [draft_row u (revision_seq lg) d]"
  by (simp add: append_change_def Let_def)

lemma fold_append_log: "set (change_log lg) \<subseteq> set (change_log (fold (\<lambda>a lg. snd (append_change lg u (e a))) xs lg))"
proof (induction xs arbitrary: lg)
  case (Cons x xs)
  have "set (change_log lg) \<subseteq> set (change_log (snd (append_change lg u (e x))))" by (auto simp: append_change_log)
  also note Cons.IH
  finally show ?case by simp
qed simp

lemma fold_append_entry:
  "a \<in> set xs \<Longrightarrow> \<exists>r \<in> set (change_log (fold (\<lambda>a lg. snd (append_change lg u (e a))) xs lg)).
     ch_user r = u \<and> ch_entity_type r = cd_entity_type (e a) \<and> ch_entity_id r = cd_entity_id (e a)"
proof (induction xs arbitrary: lg)
  case (Cons x xs)
  show ?case
  proof (cases "a \<in> set xs")
    case True
    then show ?thesis using Cons.IH by simp
  next
    case False
    let ?r = "draft_row u (revision_seq lg) (e a)"
    have "?r \<in> set (change_log (snd (append_change lg u (e x))))" using False Cons.prems by (simp add: append_change_log)
    then have "?r \<in> set (change_log (fold (\<lambda>a lg. snd (append_change lg u (e a))) (x # xs) lg))"
      using fold_append_log by fastforce
    then show ?thesis by (rule bexI [rotated]) (simp add: draft_row_def)
  qed
qed simp

text \<open>C38. A submission found before a send is written back: every live row of the assignment is submitted
  afterwards, each row that flipped is in the user's change log, and no reminder of it is left waiting.\<close>

theorem submission_written_back:
  assumes "jobs_wf db" and "pc_assignment check = Some aid" and "db' = record_submitted isoformat db u check now"
  shows "(\<forall>a \<in> set (assignments db'). ua_user a = u \<and> ua_moodle_assignment a = aid \<and> ua_deleted_at a = None \<longrightarrow> ua_is_submitted a) \<and>
    (\<forall>a \<in> set (assignments db). ua_user a = u \<and> ua_moodle_assignment a = aid \<and> ua_deleted_at a = None \<and> \<not> ua_is_submitted a \<longrightarrow>
       (\<exists>r \<in> set (change_log (sync_log db')). ch_user r = u \<and> ch_entity_type r = ''assignment'' \<and> ch_entity_id r = nat_str (ua_id a))) \<and>
    \<not> reminder_waits db' u aid"
proof -
  let ?f = "[(aid, \<lparr>is_submitted = True, submitted_at = pc_submitted_at check, submissions_enabled = True, locked = False, extension_due_at = None\<rparr>)]"
  let ?flipped = "filter (to_flip db u ?f) (assignments db)"
  obtain changed db1 where a: "apply_submission_status db u ?f now = (changed, db1)" by fastforce
  then have as: "assignments db1 = update_where (to_flip db u ?f) (flip_row ?f now) (assignments db)"
      and lg: "sync_log db1 = fold (\<lambda>a lg. snd (append_change lg u (flip_entry now a))) ?flipped (lock_sync_state (sync_log db) u)"
    by (auto simp: apply_submission_status_def Let_def)
  let ?c = "cancel_pending_reminders db1 u [aid] now"
  let ?e = "end_running_activities isoformat ?c u [aid] now"
  have wf: "jobs_wf ?c" using grows_wf [OF cancel_reminders_grows grows_wf [OF apply_submission_grows [OF a] assms(1)]] .
  have fr: "assignments ?c = assignments db1" "sync_log ?c = sync_log db1" by (simp_all add: cancel_pending_reminders_def)
  have w: "\<not> reminder_waits ?e u aid"
    unfolding end_running_activities_def by (rule fold_end_reminders [OF wf]) (simp add: cancel_clears_reminders)
  have e: "assignments ?e = assignments db1" "sync_log ?e = sync_log db1"
    unfolding end_running_activities_def by (simp_all add: fold_end_frame fr)
  have d: "assignments db' = assignments db1 \<and> sync_log db' = sync_log db1 \<and> \<not> reminder_waits db' u aid"
    using w e a assms(2) trigger_rounds_frame
    by (auto simp: assms(3) record_submitted_def cancel_for_submitted_def enqueue_sync_trigger_def Let_def)
  have flip: "to_flip db u ?f x \<longleftrightarrow> ua_user x = u \<and> ua_moodle_assignment x = aid \<and> ua_deleted_at x = None \<and> \<not> ua_is_submitted x" for x
    by (auto simp: to_flip_def)
  have sub: "ua_is_submitted x"
    if x: "x \<in> set (assignments db')" "ua_user x = u \<and> ua_moodle_assignment x = aid \<and> ua_deleted_at x = None" for x
  proof -
    have "x \<in> (\<lambda>r. if to_flip db u ?f r then flip_row ?f now r else r) ` set (assignments db)"
      using x(1) d by (simp add: as update_where_def)
    then obtain y where "x = (if to_flip db u ?f y then flip_row ?f now y else y)" by blast
    then show ?thesis using x(2) by (cases "to_flip db u ?f y") (auto simp: flip flip_row_def)
  qed
  have log: "\<exists>r \<in> set (change_log (sync_log db')). ch_user r = u \<and> ch_entity_type r = ''assignment'' \<and> ch_entity_id r = nat_str (ua_id x)"
    if "x \<in> set (assignments db)" "ua_user x = u \<and> ua_moodle_assignment x = aid \<and> ua_deleted_at x = None \<and> \<not> ua_is_submitted x" for x
  proof -
    have "x \<in> set ?flipped" using that flip by simp
    from fold_append_entry [OF this, of u "flip_entry now" "lock_sync_state (sync_log db) u"] show ?thesis
      using d lg by (simp add: flip_entry_def)
  qed
  show ?thesis using sub log d by blast
qed

definition found_submitted :: presend_check where
  "found_submitted = \<lparr>pc_verdict = VSubmitted, pc_reason = ''moodle'', pc_assignment = Some 77, pc_submitted_at = Some 3\<rparr>"

theorem submission_written_back_witness:
  "\<not> reminder_waits (record_submitted (\<lambda>_. ''t'') reminder_db 1 found_submitted 10) 1 77 \<and>
   (\<exists>r \<in> set (change_log (sync_log (record_submitted (\<lambda>_. ''t'') reminder_db 1 found_submitted 10))).
      ch_user r = 1 \<and> ch_entity_id r = nat_str 4)"
proof -
  have "jobs_wf reminder_db" "pc_assignment found_submitted = Some 77" by code_simp+
  note W = submission_written_back [OF this refl, of "\<lambda>_. ''t''" 1 10]
  have "open_assignment \<in> set (assignments reminder_db)" "ua_user open_assignment = 1 \<and> ua_moodle_assignment open_assignment = 77 \<and>
      ua_deleted_at open_assignment = None \<and> \<not> ua_is_submitted open_assignment" "ua_id open_assignment = 4"
    by (simp_all add: reminder_db_def open_assignment_def)
  then show ?thesis using W by (metis (no_types, lifting))
qed


section \<open>Keys that name an assignment\<close>

definition reminder_key :: "int \<Rightarrow> string \<Rightarrow> int \<Rightarrow> string" where
  "reminder_key aid offset due = reminder_key_prefix aid @ offset @ ''h:'' @ int_str due"

lemma of_char_digit: "(n :: nat) < 10 \<Longrightarrow> (of_char (char_of (48 + n) :: char) :: nat) = 48 + n"
  by (simp add: of_char_of)

lemma is_digit_char: "(n :: nat) < 10 \<Longrightarrow> is_digit (char_of (48 + n))"
  by (simp add: is_digit_def less_eq_char_def of_char_digit)

lemma nat_str_digits: "ch \<in> set (nat_str n) \<Longrightarrow> is_digit ch"
proof (induction n rule: nat_str.induct)
  case (1 n)
  then show ?case
    by (cases "n < 10") (auto simp: nat_str.simps [of n] is_digit_char)
qed

lemma digits_value_nat_str: "digits_value (nat_str n) = n"
proof (induction n rule: nat_str.induct)
  case (1 n)
  then show ?case
    by (cases "n < 10") (simp_all add: nat_str.simps [of n] digits_value_def of_char_digit)
qed

lemma nat_str_inj: "nat_str m = nat_str n \<Longrightarrow> m = n"
  by (metis digits_value_nat_str)

lemma digit_chars: "\<not> is_digit (CHR ''-'')" "\<not> is_digit (CHR '':'')"
  by (simp_all add: is_digit_def less_eq_char_def)

lemma nat_str_not_Nil [simp]: "nat_str n \<noteq> []"
  by (simp add: nat_str.simps [of n])

lemma int_str_inj:
  assumes "int_str a = int_str b"
  shows "a = b"
proof -
  have h: "hd (nat_str n) \<noteq> CHR ''-''" for n
    using nat_str_digits [of "hd (nat_str n)" n] digit_chars(1) by auto
  show ?thesis
  proof (cases "a < 0 \<longleftrightarrow> b < 0")
    case True
    then show ?thesis using assms by (auto simp: int_str_def dest!: nat_str_inj split: if_splits)
  next
    case False
    then show ?thesis using assms h by (auto simp: int_str_def split: if_splits) (metis list.sel(1))+
  qed
qed

lemma int_str_no_colon: "CHR '':'' \<notin> set (int_str a)"
  using nat_str_digits digit_chars by (auto simp: int_str_def)

lemma split_at_colon:
  assumes "int_str a @ CHR '':'' # r = int_str b @ CHR '':'' # s"
  shows "a = b"
proof -
  have "takeWhile (\<lambda>c. c \<noteq> CHR '':'') (int_str x @ CHR '':'' # t) = int_str x" for x t
    using int_str_no_colon [of x] by (subst takeWhile_append2) auto
  then show ?thesis using assms by (metis int_str_inj)
qed

lemma starts_with_append: "starts_with p (p @ s)"
  by (simp add: starts_with_def)

lemma starts_withE: "starts_with p s \<Longrightarrow> (\<And>r. s = p @ r \<Longrightarrow> P) \<Longrightarrow> P"
  by (metis append_take_drop_id starts_with_def)

text \<open>The prefix an assignment's reminders are cancelled by matches the keys of that assignment only,
  whatever their offset and due time: assignment 12 never cancels a reminder of assignment 123.\<close>

theorem reminder_prefix_exact:
  "starts_with (reminder_key_prefix a) (reminder_key b offset due) \<longleftrightarrow> a = b"
proof
  assume "starts_with (reminder_key_prefix a) (reminder_key b offset due)"
  then obtain r where "reminder_key b offset due = reminder_key_prefix a @ r" by (rule starts_withE)
  then have "int_str a @ CHR '':'' # (''reminder_'' @ r) = int_str b @ CHR '':'' # (''reminder_'' @ offset @ ''h:'' @ int_str due)"
    by (simp add: reminder_key_def reminder_key_prefix_def)
  then show "a = b" by (rule split_at_colon)
qed (simp add: reminder_key_def starts_with_append)


section \<open>The chain of sync triggers\<close>

definition trigger_prefix :: "uuid \<Rightarrow> string" where
  "trigger_prefix u = ''sync_trigger:'' @ uuid_text u @ '':after:''"

definition is_trigger :: "uuid \<Rightarrow> push_job \<Rightarrow> bool" where
  "is_trigger u j \<longleftrightarrow> j_user j = u \<and> scenario j = ''sync_trigger'' \<and> dedupe_active j"

text \<open>A job that holds a trigger's key is a trigger, fires at least the gap after the trigger it names, and
  names one that exists.\<close>

definition trigger_chain :: "push_db \<Rightarrow> uuid \<Rightarrow> bool" where
  "trigger_chain db u \<longleftrightarrow> 0 < push_job_seq db \<and>
    (\<forall>k \<in> set (jobs db). j_user k = u \<and> dedupe_active k \<longrightarrow>
       (dedupe_key k = trigger_prefix u @ nat_str 0 \<longrightarrow> scenario k = ''sync_trigger'') \<and>
       (starts_with (trigger_prefix u) (dedupe_key k) \<longrightarrow> digits_value (remove_prefix (trigger_prefix u) (dedupe_key k)) < push_job_seq db) \<and>
       (\<forall>l \<in> set (jobs db). is_trigger u l \<and> dedupe_key k = trigger_prefix u @ nat_str (j_id l) \<longrightarrow>
          scenario k = ''sync_trigger'' \<and> fire_at l + SYNC_TRIGGER_GAP \<le> fire_at k))"

lemma trigger_key_prefix: "trigger_key u latest = trigger_prefix u @ nat_str (case latest of None \<Rightarrow> 0 | Some j \<Rightarrow> j_id j)"
  by (simp add: trigger_key_def trigger_prefix_def)

lemma active_triggers_set: "set (active_triggers db u) = {j \<in> set (jobs db). is_trigger u j}"
  by (auto simp: active_triggers_def is_trigger_def)

lemma newest_order: "transp newest_first" "irreflp newest_first"
  by (auto simp: transp_def irreflp_def newest_first_def)

lemma newest_trigger:
  "first_by newest_first (active_triggers db u) = Some j \<Longrightarrow> j \<in> set (jobs db) \<and> is_trigger u j \<and>
     (\<forall>k \<in> set (jobs db). is_trigger u k \<longrightarrow> fire_at k \<le> fire_at j)"
  "first_by newest_first (active_triggers db u) = None \<Longrightarrow> k \<in> set (jobs db) \<Longrightarrow> \<not> is_trigger u k"
proof -
  show "j \<in> set (jobs db) \<and> is_trigger u j \<and> (\<forall>k \<in> set (jobs db). is_trigger u k \<longrightarrow> fire_at k \<le> fire_at j)"
    if "first_by newest_first (active_triggers db u) = Some j"
    using first_by_SomeD [OF that] by (auto simp: active_triggers_set newest_first_def not_less)
  show "\<not> is_trigger u k" if "first_by newest_first (active_triggers db u) = None" "k \<in> set (jobs db)"
  proof
    assume "is_trigger u k"
    then have "active_triggers db u \<noteq> []" using that(2) active_triggers_set [of db u] by force
    then show False using first_by_exists [OF newest_order] that(1) by fastforce
  qed
qed

lemma gap_pos: "0 < SYNC_TRIGGER_GAP"
  by (simp add: SYNC_TRIGGER_GAP_def minutes_def)

lemma no_conflict:
  assumes "trigger_chain db u" "latest = first_by newest_first (active_triggers db u)"
  shows "conflicting_job db u (trigger_key u latest) = None"
proof (rule ccontr)
  assume "conflicting_job db u (trigger_key u latest) \<noteq> None"
  then obtain k where k: "k \<in> set (jobs db)" "j_user k = u" "dedupe_active k" "dedupe_key k = trigger_key u latest"
    unfolding conflicting_job_def find_None_iff by blast
  note C = assms(1) [unfolded trigger_chain_def, THEN conjunct2, rule_format, OF k(1)]
  show False
  proof (cases latest)
    case None
    then have "is_trigger u k" using C k by (simp add: trigger_key_prefix is_trigger_def)
    then show False using newest_trigger(2) None assms(2) k(1) by metis
  next
    case (Some j)
    then have j: "j \<in> set (jobs db)" "is_trigger u j" "\<forall>k \<in> set (jobs db). is_trigger u k \<longrightarrow> fire_at k \<le> fire_at j"
      using newest_trigger(1) [of db u j] assms(2) by auto
    then have "is_trigger u k" "fire_at j + SYNC_TRIGGER_GAP \<le> fire_at k"
      using C j k Some by (auto simp: trigger_key_prefix is_trigger_def)
    then show False using j(3) k(1) gap_pos by fastforce
  qed
qed

lemma enqueue_cases:
  assumes "trigger_chain db u" "latest = first_by newest_first (active_triggers db u)"
  shows "enqueue_sync_trigger db u source now =
    (case Option.bind latest (\<lambda>j. ride db (j_id j) source) of
       Some db' \<Rightarrow> (None, db')
     | None \<Rightarrow> (Some (push_job_seq db), insert_job (new_trigger u latest source now) db))"
  using no_conflict [OF assms] by (simp add: enqueue_sync_trigger_def MAX_ROUNDS_def numeral_eq_Suc assms(2) split: option.splits)

lemma ball_update_where:
  "(\<And>r. Q (f r) = Q r) \<Longrightarrow> (\<forall>r \<in> set (update_where P f rows). Q r) = (\<forall>r \<in> set rows. Q r)"
  by (induction rows) auto

lemma chain_payload: "trigger_chain (modify_job i (\<lambda>x. x\<lparr>j_payload := g x\<rparr>) db) u = trigger_chain db u"
  by (simp add: trigger_chain_def modify_job_def row_update_as_update_where ball_update_where is_trigger_def dedupe_active_def)

lemma chain_ride: "ride db i source = Some db' \<Longrightarrow> trigger_chain db' u = trigger_chain db u"
  using chain_payload [of i "\<lambda>x. AList.update ''source_device_id'' JNull (j_payload x)" db u]
  by (auto simp: ride_def split: option.splits if_splits)

lemma remove_trigger_prefix: "digits_value (remove_prefix (trigger_prefix u) (trigger_prefix u @ nat_str n)) = n"
  by (simp add: remove_prefix_def starts_with_append digits_value_nat_str)

lemma chain_insert:
  assumes "jobs_wf db" "trigger_chain db u" "latest = first_by newest_first (active_triggers db u)"
  shows "trigger_chain (insert_job (new_trigger u latest source now) db) u"
proof -
  let ?n = "new_trigger u latest source now (push_job_seq db)" let ?id = "case latest of None \<Rightarrow> 0 | Some j \<Rightarrow> j_id j"
  have seq: "0 < push_job_seq db" using assms(2) by (simp add: trigger_chain_def)
  have n: "j_id ?n = push_job_seq db" "j_user ?n = u" "dedupe_key ?n = trigger_prefix u @ nat_str ?id" "scenario ?n = ''sync_trigger''"
      "\<And>j. latest = Some j \<Longrightarrow> fire_at j + SYNC_TRIGGER_GAP \<le> fire_at ?n"
    by (auto simp: new_trigger_def new_job_def trigger_key_prefix)
  have id: "?id < push_job_seq db"
    using newest_trigger(1) [of db u] assms(1,3) seq by (auto simp: jobs_wf_def split: option.splits)
  have C: "(dedupe_key k = trigger_prefix u @ nat_str 0 \<longrightarrow> scenario k = ''sync_trigger'') \<and>
       (starts_with (trigger_prefix u) (dedupe_key k) \<longrightarrow> digits_value (remove_prefix (trigger_prefix u) (dedupe_key k)) < push_job_seq db) \<and>
       (\<forall>l \<in> set (jobs db). is_trigger u l \<and> dedupe_key k = trigger_prefix u @ nat_str (j_id l) \<longrightarrow>
          scenario k = ''sync_trigger'' \<and> fire_at l + SYNC_TRIGGER_GAP \<le> fire_at k)"
    if "k \<in> set (jobs db)" "j_user k = u" "dedupe_active k" for k
    using assms(2) that by (simp add: trigger_chain_def)
  have old_new: "dedupe_key k \<noteq> trigger_prefix u @ nat_str (push_job_seq db)"
    if "k \<in> set (jobs db)" "j_user k = u" "dedupe_active k" for k
    using C [OF that] remove_trigger_prefix [of u "push_job_seq db"] starts_with_append by (metis nless_le)
  have new_old: "fire_at l + SYNC_TRIGGER_GAP \<le> fire_at ?n"
    if l: "l \<in> set (jobs db)" "is_trigger u l" "nat_str ?id = nat_str (j_id l)" for l
  proof -
    obtain j where j: "latest = Some j" using newest_trigger(2) [OF _ l(1)] l(2) assms(3) by (cases latest) auto
    then have "j \<in> set (jobs db)" using newest_trigger(1) assms(3) by simp
    moreover have "j_id j = j_id l" using nat_str_inj [OF l(3)] j by simp
    ultimately have "j = l" using assms(1) l(1) by (metis jobs_wf_def inj_on_eq_iff distinct_map)
    then show ?thesis using n(5) j by simp
  qed
  have self: "nat_str ?id \<noteq> nat_str (push_job_seq db)" using id nat_str_inj by fastforce
  have v: "starts_with (trigger_prefix u) (dedupe_key ?n) \<longrightarrow> digits_value (remove_prefix (trigger_prefix u) (dedupe_key ?n)) < Suc (push_job_seq db)"
    using id remove_trigger_prefix by (simp add: n(3))
  show ?thesis
    unfolding trigger_chain_def
    using C old_new new_old self v n seq by (auto simp: insert_job_def less_Suc_eq)
qed


text \<open>A change that asks a user's devices to sync is never lost and never asks too often: it rides on a
  trigger that is still waiting, or files one that fires no sooner than the gap after every trigger waiting,
  going out or sent. The rounds of the loop are never used up.\<close>

theorem sync_trigger_paced:
  assumes "jobs_wf db" and "trigger_chain db u" and "enqueue_sync_trigger db u source now = (filed, db')"
  shows "(case filed of
      None \<Rightarrow> (\<exists>j \<in> set (jobs db). is_trigger u j \<and> j_status j = PPending \<and> \<not> has_deliveries db (j_id j) \<and> ride db (j_id j) source = Some db')
    | Some i \<Rightarrow> (\<exists>j. get_job db' i = Some j \<and> is_trigger u j \<and> j_status j = PPending \<and> now \<le> fire_at j \<and>
        (\<forall>k \<in> set (jobs db). is_trigger u k \<longrightarrow> fire_at k + SYNC_TRIGGER_GAP \<le> fire_at j))) \<and>
    trigger_chain db' u"
proof -
  define latest where "latest = first_by newest_first (active_triggers db u)"
  note E = enqueue_cases [OF assms(2) latest_def, of source now, unfolded assms(3)]
  show ?thesis
  proof (cases "Option.bind latest (\<lambda>j. ride db (j_id j) source)")
    case None
    then have e: "filed = Some (push_job_seq db)" "db' = insert_job (new_trigger u latest source now) db" using E by auto
    let ?j = "new_trigger u latest source now (push_job_seq db)"
    have "get_job db (push_job_seq db) = None" using assms(1) by (auto simp: get_job_None job_ids_def jobs_wf_def)
    then have g: "get_job db' (push_job_seq db) = Some ?j"
      by (simp add: e(2) get_job_def insert_job_def new_trigger_def new_job_def)
    have "fire_at k + SYNC_TRIGGER_GAP \<le> fire_at ?j" if k: "k \<in> set (jobs db)" "is_trigger u k" for k
    proof -
      obtain l where l: "latest = Some l" using newest_trigger(2) [OF _ k(1)] k(2) latest_def by (cases latest) auto
      then have "fire_at k \<le> fire_at l" using newest_trigger(1) [of db u l] k latest_def by simp
      then show ?thesis using l by (simp add: new_trigger_def new_job_def le_max_iff_disj)
    qed
    moreover have "is_trigger u ?j" "j_status ?j = PPending" "now \<le> fire_at ?j"
      by (auto simp: new_trigger_def new_job_def is_trigger_def dedupe_active_def split: option.splits)
    ultimately show ?thesis using g chain_insert [OF assms(1,2) latest_def, of source now] by (simp add: e)
  next
    case (Some d)
    then have e: "filed = None" "db' = d" using E by auto
    obtain j where j: "latest = Some j" "ride db (j_id j) source = Some d" using Some by (auto simp: bind_eq_Some_conv)
    have m: "j \<in> set (jobs db)" "is_trigger u j" using newest_trigger(1) [of db u j] j(1) latest_def by auto
    have "get_job db (j_id j) = Some j" using m assms(1) by (auto simp: get_job_def jobs_wf_def intro: row_get_in_set)
    then have "j_status j = PPending" "\<not> has_deliveries db (j_id j)" using j(2) by (auto simp: ride_def split: if_splits)
    then show ?thesis using m j(2) chain_ride [OF j(2), of u] assms(2) by (auto simp: e)
  qed
qed

definition sent_trigger :: push_job where
  "sent_trigger = (new_trigger 1 None None 0 5)\<lparr>j_status := PSent\<rparr>"

theorem sync_trigger_paced_witness:
  "\<exists>j. get_job (snd (enqueue_sync_trigger (reminder_db\<lparr>jobs := [sent_trigger]\<rparr>) 1 None (minutes 3))) 6 = Some j \<and>
     fire_at sent_trigger + SYNC_TRIGGER_GAP \<le> fire_at j"
proof -
  have "jobs_wf (reminder_db\<lparr>jobs := [sent_trigger]\<rparr>)" "trigger_chain (reminder_db\<lparr>jobs := [sent_trigger]\<rparr>) 1" by code_simp+
  note P = sync_trigger_paced [OF this surjective_pairing, of None "minutes 3"]
  have f: "fst (enqueue_sync_trigger (reminder_db\<lparr>jobs := [sent_trigger]\<rparr>) 1 None (minutes 3)) = Some 6" by code_simp
  have "is_trigger 1 sent_trigger" "sent_trigger \<in> set (jobs (reminder_db\<lparr>jobs := [sent_trigger]\<rparr>))" by code_simp simp
  moreover obtain j where "get_job (snd (enqueue_sync_trigger (reminder_db\<lparr>jobs := [sent_trigger]\<rparr>) 1 None (minutes 3))) 6 = Some j"
      "\<forall>k \<in> set (jobs (reminder_db\<lparr>jobs := [sent_trigger]\<rparr>)). is_trigger 1 k \<longrightarrow> fire_at k + SYNC_TRIGGER_GAP \<le> fire_at j"
    using P unfolding f option.case by blast
  ultimately show ?thesis by blast
qed

end
