(* ===== verification/PushDelivery.thy ===== *)
theory PushDelivery
  imports PushQueue Presend
begin

text \<open>
  What the pipeline does with one claimed push job, \<^verbatim>\<open>server/push/pipeline.py\<close>
  (\<open>_process_job\<close>, \<open>_held_back\<close>, \<open>_materialize\<close>, \<open>_held_by_course_changes\<close>, \<open>_countdown_starts\<close>,
  \<open>_deliver_round\<close>, \<open>_send_one\<close>), with the helpers it calls in \<^verbatim>\<open>push/client_versions.py\<close>,
  \<^verbatim>\<open>push/fcm_client.py\<close> (\<open>is_dead_fcm_token\<close>) and the check before a send of the theory \<open>Presend\<close>.

  \<open>push_env\<close> collects what a round asks of other parts: the check's own environment, the school's zone,
  the course changes (\<^verbatim>\<open>push/course_reminders.py\<close>, \<^verbatim>\<open>push/class_starts.py\<close>; \<open>None\<close> when it raises), the session
  state of a device (\<^verbatim>\<open>push/session_reauth.py\<close>), the copy in the recipient's language, the request
  builder (false when it raises) and the provider (\<open>Inr\<close> the text of an exception). The clock readings of
  one job are \<open>job_clock\<close>. An exception in a round is \<open>None\<close>: the transaction rolls back and
  \<open>process_job\<close> books the crash.
\<close>

section \<open>Data\<close>

record send_result =
  sr_success :: bool
  sr_status :: string
  sr_description :: "string option"
  sr_notification_id :: "string option"

record push_env =
  presend :: presend_env
  isoformat :: "datetime \<Rightarrow> string"
  local_date :: "datetime \<Rightarrow> int"
  recheck_class :: "push_job \<Rightarrow> datetime \<Rightarrow> (payload option \<times> timedelta) option"
  announced_while_sessionless :: "uuid \<Rightarrow> datetime \<Rightarrow> datetime option"
  send_after :: "datetime \<Rightarrow> datetime \<Rightarrow> datetime option"
  build_copy :: "push_job \<Rightarrow> string option \<Rightarrow> payload"
  builds_request :: "push_job \<Rightarrow> push_delivery \<Rightarrow> push_token \<Rightarrow> payload \<Rightarrow> bool"
  send :: "push_job \<Rightarrow> push_delivery \<Rightarrow> push_token \<Rightarrow> payload \<Rightarrow> send_result + string"
  parse_uuid :: "string \<Rightarrow> uuid option"

record job_clock =
  held_now :: datetime
  materialize_now :: datetime
  class_now :: datetime
  round_now :: datetime
  crash_now :: datetime

section \<open>Small predicates\<close>

definition is_dead_fcm_token :: "string option \<Rightarrow> string option \<Rightarrow> bool" where
  "is_dead_fcm_token status description =
    (let s = py_upper (case status of None \<Rightarrow> [] | Some x \<Rightarrow> x);
         named = sublist ''registration token'' (py_lower (case description of None \<Rightarrow> [] | Some x \<Rightarrow> x))
     in s \<in> set [''UNREGISTERED'', ''SENDER_ID_MISMATCH''] \<or> s = ''INVALID_ARGUMENT'' \<and> named)"

definition is_unregistered :: "string option \<Rightarrow> string option \<Rightarrow> bool" where
  "is_unregistered status description =
    (let s = py_lower (case status of None \<Rightarrow> [] | Some x \<Rightarrow> x);
         d = py_lower (case description of None \<Rightarrow> [] | Some x \<Rightarrow> x)
     in s = ''410'' \<or> d \<in> set [''baddevicetoken'', ''unregistered''] \<or> is_dead_fcm_token status description)"

text \<open>Python's truth of a JSON value; \<^verbatim>\<open>str(x or '').strip()\<close> is empty only for a blank text or a false value.\<close>

definition truthy :: "json \<Rightarrow> bool" where
  "truthy j = (case j of JNull \<Rightarrow> False | JBool b \<Rightarrow> b | JInt n \<Rightarrow> n \<noteq> 0 | JFloat r \<Rightarrow> r \<noteq> 0 | JStr s \<Rightarrow> s \<noteq> [] | JList xs \<Rightarrow> xs \<noteq> [] | JObj xs \<Rightarrow> xs \<noteq> [])"

definition is_text :: "json \<Rightarrow> bool" where
  "is_text j = (case j of JStr s \<Rightarrow> True | _ \<Rightarrow> False)"

definition readable :: "json \<Rightarrow> bool" where
  "readable j = (case j of JStr s \<Rightarrow> py_strip s \<noteq> [] | _ \<Rightarrow> truthy j)"

definition has_copy :: "payload \<Rightarrow> bool" where
  "has_copy p \<longleftrightarrow> readable (payload_get p ''title'') \<and> readable (payload_get p ''body'')"

text \<open>\<open>parse_app_version\<close>: the leading dotted integers of the stripped text.\<close>

function parse_dotted :: "string \<Rightarrow> nat list" where
  "parse_dotted s =
    (let ds = takeWhile is_digit s; rest = dropWhile is_digit s in
     if ds = [] then []
     else digits_value ds # (case rest of
        ch # r \<Rightarrow> if ch = CHR ''.'' \<and> r \<noteq> [] \<and> is_digit (hd r) then parse_dotted r else []
      | [] \<Rightarrow> []))"
  by pat_completeness auto
termination
proof (relation "measure length", goal_cases)
  case (2 s ds rest ch r)
  then have "Suc (length r) \<le> length s" by (metis length_Cons length_dropWhile_le)
  then show ?case by simp
qed simp

definition parse_app_version :: "string option \<Rightarrow> nat list option" where
  "parse_app_version raw = (case raw of None \<Rightarrow> None | Some s \<Rightarrow>
     (case parse_dotted (py_strip s) of [] \<Rightarrow> None | v \<Rightarrow> Some v))"

fun version_less :: "nat list \<Rightarrow> nat list \<Rightarrow> bool" where
  "version_less xs [] = False"
| "version_less [] (y # ys) = True"
| "version_less (x # xs) (y # ys) = (x < y \<or> x = y \<and> version_less xs ys)"

definition schedules_reminders_locally :: "string \<Rightarrow> string option \<Rightarrow> bool" where
  "schedules_reminders_locally platform app_version =
    (if platform \<notin> set APPLE_HANDHELD_PLATFORMS then True
     else (case parse_app_version app_version of None \<Rightarrow> True | Some v \<Rightarrow> version_less v [2, 1, 0]))"

section \<open>Reading the tables\<close>

definition classes_quiet :: "push_db \<Rightarrow> uuid \<Rightarrow> int \<Rightarrow> string option" where
  "classes_quiet db u day =
    (if outside_term day (load_term_dates db) then Some ''outside_term''
     else let covering = map h_id (filter (\<lambda>h. h_start h \<le> day \<and> day \<le> h_end h) (holidays db)) in
       if covering = [] then None
       else if \<exists>x \<in> set (holiday_overrides db). ho_user x = u \<and> ho_holiday x \<in> set covering \<and> ho_notify x
         then None else Some ''holiday'')"

text \<open>\<^verbatim>\<open>max(sent_at)\<close> over the sent deliveries of the user's other sync triggers within the gap.\<close>

definition last_sync_trigger_sent :: "push_db \<Rightarrow> push_job \<Rightarrow> datetime \<Rightarrow> datetime option" where
  "last_sync_trigger_sent db j now =
    (let others = map j_id (filter (\<lambda>k. j_user k = j_user j \<and> scenario k = ''sync_trigger'' \<and> j_id k \<noteq> j_id j \<and> dedupe_active k) (jobs db));
         times = [t. d \<leftarrow> deliveries db, pd_job d \<in> set others \<and> pd_status d = DSent,
                     Some t \<leftarrow> [pd_sent_at d], now - SYNC_TRIGGER_GAP < t]
     in if times = [] then None else Some (fold max times (hd times)))"

text \<open>The devices among \<open>ds\<close> whose end job for the activity still waits to fire.\<close>

definition registered :: "push_db \<Rightarrow> uuid \<Rightarrow> uuid list \<Rightarrow> string \<Rightarrow> datetime \<Rightarrow> uuid list" where
  "registered db u ds act now =
    filter (\<lambda>d. \<exists>j \<in> set (jobs db). j_user j = u \<and> dedupe_key j = activity_end_key d act \<and>
      j_status j = PPending \<and> now < fire_at j) ds"

definition activity_already_registered :: "push_db \<Rightarrow> push_job \<Rightarrow> string \<Rightarrow> datetime \<Rightarrow> bool" where
  "activity_already_registered db j act now =
    (case j_device j of None \<Rightarrow> False | Some d \<Rightarrow> registered db (j_user j) [d] act now \<noteq> [])"

text \<open>\<open>_countdown_starts\<close>: per device the time its countdown start went out, split into the devices
  whose app registered the activity and those still waiting.\<close>

definition countdown_starts ::
  "push_db \<Rightarrow> push_job \<Rightarrow> uuid list \<Rightarrow> timedelta \<Rightarrow> datetime \<Rightarrow> (uuid \<times> datetime) list \<times> (uuid \<times> datetime) list" where
  "countdown_starts db j device_ids window now =
    (case assignment_id j of
       None \<Rightarrow> ([], [])
     | Some a \<Rightarrow>
       if window = 0 \<or> device_ids = [] then ([], [])
       else
         let source_id = int_str a;
             key = (\<lambda>d. schedule_key d source_id ''assignmentUrgent'');
             keys = map key device_ids;
             starts = map j_id (filter (\<lambda>k. j_user k = j_user j \<and> dedupe_key k \<in> set keys \<and> dedupe_active k) (jobs db));
             sent = [(d, t). x \<leftarrow> deliveries db, pd_job x \<in> set starts \<and> pd_status x = DSent,
                       Some d \<leftarrow> [pd_device x], Some t \<leftarrow> [pd_sent_at x], fire_at j - window \<le> t];
             sent' = map_of (rev sent);
             claimed = filter (\<lambda>d. \<exists>k \<in> set (jobs db). j_user k = j_user j \<and> dedupe_key k = key d \<and>
                 j_status k = PProcessing \<and> fire_at j - window \<le> fire_at k) device_ids;
             in_flight = map (\<lambda>d. (d, now)) (filter (\<lambda>d. d \<notin> fst ` set sent) claimed);
             who = remdups (map fst sent);
             reg = registered db (j_user j) who (activity_id source_id ''assignmentUrgent'') now
         in (map (\<lambda>d. (d, the (sent' d))) (filter (\<lambda>d. d \<in> set reg) who),
             map (\<lambda>d. (d, the (sent' d))) (filter (\<lambda>d. d \<notin> set reg) who) @ in_flight))"


text \<open>\<open>_class_day\<close>: the day of the countdown's target, or of the fire time when no calendar holds it.\<close>

definition class_day :: "push_env \<Rightarrow> push_job \<Rightarrow> int" where
  "class_day env j = local_date env
    (case to_unix_seconds (presend env) (payload_get (j_payload j) ''countdownTarget'') of
       Some t \<Rightarrow> if - 62135596800 \<le> t \<and> t \<le> 253402300799 then seconds t else fire_at j
     | None \<Rightarrow> fire_at j)"

section \<open>Settling a job\<close>

definition settle :: "push_job_status \<Rightarrow> string \<Rightarrow> datetime \<Rightarrow> push_job \<Rightarrow> push_job" where
  "settle s err now j = unlock (j\<lparr>j_status := s, j_last_error := Some err, cancelled_at := (if s = PCancelled then Some now else cancelled_at j)\<rparr>)"

text \<open>Back to pending, with no attempt spent.\<close>

definition put_back :: "datetime \<Rightarrow> push_job \<Rightarrow> push_job" where
  "put_back until j = unlock (j\<lparr>j_status := PPending, available_at := until\<rparr>)"

definition held_by_course_changes :: "push_env \<Rightarrow> datetime \<Rightarrow> push_job \<Rightarrow> bool \<times> push_job" where
  "held_by_course_changes env now j =
    (case recheck_class env j now of
       None \<Rightarrow> (True, settle PCancelled ''unverified_before_send'' now j)
     | Some (None, _) \<Rightarrow> (True, settle PCancelled ''class_changed'' now j)
     | Some (Some p, delay) \<Rightarrow>
         if now < fire_at j + delay then (True, put_back (min (fire_at j + delay) (now + HELD_START_RECHECK)) j)
         else (False, j\<lparr>j_payload := p\<rparr>))"

definition held_back ::
  "push_env \<Rightarrow> push_settings \<Rightarrow> datetime \<Rightarrow> nat \<Rightarrow> push_job \<Rightarrow> presend_check \<Rightarrow> push_db \<Rightarrow> bool \<times> push_db" where
  "held_back env st now i j check0 db =
    (let grace_end = fire_at j + minutes (push_presend_grace_minutes st);
         check1 = (if pc_verdict check0 = VSend
                   then (case recheck_rows (presend env) db j now of Some c \<Rightarrow> c | None \<Rightarrow> check0) else check0);
         check = (if pc_verdict check1 = VSend \<and> grace_end \<le> now
                  then \<lparr>pc_verdict = VGone, pc_reason = ''past_grace'', pc_assignment = pc_assignment check1, pc_submitted_at = None\<rparr> else check1)
     in case pc_verdict check of
          VSend \<Rightarrow> (False, db)
        | VSubmitted \<Rightarrow> (True, record_submitted (isoformat env)
            (modify_job i (settle PCancelled ''submitted_before_send'' now) db) (j_user j) check now)
        | VGone \<Rightarrow> (True, modify_job i (settle PCancelled ''stale_before_send'' now) db)
        | VUnverified \<Rightarrow> (True, modify_job i
            (if now < grace_end then put_back (now + seconds (push_presend_retry_seconds st))
             else settle PCancelled ''unverified_before_send'' now) db))"

section \<open>Materialising the deliveries\<close>

definition is_activity_job :: "push_job \<Rightarrow> bool" where
  "is_activity_job j \<longleftrightarrow> channel j = SCHEDULE_CHANNEL"

definition is_activity_end :: "push_job \<Rightarrow> bool" where
  "is_activity_end j \<longleftrightarrow> is_activity_job j \<and> payload_get (j_payload j) ''kind'' = JStr ''live_activity_end''"

definition target_token_kind :: "push_job \<Rightarrow> string" where
  "target_token_kind j = (if is_activity_end j then ''live_activity_update'' else if is_activity_job j then ''push_to_start'' else ''standard'')"

definition SESSION_REAUTH_REASON :: string where "SESSION_REAUTH_REASON = ''session''"

definition is_session_reauth :: "push_job \<Rightarrow> bool" where
  "is_session_reauth j \<longleftrightarrow> scenario j = REAUTH_SCENARIO \<and> payload_get (j_payload j) ''reason'' = JStr SESSION_REAUTH_REASON"

definition is_assignment_reminder :: "push_job \<Rightarrow> bool" where
  "is_assignment_reminder j \<longleftrightarrow> channel j = REMINDER_CHANNEL"

text \<open>The bulletin's target devices, \<^verbatim>\<open>[uuid.UUID(d) for d in target_device_ids]\<close>: \<open>Some None\<close> when the job names
  none, \<open>None\<close> when the list cannot be read.\<close>

definition text_items :: "json \<Rightarrow> string list option" where
  "text_items v = (case v of
     JList xs \<Rightarrow> those (map (\<lambda>x. case x of JStr s \<Rightarrow> Some s | _ \<Rightarrow> None) xs)
   | JStr s \<Rightarrow> Some (map (\<lambda>ch. [ch]) s)
   | JObj kvs \<Rightarrow> Some (map fst kvs)
   | _ \<Rightarrow> None)"

definition bulletin_targets :: "push_env \<Rightarrow> push_job \<Rightarrow> uuid list option option" where
  "bulletin_targets env j =
    (case payload_get (j_payload j) ''target_device_ids'' of
       JNull \<Rightarrow> Some None
     | v \<Rightarrow> map_option Some (Option.bind (text_items v) (\<lambda>ts. those (map (parse_uuid env) ts))))"

text \<open>The token query: the user's live tokens of the kind on devices that are not deleted, of the job's device
  when it has one, with the conditions of the job's channel.\<close>

definition channel_allows :: "uuid list option \<Rightarrow> push_job \<Rightarrow> push_token \<Rightarrow> push_device \<Rightarrow> bool" where
  "channel_allows targets j t d \<longleftrightarrow>
    (is_activity_end j \<longrightarrow> payload_get (j_payload j) ''activity_id'' = JStr (tk_scope_key t)) \<and>
    (scenario j = ''sync_trigger'' \<longrightarrow> cloud_sync_enabled d) \<and>
    (is_assignment_reminder j \<longrightarrow> cloud_sync_enabled d \<and> sync_assignment_reminders d \<and> pv_platform d \<in> set APPLE_HANDHELD_PLATFORMS) \<and>
    (channel j = COURSE_CHANNEL \<longrightarrow> pv_platform d \<in> set APPLE_HANDHELD_PLATFORMS) \<and>
    (channel j = BULLETIN_CHANNEL \<longrightarrow> bulletin_push_enabled d \<and> (case targets of None \<Rightarrow> True | Some ids \<Rightarrow> pv_id d \<in> set ids))"

definition token_rows :: "push_db \<Rightarrow> uuid list option \<Rightarrow> push_job \<Rightarrow> datetime \<Rightarrow> (push_token \<times> push_device) list" where
  "token_rows db targets j now =
    [(t, d). t \<leftarrow> tokens db, tk_kind t = target_token_kind j \<and> token_live now t,
       d \<leftarrow> devices db, pv_id d = tk_device t \<and> pv_user d = j_user j \<and> pv_deleted_at d = None \<and>
         (case j_device j of None \<Rightarrow> True | Some x \<Rightarrow> pv_id d = x) \<and> channel_allows targets j t d]"

text \<open>The loop over the rows: which get a delivery, which are left out for the countdown.\<close>

definition left_out_rows :: "(uuid \<times> datetime) list \<Rightarrow> push_job \<Rightarrow> push_token \<times> push_device \<Rightarrow> bool" where
  "left_out_rows covered j td \<longleftrightarrow> pv_platform (snd td) \<noteq> ''macos'' \<and>
    \<not> (is_assignment_reminder j \<and> schedules_reminders_locally (pv_platform (snd td)) (pv_app_version (snd td))) \<and>
    pv_id (snd td) \<in> fst ` set covered"

definition takes_delivery :: "(uuid \<times> datetime) list \<Rightarrow> push_job \<Rightarrow> push_token \<times> push_device \<Rightarrow> bool" where
  "takes_delivery covered j td \<longleftrightarrow> pv_platform (snd td) \<noteq> ''macos'' \<and>
    \<not> (is_assignment_reminder j \<and> schedules_reminders_locally (pv_platform (snd td)) (pv_app_version (snd td))) \<and>
    pv_id (snd td) \<notin> fst ` set covered \<and>
    \<not> (scenario j = ''sync_trigger'' \<and> payload_get (j_payload j) ''source_device_id'' = JStr (uuid_text (pv_id (snd td))))"

definition new_delivery :: "push_job \<Rightarrow> datetime \<Rightarrow> push_token \<Rightarrow> nat \<Rightarrow> push_delivery" where
  "new_delivery j now t n = \<lparr>pd_id = n, pd_job = j_id j, pd_user = j_user j, pd_device = Some (tk_device t), pd_token = Some (tk_id t),
     provider = tk_provider t, pd_token_kind = tk_kind t, pd_token_hash = tk_hash t, pd_scope_key = tk_scope_key t,
     pd_status = DPending, pd_attempts = 0, pd_max_attempts = 3, provider_message_id = None, failure_code = None,
     failure_message = None, pd_sent_at = None, next_retry_at = now\<rparr>"

definition delivery_key :: "push_delivery \<Rightarrow> nat \<times> string \<times> string \<times> string" where
  "delivery_key x = (pd_job x, pd_token_hash x, pd_token_kind x, pd_scope_key x)"

text \<open>One row of the insert: nothing when \<^verbatim>\<open>ux_push_delivery_job_token\<close> has it already.\<close>

definition add_delivery :: "push_job \<Rightarrow> datetime \<Rightarrow> push_token \<Rightarrow> push_db \<Rightarrow> push_db" where
  "add_delivery j now t db =
    (let x = new_delivery j now t (delivery_seq db) in
     if delivery_key x \<in> delivery_key ` set (deliveries db) then db
     else db\<lparr>deliveries := deliveries db @ [x], delivery_seq := Suc (delivery_seq db)\<rparr>)"

text \<open>From the token query on.\<close>

definition file_deliveries ::
  "push_env \<Rightarrow> push_settings \<Rightarrow> datetime \<Rightarrow> push_job \<Rightarrow> push_db \<Rightarrow> (bool \<times> push_db) option" where
  "file_deliveries env st now j db =
    (case (if channel j = BULLETIN_CHANNEL then bulletin_targets env j
           else if is_activity_end j \<and> \<not> is_text (payload_get (j_payload j) ''activity_id'') then None else Some None) of
       None \<Rightarrow> None
     | Some targets \<Rightarrow> Some (
       let rows = token_rows db targets j now in
       if rows = [] then (True, db)
       else
         let reach = remdups (map (\<lambda>td. pv_id (snd td)) (filter (\<lambda>td. \<not> schedules_reminders_locally (pv_platform (snd td)) (pv_app_version (snd td))) rows));
             (covered, waiting) = (if is_assignment_reminder j
               then countdown_starts db j reach (seconds (push_countdown_dedupe_window_seconds st)) now else ([], []));
             first_round = (covered \<noteq> [] \<or> waiting \<noteq> []) \<and> \<not> has_deliveries db (j_id j)
         in if waiting \<noteq> [] \<and> first_round \<and> now < fold max (map snd waiting) (snd (hd waiting)) + COUNTDOWN_WAIT_UNTIL \<and>
               available_at j < fire_at j + COUNTDOWN_WAIT \<and>
               now + 2 * COUNTDOWN_WAIT < fire_at j + minutes (push_presend_grace_minutes st)
            then (False, modify_job (j_id j) (put_back (now + COUNTDOWN_WAIT)) db)
            else
              let chosen = filter (takes_delivery covered j) rows in
              if chosen = []
              then (if first_round \<and> (\<exists>td \<in> set rows. left_out_rows covered j td)
                    then (False, modify_job (j_id j) (settle PCancelled ''countdown_start_sent'' now) db) else (True, db))
              else (True, fold (\<lambda>td. add_delivery j now (fst td)) chosen db)))"

text \<open>The gates before the token query. Each lets the job go on, perhaps with the payload the course changes
  leave it (\<open>Inr\<close>), or has settled it or put it back (\<open>Inl\<close>). The text of an activity id that is a list or
  an object names no end job, since registering files a string.\<close>

type_synonym gate = "push_db + push_job \<times> push_db"

definition session_gate :: "push_env \<Rightarrow> datetime \<Rightarrow> push_job \<Rightarrow> push_db \<Rightarrow> gate" where
  "session_gate env now j db =
    (if \<not> is_session_reauth j then Inr (j, db)
     else (case Option.bind (j_device j) (\<lambda>d. announced_while_sessionless env d now) of
        None \<Rightarrow> Inl (modify_job (j_id j) (settle PCancelled ''stale_before_send'' now)
          (db\<lparr>deliveries := update_where (\<lambda>x. pd_job x = j_id j \<and> pd_status x = DPending)
             (\<lambda>x. x\<lparr>pd_status := DSkipped, failure_code := Some ''stale_before_send''\<rparr>) (deliveries db)\<rparr>))
      | Some arr \<Rightarrow> (case send_after env now arr of
          Some until \<Rightarrow> Inl (modify_job (j_id j) (put_back until) db)
        | None \<Rightarrow> Inr (j, db))))"

definition activity_text :: "json \<Rightarrow> string option" where
  "activity_text v = (case v of JStr s \<Rightarrow> Some s | JInt n \<Rightarrow> Some (int_str n) | JFloat r \<Rightarrow> Some (float_str r) | JBool b \<Rightarrow> Some ''True'' | _ \<Rightarrow> None)"

definition course_changes_gate :: "push_env \<Rightarrow> datetime \<Rightarrow> push_job \<Rightarrow> push_db \<Rightarrow> gate" where
  "course_changes_gate env now j db =
    (if has_deliveries db (j_id j) then Inr (j, db)
     else let (held, j') = held_by_course_changes env now j; db' = modify_job (j_id j) (\<lambda>_. j') db
       in if held then Inl db' else Inr (j', db'))"

definition activity_gate :: "push_env \<Rightarrow> job_clock \<Rightarrow> push_job \<Rightarrow> push_db \<Rightarrow> gate" where
  "activity_gate env clk j db =
    (let act = payload_get (j_payload j) ''activity_id''; now = materialize_now clk;
         quiet = (if scenario j \<in> set CLASS_SCENARIOS then classes_quiet db (j_user j) (class_day env j) else None);
         started = has_deliveries db (j_id j)
     in if \<not> is_activity_job j then Inr (j, db)
     else if \<not> truthy act then Inl (modify_job (j_id j) (settle PFailed ''missing_activity_id'' now) db)
     else if is_activity_end j then Inr (j, db)
     else if quiet \<noteq> None \<and> \<not> started then Inl (modify_job (j_id j) (settle PCancelled (the quiet) now) db)
     else (case (if scenario j \<in> set CLASS_SCENARIOS then course_changes_gate env (class_now clk) j db else Inr (j, db)) of
        Inl db' \<Rightarrow> Inl db'
      | Inr (j', db') \<Rightarrow>
        if \<not> started \<and> (case activity_text act of None \<Rightarrow> False | Some a \<Rightarrow> activity_already_registered db' j' a now)
        then Inl (modify_job (j_id j) (settle PCancelled ''activity_already_running'' now) db')
        else Inr (j', db')))"

definition course_gate :: "push_env \<Rightarrow> job_clock \<Rightarrow> push_job \<Rightarrow> push_db \<Rightarrow> gate" where
  "course_gate env clk j db = (if channel j = COURSE_CHANNEL then course_changes_gate env (class_now clk) j db else Inr (j, db))"

definition pace_gate :: "datetime \<Rightarrow> push_job \<Rightarrow> push_db \<Rightarrow> gate" where
  "pace_gate now j db =
    (if scenario j \<noteq> ''sync_trigger'' \<or> payload_get (j_payload j) ''source'' = JStr ''portal_force'' then Inr (j, db)
     else (case last_sync_trigger_sent db j now of
        None \<Rightarrow> Inr (j, db)
      | Some t \<Rightarrow> Inl (modify_job (j_id j) (put_back (t + SYNC_TRIGGER_GAP)) db)))"

fun run_gates :: "(push_job \<Rightarrow> push_db \<Rightarrow> gate) list \<Rightarrow> push_job \<Rightarrow> push_db \<Rightarrow> gate" where
  "run_gates [] j db = Inr (j, db)"
| "run_gates (g # gs) j db = (case g j db of Inl db' \<Rightarrow> Inl db' | Inr (j', db') \<Rightarrow> run_gates gs j' db')"

definition gates :: "push_env \<Rightarrow> job_clock \<Rightarrow> (push_job \<Rightarrow> push_db \<Rightarrow> gate) list" where
  "gates env clk = [session_gate env (materialize_now clk), activity_gate env clk, course_gate env clk, pace_gate (materialize_now clk)]"

text \<open>\<open>_materialize\<close>: whether the job is to be delivered now, and the database; \<open>None\<close> when it raises.\<close>

definition materialize :: "push_env \<Rightarrow> push_settings \<Rightarrow> job_clock \<Rightarrow> push_job \<Rightarrow> push_db \<Rightarrow> (bool \<times> push_db) option" where
  "materialize env st clk j db =
    (if j_device j = None \<and> channel j \<in> set DEVICE_CHANNELS
     then Some (if has_deliveries db (j_id j) then (True, db)
                else (False, modify_job (j_id j) (settle PCancelled ''device_gone'' (materialize_now clk)) db))
     else (case run_gates (gates env clk) j db of
        Inl db' \<Rightarrow> Some (False, db')
      | Inr (j', db') \<Rightarrow> file_deliveries env st (materialize_now clk) j' db'))"

section \<open>Delivering\<close>

definition modify_delivery :: "nat \<Rightarrow> (push_delivery \<Rightarrow> push_delivery) \<Rightarrow> push_db \<Rightarrow> push_db" where
  "modify_delivery n f db = db\<lparr>deliveries := row_update pd_id n f (deliveries db)\<rparr>"

definition modify_token :: "nat \<Rightarrow> (push_token \<Rightarrow> push_token) \<Rightarrow> push_db \<Rightarrow> push_db" where
  "modify_token n f db = db\<lparr>tokens := row_update tk_id n f (tokens db)\<rparr>"

text \<open>The copy of a reauth, reminder or class push is written for the recipient here.\<close>

definition resolves_copy :: "push_job \<Rightarrow> bool" where
  "resolves_copy j \<longleftrightarrow> scenario j = REAUTH_SCENARIO \<or> channel j \<in> {REMINDER_CHANNEL, COURSE_CHANNEL}"

definition delivery_payload :: "push_env \<Rightarrow> push_db \<Rightarrow> push_job \<Rightarrow> push_delivery \<Rightarrow> payload" where
  "delivery_payload env db j x =
    (if resolves_copy j
     then build_copy env j (Option.bind (pd_device x) (\<lambda>d. Option.bind (row_get pv_id d (devices db)) pv_locale))
     else j_payload j)"

definition skip_delivery :: "string \<Rightarrow> push_delivery \<Rightarrow> push_delivery" where
  "skip_delivery code x = x\<lparr>pd_status := DSkipped, failure_code := Some code\<rparr>"

definition sent_delivery :: "datetime \<Rightarrow> send_result \<Rightarrow> push_delivery \<Rightarrow> push_delivery" where
  "sent_delivery now r x = x\<lparr>pd_attempts := pd_attempts x + 1, pd_status := DSent, pd_sent_at := Some now,
     provider_message_id := sr_notification_id r\<rparr>"

definition dead_delivery :: "send_result \<Rightarrow> push_delivery \<Rightarrow> push_delivery" where
  "dead_delivery r x = x\<lparr>pd_attempts := pd_attempts x + 1, pd_status := DFailed, failure_code := Some ''unregistered'',
     failure_message := sr_description r\<rparr>"

definition failed_delivery :: "push_settings \<Rightarrow> datetime \<Rightarrow> send_result \<Rightarrow> push_delivery \<Rightarrow> push_delivery" where
  "failed_delivery st now r x =
    (let x1 = x\<lparr>pd_attempts := pd_attempts x + 1, failure_code := Some (sr_status r), failure_message := sr_description r\<rparr>
     in if pd_max_attempts x1 \<le> pd_attempts x1 then x1\<lparr>pd_status := DFailed\<rparr>
        else x1\<lparr>next_retry_at := now + seconds (push_retry_round_delay_seconds st)\<rparr>)"

definition record_result ::
  "push_settings \<Rightarrow> datetime \<Rightarrow> push_delivery \<Rightarrow> push_token \<Rightarrow> send_result \<Rightarrow> push_db \<Rightarrow> push_db" where
  "record_result st now x t r db =
    (if sr_success r
     then modify_token (tk_id t) (\<lambda>t. t\<lparr>tk_last_success_at := Some now\<rparr>) (modify_delivery (pd_id x) (sent_delivery now r) db)
     else if is_unregistered (Some (sr_status r)) (sr_description r)
     then modify_token (tk_id t) (\<lambda>t. t\<lparr>tk_last_failure_at := Some now, tk_last_failure_code := Some (sr_status r), tk_status := ''invalidated''\<rparr>)
       (modify_delivery (pd_id x) (dead_delivery r) db)
     else modify_token (tk_id t) (\<lambda>t. t\<lparr>tk_last_failure_at := Some now, tk_last_failure_code := Some (sr_status r)\<rparr>)
       (modify_delivery (pd_id x) (failed_delivery st now r) db))"

definition send_one :: "push_env \<Rightarrow> push_settings \<Rightarrow> datetime \<Rightarrow> push_job \<Rightarrow> push_delivery \<Rightarrow> push_db \<Rightarrow> push_db option" where
  "send_one env st now j x db =
    (case Option.bind (pd_token x) (\<lambda>n. row_get tk_id n (tokens db)) of
       None \<Rightarrow> Some (modify_delivery (pd_id x) (skip_delivery ''token_gone'') db)
     | Some t \<Rightarrow>
       if tk_status t \<noteq> ''active''
       then Some (modify_delivery (pd_id x) (skip_delivery ''token_gone'') db)
       else let p = delivery_payload env db j x in
         if resolves_copy j \<and> \<not> has_copy p
         then Some (modify_delivery (pd_id x) (skip_delivery ''empty_copy'') db)
         else if \<not> builds_request env j x t p then None
         else Some (record_result st now x t (case send env j x t p of
             Inl r \<Rightarrow> r
           | Inr err \<Rightarrow> \<lparr>sr_success = False, sr_status = ''exception'', sr_description = Some err, sr_notification_id = None\<rparr>) db))"

definition delivery_due :: "datetime \<Rightarrow> push_delivery \<Rightarrow> bool" where
  "delivery_due now x \<longleftrightarrow> pd_status x = DPending \<and> next_retry_at x \<le> now"

fun send_due :: "push_env \<Rightarrow> push_settings \<Rightarrow> datetime \<Rightarrow> push_job \<Rightarrow> push_delivery list \<Rightarrow> push_db \<Rightarrow> push_db option" where
  "send_due env st now j [] db = Some db"
| "send_due env st now j (x # xs) db =
    (if delivery_due now x then Option.bind (send_one env st now j x db) (send_due env st now j xs) else send_due env st now j xs db)"

definition job_deliveries :: "push_db \<Rightarrow> nat \<Rightarrow> push_delivery list" where
  "job_deliveries db i = filter (\<lambda>x. pd_job x = i) (deliveries db)"

text \<open>The job's status from its deliveries' once none is pending.\<close>

definition close_job :: "datetime \<Rightarrow> push_delivery list \<Rightarrow> push_job \<Rightarrow> push_job" where
  "close_job now xs j =
    (let sent = \<exists>x \<in> set xs. pd_status x = DSent; failed = \<exists>x \<in> set xs. pd_status x = DFailed;
         j1 = (if sent \<and> \<not> failed then j\<lparr>j_status := PSent\<rparr>
               else if sent then j\<lparr>j_status := PPartialFailed\<rparr>
               else j\<lparr>j_status := PFailed, j_last_error := Some (if failed then ''all_deliveries_failed'' else ''all_tokens_skipped'')\<rparr>)
     in unlock (if sent then j1\<lparr>j_sent_at := Some now\<rparr> else j1))"

definition deliver_round :: "push_env \<Rightarrow> push_settings \<Rightarrow> datetime \<Rightarrow> push_job \<Rightarrow> push_db \<Rightarrow> push_db option" where
  "deliver_round env st now j db =
    (let i = j_id j; xs = job_deliveries db i; retry = now + seconds (push_retry_round_delay_seconds st) in
     if xs = [] then Some (modify_job i (\<lambda>j. unlock (j\<lparr>j_status := PFailed, j_last_error := Some ''no_active_tokens''\<rparr>)) db)
     else (case send_due env st now j xs db of
        None \<Rightarrow> None
      | Some db1 \<Rightarrow> Some (
        let attempted = length (filter (delivery_due now) xs);
            pending = \<exists>x \<in> set (job_deliveries db1 i). pd_status x = DPending
        in if pending \<and> attempted = 0 \<and> max_attempts j \<le> attempts j + 1 then modify_job i (put_back retry) db1
           else if pending \<and> attempts j + 1 < max_attempts j
           then modify_job i (\<lambda>j. put_back retry (j\<lparr>attempts := attempts j + 1\<rparr>)) db1
           else let db2 = db1\<lparr>deliveries := update_where (\<lambda>x. pd_job x = i \<and> pd_status x = DPending)
                  (\<lambda>x. x\<lparr>pd_status := DFailed, failure_code := Some (case failure_code x of None \<Rightarrow> ''retries_exhausted'' | Some c \<Rightarrow> c)\<rparr>) (deliveries db1)\<rparr>
                in modify_job i (close_job now (job_deliveries db2 i)) db2)))"

section \<open>One claimed job\<close>

text \<open>The transaction of \<open>_process_job\<close>; \<open>None\<close> when it raises. \<open>check\<close> is what the check that ran beside it
  came to, \<open>None\<close> when none was started or it did not apply.\<close>

definition process_claimed ::
  "push_env \<Rightarrow> push_settings \<Rightarrow> string \<Rightarrow> job_clock \<Rightarrow> nat \<Rightarrow> presend_check option \<Rightarrow> push_db \<Rightarrow> push_db option" where
  "process_claimed env st worker clk i check db =
    (case get_job db i of
       None \<Rightarrow> None
     | Some j \<Rightarrow>
       if j_status j \<noteq> PProcessing \<or> j_locked_by j \<noteq> Some worker then Some db
       else
         let (held, db1) = (case check of
               Some c \<Rightarrow> held_back env st (held_now clk) i j c db
             | None \<Rightarrow> if needs_check j \<and> \<not> has_deliveries db i
                then (True, modify_job i (\<lambda>j. unlock (j\<lparr>j_status := PPending\<rparr>)) db) else (False, db))
         in if held then Some db1
            else (case materialize env st clk j db1 of
               None \<Rightarrow> None
             | Some (False, db2) \<Rightarrow> Some db2
             | Some (True, db2) \<Rightarrow> (case get_job db2 i of None \<Rightarrow> None | Some j' \<Rightarrow> deliver_round env st (round_now clk) j' db2)))"

definition book_crash :: "push_settings \<Rightarrow> datetime \<Rightarrow> push_job \<Rightarrow> push_job" where
  "book_crash st now j =
    (if j_status j \<noteq> PProcessing then j
     else let j1 = (unlock j)\<lparr>attempts := attempts j + 1\<rparr> in
       if max_attempts j1 \<le> attempts j1 then j1\<lparr>j_status := PFailed, j_last_error := Some ''pipeline_crash''\<rparr>
       else j1\<lparr>j_status := PPending, available_at := now + seconds (push_retry_round_delay_seconds st)\<rparr>)"

text \<open>\<open>check\<close> is \<open>None\<close> when awaiting it raised.\<close>

definition process_job ::
  "push_env \<Rightarrow> push_settings \<Rightarrow> string \<Rightarrow> job_clock \<Rightarrow> nat \<Rightarrow> presend_check option option \<Rightarrow> push_db \<Rightarrow> push_db" where
  "process_job env st worker clk i check db =
    (case Option.bind check (\<lambda>c. process_claimed env st worker clk i c db) of
       Some db' \<Rightarrow> db'
     | None \<Rightarrow> modify_job i (book_crash st (crash_now clk)) db)"

section \<open>The contract with the queue\<close>

lemma sig_settle [simp]: "job_sig (settle s e now j) = job_sig j" "j_locked_by (settle s e now j) = None"
  "j_status (settle s e now j) = s" "j_id (settle s e now j) = j_id j"
  by (auto simp: settle_def unlock_def intro: sig_cong)

lemma sig_put_back [simp]: "job_sig (put_back t j) = job_sig j" "j_locked_by (put_back t j) = None"
  "j_status (put_back t j) = PPending" "j_id (put_back t j) = j_id j"
  by (auto simp: put_back_def unlock_def intro: sig_cong)

lemma sig_unlock [simp]: "job_sig (unlock j) = job_sig j" "job_sig (j\<lparr>j_status := s\<rparr>) = job_sig j"
  "job_sig (j\<lparr>attempts := n\<rparr>) = job_sig j" "job_sig (j\<lparr>j_last_error := e\<rparr>) = job_sig j"
  "job_sig (j\<lparr>j_sent_at := s'\<rparr>) = job_sig j" "job_sig (j\<lparr>available_at := t\<rparr>) = job_sig j"
  by (auto simp: unlock_def intro: sig_cong)

lemma sig_close [simp]: "job_sig (close_job now xs j) = job_sig j" "j_locked_by (close_job now xs j) = None"
  "j_status (close_job now xs j) \<noteq> PProcessing"
  by (simp_all add: close_job_def Let_def)

lemma sig_crash: "job_sig (book_crash st now j) = job_sig j" "j_status (book_crash st now j) \<noteq> PProcessing"
  by (simp_all add: book_crash_def Let_def)

lemma sig_id: "job_sig a = job_sig b \<Longrightarrow> j_id a = j_id b"
  by (simp add: job_sig_def)

lemma get_modify_job:
  "(\<And>j. get_job db i = Some j \<Longrightarrow> j_id (f j) = j_id j) \<Longrightarrow> get_job (modify_job i f db) i = map_option f (get_job db i)"
proof -
  assume id: "\<And>j. get_job db i = Some j \<Longrightarrow> j_id (f j) = j_id j"
  have "(\<And>j. find (\<lambda>r. j_id r = i) xs = Some j \<Longrightarrow> j_id (f j) = j_id j) \<Longrightarrow>
      find (\<lambda>r. j_id r = i) (row_update j_id i f xs) = map_option f (find (\<lambda>r. j_id r = i) xs)" for xs
    by (induction xs) auto
  then show ?thesis using id by (simp add: get_job_def modify_job_def row_get_def)
qed

text \<open>What it means to be done with a job: no worker holds it.\<close>

definition leaves :: "nat \<Rightarrow> push_db \<Rightarrow> push_db \<Rightarrow> bool" where
  "leaves i db db' \<longleftrightarrow> grows 0 db db' \<and> (\<forall>w. i \<notin> held_by w db')"

lemma modify_leaves:
  assumes "jobs_wf db" "\<And>j. get_job db i = Some j \<Longrightarrow> job_sig (f j) = job_sig j \<and> j_status (f j) \<noteq> PProcessing"
  shows "leaves i db (modify_job i f db)"
proof -
  have "get_job (modify_job i f db) i = map_option f (get_job db i)"
    using assms(2) by (intro get_modify_job) (auto dest: sig_id)
  then have "i \<notin> held_by w (modify_job i f db)" for w using assms(2) by (auto simp: held_by_def)
  moreover have "grows 0 db (modify_job i f db)" using assms by (intro grows_modify) auto
  ultimately show ?thesis by (simp add: leaves_def)
qed

lemma settle_leaves: "jobs_wf db \<Longrightarrow> s \<noteq> PProcessing \<Longrightarrow> leaves i db (modify_job i (settle s e now) db)"
  by (rule modify_leaves) auto

lemma put_back_leaves: "jobs_wf db \<Longrightarrow> leaves i db (modify_job i (put_back t) db)"
  by (rule modify_leaves) auto

lemma leaves_trans: "grows 0 a b \<Longrightarrow> leaves i b c \<Longrightarrow> leaves i a c"
  using grows_trans [of 0 a b 0 c] by (auto simp: leaves_def)

lemma leaves_then: "leaves i a b \<Longrightarrow> grows 0 b c \<Longrightarrow> leaves i a c"
  using grows_trans [of 0 a b 0 c] by (fastforce simp: leaves_def grows_def)

text \<open>A gate keeps the queue; past it the job is as the gate returns it, or no worker holds it.\<close>

definition gate_ok :: "push_job \<Rightarrow> push_db \<Rightarrow> gate \<Rightarrow> bool" where
  "gate_ok j db r = (case r of
     Inl db' \<Rightarrow> leaves (j_id j) db db'
   | Inr (j', db') \<Rightarrow> grows 0 db db' \<and> get_job db' (j_id j) = Some j' \<and> j_id j' = j_id j)"

lemma gate_ok_stay [simp]: "get_job db (j_id j) = Some j \<Longrightarrow> gate_ok j db (Inr (j, db))"
  by (simp add: gate_ok_def)

lemma session_gate_ok:
  assumes "jobs_wf db" "get_job db (j_id j) = Some j"
  shows "gate_ok j db (session_gate env now j db)"
proof -
  have "grows 0 db (db\<lparr>deliveries := xs\<rparr>)" for xs by (rule grows_same_jobs) auto
  moreover have "jobs_wf (db\<lparr>deliveries := xs\<rparr>)" for xs using assms(1) by (simp add: jobs_wf_def)
  ultimately have "leaves (j_id j) db (modify_job (j_id j) (settle PCancelled e now) (db\<lparr>deliveries := xs\<rparr>))" for e xs
    by (rule leaves_trans [OF _ settle_leaves]) auto
  then show ?thesis using assms put_back_leaves
    by (auto simp: session_gate_def gate_ok_def split: option.splits)
qed

lemma course_changes_gate_ok:
  assumes "jobs_wf db" "get_job db (j_id j) = Some j" "\<And>p. \<not> needs_check (j\<lparr>j_payload := p\<rparr>)"
  shows "gate_ok j db (course_changes_gate env now j db)"
proof (cases "has_deliveries db (j_id j)")
  case True
  then show ?thesis using assms(2) by (simp add: course_changes_gate_def)
next
  case False
  obtain held j' where h: "held_by_course_changes env now j = (held, j')" by fastforce
  let ?db = "modify_job (j_id j) (\<lambda>_. j') db"
  have "\<not> needs_check j" using assms(3) [of "j_payload j"] by simp
  then have s: "job_sig j' = job_sig j \<and> (if held then j_status j' \<noteq> PProcessing else j_status j' = j_status j \<and> j_locked_by j' = j_locked_by j)"
    using h assms(3) by (auto simp: held_by_course_changes_def job_sig_def split: option.splits prod.splits if_splits)
      (metis job_sig_def prod.inject sig_settle(1) sig_put_back(1))+
  show ?thesis
  proof (cases held)
    case True
    then have "leaves (j_id j) db ?db" using s assms(2) by (intro modify_leaves [OF assms(1)]) auto
    then show ?thesis using True False h by (simp add: course_changes_gate_def gate_ok_def)
  next
    case nh: False
    have "grows 0 db ?db" using s nh assms(2) by (intro grows_modify [OF _ _ assms(1)]) auto
    moreover have "get_job ?db (j_id j) = Some j'" using s assms(2) by (subst get_modify_job) (auto dest: sig_id)
    ultimately show ?thesis using nh False h s by (auto simp: course_changes_gate_def gate_ok_def dest: sig_id)
  qed
qed

lemma class_not_guarded:
  "channel j = COURSE_CHANNEL \<or> scenario j \<in> set CLASS_SCENARIOS \<and> is_activity_job j \<Longrightarrow> \<not> needs_check (j\<lparr>j_payload := p\<rparr>)"
  by (auto simp: needs_check_def is_activity_job_def channel_defs)

lemma activity_gate_ok:
  assumes "jobs_wf db" "get_job db (j_id j) = Some j"
  shows "gate_ok j db (activity_gate env clk j db)"
proof -
  let ?g = "if scenario j \<in> set CLASS_SCENARIOS then course_changes_gate env (class_now clk) j db else Inr (j, db)"
  have end': "gate_ok j db (case ?g of Inl db' \<Rightarrow> Inl db' | Inr (j', db') \<Rightarrow>
      if P j' db' then Inl (modify_job (j_id j) (settle PCancelled ''activity_already_running'' now) db') else Inr (j', db'))"
    if "is_activity_job j" for P now
  proof -
    have g: "gate_ok j db ?g" using assms that class_not_guarded by (simp add: course_changes_gate_ok)
    show ?thesis
    proof (cases ?g)
      case (Inl d)
      then show ?thesis using g by simp
    next
      case (Inr jd)
      obtain j' db' where jd: "jd = (j', db')" by fastforce
      have ok: "grows 0 db db'" "get_job db' (j_id j) = Some j'" "j_id j' = j_id j" using g by (auto simp: Inr jd gate_ok_def)
      have "leaves (j_id j) db (modify_job (j_id j) (settle PCancelled ''activity_already_running'' now) db')"
        by (rule leaves_trans [OF ok(1) settle_leaves [OF grows_wf [OF ok(1) assms(1)]]]) simp
      then show ?thesis using ok by (simp add: Inr jd gate_ok_def)
    qed
  qed
  have s: "gate_ok j db (Inl (modify_job (j_id j) (settle x e n) db))" if "x \<noteq> PProcessing" for x e n
    using settle_leaves [OF assms(1) that] by (simp add: gate_ok_def)
  show ?thesis unfolding activity_gate_def Let_def using s end' assms by auto
qed

lemma run_gates_ok:
  assumes "\<And>g j db. g \<in> set gs \<Longrightarrow> jobs_wf db \<Longrightarrow> get_job db (j_id j) = Some j \<Longrightarrow> gate_ok j db (g j db)"
    and "jobs_wf db" "get_job db (j_id j) = Some j"
  shows "gate_ok j db (run_gates gs j db)"
  using assms
proof (induction gs arbitrary: j db)
  case (Cons g gs)
  have g: "gate_ok j db (g j db)" using Cons.prems by simp
  show ?case
  proof (cases "g j db")
    case (Inl d)
    then show ?thesis using g by simp
  next
    case (Inr jd)
    obtain j' db' where jd: "jd = (j', db')" by fastforce
    have ok: "grows 0 db db'" "get_job db' (j_id j') = Some j'" "j_id j' = j_id j" using g by (auto simp: Inr jd gate_ok_def)
    have "gate_ok j' db' (run_gates gs j' db')"
      by (rule Cons.IH) (use Cons.prems(1) ok grows_wf [OF ok(1) Cons.prems(2)] in auto)
    then show ?thesis using ok leaves_trans [OF ok(1)] grows_trans [OF ok(1), of 0]
      by (cases "run_gates gs j' db'") (auto simp: Inr jd gate_ok_def)
  qed
qed simp

lemma each_gate_ok:
  assumes "g \<in> set (gates env clk)" and wf: "jobs_wf d" and k: "get_job d (j_id k) = Some k"
  shows "gate_ok k d (g k d)"
proof -
  have "gate_ok k d (course_gate env clk k d)"
    using course_changes_gate_ok [OF wf k] class_not_guarded [of k] k by (simp add: course_gate_def)
  moreover have "gate_ok k d (pace_gate n k d)" for n
    using k put_back_leaves [OF wf] by (auto simp: pace_gate_def gate_ok_def split: option.splits)
  ultimately show ?thesis using assms(1) session_gate_ok [OF wf k] activity_gate_ok [OF wf k] by (auto simp: gates_def)
qed

lemma gates_ok:
  assumes "jobs_wf db" "get_job db (j_id j) = Some j"
  shows "gate_ok j db (run_gates (gates env clk) j db)"
  by (rule run_gates_ok [OF _ assms]) (rule each_gate_ok)

lemma add_delivery_frame:
  "jobs (add_delivery j now t db) = jobs db" "push_job_seq (add_delivery j now t db) = push_job_seq db" "tokens (add_delivery j now t db) = tokens db"
  by (simp_all add: add_delivery_def Let_def)

lemma add_deliveries_frame:
  "jobs (fold (\<lambda>td. add_delivery j now (fst td)) tds db) = jobs db"
  "push_job_seq (fold (\<lambda>td. add_delivery j now (fst td)) tds db) = push_job_seq db"
  "tokens (fold (\<lambda>td. add_delivery j now (fst td)) tds db) = tokens db"
  by (induction tds arbitrary: db) (simp_all add: add_delivery_frame)

lemma file_deliveries_ok:
  assumes "file_deliveries env st now j db = Some (go, db')" "jobs_wf db"
  shows "if go then jobs db' = jobs db \<and> grows 0 db db' else leaves (j_id j) db db'"
  using assms settle_leaves [OF assms(2), of PCancelled] put_back_leaves [OF assms(2)]
  by (auto simp: file_deliveries_def Let_def add_deliveries_frame intro!: grows_same_jobs split: option.splits if_splits prod.splits)

lemma materialize_ok:
  assumes "materialize env st clk j db = Some (go, db')" "jobs_wf db" "get_job db (j_id j) = Some j"
  shows "if go then grows 0 db db' \<and> (\<exists>j'. get_job db' (j_id j) = Some j' \<and> j_id j' = j_id j) else leaves (j_id j) db db'"
proof (cases "j_device j = None \<and> channel j \<in> set DEVICE_CHANNELS")
  case True
  then show ?thesis using assms settle_leaves [OF assms(2)] by (auto simp: materialize_def split: if_splits)
next
  case False
  note G = gates_ok [OF assms(2,3), of env clk]
  show ?thesis
  proof (cases "run_gates (gates env clk) j db")
    case (Inl d)
    then show ?thesis using assms(1) G by (simp only: materialize_def False if_False) (auto simp: gate_ok_def)
  next
    case (Inr jd)
    obtain j' d where jd: "jd = (j', d)" by fastforce
    have ok: "grows 0 db d" "get_job d (j_id j) = Some j'" "j_id j' = j_id j" using G by (auto simp: Inr jd gate_ok_def)
    have "file_deliveries env st (materialize_now clk) j' d = Some (go, db')"
      using assms(1) Inr by (simp only: materialize_def False if_False) (simp add: jd)
    note F = file_deliveries_ok [OF this grows_wf [OF ok(1) assms(2)]]
    show ?thesis
    proof (cases go)
      case True
      then show ?thesis using F ok grows_trans [OF ok(1), of 0] by (auto simp: get_job_def)
    next
      case ng: False
      then show ?thesis using F leaves_trans [OF ok(1)] ok(3) by simp
    qed
  qed
qed

lemma record_result_frame:
  "jobs (record_result st now x t r db) = jobs db" "push_job_seq (record_result st now x t r db) = push_job_seq db"
  "length (tokens (record_result st now x t r db)) = length (tokens db)"
  by (simp_all add: record_result_def modify_token_def modify_delivery_def)

lemma send_one_frame:
  "send_one env st now j x db = Some db' \<Longrightarrow> jobs db' = jobs db \<and> push_job_seq db' = push_job_seq db \<and> length (tokens db') = length (tokens db)"
  by (auto simp: send_one_def Let_def record_result_frame modify_delivery_def split: option.splits if_splits)

lemma send_due_frame:
  "send_due env st now j xs db = Some db' \<Longrightarrow> jobs db' = jobs db \<and> push_job_seq db' = push_job_seq db \<and> length (tokens db') = length (tokens db)"
proof (induction xs arbitrary: db)
  case (Cons x xs)
  show ?case
  proof (cases "delivery_due now x")
    case True
    then obtain d where d: "send_one env st now j x db = Some d" "send_due env st now j xs d = Some db'"
      using Cons.prems by (auto simp: bind_eq_Some_conv)
    show ?thesis using Cons.IH [OF d(2)] send_one_frame [OF d(1)] by simp
  next
    case False
    then show ?thesis using Cons by simp
  qed
qed simp

lemma deliver_round_leaves:
  assumes "deliver_round env st now j db = Some db'" "jobs_wf db"
  shows "leaves (j_id j) db db'"
proof (cases "job_deliveries db (j_id j) = []")
  case True
  then show ?thesis using assms by (auto simp: deliver_round_def Let_def intro!: modify_leaves)
next
  case False
  then obtain d where d: "send_due env st now j (job_deliveries db (j_id j)) db = Some d"
    using assms(1) by (auto simp: deliver_round_def Let_def split: option.splits)
  note F = send_due_frame [OF d]
  have g: "grows 0 db (d\<lparr>deliveries := xs\<rparr>)" "grows 0 db d" for xs using F by (auto intro: grows_same_jobs)
  have l: "leaves (j_id j) db (modify_job (j_id j) f d)" "leaves (j_id j) db (modify_job (j_id j) f (d\<lparr>deliveries := xs\<rparr>))"
    if "\<And>j. job_sig (f j) = job_sig j \<and> j_status (f j) \<noteq> PProcessing" for f xs
    using that grows_wf [OF g(1) assms(2)] grows_wf [OF g(2) assms(2)] by (auto intro: leaves_trans [OF g(1)] leaves_trans [OF g(2)] modify_leaves)
  show ?thesis using assms(1) False d l by (auto simp: deliver_round_def Let_def split: if_splits)
qed

lemma held_back_ok:
  assumes "held_back env st now i j c db = (held, db')" "jobs_wf db"
  shows "if held then grows (length (tokens db) + 1) db db' \<and> (\<forall>w. i \<notin> held_by w db') else db' = db"
proof -
  have leave: "grows (length (tokens db) + 1) db d \<and> (\<forall>w. i \<notin> held_by w d)" if "leaves i db d" for d
    using that by (auto simp: leaves_def intro: grows_mono)
  have sub: "grows (length (tokens db) + 1) db (record_submitted f (modify_job i (settle PCancelled e now) db) u k now) \<and>
      (\<forall>w. i \<notin> held_by w (record_submitted f (modify_job i (settle PCancelled e now) db) u k now))" for f e u k
  proof -
    let ?d = "modify_job i (settle PCancelled e now) db"
    have l: "leaves i db ?d" by (rule settle_leaves [OF assms(2)]) simp
    then have g: "grows 0 db ?d" by (simp add: leaves_def)
    then have t: "length (tokens ?d) = length (tokens db)" by (simp add: grows_def)
    have r: "grows (length (tokens db) + 1) ?d (record_submitted f ?d u k now)"
      using record_submitted_grows [OF grows_wf [OF g assms(2)], of f u k now] by (simp only: t)
    show ?thesis using grows_trans [OF g r] l r by (fastforce simp: leaves_def grows_def)
  qed
  show ?thesis
    using assms(1) sub leave [OF settle_leaves [OF assms(2)]] leave [OF put_back_leaves [OF assms(2)]]
    by (auto simp: held_back_def Let_def split: verdict.splits if_splits)
qed

lemma process_claimed_ok:
  assumes "process_claimed env st worker clk i check db = Some db'" "jobs_wf db"
  shows "grows (if check = None then 0 else length (tokens db) + 1) db db' \<and> i \<notin> held_by worker db'"
proof -
  obtain j where j: "get_job db i = Some j" using assms(1) by (auto simp: process_claimed_def split: option.splits)
  have id: "j_id j = i" by (rule get_job_id [OF j])
  show ?thesis
  proof (cases "j_status j \<noteq> PProcessing \<or> j_locked_by j \<noteq> Some worker")
    case True
    then show ?thesis using assms(1) j by (auto simp: process_claimed_def held_by_def)
  next
    case False
    let ?step = "case check of Some c \<Rightarrow> held_back env st (held_now clk) i j c db
         | None \<Rightarrow> if needs_check j \<and> \<not> has_deliveries db i
            then (True, modify_job i (\<lambda>j. unlock (j\<lparr>j_status := PPending\<rparr>)) db) else (False, db)"
    obtain held db1 where h: "?step = (held, db1)" by fastforce
    have u: "leaves i db (modify_job i (\<lambda>j. unlock (j\<lparr>j_status := PPending\<rparr>)) db)" by (rule modify_leaves [OF assms(2)]) simp
    have H: "if held then grows (if check = None then 0 else length (tokens db) + 1) db db1 \<and> (\<forall>w. i \<notin> held_by w db1) else db1 = db"
    proof (cases check)
      case None
      then show ?thesis using h u by (auto simp: leaves_def split: if_splits)
    next
      case (Some c)
      then show ?thesis using h held_back_ok [OF _ assms(2), of env st "held_now clk" i j c held db1] by (simp split: if_splits)
    qed
    show ?thesis
    proof (cases held)
      case True
      then have "db' = db1" using assms(1) j False h by (simp add: process_claimed_def)
      then show ?thesis using H True by simp
    next
      case nh: False
      then have db1: "db1 = db" using H by simp
      obtain go db2 where mt: "materialize env st clk j db = Some (go, db2)"
        using assms(1) j False h nh by (auto simp: process_claimed_def db1 split: option.splits)
      note M = materialize_ok [OF mt assms(2)] 
      have "leaves i db db'"
      proof (cases go)
        case True
        then obtain j' where j': "grows 0 db db2" "get_job db2 i = Some j'" "j_id j' = i" using M j id by auto
        have "deliver_round env st (round_now clk) j' db2 = Some db'"
          using assms(1) j False h nh mt True j'(2) by (simp add: process_claimed_def db1)
        then show ?thesis using leaves_trans [OF j'(1)] deliver_round_leaves grows_wf [OF j'(1) assms(2)] j'(3) by blast
      next
        case ng: False
        then show ?thesis using M j id assms(1) False h nh mt by (simp add: process_claimed_def db1)
      qed
      then show ?thesis by (auto simp: leaves_def intro: grows_mono)
    qed
  qed
qed

lemma process_job_ok:
  assumes "jobs_wf db"
  shows "grows (if check = Some None then 0 else length (tokens db) + 1) db (process_job env st worker clk i check db)"
    and "i \<notin> held_by worker (process_job env st worker clk i check db)"
proof -
  have c: "leaves i db (modify_job i (book_crash st (crash_now clk)) db)"
    by (rule modify_leaves [OF assms]) (simp add: sig_crash)
  have "grows (if check = Some None then 0 else length (tokens db) + 1) db (process_job env st worker clk i check db) \<and>
     i \<notin> held_by worker (process_job env st worker clk i check db)"
  proof (cases "Option.bind check (\<lambda>c. process_claimed env st worker clk i c db)")
    case None
    then show ?thesis using c by (auto simp: process_job_def leaves_def intro: grows_mono)
  next
    case (Some d)
    then obtain x where x: "check = Some x" "process_claimed env st worker clk i x db = Some d" by (auto simp: bind_eq_Some_conv)
    show ?thesis using process_claimed_ok [OF x(2) assms] x by (simp add: process_job_def)
  qed
  then show "grows (if check = Some None then 0 else length (tokens db) + 1) db (process_job env st worker clk i check db)"
    "i \<notin> held_by worker (process_job env st worker clk i check db)" by auto
qed


section \<open>The tick of the pipeline\<close>

text \<open>How a tick runs its jobs: the \<open>n\<close>-th reads the clock \<open>clk n\<close>, and \<open>checks n i\<close> is what the check of job
  \<open>i\<close> came to, whenever it ran beside the sends (\<open>None\<close> when it raised).\<close>

definition tick_job ::
  "push_env \<Rightarrow> push_settings \<Rightarrow> string \<Rightarrow> (nat \<Rightarrow> job_clock) \<Rightarrow> (nat \<Rightarrow> nat \<Rightarrow> presend_check option option) \<Rightarrow> nat \<Rightarrow> nat \<Rightarrow> bool \<Rightarrow> push_db \<Rightarrow> push_db" where
  "tick_job env st worker clk checks n i checked db = process_job env st worker (clk n) i (if checked then checks n i else Some None) db"

definition sig_weight :: "nat \<Rightarrow> nat \<times> bool \<Rightarrow> nat" where
  "sig_weight t s = (if snd s then t + 2 else 1)"

lemma workload_sig:
  "workload skip db = sum_list (map (sig_weight (length (tokens db))) (filter (\<lambda>s. fst s \<notin> set skip) (map job_sig (jobs db))))"
  by (simp add: workload_def filter_map comp_def job_sig_def sig_weight_def job_weight_def [abs_def])

lemma workload_grows:
  assumes "grows n db db'"
  shows "workload skip db' \<le> workload skip db + n"
proof -
  let ?new = "map (\<lambda>i. (i, False)) [push_job_seq db ..< push_job_seq db']"
  have "sum_list (map (sig_weight t) (filter P (map (\<lambda>i. (i, False)) xs))) \<le> length xs" for t P and xs :: "nat list"
    by (induction xs) (auto simp: sig_weight_def)
  from this [of "length (tokens db)" "\<lambda>s. fst s \<notin> set skip" "[push_job_seq db ..< push_job_seq db']"]
  have "sum_list (map (sig_weight (length (tokens db))) (filter (\<lambda>s. fst s \<notin> set skip) ?new)) \<le> n"
    using assms by (simp add: grows_def del: upt_conv_Cons_Cons) linarith
  moreover have "map job_sig (jobs db') = map job_sig (jobs db) @ ?new" "length (tokens db') = length (tokens db)"
    using assms by (simp_all add: grows_def)
  ultimately show ?thesis by (simp add: workload_sig)
qed

lemma workload_handle:
  assumes "jobs_wf db" "get_job db i = Some j" "i \<notin> set processed"
  shows "workload (i # processed) db + job_weight db j = workload processed db"
proof -
  have "distinct (map j_id xs) \<Longrightarrow> find (\<lambda>r. j_id r = i) xs = Some j \<Longrightarrow>
    sum_list (map w (filter (\<lambda>x. j_id x \<notin> set (i # processed)) xs)) + w j =
    (sum_list (map w (filter (\<lambda>x. j_id x \<notin> set processed) xs)) :: nat)" for xs w
  proof (induction xs)
    case (Cons x xs)
    show ?case
    proof (cases "j_id x = i")
      case True
      then have "filter (\<lambda>x. j_id x \<notin> set (i # processed)) xs = filter (\<lambda>x. j_id x \<notin> set processed) xs"
        using Cons.prems(1) by (intro filter_cong) (auto simp: rev_image_eqI)
      then show ?thesis using True Cons.prems assms(3) by simp
    next
      case False
      then show ?thesis using Cons by simp
    qed
  qed simp
  then show ?thesis using assms(1,2) by (simp add: workload_def jobs_wf_def get_job_def row_get_def)
qed

lemma grows_held: "grows n db db' \<Longrightarrow> held_by w db' \<subseteq> held_by w db"
  by (simp add: grows_def)

interpretation push_pipeline: job_processor "tick_job env st worker clk checks" worker for env st worker clk checks
proof
  fix db n i c assume wf: "jobs_wf db"
  let ?c = "if c then checks n i else Some None"
  note P = process_job_ok [OF wf, where check = ?c and env = env and st = st and worker = worker and clk = "clk n" and i = i]
  show "jobs_wf (tick_job env st worker clk checks n i c db)"
    using grows_wf [OF process_job_ok(1) [OF wf] wf] by (simp add: tick_job_def)
  show "held_by worker (tick_job env st worker clk checks n i c db) \<subseteq> held_by worker db - {i}"
    using P(2) grows_held [OF P(1), of worker] by (auto simp: tick_job_def)
  show "job_ids db \<subseteq> job_ids (tick_job env st worker clk checks n i c db)" using grows_ids [OF P(1)] by (simp add: tick_job_def)
  show "guarded (tick_job env st worker clk checks n i c db) k" if "k \<noteq> i" "guarded db k" for k
    using grows_guarded [OF P(1) that(2)] by (simp add: tick_job_def)
  fix processed assume i: "i \<in> job_ids db" "i \<notin> set processed" and g: "c \<Longrightarrow> guarded db i"
  obtain j where j: "get_job db i = Some j" using i(1) get_job_None by fastforce
  have "(if ?c = Some None then 0 else length (tokens db) + 1) < job_weight db j"
    using g j by (auto simp: job_weight_def guarded_def)
  then show "workload (i # processed) (tick_job env st worker clk checks n i c db) < workload processed db"
    using workload_grows [OF P(1), of "i # processed"] workload_handle [OF wf j i(2)] by (simp add: tick_job_def)
qed

lemma push_tick_returns:
  assumes "jobs_wf db" and "0 < push_pipeline_batch_size st" and "workload [] (recover_stale_jobs st (clock 0) db) < fuel"
  shows "\<exists>processed db'. run_push_tick fuel st clock worker (tick_job env st worker clk checks) db = Some (length processed, db') \<and>
    distinct processed \<and> set processed \<subseteq> job_ids db' \<and> jobs_wf db' \<and>
    held_by worker db' \<subseteq> held_by worker (recover_stale_jobs st (clock 0) db) \<and>
    (\<forall>j \<in> set (jobs db'). \<not> due (clock (length processed)) processed j)"
proof -
  let ?db = "recover_stale_jobs st (clock 0) db"
  have "map j_id (jobs ?db) = map j_id (jobs db)"
    unfolding recover_stale_jobs_def push_db.simps by (simp add: map_key_update_where recover_job_def Let_def)
  then have "jobs_wf ?db" using assms(1) by (subst jobs_wf_ids) (simp_all add: recover_stale_jobs_def)
  then have "batch_ok worker (held_by worker ?db) (workload [] ?db) [] ?db" by (simp add: batch_ok_def)
  then have "\<exists>processed db'. drain fuel st clock worker (tick_job env st worker clk checks) [] ?db = Some (processed, db') \<and>
      set [] \<subseteq> set processed \<and> batch_ok worker (held_by worker ?db) (workload [] ?db) processed db' \<and>
      (\<forall>j \<in> set (jobs db'). \<not> due (clock (length processed)) processed j)"
    by (rule push_pipeline.drain_ends [OF assms(2) _ assms(3)])
  then show ?thesis by (auto simp: run_push_tick_def batch_ok_def)
qed

text \<open>C14. A tick of the push pipeline ends, however the providers, Moodle and the other parts answer and whatever
  the jobs it handles file: with more fuel than the work in the queue it returns. It has then handled no job
  twice, it holds no claim it did not hold before, and no job is due that it did not handle.\<close>

theorem push_tick_ends:
  assumes "jobs_wf db" and "0 < push_pipeline_batch_size st" and "workload [] (recover_stale_jobs st (clock 0) db) < fuel"
  shows "\<exists>processed db'. run_push_tick fuel st clock worker (tick_job env st worker clk checks) db = Some (length processed, db') \<and>
    distinct processed \<and> set processed \<subseteq> job_ids db' \<and> jobs_wf db' \<and>
    held_by worker db' \<subseteq> held_by worker (recover_stale_jobs st (clock 0) db) \<and>
    (\<forall>j \<in> set (jobs db'). \<not> due (clock (length processed)) processed j)"
  using assms by (rule push_tick_returns)

definition sample_env :: push_env where
  "sample_env = \<lparr>presend = moodle_says (MAnswer open_answer), isoformat = (\<lambda>_. ''t''), local_date = (\<lambda>t. t div 86400000000),
     recheck_class = (\<lambda>j _. Some (Some (j_payload j), 0)), announced_while_sessionless = (\<lambda>_ _. None), send_after = (\<lambda>_ _. None),
     build_copy = (\<lambda>j _. j_payload j), builds_request = (\<lambda>_ _ _ _. True),
     send = (\<lambda>_ _ _ _. Inl \<lparr>sr_success = True, sr_status = ''200'', sr_description = None, sr_notification_id = Some ''n''\<rparr>),
     parse_uuid = (\<lambda>_. None)\<rparr>"

definition sample_clock :: job_clock where
  "sample_clock = \<lparr>held_now = 5, materialize_now = 5, class_now = 5, round_now = 5, crash_now = 5\<rparr>"

theorem push_tick_ends_witness:
  "\<exists>processed db'. run_push_tick 10 sample_settings (\<lambda>_. 5) ''w''
     (tick_job sample_env sample_settings ''w'' (\<lambda>_. sample_clock) (\<lambda>_ _. Some None)) sample_db = Some (length processed, db') \<and>
     distinct processed \<and> set processed \<subseteq> job_ids db' \<and> jobs_wf db'"
proof -
  have "jobs_wf sample_db" by (simp add: jobs_wf_def sample_db_def sample_job_def)
  moreover have "0 < push_pipeline_batch_size sample_settings" by (simp add: sample_settings_def)
  moreover have "workload [] (recover_stale_jobs sample_settings 5 sample_db) < 10" by code_simp
  ultimately have "\<exists>processed db'. run_push_tick 10 sample_settings (\<lambda>_. 5) ''w''
     (tick_job sample_env sample_settings ''w'' (\<lambda>_. sample_clock) (\<lambda>_ _. Some None)) sample_db = Some (length processed, db') \<and>
     distinct processed \<and> set processed \<subseteq> job_ids db' \<and> jobs_wf db' \<and>
     held_by ''w'' db' \<subseteq> held_by ''w'' (recover_stale_jobs sample_settings 5 sample_db) \<and>
     (\<forall>j \<in> set (jobs db'). \<not> due 5 processed j)"
    by (rule push_tick_ends [where clock = "\<lambda>_. 5"])
  then show ?thesis by metis
qed

end
