(* ===== verification/DeliveryRows.thy ===== *)
theory DeliveryRows
  imports PushDelivery
begin

text \<open>
  What processing a job does to the \<open>push_deliveries\<close> table: which rows it may create or change, how many attempts
  a row can spend and in which states a row ends.
\<close>

section \<open>The delivery rows\<close>

text \<open>One row per job and token, ids below the sequence, attempts within their limit and one left while pending.\<close>

definition delivery_ok :: "push_delivery \<Rightarrow> bool" where
  "delivery_ok x \<longleftrightarrow> pd_attempts x \<le> pd_max_attempts x \<and> (pd_status x = DPending \<longrightarrow> pd_attempts x < pd_max_attempts x)"

definition deliveries_wf :: "push_db \<Rightarrow> bool" where
  "deliveries_wf db \<longleftrightarrow> distinct (map pd_id (deliveries db)) \<and> distinct (map delivery_key (deliveries db)) \<and>
     (\<forall>x \<in> set (deliveries db). pd_id x < delivery_seq db \<and> delivery_ok x)"

definition get_delivery :: "push_db \<Rightarrow> nat \<Rightarrow> push_delivery option" where
  "get_delivery db n = row_get pd_id n (deliveries db)"

text \<open>What may become of a row while job \<open>i\<close> is processed: only a pending row of the job changes, its key never
  does, and \<open>k\<close> bounds the attempts it spends.\<close>

definition row_step :: "nat \<Rightarrow> nat \<Rightarrow> push_delivery \<Rightarrow> push_delivery \<Rightarrow> bool" where
  "row_step i k x y \<longleftrightarrow> pd_id y = pd_id x \<and> delivery_key y = delivery_key x \<and> pd_max_attempts y = pd_max_attempts x \<and>
     (y = x \<or> pd_job x = i \<and> pd_status x = DPending) \<and> pd_attempts x \<le> pd_attempts y \<and> pd_attempts y \<le> pd_attempts x + k \<and>
     (delivery_ok x \<longrightarrow> delivery_ok y)"

definition deliv_step :: "nat \<Rightarrow> nat \<Rightarrow> push_db \<Rightarrow> push_db \<Rightarrow> bool" where
  "deliv_step i k db db' \<longleftrightarrow> (deliveries_wf db \<longrightarrow> deliveries_wf db') \<and> delivery_seq db \<le> delivery_seq db' \<and>
     (\<forall>n x. get_delivery db n = Some x \<longrightarrow> (\<exists>y. get_delivery db' n = Some y \<and> row_step i k x y)) \<and>
     (\<forall>n y. get_delivery db n = None \<and> get_delivery db' n = Some y \<longrightarrow> pd_job y = i \<and> pd_attempts y \<le> k)"

lemma row_step_refl [simp]: "row_step i k x x"
  by (simp add: row_step_def)

lemma row_step_trans:
  "row_step i k x y \<Longrightarrow> row_step i l y z \<Longrightarrow> row_step i (k + l) x z"
  by (auto simp: row_step_def delivery_key_def)

lemma deliv_step_refl [simp]: "deliv_step i k db db"
  by (auto simp: deliv_step_def)

lemma deliv_step_trans:
  assumes "deliv_step i k a b" "deliv_step i l b c"
  shows "deliv_step i (k + l) a c"
proof -
  have old: "\<exists>z. get_delivery c n = Some z \<and> row_step i (k + l) x z" if "get_delivery a n = Some x" for n x
    using assms that row_step_trans unfolding deliv_step_def by (metis (no_types, lifting))
  have new: "pd_job z = i \<and> pd_attempts z \<le> k + l" if n: "get_delivery a n = None" "get_delivery c n = Some z" for n z
  proof (cases "get_delivery b n")
    case None
    then have "pd_job z = i \<and> pd_attempts z \<le> l" using assms(2) n(2) by (simp add: deliv_step_def)
    then show ?thesis by simp
  next
    case (Some y)
    then have y: "pd_job y = i" "pd_attempts y \<le> k" using assms(1) n(1) by (auto simp: deliv_step_def)
    have "row_step i l y z" using assms(2) Some n(2) by (force simp: deliv_step_def)
    then show ?thesis using y by (auto simp: row_step_def delivery_key_def)
  qed
  show ?thesis using assms old new by (auto simp: deliv_step_def)
qed

lemma deliv_step_same: "deliveries db' = deliveries db \<Longrightarrow> delivery_seq db' = delivery_seq db \<Longrightarrow> deliv_step i k db db'"
  by (auto simp: deliv_step_def deliveries_wf_def get_delivery_def)

text \<open>A table update whose rows step.\<close>

lemma deliv_step_update:
  assumes "\<And>x. x \<in> set (deliveries db) \<Longrightarrow> P x \<Longrightarrow> row_step i k x (f x)"
    and "deliveries db' = update_where P f (deliveries db)" "delivery_seq db' = delivery_seq db"
  shows "deliv_step i k db db'"
proof -
  let ?g = "\<lambda>x. if P x then f x else x"
  have s: "row_step i k x (?g x)" if "x \<in> set (deliveries db)" for x using assms(1) that by auto
  have d: "deliveries db' = map ?g (deliveries db)" by (simp add: assms(2) update_where_def)
  have m: "map pd_id (deliveries db') = map pd_id (deliveries db)" "map delivery_key (deliveries db') = map delivery_key (deliveries db)"
    using s by (auto simp: d row_step_def)
  have "get_delivery db' n = map_option ?g (get_delivery db n)" for n
  proof -
    have "find (\<lambda>r. pd_id r = n) (map ?g xs) = map_option ?g (find (\<lambda>r. pd_id r = n) xs)" if "set xs \<subseteq> set (deliveries db)" for xs
      using that by (induction xs) (use s in \<open>auto simp: row_step_def\<close>)
    then show ?thesis by (simp add: get_delivery_def row_get_def d)
  qed
  moreover have "x \<in> set (deliveries db)" if "get_delivery db n = Some x" for n x
    using that by (auto simp: get_delivery_def dest: row_get_SomeD)
  moreover have "deliveries_wf db'" if "deliveries_wf db"
  proof -
    have "\<forall>y \<in> set (deliveries db'). pd_id y < delivery_seq db \<and> delivery_ok y"
    proof
      fix y assume "y \<in> set (deliveries db')"
      then obtain x where x: "x \<in> set (deliveries db)" "y = ?g x" unfolding d set_map by blast
      then have "row_step i k x y" using s by simp
      then show "pd_id y < delivery_seq db \<and> delivery_ok y" using \<open>deliveries_wf db\<close> x(1) by (simp add: deliveries_wf_def row_step_def)
    qed
    then show ?thesis using that m unfolding deliveries_wf_def by (simp add: assms(3))
  qed
  ultimately show ?thesis using s assms(3) by (auto simp: deliv_step_def)
qed

lemma add_delivery_step: "deliv_step (j_id j) 0 db (add_delivery j now t db)"
proof (cases "delivery_key (new_delivery j now t (delivery_seq db)) \<in> delivery_key ` set (deliveries db)")
  case True
  then show ?thesis by (simp add: add_delivery_def Let_def)
next
  case False
  let ?x = "new_delivery j now t (delivery_seq db)"
  have d: "add_delivery j now t db = db\<lparr>deliveries := deliveries db @ [?x], delivery_seq := Suc (delivery_seq db)\<rparr>"
    using False by (simp add: add_delivery_def Let_def)
  have x: "pd_job ?x = j_id j" "pd_attempts ?x = 0" "pd_id ?x = delivery_seq db" "delivery_ok ?x"
    by (simp_all add: new_delivery_def delivery_ok_def)
  have "deliveries_wf (add_delivery j now t db)" if "deliveries_wf db"
    using that False x unfolding d by (auto simp: deliveries_wf_def less_Suc_eq)
  moreover have "get_delivery (add_delivery j now t db) n = (case get_delivery db n of Some y \<Rightarrow> Some y | None \<Rightarrow> if n = delivery_seq db then Some ?x else None)" for n
    unfolding d by (simp add: get_delivery_def x(3) split: option.splits)
  ultimately show ?thesis using x by (auto simp: deliv_step_def d split: if_splits)
qed

lemma add_deliveries_step: "deliv_step (j_id j) 0 db (fold (\<lambda>td. add_delivery j now (fst td)) tds db)"
proof (induction tds arbitrary: db)
  case (Cons td tds)
  show ?case using deliv_step_trans [OF add_delivery_step Cons.IH] by simp
qed simp

lemma modify_job_deliveries [simp]: "deliveries (modify_job i f db) = deliveries db" "delivery_seq (modify_job i f db) = delivery_seq db"
  by (simp_all add: modify_job_def)

lemma modify_job_step: "deliv_step k n db (modify_job i f db)"
  by (rule deliv_step_same) simp_all

lemma file_deliveries_step:
  "file_deliveries env st now j db = Some (go, db') \<Longrightarrow> deliv_step (j_id j) 0 db db'"
  by (auto simp: file_deliveries_def Let_def add_deliveries_step modify_job_step split: option.splits if_splits prod.splits)

lemma gate_steps:
  assumes "g \<in> set (gates env clk)"
  shows "case g j db of Inl db' \<Rightarrow> deliv_step (j_id j) 0 db db' | Inr (j', db') \<Rightarrow> deliv_step (j_id j) 0 db db'"
proof -
  have "deliv_step (j_id j) 0 db (modify_job (j_id j) f (db\<lparr>deliveries := update_where (\<lambda>x. pd_job x = j_id j \<and> pd_status x = DPending)
      (\<lambda>x. x\<lparr>pd_status := DSkipped, failure_code := Some c\<rparr>) (deliveries db)\<rparr>))" for f c
    by (rule deliv_step_update [where P = "\<lambda>x. pd_job x = j_id j \<and> pd_status x = DPending"])
      (auto simp: row_step_def delivery_key_def delivery_ok_def modify_job_def)
  then have "case session_gate env n j db of Inl db' \<Rightarrow> deliv_step (j_id j) 0 db db' | Inr (j', db') \<Rightarrow> deliv_step (j_id j) 0 db db'" for n
    by (auto simp: session_gate_def modify_job_step split: option.splits)
  moreover have cc: "case course_changes_gate env n j db of Inl db' \<Rightarrow> deliv_step (j_id j) 0 db db' | Inr (j', db') \<Rightarrow> deliv_step (j_id j) 0 db db'" for n
    by (auto simp: course_changes_gate_def Let_def modify_job_step split: prod.splits)
  moreover have "case activity_gate env clk j db of Inl db' \<Rightarrow> deliv_step (j_id j) 0 db db' | Inr (j', db') \<Rightarrow> deliv_step (j_id j) 0 db db'"
    using cc [of "class_now clk"] deliv_step_trans [OF _ modify_job_step, of "j_id j" 0 db _ 0]
    by (auto simp: activity_gate_def Let_def modify_job_step split: sum.splits prod.splits if_splits)
  moreover have "case pace_gate n j db of Inl db' \<Rightarrow> deliv_step (j_id j) 0 db db' | Inr (j', db') \<Rightarrow> deliv_step (j_id j) 0 db db'" for n
    by (auto simp: pace_gate_def modify_job_step split: option.splits)
  ultimately show ?thesis using assms cc [of "class_now clk"] by (auto simp: gates_def course_gate_def)
qed


lemma run_gates_step:
  assumes "set gs \<subseteq> set (gates env clk)" "jobs_wf db" "get_job db (j_id j) = Some j"
  shows "case run_gates gs j db of Inl db' \<Rightarrow> deliv_step (j_id j) 0 db db' | Inr (j', db') \<Rightarrow> deliv_step (j_id j) 0 db db'"
  using assms
proof (induction gs arbitrary: j db)
  case (Cons g gs)
  have g: "gate_ok j db (g j db)" by (rule each_gate_ok [of g env clk db j]) (use Cons.prems in auto)
  have s: "case g j db of Inl db' \<Rightarrow> deliv_step (j_id j) 0 db db' | Inr (j', db') \<Rightarrow> deliv_step (j_id j) 0 db db'"
    by (rule gate_steps [of g env clk]) (use Cons.prems(1) in simp)
  show ?case
  proof (cases "g j db")
    case (Inl d)
    then show ?thesis using s by simp
  next
    case (Inr jd)
    obtain j' db' where jd: "jd = (j', db')" by fastforce
    have ok: "grows 0 db db'" "get_job db' (j_id j') = Some j'" "j_id j' = j_id j" "deliv_step (j_id j) 0 db db'"
      using g s by (auto simp: Inr jd gate_ok_def)
    have "case run_gates gs j' db' of Inl d \<Rightarrow> deliv_step (j_id j') 0 db' d | Inr (k, d) \<Rightarrow> deliv_step (j_id j') 0 db' d"
      by (rule Cons.IH) (use Cons.prems ok grows_wf [OF ok(1)] in auto)
    then show ?thesis using deliv_step_trans [OF ok(4), of 0] ok(3)
      by (cases "run_gates gs j' db'") (auto simp: Inr jd)
  qed
qed simp

lemma materialize_step:
  assumes "materialize env st clk j db = Some (go, db')" "jobs_wf db" "get_job db (j_id j) = Some j"
  shows "deliv_step (j_id j) 0 db db'"
proof (cases "j_device j = None \<and> channel j \<in> set DEVICE_CHANNELS")
  case True
  then show ?thesis using assms by (auto simp: materialize_def modify_job_step split: if_splits)
next
  case False
  note G = run_gates_step [OF order_refl assms(2,3), of env clk] and O = gates_ok [OF assms(2,3), of env clk]
  show ?thesis
  proof (cases "run_gates (gates env clk) j db")
    case (Inl d)
    then show ?thesis using assms(1) G by (simp only: materialize_def False if_False) auto
  next
    case (Inr jd)
    obtain j' d where jd: "jd = (j', d)" by fastforce
    have "file_deliveries env st (materialize_now clk) j' d = Some (go, db')"
      using assms(1) Inr by (simp only: materialize_def False if_False) (simp add: jd)
    moreover have "deliv_step (j_id j) 0 db d" "j_id j' = j_id j" using G O by (auto simp: Inr jd gate_ok_def)
    ultimately show ?thesis using deliv_step_trans [of "j_id j" 0 db d 0 db'] file_deliveries_step by fastforce
  qed
qed

lemma modify_delivery_step:
  assumes "\<And>y. y \<in> set (deliveries db) \<Longrightarrow> pd_id y = n \<Longrightarrow> row_step i k y (f y)"
    and "deliveries db' = deliveries (modify_delivery n f db)" "delivery_seq db' = delivery_seq db"
  shows "deliv_step i k db db'"
  by (rule deliv_step_update [where P = "\<lambda>y. pd_id y = n" and f = f])
    (use assms in \<open>auto simp: modify_delivery_def row_update_as_update_where\<close>)

lemma get_modify_delivery:
  "(\<And>y. pd_id (f y) = pd_id y) \<Longrightarrow> get_delivery (modify_delivery n f db) m = map_option (if m = n then f else id) (get_delivery db m)"
  by (cases "row_get pd_id m (deliveries db)")
    (auto simp: get_delivery_def modify_delivery_def row_update_as_update_where row_get_update_where dest: row_get_SomeD)

lemma modify_token_deliveries [simp]: "deliveries (modify_token n f db) = deliveries db" "delivery_seq (modify_token n f db) = delivery_seq db"
  by (simp_all add: modify_token_def)

text \<open>Every outcome of a send is an update of the one row.\<close>

lemmas delivery_updates = skip_delivery_def sent_delivery_def dead_delivery_def failed_delivery_def Let_def

lemma send_one_update:
  assumes "send_one env st now j x db = Some db'"
  shows "\<exists>f. deliveries db' = deliveries (modify_delivery (pd_id x) f db) \<and> delivery_seq db' = delivery_seq db \<and>
    (\<forall>y. pd_id (f y) = pd_id y \<and> (pd_status y = DPending \<and> delivery_ok y \<longrightarrow> row_step (pd_job y) 1 y (f y)))"
proof -
  define F where "F = range skip_delivery \<union> range (sent_delivery now) \<union> range dead_delivery \<union> range (failed_delivery st now)"
  have rr: "\<exists>f \<in> F. deliveries (record_result st now x t r db) = deliveries (modify_delivery (pd_id x) f db) \<and>
      delivery_seq (record_result st now x t r db) = delivery_seq db" for t r
    by (simp add: record_result_def) (auto simp: F_def modify_delivery_def)
  consider c where "db' = modify_delivery (pd_id x) (skip_delivery c) db" | t r where "db' = record_result st now x t r db"
    using assms by (auto simp: send_one_def Let_def split: option.splits if_splits)
  then have "\<exists>f \<in> F. deliveries db' = deliveries (modify_delivery (pd_id x) f db) \<and> delivery_seq db' = delivery_seq db"
  proof cases
    case (1 c)
    then show ?thesis by (intro bexI [of _ "skip_delivery c"]) (auto simp: F_def modify_delivery_def)
  next
    case (2 t r)
    then show ?thesis using rr by simp
  qed
  then obtain f where f: "f \<in> F" "deliveries db' = deliveries (modify_delivery (pd_id x) f db)" "delivery_seq db' = delivery_seq db" by blast
  have "pd_id (f y) = pd_id y" for y using f(1) by (auto simp: F_def delivery_updates)
  moreover have "row_step (pd_job y) 1 y (f y)" if "pd_status y = DPending" "delivery_ok y" for y
    using f(1) that by (auto simp: F_def row_step_def delivery_key_def delivery_ok_def delivery_updates)
  ultimately show ?thesis using f(2,3) by (intro exI [of _ f]) simp
qed


lemma get_delivery_row: "deliveries_wf db \<Longrightarrow> x \<in> set (deliveries db) \<Longrightarrow> get_delivery db (pd_id x) = Some x"
  by (simp add: get_delivery_def deliveries_wf_def row_get_in_set)

lemma get_delivery_in: "get_delivery db n = Some x \<Longrightarrow> x \<in> set (deliveries db) \<and> pd_id x = n"
  by (auto simp: get_delivery_def dest: row_get_SomeD)

lemma send_one_step:
  assumes "send_one env st now j x db = Some db'" "deliveries_wf db" "get_delivery db (pd_id x) = Some x" "delivery_due now x"
  shows "deliv_step (pd_job x) 1 db db'" "n \<noteq> pd_id x \<Longrightarrow> get_delivery db' n = get_delivery db n"
proof -
  define P where "P f \<longleftrightarrow> deliveries db' = deliveries (modify_delivery (pd_id x) f db) \<and> delivery_seq db' = delivery_seq db \<and>
    (\<forall>y. pd_id (f y) = pd_id y \<and> (pd_status y = DPending \<and> delivery_ok y \<longrightarrow> row_step (pd_job y) 1 y (f y)))" for f
  obtain f where "P f" using send_one_update [OF assms(1)] unfolding P_def by blast
  then have f: "deliveries db' = deliveries (modify_delivery (pd_id x) f db)" "delivery_seq db' = delivery_seq db"
    "\<And>y. pd_id (f y) = pd_id y" "\<And>y. pd_status y = DPending \<Longrightarrow> delivery_ok y \<Longrightarrow> row_step (pd_job y) 1 y (f y)"
    by (simp_all only: P_def)
  have "y = x" if "y \<in> set (deliveries db)" "pd_id y = pd_id x" for y
    using get_delivery_row [OF assms(2) that(1)] assms(3) that(2) by (metis option.inject)
  moreover have "delivery_ok x" using assms(2) get_delivery_in [OF assms(3)] by (simp add: deliveries_wf_def)
  then have "row_step (pd_job x) 1 x (f x)" using f(4) [of x] assms(4) by (simp add: delivery_due_def)
  ultimately have "row_step (pd_job x) 1 y (f y)" if "y \<in> set (deliveries db)" "pd_id y = pd_id x" for y
    using that by metis
  then show "deliv_step (pd_job x) 1 db db'" by (rule modify_delivery_step [OF _ f(1,2)])
  have "get_delivery db' n = get_delivery (modify_delivery (pd_id x) f db) n" by (simp add: get_delivery_def f(1))
  then show "n \<noteq> pd_id x \<Longrightarrow> get_delivery db' n = get_delivery db n"
    by (simp add: get_modify_delivery [OF f(3)] option.map_id0)
qed

lemma send_due_step:
  assumes "send_due env st now j xs db = Some db'" "deliveries_wf db" "distinct (map pd_id xs)"
    and "\<forall>x \<in> set xs. get_delivery db (pd_id x) = Some x \<and> pd_job x = i"
  shows "deliv_step i 1 db db' \<and> (\<forall>n. n \<notin> pd_id ` set xs \<longrightarrow> get_delivery db' n = get_delivery db n)"
  using assms
proof (induction xs arbitrary: db)
  case (Cons x xs)
  show ?case
  proof (cases "delivery_due now x")
    case False
    then show ?thesis using Cons by simp
  next
    case True
    then obtain d where d: "send_one env st now j x db = Some d" "send_due env st now j xs d = Some db'"
      using Cons.prems(1) by (auto simp: bind_eq_Some_conv)
    have x: "get_delivery db (pd_id x) = Some x" "pd_job x = i" using Cons.prems(4) by auto
    have s: "deliv_step i 1 db d" and o: "\<And>n. n \<noteq> pd_id x \<Longrightarrow> get_delivery d n = get_delivery db n"
      using send_one_step [OF d(1) Cons.prems(2) x(1) True] x(2) by auto
    have wf: "deliveries_wf d" using s Cons.prems(2) by (simp add: deliv_step_def)
    have "\<forall>y \<in> set xs. get_delivery d (pd_id y) = Some y \<and> pd_job y = i"
      using Cons.prems(3,4) o by (metis image_eqI list.set_intros(2) list.set_map list.simps(9) distinct.simps(2))
    then have I: "deliv_step i 1 d db'" "\<And>n. n \<notin> pd_id ` set xs \<Longrightarrow> get_delivery db' n = get_delivery d n"
      using Cons.IH [OF d(2) wf] Cons.prems(3) by auto
    have kx: "get_delivery db' (pd_id x) = get_delivery d (pd_id x)" using I(2) Cons.prems(3) by simp
    have old: "\<exists>y. get_delivery db' n = Some y \<and> row_step i 1 z y" if "get_delivery db n = Some z" for n z
    proof (cases "n = pd_id x")
      case True
      then show ?thesis using that s kx by (simp add: deliv_step_def)
    next
      case False
      then have "get_delivery d n = Some z" using o that by simp
      then show ?thesis using I(1) by (simp add: deliv_step_def)
    qed
    have new: "pd_job y = i \<and> pd_attempts y \<le> 1" if "get_delivery db n = None" "get_delivery db' n = Some y" for n y
    proof -
      have "n \<noteq> pd_id x" using that(1) x(1) by auto
      then have "get_delivery d n = None" using o that(1) by simp
      then show ?thesis using I(1) that(2) by (simp add: deliv_step_def)
    qed
    show ?thesis using s I old new o kx by (auto simp: deliv_step_def)
  qed
qed simp

lemma job_deliveries_rows:
  assumes "deliveries_wf db"
  shows "distinct (map pd_id (job_deliveries db i))" "\<forall>x \<in> set (job_deliveries db i). get_delivery db (pd_id x) = Some x \<and> pd_job x = i"
  using assms get_delivery_row [OF assms] by (auto simp: job_deliveries_def deliveries_wf_def distinct_map_filter)

lemma exhaust_step:
  "deliv_step i 0 db (db\<lparr>deliveries := update_where (\<lambda>x. pd_job x = i \<and> pd_status x = DPending)
     (\<lambda>x. x\<lparr>pd_status := DFailed, failure_code := Some (g x)\<rparr>) (deliveries db)\<rparr>)"
  by (rule deliv_step_update [where P = "\<lambda>x. pd_job x = i \<and> pd_status x = DPending"])
    (auto simp: row_step_def delivery_key_def delivery_ok_def)

lemma deliver_round_step:
  assumes "deliver_round env st now j db = Some db'" "deliveries_wf db"
  shows "deliv_step (j_id j) 1 db db'"
proof (cases "job_deliveries db (j_id j) = []")
  case True
  then show ?thesis using assms(1) by (auto simp: deliver_round_def Let_def modify_job_step)
next
  case False
  then obtain d where d: "send_due env st now j (job_deliveries db (j_id j)) db = Some d"
    using assms(1) by (auto simp: deliver_round_def Let_def split: option.splits)
  have s: "deliv_step (j_id j) 1 db d" using send_due_step [OF d assms(2) job_deliveries_rows [OF assms(2)]] by blast
  have "deliv_step (j_id j) 0 d db'"
    using assms(1) False d deliv_step_trans [where a = d and k = 0 and l = 0, OF exhaust_step modify_job_step, of "j_id j"]
    by (auto simp: deliver_round_def Let_def modify_job_step split: if_splits)
  then show ?thesis using deliv_step_trans [OF s] by fastforce
qed

lemma end_activity_deliveries: "deliveries (end_activity f u now t db) = deliveries db" "delivery_seq (end_activity f u now t db) = delivery_seq db"
  by (auto simp: end_activity_def Let_def insert_job_def split: prod.splits option.splits)

lemma fold_end_deliveries:
  "deliveries (fold (end_activity f u now) ts db) = deliveries db" "delivery_seq (fold (end_activity f u now) ts db) = delivery_seq db"
  by (induction ts arbitrary: db) (simp_all add: end_activity_deliveries)

lemma trigger_deliveries:
  "deliveries (snd (trigger_rounds n db u latest source now)) = deliveries db \<and> delivery_seq (snd (trigger_rounds n db u latest source now)) = delivery_seq db"
  by (induction n arbitrary: latest) (auto simp: insert_job_def ride_def bind_eq_Some_conv split: option.splits if_splits)

lemma record_submitted_step: "deliv_step i k db (record_submitted f db u c now)"
  by (rule deliv_step_same)
    (auto simp: record_submitted_def Let_def apply_submission_status_def cancel_for_submitted_def end_running_activities_def
      cancel_pending_reminders_def enqueue_sync_trigger_def fold_end_deliveries trigger_deliveries split: option.splits prod.splits)

lemma held_back_step: "held_back env st now i j c db = (held, db') \<Longrightarrow> deliv_step i 0 db db'"
  using deliv_step_trans [where i = i and a = db and k = 0 and l = 0, OF modify_job_step record_submitted_step]
  by (auto simp: held_back_def Let_def modify_job_step split: verdict.splits if_splits)

lemma process_claimed_step:
  assumes "process_claimed env st worker clk i check db = Some db'" "jobs_wf db" "deliveries_wf db"
  shows "deliv_step i 1 db db'"
proof -
  obtain j where j: "get_job db i = Some j" using assms(1) by (auto simp: process_claimed_def split: option.splits)
  have id: "j_id j = i" by (rule get_job_id [OF j])
  have weak: "deliv_step i 1 db d" if "deliv_step i 0 db d" for d using deliv_step_trans [OF that deliv_step_refl, of 1] by simp
  show ?thesis
  proof (cases "j_status j \<noteq> PProcessing \<or> j_locked_by j \<noteq> Some worker")
    case True
    then show ?thesis using assms(1) j by (auto simp: process_claimed_def)
  next
    case False
    let ?step = "case check of Some c \<Rightarrow> held_back env st (held_now clk) i j c db
         | None \<Rightarrow> if needs_check j \<and> \<not> has_deliveries db i
            then (True, modify_job i (\<lambda>j. unlock (j\<lparr>j_status := PPending\<rparr>)) db) else (False, db)"
    obtain held db1 where h: "?step = (held, db1)" by fastforce
    have h0: "deliv_step i 0 db db1" "\<not> held \<Longrightarrow> db1 = db"
      using h held_back_step held_back_ok [OF _ assms(2)] by (auto simp: modify_job_step split: option.splits if_splits)
    show ?thesis
    proof (cases held)
      case True
      then show ?thesis using assms(1) j False h weak [OF h0(1)] by (simp add: process_claimed_def)
    next
      case nh: False
      then have db1: "db1 = db" using h0(2) by simp
      obtain go db2 where mt: "materialize env st clk j db = Some (go, db2)"
        using assms(1) j False h nh by (auto simp: process_claimed_def db1 split: option.splits)
      have m: "deliv_step i 0 db db2" using materialize_step [OF mt assms(2)] j id by simp
      show ?thesis
      proof (cases go)
        case True
        then obtain j' where j': "get_job db2 i = Some j'" "j_id j' = i" using materialize_ok [OF mt assms(2)] j id by auto
        have "deliver_round env st (round_now clk) j' db2 = Some db'"
          using assms(1) j False h nh mt True j'(1) by (simp add: process_claimed_def db1)
        moreover have "deliveries_wf db2" using m assms(3) by (simp add: deliv_step_def)
        ultimately show ?thesis using deliv_step_trans [OF m] deliver_round_step j'(2) by fastforce
      next
        case ng: False
        then show ?thesis using m assms(1) j False h nh mt weak by (simp add: process_claimed_def db1)
      qed
    qed
  qed
qed

lemma process_job_step:
  assumes "jobs_wf db" "deliveries_wf db"
  shows "deliv_step i 1 db (process_job env st worker clk i check db)"
proof (cases "Option.bind check (\<lambda>c. process_claimed env st worker clk i c db)")
  case None
  then show ?thesis by (simp add: process_job_def modify_job_step)
next
  case (Some d)
  then obtain x where x: "check = Some x" "process_claimed env st worker clk i x db = Some d" by (auto simp: bind_eq_Some_conv)
  then show ?thesis using process_claimed_step [OF x(2) assms] by (simp add: process_job_def)
qed

section \<open>A tick and the deliveries\<close>

text \<open>What holds over every job of a tick holds over the tick: \<open>inv\<close> is kept, and \<open>rel\<close> relates the databases
  before and after.\<close>

locale tick_relation =
  fixes proc :: "nat \<Rightarrow> nat \<Rightarrow> bool \<Rightarrow> push_db \<Rightarrow> push_db" and inv :: "push_db \<Rightarrow> bool" and rel :: "push_db \<Rightarrow> push_db \<Rightarrow> bool"
  assumes rel_trans: "rel a b \<Longrightarrow> rel b d \<Longrightarrow> rel a d"
    and jobs_inv: "(\<And>j. j_id (f j) = j_id j) \<Longrightarrow> inv db \<Longrightarrow> inv (db\<lparr>jobs := update_where P f (jobs db)\<rparr>)"
    and jobs_rel: "inv db \<Longrightarrow> rel db (db\<lparr>jobs := update_where P f (jobs db)\<rparr>)"
    and proc_inv: "inv db \<Longrightarrow> inv (proc n i c db)"
    and proc_rel: "inv db \<Longrightarrow> rel db (proc n i c db)"
begin

lemma release_rel: "inv db \<Longrightarrow> inv (release_claimed w ids db) \<and> rel db (release_claimed w ids db)"
  unfolding release_claimed_def by (simp add: jobs_inv jobs_rel)

lemma claim_rel:
  assumes "inv db" "claim_due_jobs st w now skip db = (claimed, db')"
  shows "inv db' \<and> rel db db'"
proof -
  have "db' = db\<lparr>jobs := update_where (\<lambda>j. j_id j \<in> j_id ` set (to_claim st now skip db))
      (\<lambda>j. j\<lparr>j_status := PProcessing, j_locked_by := Some w, j_locked_at := Some now\<rparr>) (jobs db)\<rparr>"
    using assms(2) by (auto simp: claim_due_jobs_def Let_def)
  then show ?thesis using jobs_inv jobs_rel assms(1) by simp
qed

lemma recover_rel: "inv db \<Longrightarrow> inv (recover_stale_jobs st now db) \<and> rel db (recover_stale_jobs st now db)"
  unfolding recover_stale_jobs_def by (intro conjI jobs_inv jobs_rel) (simp_all add: recover_job_def Let_def)

lemma run_batch_rel:
  "inv a \<Longrightarrow> inv db \<Longrightarrow> rel a db \<Longrightarrow> run_batch clock w proc first claimed processed db = (processed', db') \<Longrightarrow> inv db' \<and> rel a db'"
proof (induction claimed arbitrary: first processed db)
  case (Cons x rest)
  obtain i prio checked where x: "x = (i, prio, checked)" by (cases x)
  let ?d = "proc (length processed) i checked db"
  have d: "inv ?d" "rel a ?d" using proc_inv proc_rel Cons.prems(2,3) rel_trans by blast+
  show ?case
    using Cons.prems(4) release_rel [OF Cons.prems(2)] rel_trans [OF Cons.prems(3)] Cons.IH [OF Cons.prems(1) d]
    by (auto simp: x split: if_splits)
qed simp

lemma drain_rel:
  "inv a \<Longrightarrow> inv db \<Longrightarrow> rel a db \<Longrightarrow> drain fuel st clock w proc processed db = Some (processed', db') \<Longrightarrow> inv db' \<and> rel a db'"
proof (induction fuel arbitrary: processed db)
  case (Suc n)
  obtain claimed d where c: "claim_due_jobs st w (clock (length processed)) processed db = (claimed, d)" by fastforce
  then have d: "inv d" "rel a d" using claim_rel [OF Suc.prems(2) c] Suc.prems(3) rel_trans by auto
  show ?case
  proof (cases "claimed = []")
    case True
    then show ?thesis using d Suc.prems(4) c by simp
  next
    case False
    obtain p e where e: "run_batch clock w proc True claimed processed d = (p, e)" by fastforce
    have "drain n st clock w proc p e = Some (processed', db')" using Suc.prems(4) c e False by simp
    then show ?thesis using run_batch_rel [OF Suc.prems(1) d e] Suc.IH Suc.prems(1) by blast
  qed
qed simp

lemma tick_rel:
  assumes "inv db" "run_push_tick fuel st clock w proc db = Some (n, db')"
  shows "inv db' \<and> rel db db'"
proof -
  obtain p where "drain fuel st clock w proc [] (recover_stale_jobs st (clock 0) db) = Some (p, db')"
    using assms(2) by (auto simp: run_push_tick_def)
  then show ?thesis using drain_rel recover_rel [OF assms(1)] assms(1) by blast
qed

end

definition tables_wf :: "push_db \<Rightarrow> bool" where
  "tables_wf db \<longleftrightarrow> jobs_wf db \<and> deliveries_wf db"

definition finished_kept :: "push_db \<Rightarrow> push_db \<Rightarrow> bool" where
  "finished_kept db db' \<longleftrightarrow> (\<forall>n x. get_delivery db n = Some x \<and> pd_status x \<noteq> DPending \<longrightarrow> get_delivery db' n = Some x)"

interpretation delivery_tick: tick_relation "tick_job env st worker clk checks" tables_wf finished_kept for env st worker clk checks
proof
  show "tables_wf (db\<lparr>jobs := update_where P f (jobs db)\<rparr>)" if "\<And>j. j_id (f j) = j_id j" "tables_wf db" for f db P
    using that by (simp add: tables_wf_def jobs_wf_def deliveries_wf_def map_key_update_where ball_update_where)
  show "finished_kept db (db\<lparr>jobs := update_where P f (jobs db)\<rparr>)" for db P f
    by (simp add: finished_kept_def get_delivery_def)
  fix db n i c assume wf: "tables_wf db"
  let ?c = "if c then checks n i else Some None"
  have s: "deliv_step i 1 db (tick_job env st worker clk checks n i c db)"
    unfolding tick_job_def by (rule process_job_step) (use wf in \<open>simp_all add: tables_wf_def\<close>)
  show "tables_wf (tick_job env st worker clk checks n i c db)"
    using wf s push_pipeline.proc_wf by (simp add: tables_wf_def deliv_step_def)
  show "finished_kept db (tick_job env st worker clk checks n i c db)"
    using s unfolding finished_kept_def deliv_step_def row_step_def by metis
qed (auto simp: finished_kept_def)

text \<open>Two phones of user 1, one deleted, with a token each, and the job of a system push that worker w holds.\<close>

definition phone :: "uuid \<Rightarrow> datetime option \<Rightarrow> push_device" where
  "phone d gone_at = \<lparr>pv_id = d, pv_user = 1, pv_platform = ''ios'', pv_app_version = Some ''2.3.1'', pv_locale = None,
     bulletin_push_enabled = True, cloud_sync_enabled = True, sync_assignment_reminders = True, pv_deleted_at = gone_at\<rparr>"

definition phone_token :: "nat \<Rightarrow> uuid \<Rightarrow> push_token" where
  "phone_token n d = \<lparr>tk_id = n, tk_device = d, tk_provider = ''apns'', tk_kind = ''standard'', tk_hash = ''h'', tk_value = ''v'',
     tk_scope_key = [], tk_expires_at = None, tk_status = ''active'', tk_last_success_at = None, tk_last_failure_at = None,
     tk_last_failure_code = None\<rparr>"

definition claimed_job :: push_job where
  "claimed_job = (sample_job 2 10)\<lparr>j_status := PProcessing, j_locked_by := Some ''w'', j_locked_at := Some 0\<rparr>"

definition old_delivery :: push_delivery where
  "old_delivery = sent_delivery 0 \<lparr>sr_success = True, sr_status = ''200'', sr_description = None, sr_notification_id = None\<rparr>
     (new_delivery (sample_job 1 100) 0 (phone_token 8 7) 1)"

definition phone_db :: push_db where
  "phone_db = sample_db\<lparr>jobs := [(sample_job 1 100)\<lparr>j_status := PSent\<rparr>, claimed_job], deliveries := [old_delivery], delivery_seq := 2,
     tokens := [phone_token 8 7, phone_token 9 6], devices := [phone 7 None, phone 6 (Some 0)]\<rparr>"

lemma get_delivery_set: "deliveries_wf db \<Longrightarrow> x \<in> set (deliveries db) \<longleftrightarrow> get_delivery db (pd_id x) = Some x"
  using get_delivery_row get_delivery_in by blast

text \<open>C10. A push that was delivered, skipped or given up is never touched again. A tick of the pipeline returns,
  whatever the parts it calls answer, with both tables well formed (distinct ids below their sequences, one delivery per
  job and token, attempts within their limit and one left for every pending delivery), and every delivery
  that had an outcome before stands in the table unchanged.\<close>

theorem tick_never_resends:
  assumes "tables_wf db" "0 < push_pipeline_batch_size st" "workload [] (recover_stale_jobs st (clock 0) db) < fuel"
  shows "\<exists>n db'. run_push_tick fuel st clock worker (tick_job env st worker clk checks) db = Some (n, db') \<and> tables_wf db' \<and>
    (\<forall>x \<in> set (deliveries db). pd_status x \<noteq> DPending \<longrightarrow> x \<in> set (deliveries db'))"
proof -
  have "jobs_wf db" using assms(1) by (simp add: tables_wf_def)
  from push_tick_returns [where clock = clock, OF this assms(2,3)] obtain n db' where
    r: "run_push_tick fuel st clock worker (tick_job env st worker clk checks) db = Some (n, db')" by blast
  have k: "tables_wf db'" "finished_kept db db'" using delivery_tick.tick_rel [OF assms(1) r] by auto
  then have "x \<in> set (deliveries db')" if "x \<in> set (deliveries db)" "pd_status x \<noteq> DPending" for x
    using that assms(1) by (auto simp: tables_wf_def finished_kept_def get_delivery_set)
  then show ?thesis using r k(1) by blast
qed

lemma job_rows_kept:
  assumes "jobs_wf db" "deliveries_wf db"
    and "db' = process_job env st worker clk i check db"
  shows "\<forall>x \<in> set (deliveries db). \<exists>y \<in> set (deliveries db'). pd_id y = pd_id x \<and> delivery_key y = delivery_key x \<and>
      pd_max_attempts y = pd_max_attempts x \<and> (y = x \<or> pd_job x = i \<and> pd_status x = DPending) \<and>
      pd_attempts x \<le> pd_attempts y \<and> pd_attempts y \<le> pd_attempts x + 1"
    and "\<forall>y \<in> set (deliveries db'). pd_id y \<notin> pd_id ` set (deliveries db) \<longrightarrow> pd_job y = i \<and> pd_attempts y \<le> 1"
proof -
  have s: "deliv_step i 1 db db'" unfolding assms(3) by (rule process_job_step [OF assms(1,2)])
  then have wf: "deliveries_wf db'" using assms(2) by (simp add: deliv_step_def)
  show "\<forall>x \<in> set (deliveries db). \<exists>y \<in> set (deliveries db'). pd_id y = pd_id x \<and> delivery_key y = delivery_key x \<and>
      pd_max_attempts y = pd_max_attempts x \<and> (y = x \<or> pd_job x = i \<and> pd_status x = DPending) \<and>
      pd_attempts x \<le> pd_attempts y \<and> pd_attempts y \<le> pd_attempts x + 1"
  proof
    fix x assume "x \<in> set (deliveries db)"
    then have "get_delivery db (pd_id x) = Some x" by (rule get_delivery_row [OF assms(2)])
    then obtain y where y: "get_delivery db' (pd_id x) = Some y" "row_step i 1 x y" using s unfolding deliv_step_def by blast
    then show "\<exists>y \<in> set (deliveries db'). pd_id y = pd_id x \<and> delivery_key y = delivery_key x \<and>
      pd_max_attempts y = pd_max_attempts x \<and> (y = x \<or> pd_job x = i \<and> pd_status x = DPending) \<and>
      pd_attempts x \<le> pd_attempts y \<and> pd_attempts y \<le> pd_attempts x + 1"
      using get_delivery_in [OF y(1)] by (intro bexI [of _ y]) (auto simp: row_step_def)
  qed
  show "\<forall>y \<in> set (deliveries db'). pd_id y \<notin> pd_id ` set (deliveries db) \<longrightarrow> pd_job y = i \<and> pd_attempts y \<le> 1"
  proof (intro ballI impI)
    fix y assume y: "y \<in> set (deliveries db')" "pd_id y \<notin> pd_id ` set (deliveries db)"
    then have "get_delivery db (pd_id y) = None" using get_delivery_in by (metis image_eqI option.exhaust)
    then show "pd_job y = i \<and> pd_attempts y \<le> 1" using s get_delivery_row [OF wf y(1)] by (simp add: deliv_step_def)
  qed
qed

theorem tick_never_resends_witness:
  "\<exists>n db'. run_push_tick 10 sample_settings (\<lambda>_. 5) ''w''
     (tick_job sample_env sample_settings ''w'' (\<lambda>_. sample_clock) (\<lambda>_ _. Some None)) phone_db = Some (n, db') \<and>
     tables_wf db' \<and> old_delivery \<in> set (deliveries db')"
proof -
  have w: "tables_wf phone_db" by code_simp
  have b: "0 < push_pipeline_batch_size sample_settings" by (simp add: sample_settings_def)
  have f: "workload [] (recover_stale_jobs sample_settings 5 phone_db) < 10" by code_simp
  have o: "old_delivery \<in> set (deliveries phone_db)" "pd_status old_delivery \<noteq> DPending" by (simp add: phone_db_def) code_simp
  from tick_never_resends [where clock = "\<lambda>_. 5", OF w b f, of "''w''" sample_env "\<lambda>_. sample_clock" "\<lambda>_ _. Some None"] o show ?thesis by metis
qed

text \<open>C20. Processing one job, whether it is sent, put back, cancelled or crashes, keeps every delivery row it finds: its id, job, token
  and limit never change, only a pending row of this job changes at all, and it spends at most one attempt. A row
  that is new belongs to the job and has spent at most one attempt.\<close>

theorem process_job_rows:
  assumes "jobs_wf db" "deliveries_wf db"
  shows "let db' = process_job env st worker clk i check db in
    (\<forall>x \<in> set (deliveries db). \<exists>y \<in> set (deliveries db'). pd_id y = pd_id x \<and> delivery_key y = delivery_key x \<and>
      pd_max_attempts y = pd_max_attempts x \<and> (y = x \<or> pd_job x = i \<and> pd_status x = DPending) \<and>
      pd_attempts x \<le> pd_attempts y \<and> pd_attempts y \<le> pd_attempts x + 1) \<and>
    (\<forall>y \<in> set (deliveries db'). pd_id y \<notin> pd_id ` set (deliveries db) \<longrightarrow> pd_job y = i \<and> pd_attempts y \<le> 1)"
  unfolding Let_def by (intro conjI job_rows_kept [OF assms refl])

theorem process_job_rows_witness:
  "old_delivery \<in> set (deliveries (process_job sample_env sample_settings ''w'' sample_clock 2 (Some None) phone_db)) \<and>
   (\<exists>y \<in> set (deliveries (process_job sample_env sample_settings ''w'' sample_clock 2 (Some None) phone_db)).
      pd_id y = 2 \<and> pd_job y = 2 \<and> pd_attempts y \<le> 1)"
proof -
  let ?d = "process_job sample_env sample_settings ''w'' sample_clock 2 (Some None) phone_db"
  have w: "jobs_wf phone_db" "deliveries_wf phone_db" by code_simp+
  note P = process_job_rows [OF w, of sample_env sample_settings "''w''" sample_clock 2 "Some None", unfolded Let_def]
  have o: "old_delivery \<in> set (deliveries phone_db)" "pd_status old_delivery \<noteq> DPending" by (simp add: phone_db_def) code_simp
  have n: "\<exists>y \<in> set (deliveries ?d). pd_id y = 2" "2 \<notin> pd_id ` set (deliveries phone_db)" by code_simp+
  show ?thesis using bspec [OF conjunct1 [OF P] o(1)] o(2) conjunct2 [OF P] n by metis
qed

section \<open>Who is sent a push\<close>

lemma gate_frame:
  assumes "g \<in> set (gates env clk)" "g j db = Inr (j', db')"
  shows "deliveries db' = deliveries db" "tokens db' = tokens db" "devices db' = devices db" "\<exists>p. j' = j\<lparr>j_payload := p\<rparr>"
proof -
  have c: "deliveries db' = deliveries db \<and> tokens db' = tokens db \<and> devices db' = devices db \<and> (\<exists>p. j' = j\<lparr>j_payload := p\<rparr>)"
    if "course_changes_gate env n j db = Inr (j', db')" for n
    using that by (auto simp: course_changes_gate_def held_by_course_changes_def modify_job_def Let_def
        intro: exI [of _ "j_payload j"] split: if_splits option.splits prod.splits)
  consider "g = session_gate env (materialize_now clk)" | "g = activity_gate env clk" | "g = course_gate env clk" | "g = pace_gate (materialize_now clk)"
    using assms(1) by (auto simp: gates_def)
  then have "j' = j \<and> db' = db \<or> (\<exists>n. course_changes_gate env n j db = Inr (j', db'))"
  proof cases
    case 1
    then show ?thesis using assms(2) by (auto simp: session_gate_def split: if_splits option.splits)
  next
    case 2
    then show ?thesis using assms(2) by (auto simp: activity_gate_def Let_def split: if_splits sum.splits)
  next
    case 3
    then show ?thesis using assms(2) by (auto simp: course_gate_def split: if_splits)
  next
    case 4
    then show ?thesis using assms(2) by (auto simp: pace_gate_def split: if_splits option.splits)
  qed
  moreover have "\<exists>p. j = j\<lparr>j_payload := p\<rparr>" by (rule exI [of _ "j_payload j"]) simp
  ultimately show "deliveries db' = deliveries db" "tokens db' = tokens db" "devices db' = devices db" "\<exists>p. j' = j\<lparr>j_payload := p\<rparr>"
    using c by auto
qed

lemma run_gates_frame:
  assumes "set gs \<subseteq> set (gates env clk)" "run_gates gs j db = Inr (j', db')"
  shows "deliveries db' = deliveries db \<and> tokens db' = tokens db \<and> devices db' = devices db \<and> (\<exists>p. j' = j\<lparr>j_payload := p\<rparr>)"
  using assms
proof (induction gs arbitrary: j db)
  case (Cons g gs)
  then obtain k d where g: "g j db = Inr (k, d)" "run_gates gs k d = Inr (j', db')" by (auto split: sum.splits)
  note F = gate_frame [where g = g, OF _ g(1), of env clk]
  show ?case using Cons.IH [OF _ g(2)] F Cons.prems(1) by auto
qed (auto intro: exI [of _ "j_payload j'"])

lemma gate_ids:
  assumes "g \<in> set (gates env clk)" "g j db = Inl db'"
  shows "map pd_id (deliveries db') = map pd_id (deliveries db)"
proof -
  have c: "deliveries db' = deliveries db" if "course_changes_gate env n j db = Inl db'" for n
    using that by (auto simp: course_changes_gate_def modify_job_def Let_def split: if_splits prod.splits)
  have d: "deliveries d = deliveries db" if "course_changes_gate env n j db = Inr (k, d)" for n k d
    using that by (auto simp: course_changes_gate_def modify_job_def Let_def split: if_splits prod.splits)
  consider "g = session_gate env (materialize_now clk)" | "g = activity_gate env clk" | "g = course_gate env clk" | "g = pace_gate (materialize_now clk)"
    using assms(1) by (auto simp: gates_def)
  then show ?thesis
  proof cases
    case 1
    then show ?thesis using assms(2)
      by (auto simp: session_gate_def map_key_update_where split: if_splits option.splits)
  next
    case 2
    then show ?thesis using assms(2) c d
      by (auto simp: activity_gate_def Let_def split: if_splits sum.splits prod.splits)
  next
    case 3
    then show ?thesis using assms(2) c by (simp add: course_gate_def split: if_splits)
  next
    case 4
    then show ?thesis using assms(2) by (auto simp: pace_gate_def split: if_splits option.splits)
  qed
qed

lemma run_gates_ids:
  assumes "set gs \<subseteq> set (gates env clk)" "run_gates gs j db = Inl db'"
  shows "map pd_id (deliveries db') = map pd_id (deliveries db)"
  using assms
proof (induction gs arbitrary: j db)
  case (Cons g gs)
  show ?case
  proof (cases "g j db")
    case (Inl d)
    then show ?thesis using Cons.prems gate_ids [where g = g, OF _ Inl, of env clk] by simp
  next
    case (Inr jd)
    obtain k d where jd: "jd = (k, d)" by fastforce
    then show ?thesis using Cons Inr gate_frame(1) [where g = g, OF _ Inr [unfolded jd], of env clk] by simp
  qed
qed simp

lemma fold_add_delivery_new:
  "x \<in> set (deliveries (fold (\<lambda>td. add_delivery j now (fst td)) tds db)) \<Longrightarrow>
     x \<in> set (deliveries db) \<or> (\<exists>td \<in> set tds. \<exists>n. x = new_delivery j now (fst td) n)"
proof (induction tds arbitrary: db)
  case (Cons td tds)
  have "y \<in> set (deliveries db) \<or> y = new_delivery j now (fst td) (delivery_seq db)"
    if "y \<in> set (deliveries (add_delivery j now (fst td) db))" for y
    using that by (auto simp: add_delivery_def Let_def split: if_splits)
  then show ?case using Cons.IH Cons.prems by fastforce
qed simp

lemma file_deliveries_new:
  assumes "file_deliveries env st now j db = Some (go, db')" "x \<in> set (deliveries db')" "x \<notin> set (deliveries db)"
  shows "\<exists>targets covered td n. td \<in> set (token_rows db targets j now) \<and> takes_delivery covered j td \<and> x = new_delivery j now (fst td) n"
proof -
  obtain targets covered where
    "db' = fold (\<lambda>td. add_delivery j now (fst td)) (filter (takes_delivery covered j) (token_rows db targets j now)) db"
    using assms by (auto simp: file_deliveries_def Let_def split: option.splits if_splits prod.splits)
  then show ?thesis using fold_add_delivery_new assms(2,3) by fastforce
qed

lemma materialize_new:
  assumes "materialize env st clk j db = Some (go, db')" "jobs_wf db" "get_job db (j_id j) = Some j"
    and "x \<in> set (deliveries db')" "pd_id x \<notin> pd_id ` set (deliveries db)"
  shows "\<exists>p targets covered td n. td \<in> set (token_rows db targets (j\<lparr>j_payload := p\<rparr>) (materialize_now clk)) \<and>
    takes_delivery covered (j\<lparr>j_payload := p\<rparr>) td \<and> x = new_delivery (j\<lparr>j_payload := p\<rparr>) (materialize_now clk) (fst td) n"
proof -
  have old: False if "deliveries db' = deliveries db" using that assms(4,5) by auto
  have nd: "\<not> (j_device j = None \<and> channel j \<in> set DEVICE_CHANNELS)"
    using assms(1) old by (auto simp: materialize_def split: if_splits)
  show ?thesis
  proof (cases "run_gates (gates env clk) j db")
    case (Inl d)
    then have "db' = d" using assms(1) by (simp only: materialize_def nd if_False) simp
    then have "map pd_id (deliveries db') = map pd_id (deliveries db)" using run_gates_ids [OF order_refl Inl] by simp
    then show ?thesis using assms(4,5) by (metis list.set_map image_eqI)
  next
    case (Inr jd)
    obtain j' d where jd: "jd = (j', d)" by fastforce
    have f: "file_deliveries env st (materialize_now clk) j' d = Some (go, db')"
      using assms(1) Inr by (simp only: materialize_def nd if_False) (simp add: jd)
    obtain p where F: "deliveries d = deliveries db" "tokens d = tokens db" "devices d = devices db" "j' = j\<lparr>j_payload := p\<rparr>"
      using run_gates_frame [OF order_refl Inr [unfolded jd]] by blast
    have "x \<notin> set (deliveries d)" using assms(5) F(1) by auto
    then show ?thesis using file_deliveries_new [OF f assms(4)] F by (fastforce simp: token_rows_def)
  qed
qed



section \<open>How a round ends\<close>

definition any_status :: "push_delivery_status \<Rightarrow> push_delivery list \<Rightarrow> bool" where
  "any_status s xs \<longleftrightarrow> (\<exists>x \<in> set xs. pd_status x = s)"

lemma job_deliveries_modify [simp]: "job_deliveries (modify_job k f db) i = job_deliveries db i"
  by (simp add: job_deliveries_def)

lemma exhausted_none_pending:
  "\<not> any_status DPending (job_deliveries (db\<lparr>deliveries := update_where (\<lambda>x. pd_job x = i \<and> pd_status x = DPending)
     (\<lambda>x. x\<lparr>pd_status := DFailed, failure_code := g x\<rparr>) (deliveries db)\<rparr>) i)"
proof -
  define h where "h = (\<lambda>x. if pd_job x = i \<and> pd_status x = DPending then x\<lparr>pd_status := DFailed, failure_code := g x\<rparr> else x)"
  have h: "pd_job (h x) \<noteq> i \<or> pd_status (h x) \<noteq> DPending" for x by (simp add: h_def)
  have "update_where (\<lambda>x. pd_job x = i \<and> pd_status x = DPending) (\<lambda>x. x\<lparr>pd_status := DFailed, failure_code := g x\<rparr>) xs = map h xs" for xs
    by (simp add: update_where_def h_def)
  then show ?thesis using h by (auto simp: any_status_def job_deliveries_def)
qed

lemma close_job_fields:
  "j_status (close_job now xs j) = (if any_status DSent xs \<and> \<not> any_status DFailed xs then PSent
     else if any_status DSent xs then PPartialFailed else PFailed)"
  "any_status DSent xs \<Longrightarrow> j_sent_at (close_job now xs j) = Some now" "j_id (close_job now xs j) = j_id j"
  by (simp_all add: close_job_def any_status_def [symmetric] Let_def unlock_def)

lemma round_cases:
  assumes "deliver_round env st now j db = Some db'" "job_deliveries db (j_id j) \<noteq> []" "get_job db (j_id j) = Some j"
  obtains d where "any_status DPending (job_deliveries d (j_id j))" "\<forall>x \<in> set (job_deliveries db (j_id j)). \<not> delivery_due now x"
      "max_attempts j \<le> attempts j + 1" "db' = modify_job (j_id j) (put_back (now + seconds (push_retry_round_delay_seconds st))) d" "get_job d (j_id j) = Some j"
  | d where "any_status DPending (job_deliveries d (j_id j))" "attempts j + 1 < max_attempts j"
      "db' = modify_job (j_id j) (\<lambda>j. put_back (now + seconds (push_retry_round_delay_seconds st)) (j\<lparr>attempts := attempts j + 1\<rparr>)) d" "get_job d (j_id j) = Some j"
  | d where "\<not> any_status DPending (job_deliveries d (j_id j))"
      "db' = modify_job (j_id j) (close_job now (job_deliveries d (j_id j))) d" "get_job d (j_id j) = Some j"
proof -
  let ?i = "j_id j"
  obtain e where e: "send_due env st now j (job_deliveries db ?i) db = Some e"
    using assms(1,2) by (auto simp: deliver_round_def Let_def split: option.splits)
  have je: "get_job e ?i = Some j" using send_due_frame [OF e] assms(3) by (simp add: get_job_def)
  define h where "h = (\<lambda>x :: push_delivery. Some (case failure_code x of None \<Rightarrow> ''retries_exhausted'' | Some c \<Rightarrow> c))"
  define d where "d = e\<lparr>deliveries := update_where (\<lambda>x. pd_job x = ?i \<and> pd_status x = DPending)
     (\<lambda>x. x\<lparr>pd_status := DFailed, failure_code := h x\<rparr>) (deliveries e)\<rparr>"
  have jd: "get_job d ?i = Some j" using je by (simp add: d_def get_job_def)
  have D: "db' = (if any_status DPending (job_deliveries e ?i) \<and> filter (delivery_due now) (job_deliveries db ?i) = [] \<and> max_attempts j \<le> attempts j + 1
       then modify_job ?i (put_back (now + seconds (push_retry_round_delay_seconds st))) e
       else if any_status DPending (job_deliveries e ?i) \<and> attempts j + 1 < max_attempts j
       then modify_job ?i (\<lambda>j. put_back (now + seconds (push_retry_round_delay_seconds st)) (j\<lparr>attempts := attempts j + 1\<rparr>)) e
       else modify_job ?i (close_job now (job_deliveries d ?i)) d)"
    using assms(1) unfolding deliver_round_def Let_def any_status_def d_def h_def
    by (simp only: assms(2) e if_False option.case option.inject length_0_conv conj_assoc)
  have "\<not> any_status DPending (job_deliveries d ?i)" unfolding d_def by (rule exhausted_none_pending)
  with D je jd that show thesis by (auto simp: filter_empty_conv split: if_splits)
qed



section \<open>The guard and the crash\<close>

lemma recheck_not_send: "recheck_rows env db j now = Some c \<Longrightarrow> pc_verdict c \<noteq> VSend"
  using database_verdict_not_send by (auto simp: recheck_rows_def rows_verdict_def gone_def Let_def split: option.splits if_splits)

lemma held_back_passes:
  assumes "held_back env st now i j c db = (False, db')"
  shows "pc_verdict c = VSend \<and> recheck_rows (presend env) db j now = None \<and> now < fire_at j + minutes (push_presend_grace_minutes st)"
  using assms recheck_not_send by (auto simp: held_back_def Let_def split: if_splits option.splits verdict.splits)

lemma record_submitted_deliveries: "deliveries (record_submitted f db u c now) = deliveries db"
  by (auto simp: record_submitted_def Let_def apply_submission_status_def cancel_for_submitted_def end_running_activities_def
      cancel_pending_reminders_def enqueue_sync_trigger_def fold_end_deliveries trigger_deliveries split: option.splits prod.splits)

lemma held_back_deliveries:
  "held_back env st now i j c db = (held, db') \<Longrightarrow> deliveries db' = deliveries db"
  by (auto simp: held_back_def Let_def record_submitted_deliveries split: verdict.splits if_splits)

definition send_check :: presend_check where
  "send_check = \<lparr>pc_verdict = VSend, pc_reason = ''moodle'', pc_assignment = Some 77, pc_submitted_at = None\<rparr>"

definition reminded_db :: push_db where
  "reminded_db = reminder_db\<lparr>tokens := [phone_token 8 7], devices := [phone 7 None]\<rparr>"

definition no_dedupe :: push_settings where
  "no_dedupe = sample_settings\<lparr>push_countdown_dedupe_window_seconds := 0\<rparr>"

text \<open>C1. A reminder or a countdown of an assignment reaches a phone only after its check. When processing a claimed
  job that needs the check gives it its first delivery, a check ran for it and said to send, the rows read again
  in the transaction still agree, and the time is within the grace after the fire time.\<close>

theorem guarded_push_is_verified:
  assumes "process_claimed env st worker clk i check db = Some db'" "get_job db i = Some j" "needs_check j"
    and "\<not> has_deliveries db i" "has_deliveries db' i"
  shows "\<exists>c. check = Some c \<and> pc_verdict c = VSend \<and> recheck_rows (presend env) db j (held_now clk) = None \<and>
    held_now clk < fire_at j + minutes (push_presend_grace_minutes st) \<and>
    j_status j = PProcessing \<and> j_locked_by j = Some worker"
proof -
  have no: False if "deliveries db' = deliveries db" using that assms(4,5) by (simp add: has_deliveries_def)
  have mine: "j_status j = PProcessing \<and> j_locked_by j = Some worker"
    using assms(1,2) no by (auto simp: process_claimed_def split: if_splits)
  obtain c where c: "check = Some c"
    using assms(1-4) no mine by (cases check) (auto simp: process_claimed_def)
  obtain held d where h: "held_back env st (held_now clk) i j c db = (held, d)" by fastforce
  have "\<not> held" using assms(1,2) mine c h no held_back_deliveries [OF h] by (auto simp: process_claimed_def)
  then show ?thesis using held_back_passes h c mine by auto
qed

theorem guarded_push_is_verified_witness:
  "\<exists>db'. process_claimed sample_env no_dedupe ''w'' sample_clock 5 (Some send_check) reminded_db = Some db' \<and>
     has_deliveries db' 5 \<and> recheck_rows (presend sample_env) reminded_db claimed_reminder (held_now sample_clock) = None"
proof -
  let ?r = "process_claimed sample_env no_dedupe ''w'' sample_clock 5 (Some send_check) reminded_db"
  have "?r \<noteq> None" by code_simp
  then have r: "?r = Some (the ?r)" by simp
  have h: "has_deliveries (the ?r) 5" by code_simp
  have g: "get_job reminded_db 5 = Some claimed_reminder" "needs_check claimed_reminder" "\<not> has_deliveries reminded_db 5" by code_simp+
  from guarded_push_is_verified [OF r g h] r h show ?thesis by metis
qed

text \<open>What a crash costs. When the check of a job raised, or its transaction did, everything the transaction wrote is
  undone and the job alone is touched: unlocked, one attempt spent, and back in the queue after the retry
  delay while it has attempts left, failed as \<open>pipeline_crash\<close> when it has not. Every other job, the deliveries, the tokens
  and the sync tables are as they were.\<close>

theorem crash_books_one_attempt:
  assumes "Option.bind check (\<lambda>c. process_claimed env st worker clk i c db) = None"
    and "get_job db i = Some j" "j_status j = PProcessing"
  shows "let db' = process_job env st worker clk i check db in
    (\<exists>j'. get_job db' i = Some j' \<and> attempts j' = attempts j + 1 \<and> j_locked_by j' = None \<and> j_payload j' = j_payload j \<and>
      (if attempts j + 1 < max_attempts j
       then j_status j' = PPending \<and> available_at j' = crash_now clk + seconds (push_retry_round_delay_seconds st)
       else j_status j' = PFailed \<and> j_last_error j' = Some ''pipeline_crash'')) \<and>
    (\<forall>k. k \<noteq> i \<longrightarrow> get_job db' k = get_job db k) \<and> db'\<lparr>jobs := jobs db\<rparr> = db"
proof -
  let ?f = "book_crash st (crash_now clk)"
  have id: "j_id (?f k) = j_id k" for k by (simp add: book_crash_def Let_def)
  have p: "process_job env st worker clk i check db = modify_job i ?f db" using assms(1) by (simp add: process_job_def)
  have "get_job (modify_job i ?f db) k = get_job db k" if "k \<noteq> i" for k
    using that by (cases "row_get j_id k (jobs db)")
      (auto simp: get_job_def modify_job_def row_update_as_update_where row_get_update_where id dest: row_get_SomeD)
  then show ?thesis
    using assms(2,3) by (simp add: Let_def p get_modify_job id) (simp add: modify_job_def book_crash_def Let_def unlock_def)
qed

theorem crash_books_one_attempt_witness:
  "\<exists>j'. get_job (process_job sample_env sample_settings ''w'' sample_clock 2 None phone_db) 2 = Some j' \<and> attempts j' = 1 \<and>
     j_status j' = PPending"
proof -
  have g: "get_job phone_db 2 = Some claimed_job" "j_status claimed_job = PProcessing" "attempts claimed_job = 0" "max_attempts claimed_job = 3"
    by code_simp+
  from crash_books_one_attempt [OF _ g(1,2), of None sample_env sample_settings "''w''" sample_clock] g(3,4)
  show ?thesis by (auto simp: Let_def)
qed

end
