(* ===== verification/SyncMerge.thy ===== *)
theory SyncMerge
  imports Prelude
begin

text \<open>
  Per-field last-writer-wins merge, \<^verbatim>\<open>server/sync/merge.py\<close>. An entity's field triplet
  \<^verbatim>\<open><field>, <field>_updated_at, <field>_device_id\<close> is the record \<open>sync_field\<close>; an override's
  names with their per-locale stamps are the record \<open>course_names\<close>. \<open>edit_time\<close> turns a
  request's stamp into a time or refuses it.

  The locale \<open>lww_register\<close> states what the sync paths rely on: an edit is applied exactly
  when its stamp is later than the stored one, and then the stored stamp becomes the edit's.
  Its lemmas (replays are no-ops, edits with different stamps commute, a sequence of edits
  ends at the latest) are proved once and hold of plain fields and of localised names.
\<close>

section \<open>Clock values\<close>

definition MAX_CLOCK_SKEW :: timedelta where
  "MAX_CLOCK_SKEW = seconds 5"

definition MAX_EDIT_AGE :: timedelta where
  "MAX_EDIT_AGE = days 365"

definition EPOCH :: datetime where
  "EPOCH = 0"

definition TICK :: timedelta where
  "TICK = microseconds 1"

definition MS :: timedelta where
  "MS = milliseconds 1"

definition OLDEST :: datetime where
  "OLDEST = EPOCH"

definition to_clock :: "datetime \<Rightarrow> int" where
  "to_clock ts = (ts - EPOCH) div TICK"

definition from_clock :: "int \<Rightarrow> datetime" where
  "from_clock v = EPOCH + v * TICK"

definition clamp_ts :: "datetime \<Rightarrow> datetime \<Rightarrow> timedelta \<Rightarrow> datetime" where
  "clamp_ts client_ts now skew = min client_ts (now + skew)"

definition edit_time :: "int option \<Rightarrow> datetime \<Rightarrow> int option \<Rightarrow> http_error + datetime" where
  "edit_time clock now age_ms =
    (case age_ms of
      Some age \<Rightarrow> Inr (now - min (max age 0) (MAX_EDIT_AGE div MS) * MS)
    | None \<Rightarrow>
       (case clock of
          None \<Rightarrow> Inr now
        | Some c \<Rightarrow>
            if c > to_clock (now + MAX_CLOCK_SKEW) then Inl (HTTPException 409 ''clock_ahead'')
            else Inr (from_clock c)))"

definition require_stamp :: "bool \<Rightarrow> int option \<Rightarrow> int option \<Rightarrow> http_error + unit" where
  "require_stamp speaks_clock clock age_ms =
    (if speaks_clock \<and> clock = None \<and> age_ms = None then Inl (HTTPException 422 ''hlc_required'')
     else Inr ())"

lemmas clock_defs = to_clock_def from_clock_def EPOCH_def TICK_def MS_def OLDEST_def
  MAX_CLOCK_SKEW_def MAX_EDIT_AGE_def duration_defs

lemma to_clock_id [simp]: "to_clock ts = ts"
  by (simp add: clock_defs)

lemma from_clock_id [simp]: "from_clock v = v"
  by (simp add: clock_defs)

section \<open>Fields\<close>

record 'v sync_field =
  fld_value :: 'v
  fld_stamp :: "datetime option"
  fld_device :: "uuid option"

text \<open>\<open>has_device\<close> is the source's \<^verbatim>\<open>hasattr(entity, device_field)\<close>. The result is the
  boolean the Python returns and the entity's field afterwards.\<close>

definition apply_field ::
  "bool \<Rightarrow> 'v sync_field \<Rightarrow> 'v \<Rightarrow> datetime \<Rightarrow> uuid option \<Rightarrow> datetime \<Rightarrow> bool \<times> 'v sync_field" where
  "apply_field has_device f value client_ts device_id now =
    (let effective_ts = clamp_ts client_ts now MAX_CLOCK_SKEW in
     if (case fld_stamp f of Some s \<Rightarrow> effective_ts \<le> s | None \<Rightarrow> False) then (False, f)
     else
       let changed = fld_value f \<noteq> value;
           f1 = (if changed then f\<lparr>fld_value := value\<rparr> else f);
           f2 = f1\<lparr>fld_stamp := Some effective_ts\<rparr>;
           f3 = (if has_device then f2\<lparr>fld_device := device_id\<rparr> else f2)
       in (changed, f3))"

record course_names =
  custom_names :: "(string \<times> string) list"
  custom_names_updated_at :: "(string \<times> int) list"
  custom_name_updated_at :: "datetime option"
  custom_name_device_id :: "uuid option"

definition apply_course_name ::
  "course_names \<Rightarrow> string \<Rightarrow> string \<Rightarrow> datetime \<Rightarrow> uuid option \<Rightarrow> datetime \<Rightarrow> bool \<times> course_names" where
  "apply_course_name ov locale name client_ts device_id now =
    (let effective_ts = clamp_ts client_ts now MAX_CLOCK_SKEW;
         stamps = custom_names_updated_at ov
     in if (case map_of stamps locale of Some s \<Rightarrow> to_clock effective_ts \<le> s | None \<Rightarrow> False)
        then (False, ov)
        else
          let changed = map_of (custom_names ov) locale \<noteq> Some name;
              ov1 = (if changed then ov\<lparr>custom_names := AList.update locale name (custom_names ov)\<rparr> else ov);
              ov2 = ov1\<lparr>custom_names_updated_at := AList.update locale (to_clock effective_ts) stamps\<rparr>;
              ov3 = (if (case custom_name_updated_at ov of None \<Rightarrow> True | Some p \<Rightarrow> effective_ts > p)
                     then ov2\<lparr>custom_name_updated_at := Some effective_ts\<rparr> else ov2)
          in (changed, ov3\<lparr>custom_name_device_id := device_id\<rparr>))"

definition set_locale_less_name ::
  "course_names \<Rightarrow> string option \<Rightarrow> datetime \<Rightarrow> uuid option \<Rightarrow> datetime \<Rightarrow> bool \<times> course_names" where
  "set_locale_less_name ov name client_ts device_id now =
    (let nm = (case name of None \<Rightarrow> [] | Some s \<Rightarrow> s);
         (c1, ov1) = apply_course_name ov ''zh'' nm client_ts device_id now;
         (c2, ov2) = apply_course_name ov1 ''en'' nm client_ts device_id now
     in (c1 \<or> c2, ov2))"

section \<open>The last-writer-wins contract\<close>

text \<open>
  \<open>put r e\<close> is the register after the edit \<open>e\<close>; \<open>eff e\<close> is the stamp the edit counts with and
  \<open>vl e\<close> its value; \<open>stamp\<close> and \<open>val_of\<close> read the register. The laws are what \<open>apply_field\<close>
  and \<open>apply_course_name\<close> promise their callers.
\<close>

locale lww_register =
  fixes stamp :: "'r \<Rightarrow> int option" and val_of :: "'r \<Rightarrow> 'v"
    and put :: "'r \<Rightarrow> 'e \<Rightarrow> 'r" and eff :: "'e \<Rightarrow> int" and vl :: "'e \<Rightarrow> 'v"
  assumes put_newer: "(case stamp r of Some s \<Rightarrow> s < eff e | None \<Rightarrow> True) \<Longrightarrow>
      stamp (put r e) = Some (eff e) \<and> val_of (put r e) = vl e"
    and put_older: "stamp r = Some s \<Longrightarrow> eff e \<le> s \<Longrightarrow> put r e = r"
begin

definition observe :: "'r \<Rightarrow> int option \<times> 'v" where
  "observe r = (stamp r, val_of r)"

definition wins :: "'r \<Rightarrow> 'e \<Rightarrow> bool" where
  "wins r e \<longleftrightarrow> (case stamp r of Some s \<Rightarrow> s < eff e | None \<Rightarrow> True)"

lemma stamp_put: "stamp (put r e) = (if wins r e then Some (eff e) else stamp r)"
  using put_newer [where r = r and e = e] put_older [where r = r and e = e]
  by (auto simp: wins_def split: option.splits)

lemma val_put: "val_of (put r e) = (if wins r e then vl e else val_of r)"
  using put_newer [where r = r and e = e] put_older [where r = r and e = e]
  by (auto simp: wins_def split: option.splits)

lemma observe_put: "observe (put r e) = (if wins r e then (Some (eff e), vl e) else observe r)"
  by (simp add: observe_def stamp_put val_put)

lemma put_idem: "put (put r e) e = put r e"
proof (cases "wins r e")
  case True
  then have "stamp (put r e) = Some (eff e)" by (simp add: stamp_put)
  then show ?thesis by (rule put_older) simp
next
  case False
  then obtain s where "stamp r = Some s" "eff e \<le> s" by (auto simp: wins_def split: option.splits)
  then show ?thesis by (simp add: put_older)
qed

definition puts :: "'e list \<Rightarrow> 'r \<Rightarrow> 'r" where
  "puts es r = fold (\<lambda>e r. put r e) es r"

lemma puts_simps [simp]: "puts [] r = r" "puts (e # es) r = puts es (put r e)"
  by (simp_all add: puts_def)

text \<open>A batch of edits with pairwise different stamps ends at its latest edit, or at what was
  stored when none is later.\<close>

lemma puts_latest:
  assumes "distinct (map eff es)" "e \<in> set es" "\<forall>d \<in> set es. eff d \<le> eff e"
  shows "observe (puts es r) = (if wins r e then (Some (eff e), vl e) else observe r)"
  using assms
proof (induction es arbitrary: r)
  case Nil
  then show ?case by simp
next
  case (Cons d es)
  show ?case
  proof (cases "d = e")
    case True
    have "observe (puts es r') = observe r'" if "stamp r' = Some s" "eff e \<le> s" for r' s
    proof -
      have "\<forall>x \<in> set es. eff x \<le> s" using that Cons.prems(3) by fastforce
      then show ?thesis using that(1)
        by (induction es arbitrary: r') (simp_all add: put_older)
    qed
    then have "observe (puts es (put r e)) = observe (put r e)"
      by (cases "wins r e") (auto simp: stamp_put wins_def split: option.splits)
    with True show ?thesis by (simp add: observe_put)
  next
    case False
    with Cons.prems have "e \<in> set es" "distinct (map eff es)" "\<forall>x \<in> set es. eff x \<le> eff e" by auto
    then have IH: "observe (puts es (put r d)) =
        (if wins (put r d) e then (Some (eff e), vl e) else observe (put r d))"
      by (intro Cons.IH)
    have "eff d \<noteq> eff e" using Cons.prems(1) \<open>e \<in> set es\<close> by auto
    then have "eff d < eff e" using Cons.prems(3) by auto
    with IH show ?thesis
      by (auto simp: wins_def stamp_put observe_put split: option.splits)
  qed
qed

lemma puts_order_independent:
  assumes "distinct (map eff es)" "distinct (map eff es')" "set es = set es'"
  shows "observe (puts es r) = observe (puts es' r)"
proof (cases "es = []")
  case True
  with assms show ?thesis by simp
next
  case False
  have "Max (eff ` set es) \<in> eff ` set es" using False by (intro Max_in) auto
  then obtain e where e: "e \<in> set es" "eff e = Max (eff ` set es)" by auto
  then have "\<forall>d \<in> set es. eff d \<le> eff e" by simp
  with e assms show ?thesis by (simp add: puts_latest [where e = e])
qed

end

section \<open>Fields and names are registers\<close>

text \<open>One edit as a request carries it: its value, its client time, the device, and the
  server's clock when it is applied.\<close>

record 'v field_edit =
  ed_value :: 'v
  ed_ts :: datetime
  ed_device :: "uuid option"
  ed_now :: datetime

definition ed_effective :: "'v field_edit \<Rightarrow> datetime" where
  "ed_effective e = clamp_ts (ed_ts e) (ed_now e) MAX_CLOCK_SKEW"

definition field_put :: "bool \<Rightarrow> 'v sync_field \<Rightarrow> 'v field_edit \<Rightarrow> 'v sync_field" where
  "field_put has_device f e = snd (apply_field has_device f (ed_value e) (ed_ts e) (ed_device e) (ed_now e))"

definition name_put :: "string \<Rightarrow> course_names \<Rightarrow> string field_edit \<Rightarrow> course_names" where
  "name_put locale ov e = snd (apply_course_name ov locale (ed_value e) (ed_ts e) (ed_device e) (ed_now e))"

interpretation field_lww: lww_register fld_stamp fld_value "field_put has_device" ed_effective ed_value
  by unfold_locales
    (auto simp: field_put_def apply_field_def ed_effective_def Let_def split: option.splits)

lemma map_of_AList_update: "map_of (AList.update k v al) = (map_of al)(k \<mapsto> v)"
  by (rule update_conv')

interpretation name_lww: lww_register "\<lambda>ov. map_of (custom_names_updated_at ov) locale"
  "\<lambda>ov. map_of (custom_names ov) locale" "name_put locale" ed_effective "\<lambda>e. Some (ed_value e)"
  by unfold_locales
    (auto simp: name_put_def apply_course_name_def ed_effective_def Let_def map_of_AList_update
      split: option.splits)

text \<open>An edit of one locale leaves every other locale alone.\<close>

lemma apply_course_name_other:
  assumes "l \<noteq> locale"
  shows "map_of (custom_names (snd (apply_course_name ov locale name ts dev now))) l = map_of (custom_names ov) l"
    "map_of (custom_names_updated_at (snd (apply_course_name ov locale name ts dev now))) l =
      map_of (custom_names_updated_at ov) l"
  using assms by (auto simp: apply_course_name_def Let_def map_of_AList_update)

section \<open>Properties\<close>



text \<open>
  A winning edit wins, a losing one changes nothing: \<open>apply_field\<close> leaves the field exactly
  as it was unless the edit's clamped stamp is later than the stored one, and otherwise stores
  value and stamp; it reports a change exactly when the stored value differs afterwards.
\<close>

theorem apply_field_spec:
  "apply_field has_device f value ts dev now =
    (if (case fld_stamp f of Some s \<Rightarrow> s < min ts (now + 5000000) | None \<Rightarrow> True)
     then (fld_value f \<noteq> value,
           \<lparr>fld_value = value, fld_stamp = Some (min ts (now + 5000000)),
            fld_device = (if has_device then dev else fld_device f)\<rparr>)
     else (False, f))"
  by (cases f) (auto simp: apply_field_def clamp_ts_def clock_defs Let_def split: option.splits)

text \<open>
  A stamp is never in the future: the time \<open>edit_time\<close> gives a request is at most its
  arrival plus the clock skew, with an age it lies between one year before arrival and
  arrival; a clock further ahead is refused with 409.
\<close>

theorem edit_time_bounds:
  "(case edit_time clock now age of
      Inl e \<Rightarrow> e = HTTPException 409 ''clock_ahead'' \<and> age = None \<and> (\<exists>c. clock = Some c \<and> c > now + seconds 5)
    | Inr t \<Rightarrow> t \<le> now + seconds 5 \<and>
        (age \<noteq> None \<longrightarrow> now - days 365 \<le> t \<and> t \<le> now) \<and> (age = None \<and> clock = None \<longrightarrow> t = now))"
  by (auto simp: edit_time_def clock_defs min_def max_def split: option.splits)

theorem edit_time_bounds_witness:
  "edit_time None (days 400) (Some 5000) = Inr (days 400 - seconds 5) \<and>
   days 400 - days 365 \<le> days 400 - seconds 5 \<and> days 400 - seconds 5 \<le> days 400"
proof -
  have e: "edit_time None (days 400) (Some 5000) = Inr (days 400 - seconds 5)" by code_simp
  show ?thesis using edit_time_bounds [where clock = None and now = "days 400" and age = "Some 5000"] unfolding e by simp
qed

end
