(* ===== verification/SyncJobTables.thy ===== *)
theory SyncJobTables
  imports Prelude
begin

text \<open>
  The rows of \<^verbatim>\<open>server/syncjobs/models.py\<close> that signing in, uploading and the sync worker share: the
  recurring Moodle jobs of a user and the policy of each job type.
\<close>

datatype sync_job_type = NtustCourses | MoodleAssignments | CalendarJob | GradesJob

datatype sync_job_status = JobPending | JobRunning | JobFailed | JobDisabled

record sync_policy =
  sp_job_type :: sync_job_type
  sp_enabled :: bool
  sp_default_interval_seconds :: int
  sp_active_from :: "datetime option"
  sp_active_until :: "datetime option"
  sp_priority :: int
  sp_max_attempts :: int

record sync_job =
  sj_id :: nat
  sj_user :: uuid
  sj_account :: nat
  sj_type :: sync_job_type
  sj_priority :: int
  sj_status :: sync_job_status
  sj_run_after :: datetime
  sj_locked_by :: "string option"
  sj_locked_at :: "datetime option"
  sj_attempts :: int
  sj_max_attempts :: int
  sj_last_success_at :: "datetime option"
  sj_last_failure_at :: "datetime option"
  sj_last_error :: "string option"
  sj_cursor :: json

end
