(* ===== verification/Membership.thy ===== *)
theory Membership
  imports SyncMerge Presend SyncJobTables
begin

text \<open>
  A user's courses and who decides which are shown: \<^verbatim>\<open>server/sync/membership.py\<close> and the endpoints that
  write by its rules, \<^verbatim>\<open>server/routes/sync/courses.py\<close> (\<open>delete_course\<close>, \<open>delete_all_courses\<close>,
  \<open>_reset_by_stamp\<close>, \<open>_record_reset\<close>) here and the upload in the theory \<open>CourseUpload\<close>.

  \<open>course_db\<close> holds the tables of \<^verbatim>\<open>sync/models/courses.py\<close>, with what the school's list says of a course kept
  together as \<open>course_info\<close> and without the columns only the database maintains (\<^verbatim>\<open>created_at\<close>,
  \<^verbatim>\<open>first_seen_at\<close>, \<^verbatim>\<open>updated_at\<close>), the resets, and \<open>queue\<close>, the push tables with the change log. Deleting
  a course takes its override with it (\<^verbatim>\<open>ON DELETE CASCADE\<close>) and unlinks its assignments (\<^verbatim>\<open>SET NULL\<close>). A handler runs in one transaction under the
  user's sync lock; \<open>arrival\<close> is when the request came in, \<open>tnow\<close> what the clock says when it
  is read again. The operator's log (\<open>log_sync\<close>) is left out.
\<close>

section \<open>Data\<close>

datatype course_source = NtustPortal | UserAdded

datatype enrollment_status = Enrolled | Dropped | Completed

record course_info =
  course_name :: string
  course_name_en :: "string option"
  moodle_id :: "string option"
  credits :: json
  classroom :: "string option"
  instructors :: "string list"
  schedule_json :: json
  classroom_map :: json

record course_row =
  cr_id :: nat
  cr_user :: uuid
  cr_semester :: string
  cr_key :: string
  cr_no :: "string option"
  cr_source :: course_source
  cr_info :: course_info
  cr_enrollment :: enrollment_status
  cr_added_at :: "datetime option"
  cr_fetched_at :: "datetime option"
  cr_last_seen_at :: "datetime option"
  cr_version :: nat
  cr_updated_by :: "uuid option"

record tombstone =
  tb_user :: uuid
  tb_key :: string
  tb_semester :: string
  tb_no :: "string option"
  tb_deleted_at :: datetime
  tb_device :: "uuid option"
  tb_by_reset :: bool
  tb_user_added :: bool

record override_row =
  ov_user :: uuid
  ov_course :: nat
  ov_names :: course_names
  ov_color :: "string option sync_field"
  ov_ignore :: "bool sync_field"
  ov_moodle_course :: "int option"

record semester_reset =
  sr_user :: uuid
  sr_semester :: string
  sr_reset_at :: datetime

record course_db =
  courses :: "course_row list"
  course_seq :: nat
  overrides :: "override_row list"
  tombstones :: "tombstone list"
  semester_resets :: "semester_reset list"
  courses_reset_at :: "uuid \<Rightarrow> datetime option"
  rosters :: "uuid \<times> string \<Rightarrow> datetime option"
  queue :: push_db
  worker_jobs :: "sync_job list"
  worker_policies :: "sync_policy list"
  device_seen :: "uuid \<Rightarrow> datetime option"

section \<open>Membership rules\<close>

datatype deletion = HIDE | REMOVE | RESET

definition tombstone_kind :: "tombstone \<Rightarrow> deletion" where
  "tombstone_kind t = (if tb_by_reset t then RESET else if tb_user_added t then REMOVE else HIDE)"

text \<open>\<^verbatim>\<open>str.partition\<close>, without the separator it found, and \<^verbatim>\<open>rpartition(...)[2]\<close>.\<close>

definition partition_at :: "char \<Rightarrow> string \<Rightarrow> string \<times> string" where
  "partition_at ch s = (takeWhile (\<lambda>x. x \<noteq> ch) s, drop 1 (dropWhile (\<lambda>x. x \<noteq> ch) s))"

definition after_last :: "char \<Rightarrow> string \<Rightarrow> string" where
  "after_last ch s = rev (takeWhile (\<lambda>x. x \<noteq> ch) (rev s))"

definition semester_of :: "string \<Rightarrow> string option" where
  "semester_of key =
    (let (prefix, rest) = partition_at CHR '':'' key; (semester, no) = partition_at CHR '':'' rest
     in if prefix = ''client'' \<and> semester \<noteq> [] \<and> no \<noteq> [] then Some semester else None)"

definition latest :: "datetime option list \<Rightarrow> datetime option" where
  "latest stamps = (case [s. Some s \<leftarrow> stamps] of [] \<Rightarrow> None | x # xs \<Rightarrow> Some (fold max xs x))"

record resets =
  rs_full :: "datetime option"
  rs_terms :: "string \<Rightarrow> datetime option"

definition covering :: "resets \<Rightarrow> string option \<Rightarrow> datetime option" where
  "covering r semester = latest [rs_full r, (case semester of None \<Rightarrow> None | Some s \<Rightarrow> if s = [] then None else rs_terms r s)]"

definition term_reset :: "course_db \<Rightarrow> uuid \<Rightarrow> string \<Rightarrow> datetime option" where
  "term_reset db u s = map_option sr_reset_at (find (\<lambda>r. sr_user r = u \<and> sr_semester r = s) (semester_resets db))"

definition load_resets :: "course_db \<Rightarrow> uuid \<Rightarrow> resets" where
  "load_resets db u = \<lparr>rs_full = courses_reset_at db u, rs_terms = term_reset db u\<rparr>"

definition membership_stamp :: "course_row option \<Rightarrow> tombstone option \<Rightarrow> resets \<Rightarrow> string option \<Rightarrow> datetime option" where
  "membership_stamp row tomb r semester =
    latest [Option.bind row cr_added_at, map_option tb_deleted_at tomb, covering r semester]"

definition override_outlasts :: "override_row option \<Rightarrow> datetime \<Rightarrow> bool" where
  "override_outlasts ov reset_at = (case ov of None \<Rightarrow> False | Some o' \<Rightarrow>
     (\<exists>s \<in> set [s. Some s \<leftarrow> [fld_stamp (ov_color o'), fld_stamp (ov_ignore o')]]. reset_at < s) \<or>
     (\<exists>v \<in> snd ` set (custom_names_updated_at (ov_names o')). to_clock reset_at < v))"

definition at_or_before :: "datetime option \<Rightarrow> datetime \<Rightarrow> bool" where
  "at_or_before stamp reset_at = (case stamp of None \<Rightarrow> True | Some s \<Rightarrow> s \<le> reset_at)"

text \<open>\<open>clear_before\<close> field by field: whether it changed and what it became.\<close>

definition clear_field :: "('v \<Rightarrow> bool) \<Rightarrow> 'v \<Rightarrow> datetime \<Rightarrow> 'v sync_field \<Rightarrow> bool \<times> 'v sync_field" where
  "clear_field is_set blank reset_at f =
    (if (is_set (fld_value f) \<or> fld_stamp f \<noteq> None) \<and> at_or_before (fld_stamp f) reset_at
     then (True, \<lparr>fld_value = blank, fld_stamp = Some reset_at, fld_device = None\<rparr>) else (False, f))"

definition clear_names :: "datetime \<Rightarrow> course_names \<Rightarrow> bool \<times> course_names" where
  "clear_names reset_at n =
    (let clock = to_clock reset_at; names = custom_names n; stamps = custom_names_updated_at n;
         cleared = filter (\<lambda>k. (case map_of stamps k of None \<Rightarrow> 0 | Some v \<Rightarrow> v) \<le> clock) (remdups (map fst names @ map fst stamps))
     in if cleared = [] then (False, n)
        else let stamps' = fold (\<lambda>k. AList.update k clock) cleared stamps;
                 newest = fold max (map snd stamps') clock
             in (True, \<lparr>custom_names = fold (\<lambda>k. AList.update k []) cleared names, custom_names_updated_at = stamps',
                  custom_name_updated_at = Some (from_clock newest),
                  custom_name_device_id = (if newest = clock then None else custom_name_device_id n)\<rparr>))"

definition clear_override :: "datetime \<Rightarrow> override_row \<Rightarrow> bool \<times> override_row" where
  "clear_override reset_at o' =
    (let (c1, color) = clear_field (\<lambda>v. v \<noteq> None) None reset_at (ov_color o');
         (c2, ign) = clear_field (\<lambda>v. v) False reset_at (ov_ignore o');
         (c3, names) = clear_names reset_at (ov_names o')
     in (c1 \<or> c2 \<or> c3, o'\<lparr>ov_color := color, ov_ignore := ign, ov_names := names\<rparr>))"

definition clear_added :: "datetime \<Rightarrow> course_row \<Rightarrow> bool \<times> course_row" where
  "clear_added reset_at r =
    (case cr_added_at r of
       Some t \<Rightarrow> if t \<le> reset_at then (True, r\<lparr>cr_added_at := None\<rparr>) else (False, r)
     | None \<Rightarrow> (False, r))"

section \<open>Rows\<close>

definition course_of :: "course_db \<Rightarrow> uuid \<Rightarrow> string \<Rightarrow> course_row option" where
  "course_of db u key = find (\<lambda>r. cr_user r = u \<and> cr_key r = key) (courses db)"

definition tombstone_of :: "course_db \<Rightarrow> uuid \<Rightarrow> string \<Rightarrow> tombstone option" where
  "tombstone_of db u key = find (\<lambda>t. tb_user t = u \<and> tb_key t = key) (tombstones db)"

definition override_of :: "course_db \<Rightarrow> uuid \<Rightarrow> nat \<Rightarrow> override_row option" where
  "override_of db u i = find (\<lambda>o'. ov_user o' = u \<and> ov_course o' = i) (overrides db)"

definition delete_courses :: "(course_row \<Rightarrow> bool) \<Rightarrow> course_db \<Rightarrow> course_db" where
  "delete_courses P db =
    (let ids = map cr_id (filter P (courses db)) in
     db\<lparr>courses := filter (\<lambda>r. cr_id r \<notin> set ids) (courses db), overrides := filter (\<lambda>o'. ov_course o' \<notin> set ids) (overrides db),
        queue := (queue db)\<lparr>assignments := update_where (\<lambda>a. case ua_user_course a of Some i \<Rightarrow> i \<in> set ids | None \<Rightarrow> False)
          (\<lambda>a. a\<lparr>ua_user_course := None\<rparr>) (assignments (queue db))\<rparr>\<rparr>)"

text \<open>\<^verbatim>\<open>INSERT ... ON CONFLICT (user_id, course_key) DO UPDATE SET\<close> the marker columns.\<close>

definition upsert_tombstone :: "tombstone \<Rightarrow> course_db \<Rightarrow> course_db" where
  "upsert_tombstone t db =
    (if tombstone_of db (tb_user t) (tb_key t) = None then db\<lparr>tombstones := tombstones db @ [t]\<rparr>
     else db\<lparr>tombstones := update_where (\<lambda>x. tb_user x = tb_user t \<and> tb_key x = tb_key t)
       (\<lambda>x. x\<lparr>tb_deleted_at := tb_deleted_at t, tb_device := tb_device t, tb_by_reset := tb_by_reset t, tb_user_added := tb_user_added t\<rparr>)
       (tombstones db)\<rparr>)"

definition lock_user :: "uuid \<Rightarrow> course_db \<Rightarrow> course_db" where
  "lock_user u db = db\<lparr>queue := (queue db)\<lparr>sync_log := lock_sync_state (sync_log (queue db)) u\<rparr>\<rparr>"

definition log_course :: "uuid \<Rightarrow> uuid option \<Rightarrow> datetime \<Rightarrow> string \<times> string \<times> json \<Rightarrow> course_db \<Rightarrow> course_db" where
  "log_course u dev tnow change db =
    db\<lparr>queue := (queue db)\<lparr>sync_log := snd (append_change (sync_log (queue db)) u
      \<lparr>cd_entity_type = ''course'', cd_entity_id = fst change, cd_operation = fst (snd change), cd_payload = Some (snd (snd change)),
       cd_device = dev, cd_created_at = tnow\<rparr>)\<rparr>\<rparr>"

definition queue_sync_trigger :: "uuid \<Rightarrow> uuid option \<Rightarrow> datetime \<Rightarrow> course_db \<Rightarrow> course_db" where
  "queue_sync_trigger u dev tnow db = db\<lparr>queue := snd (enqueue_sync_trigger (queue db) u (map_option uuid_text dev) tnow)\<rparr>"

section \<open>Hiding and removing one course\<close>

record delete_answer =
  da_deleted :: nat
  da_applied :: bool
  da_hlc :: "int option"

text \<open>A removal takes back a hand-add: the school's row stays and only loses its add.\<close>

definition by_hand :: "course_row option \<Rightarrow> bool" where
  "by_hand row = (case row of Some r \<Rightarrow> cr_source r = UserAdded | None \<Rightarrow> False)"

definition deletion_kind :: "deletion option \<Rightarrow> course_row option \<Rightarrow> deletion" where
  "deletion_kind kind row = (case kind of Some k \<Rightarrow> k | None \<Rightarrow> if by_hand row then REMOVE else HIDE)"

definition keeps_row :: "deletion \<Rightarrow> course_row option \<Rightarrow> bool" where
  "keeps_row kind row \<longleftrightarrow> kind = REMOVE \<and> row \<noteq> None \<and> \<not> by_hand row"

definition take_row :: "deletion \<Rightarrow> course_row option \<Rightarrow> course_db \<Rightarrow> course_db" where
  "take_row kind row db =
    (case row of
       None \<Rightarrow> db
     | Some r \<Rightarrow> if keeps_row kind row then db\<lparr>courses := update_where (\<lambda>x. cr_id x = cr_id r) (\<lambda>x. x\<lparr>cr_added_at := None\<rparr>) (courses db)\<rparr>
        else delete_courses (\<lambda>x. cr_id x = cr_id r) db)"

definition delete_course ::
  "uuid \<Rightarrow> uuid option \<Rightarrow> string \<Rightarrow> bool \<Rightarrow> datetime \<Rightarrow> datetime \<Rightarrow> int option \<Rightarrow> deletion option \<Rightarrow> int option \<Rightarrow> course_db \<Rightarrow>
   (http_error + delete_answer) \<times> course_db" where
  "delete_course u dev key speaks_clock arrival tnow hlc kind0 age_ms db0 =
    (case require_stamp speaks_clock hlc age_ms of Inl e \<Rightarrow> (Inl e, db0) | Inr _ \<Rightarrow>
     case edit_time hlc arrival age_ms of Inl e \<Rightarrow> (Inl e, db0) | Inr stamp \<Rightarrow>
     let db = lock_user u db0; row = course_of db u key; tomb = tombstone_of db u key;
         semester = (case row of Some r \<Rightarrow> Some (cr_semester r) | None \<Rightarrow>
           (case tomb of Some t \<Rightarrow> Some (tb_semester t) | None \<Rightarrow> semester_of key));
         stored = membership_stamp row tomb (load_resets db u) semester
     in if row = None \<and> \<not> speaks_clock \<or> semester = None \<or> (case stored of Some s \<Rightarrow> stamp \<le> s | None \<Rightarrow> False)
        then (Inr \<lparr>da_deleted = 0, da_applied = False, da_hlc = map_option to_clock stored\<rparr>, db)
        else
          let kind = deletion_kind kind0 row; kept = keeps_row kind row;
              restamp_only = (row = None \<or> kept \<and> Option.bind row cr_added_at = None) \<and>
                (case tomb of Some t \<Rightarrow> tombstone_kind t = kind | None \<Rightarrow> False);
              no = (case row of Some r \<Rightarrow> cr_no r | None \<Rightarrow> (case tomb of Some t \<Rightarrow> tb_no t | None \<Rightarrow> Some (after_last CHR '':'' key)));
              db2 = upsert_tombstone \<lparr>tb_user = u, tb_key = key, tb_semester = the semester, tb_no = no, tb_deleted_at = stamp,
                      tb_device = dev, tb_by_reset = False, tb_user_added = (kind = REMOVE)\<rparr> (take_row kind row db);
              answer = \<lparr>da_deleted = (if row \<noteq> None \<and> \<not> kept then 1 else 0), da_applied = True, da_hlc = Some (to_clock stamp)\<rparr>
          in (Inr answer,
              if restamp_only then db2
              else queue_sync_trigger u dev tnow (log_course u dev tnow
                ((case row of Some r \<Rightarrow> nat_str (cr_id r) | None \<Rightarrow> key), (if kept then ''upsert'' else ''delete''),
                 JObj [(''course_key'', JStr key)]) db2)))"

section \<open>Resets\<close>

text \<open>The \<open>semester\<close> parameter is \<open>None\<close> when it is not sent and may be the empty text, which Python counts as
  false: the scopes test its truth (\<open>given\<close>), \<open>_record_reset\<close> tests for \<^verbatim>\<open>None\<close>.\<close>

definition given :: "string option \<Rightarrow> bool" where
  "given semester \<longleftrightarrow> semester \<noteq> None \<and> semester \<noteq> Some []"

definition in_term :: "string option \<Rightarrow> string \<Rightarrow> bool" where
  "in_term semester s \<longleftrightarrow> given semester \<longrightarrow> semester = Some s"

definition record_reset :: "uuid \<Rightarrow> string option \<Rightarrow> datetime \<Rightarrow> course_db \<Rightarrow> datetime \<times> course_db" where
  "record_reset u semester stamp db =
    (case semester of
       None \<Rightarrow> let recorded = the (latest [courses_reset_at db u, Some stamp])
               in (recorded, db\<lparr>courses_reset_at := (courses_reset_at db)(u := Some recorded)\<rparr>)
     | Some s \<Rightarrow>
        (case term_reset db u s of
           None \<Rightarrow> (stamp, db\<lparr>semester_resets := semester_resets db @ [\<lparr>sr_user = u, sr_semester = s, sr_reset_at = stamp\<rparr>]\<rparr>)
         | Some t \<Rightarrow> (max t stamp, db\<lparr>semester_resets := update_where (\<lambda>r. sr_user r = u \<and> sr_semester r = s)
             (\<lambda>r. r\<lparr>sr_reset_at := max (sr_reset_at r) stamp\<rparr>) (semester_resets db)\<rparr>)))"

definition reset_tombstone :: "uuid \<Rightarrow> uuid option \<Rightarrow> datetime \<Rightarrow> course_row \<Rightarrow> tombstone" where
  "reset_tombstone u dev arr r = \<lparr>tb_user = u, tb_key = cr_key r, tb_semester = cr_semester r, tb_no = cr_no r, tb_deleted_at = arr,
     tb_device = dev, tb_by_reset = True, tb_user_added = (cr_source r = UserAdded)\<rparr>"

definition take_over_tombstone :: "uuid option \<Rightarrow> datetime \<Rightarrow> tombstone \<Rightarrow> tombstone" where
  "take_over_tombstone dev arr t = t\<lparr>tb_deleted_at := arr, tb_device := dev, tb_by_reset := True\<rparr>"

text \<open>The change a reset logs when it touched no course.\<close>

definition reset_marker :: "string option \<Rightarrow> string \<times> string \<times> json" where
  "reset_marker semester = ((if given semester then the semester else ''*''), ''upsert'',
     JObj [(''reset'', case semester of None \<Rightarrow> JNull | Some s \<Rightarrow> JStr s)])"

record reset_answer =
  ra_deleted :: nat
  ra_applied :: "bool option"
  ra_hlc :: int

text \<open>A reset wins over a row unless the row was added later, or is the school's and a later override stands on it.\<close>

definition goes :: "course_db \<Rightarrow> uuid \<Rightarrow> datetime \<Rightarrow> course_row \<Rightarrow> bool" where
  "goes db u stamp r \<longleftrightarrow> \<not> (case cr_added_at r of Some t \<Rightarrow> stamp < t | None \<Rightarrow> False) \<and>
     (cr_source r = UserAdded \<or> \<not> override_outlasts (override_of db u (cr_id r)) stamp)"

definition clear_rows :: "uuid \<Rightarrow> string option \<Rightarrow> datetime \<Rightarrow> course_db \<Rightarrow> course_db" where
  "clear_rows u semester stamp db =
    (let kept = (\<lambda>r. cr_user r = u \<and> in_term semester (cr_semester r) \<and> \<not> goes db u stamp r);
         ids = map cr_id (filter kept (courses db))
     in db\<lparr>courses := update_where kept (\<lambda>r. snd (clear_added stamp r)) (courses db),
           overrides := update_where (\<lambda>o'. ov_user o' = u \<and> ov_course o' \<in> set ids) (\<lambda>o'. snd (clear_override stamp o')) (overrides db)\<rparr>)"

definition is_cleared :: "course_db \<Rightarrow> uuid \<Rightarrow> datetime \<Rightarrow> course_row \<Rightarrow> bool" where
  "is_cleared db u stamp r \<longleftrightarrow> fst (clear_added stamp r) \<or>
     (case override_of db u (cr_id r) of None \<Rightarrow> False | Some o' \<Rightarrow> fst (clear_override stamp o'))"

definition reset_tombstones :: "uuid \<Rightarrow> uuid option \<Rightarrow> string option \<Rightarrow> datetime \<Rightarrow> course_row list \<Rightarrow> string list \<Rightarrow> tombstone list \<Rightarrow> tombstone list" where
  "reset_tombstones u dev semester stamp going kept_keys ts =
    (let covered = (\<lambda>t. tb_user t = u \<and> in_term semester (tb_semester t) \<and> tb_deleted_at t \<le> stamp) in
     if given semester then
       let ts1 = filter (\<lambda>t. \<not> (covered t \<and> tb_key t \<in> set kept_keys)) ts;
           ts2 = update_where covered (take_over_tombstone dev stamp) ts1;
           later = map tb_key (filter (\<lambda>t. tb_user t = u \<and> in_term semester (tb_semester t)) ts2)
       in ts2 @ map (reset_tombstone u dev stamp) (filter (\<lambda>r. cr_key r \<notin> set later) going)
     else filter (\<lambda>t. \<not> covered t) ts)"

definition reset_by_stamp ::
  "uuid \<Rightarrow> uuid option \<Rightarrow> string option \<Rightarrow> datetime \<Rightarrow> datetime \<Rightarrow> course_db \<Rightarrow> reset_answer \<times> course_db" where
  "reset_by_stamp u dev semester stamp tnow db0 =
    (let db = lock_user u db0; r = load_resets db u;
         stored = (if given semester then covering r semester else rs_full r)
     in if (case stored of Some s \<Rightarrow> stamp \<le> s | None \<Rightarrow> False)
        then (\<lparr>ra_deleted = 0, ra_applied = Some False, ra_hlc = to_clock (the stored)\<rparr>, db)
        else
          let db1 = snd (record_reset u semester stamp db);
              rows = filter (\<lambda>r. cr_user r = u \<and> in_term semester (cr_semester r)) (courses db1);
              going = filter (goes db1 u stamp) rows; kept = filter (\<lambda>r. \<not> goes db1 u stamp r) rows;
              cleared = filter (is_cleared db1 u stamp) kept;
              db2 = clear_rows u semester stamp db1;
              db3 = delete_courses (\<lambda>r. cr_id r \<in> cr_id ` set going) db2;
              db4 = db3\<lparr>tombstones := reset_tombstones u dev semester stamp going (map cr_key kept) (tombstones db3)\<rparr>;
              changes = map (\<lambda>r. (nat_str (cr_id r), ''delete'', JObj [(''course_key'', JStr (cr_key r))])) going @
                        map (\<lambda>r. (nat_str (cr_id r), ''upsert'', JObj [(''course_key'', JStr (cr_key r))])) cleared;
              db5 = fold (log_course u dev tnow) (if changes = [] then [reset_marker semester] else changes) db4
          in (\<lparr>ra_deleted = length going, ra_applied = Some True, ra_hlc = to_clock stamp\<rparr>, queue_sync_trigger u dev tnow db5))"

definition delete_all_courses ::
  "uuid \<Rightarrow> uuid option \<Rightarrow> string option \<Rightarrow> bool \<Rightarrow> datetime \<Rightarrow> datetime \<Rightarrow> int option \<Rightarrow> int option \<Rightarrow> course_db \<Rightarrow>
   (http_error + reset_answer) \<times> course_db" where
  "delete_all_courses u dev semester speaks_clock arrival tnow hlc age_ms db0 =
    (case require_stamp speaks_clock hlc age_ms of Inl e \<Rightarrow> (Inl e, db0) | Inr _ \<Rightarrow>
     if speaks_clock then
       (case edit_time hlc arrival age_ms of Inl e \<Rightarrow> (Inl e, db0)
        | Inr stamp \<Rightarrow> apfst Inr (reset_by_stamp u dev semester stamp tnow db0))
     else if given semester \<and> dev = None then (Inl (HTTPException 400 ''device_id_required''), db0)
     else case edit_time hlc arrival age_ms of Inl e \<Rightarrow> (Inl e, db0) | Inr stamp \<Rightarrow>
       let (reset_at, db) = record_reset u semester stamp (lock_user u db0);
           scope = (\<lambda>r. cr_user r = u \<and> in_term semester (cr_semester r));
           rows = filter scope (courses db);
           db1 = delete_courses scope db;
           tomb_scope = (\<lambda>t. tb_user t = u \<and> in_term semester (tb_semester t));
           db2 = (case semester of
                    None \<Rightarrow> db1\<lparr>tombstones := filter (\<lambda>t. \<not> tomb_scope t) (tombstones db1)\<rparr>
                  | Some _ \<Rightarrow> fold upsert_tombstone (map (reset_tombstone u dev arrival) rows)
                      (db1\<lparr>tombstones := update_where tomb_scope (take_over_tombstone dev arrival) (tombstones db1)\<rparr>));
           changes = map (\<lambda>r. (nat_str (cr_id r), ''delete'', JObj [(''course_key'', JStr (cr_key r))])) rows;
           db3 = fold (log_course u dev tnow) (if changes = [] then [reset_marker semester] else changes) db2
       in (Inr \<lparr>ra_deleted = length rows, ra_applied = None, ra_hlc = to_clock reset_at\<rparr>, queue_sync_trigger u dev tnow db3))"
end
