(* ===== verification/CourseUpload.thy ===== *)
theory CourseUpload
  imports Membership "HOL-Library.List_Lexorder"
begin

text \<open>
  The course upload, \<^verbatim>\<open>server/routes/sync/uploads.py\<close> (\<open>upload_courses\<close>, \<open>upload_courses_v4\<close>,
  \<open>_roster_by_stamp\<close>) with \<open>_push_back_sync_jobs\<close> of \<^verbatim>\<open>routes/sync/_shared.py\<close>, and the mirror of the
  courses Moodle lists, \<^verbatim>\<open>server/syncjobs/courses.py\<close>. The rules of membership are those of the theory
  \<open>Membership\<close>: an add wins by its stamp, the roster is base data.
\<close>

section \<open>Requests\<close>

record course_item =
  it_semester :: string
  it_no :: string
  it_info :: course_info

record course_add =
  add_key :: string
  add_hlc :: "int option"
  add_age :: "int option"

record upload_request =
  up_courses :: "course_item list"
  up_overrides :: "(string \<times> string option) list"
  force_keys :: "string list"
  up_adds :: "course_add list"
  roster_terms :: "string list"

record add_answer =
  aa_key :: string
  aa_applied :: bool
  aa_hlc :: int

record upload_answer =
  upserted :: nat
  skipped_tombstoned :: nat
  overrides_applied :: nat
  accepted_keys :: "string list"
  add_answers :: "add_answer list"

definition item_key :: "course_item \<Rightarrow> string" where
  "item_key c = ''client:'' @ it_semester c @ '':'' @ it_no c"

definition payload_keys :: "upload_request \<Rightarrow> string list" where
  "payload_keys req = map item_key (up_courses req)"

text \<open>The stamp of each add; a key sent twice keeps its latest.\<close>

fun read_adds :: "datetime \<Rightarrow> course_add list \<Rightarrow> (string \<times> datetime) list \<Rightarrow> http_error + (string \<times> datetime) list" where
  "read_adds now [] acc = Inr acc"
| "read_adds now (a # rest) acc =
    (case require_stamp True (add_hlc a) (add_age a) of Inl e \<Rightarrow> Inl e | Inr _ \<Rightarrow>
     case edit_time (add_hlc a) now (add_age a) of Inl e \<Rightarrow> Inl e | Inr stamp \<Rightarrow>
       read_adds now rest (AList.update (add_key a)
         (max stamp (case map_of acc (add_key a) of None \<Rightarrow> stamp | Some s \<Rightarrow> s)) acc))"

section \<open>What the upload may bring\<close>

text \<open>The keys to skip, the stamps of the adds that won, the keys that come in as added by hand, those that
  were removed by hand and come back, those the school lists, and the answers to the adds.\<close>

record upload_plan =
  skip_keys :: "string list"
  added_at :: "(string \<times> datetime) list"
  added_by_hand :: "string list"
  back_by_hand :: "string list"
  listed_by_school :: "string list"
  plan_answers :: "add_answer list"

record roster_plan =
  rp_skip :: "string list"
  rp_lifted :: "string list"
  rp_won :: "(string \<times> datetime) list"
  rp_school_back :: "string list"
  rp_answers :: "add_answer list"

definition roster_step :: "course_db \<Rightarrow> uuid \<Rightarrow> (string \<times> datetime) list \<Rightarrow> course_item \<Rightarrow> roster_plan \<Rightarrow> roster_plan" where
  "roster_step db u adds c p =
    (let key = item_key c; tomb = tombstone_of db u key in
     case map_of adds key of
       Some stamp \<Rightarrow>
         let stored = membership_stamp (course_of db u key) tomb (load_resets db u) (Some (it_semester c));
             applied = (case stored of None \<Rightarrow> True | Some s \<Rightarrow> s < stamp);
             winner = (if applied then stamp else the stored);
             p1 = (if applied
                   then p\<lparr>rp_won := AList.update key stamp (rp_won p), rp_lifted := key # rp_lifted p,
                          rp_school_back := (case tomb of Some t \<Rightarrow> if tb_user_added t then rp_school_back p else key # rp_school_back p
                                             | None \<Rightarrow> rp_school_back p)\<rparr>
                   else p\<lparr>rp_skip := key # rp_skip p\<rparr>)
         in p1\<lparr>rp_answers := rp_answers p1 @ [\<lparr>aa_key = key, aa_applied = applied, aa_hlc = to_clock winner\<rparr>]\<rparr>
     | None \<Rightarrow>
         (case tomb of
            None \<Rightarrow> p
          | Some t \<Rightarrow> (case tombstone_kind t of
              HIDE \<Rightarrow> p\<lparr>rp_skip := key # rp_skip p\<rparr>
            | RESET \<Rightarrow> p\<lparr>rp_lifted := key # rp_lifted p\<rparr>
            | REMOVE \<Rightarrow> p)))"

definition drop_tombstones :: "uuid \<Rightarrow> (tombstone \<Rightarrow> bool) \<Rightarrow> course_db \<Rightarrow> course_db" where
  "drop_tombstones u P db = db\<lparr>tombstones := filter (\<lambda>t. \<not> (tb_user t = u \<and> P t)) (tombstones db)\<rparr>"

definition roster_by_stamp ::
  "uuid \<Rightarrow> course_item list \<Rightarrow> (string \<times> datetime) list \<Rightarrow> course_db \<Rightarrow> roster_plan \<times> course_db" where
  "roster_by_stamp u items adds db =
    (let p = fold (roster_step db u adds) items \<lparr>rp_skip = [], rp_lifted = [], rp_won = [], rp_school_back = [], rp_answers = []\<rparr>
     in (p, drop_tombstones u (\<lambda>t. tb_key t \<in> set (rp_lifted p)) db))"

definition clock_plan :: "uuid \<Rightarrow> upload_request \<Rightarrow> (string \<times> datetime) list \<Rightarrow> course_db \<Rightarrow> upload_plan \<times> course_db" where
  "clock_plan u req adds db =
    (let (p, db1) = roster_by_stamp u (up_courses req) adds db in
     (\<lparr>skip_keys = rp_skip p, added_at = rp_won p,
       added_by_hand = filter (\<lambda>k. k \<notin> set (rp_school_back p)) (map fst (rp_won p)), back_by_hand = [],
       listed_by_school = filter (\<lambda>k. k \<notin> add_key ` set (up_adds req)) (payload_keys req), plan_answers = rp_answers p\<rparr>, db1))"

text \<open>The path of the released apps: \<open>force_keys\<close> lift their tombstones, a reset tombstone does not bind its
  author, nor does that of a course added by hand when nothing is forced.\<close>

definition legacy_plan :: "uuid \<Rightarrow> uuid option \<Rightarrow> datetime \<Rightarrow> upload_request \<Rightarrow> course_db \<Rightarrow> upload_plan \<times> course_db" where
  "legacy_plan u dev arrival req db =
    (let forced = force_keys req;
         cleared = filter (\<lambda>t. tb_user t = u \<and> tb_key t \<in> set forced) (tombstones db);
         db1 = drop_tombstones u (\<lambda>t. tb_key t \<in> set forced) db;
         db2 = (case dev of
                  None \<Rightarrow> db1
                | Some d \<Rightarrow> if up_courses req = [] then db1
                    else drop_tombstones u (\<lambda>t. (tb_by_reset t \<or> forced = [] \<and> tb_user_added t) \<and> tb_device t = Some d \<and>
                           tb_key t \<in> set (payload_keys req)) db1);
         existing = map cr_key (filter (\<lambda>r. cr_user r = u) (courses db))
     in (\<lparr>skip_keys = map tb_key (filter (\<lambda>t. tb_user t = u \<and>
             \<not> (tb_user_added t \<and> \<not> tb_by_reset t \<and> tb_key t \<in> set existing)) (tombstones db2)),
          added_at = map (\<lambda>k. (k, arrival)) forced,
          added_by_hand = filter (\<lambda>k. k \<notin> tb_key ` set (filter (\<lambda>t. \<not> tb_user_added t) cleared)) forced,
          back_by_hand = map tb_key (filter tb_user_added cleared), listed_by_school = [], plan_answers = []\<rparr>, db2))"

section \<open>Writing the rows\<close>

definition row_info :: "course_item \<Rightarrow> course_info" where
  "row_info c = (it_info c)\<lparr>moodle_id := Some (case moodle_id (it_info c) of
     Some m \<Rightarrow> if m = [] then it_semester c @ it_no c else m | None \<Rightarrow> it_semester c @ it_no c)\<rparr>"

definition new_course :: "uuid \<Rightarrow> uuid option \<Rightarrow> datetime \<Rightarrow> upload_plan \<Rightarrow> course_item \<Rightarrow> nat \<Rightarrow> course_row" where
  "new_course u dev arrival p c i = \<lparr>cr_id = i, cr_user = u, cr_semester = it_semester c, cr_key = item_key c, cr_no = Some (it_no c),
     cr_source = (if item_key c \<in> set (added_by_hand p) then UserAdded else NtustPortal), cr_info = row_info c,
     cr_enrollment = Enrolled, cr_added_at = map_of (added_at p) (item_key c), cr_fetched_at = Some arrival,
     cr_last_seen_at = Some arrival, cr_version = 1, cr_updated_by = dev\<rparr>"

definition touch_course :: "uuid option \<Rightarrow> datetime \<Rightarrow> upload_plan \<Rightarrow> string list \<Rightarrow> course_item \<Rightarrow> course_row \<Rightarrow> course_row" where
  "touch_course dev arrival p enrol c r = r\<lparr>cr_info := row_info c, cr_last_seen_at := Some arrival, cr_version := cr_version r + 1,
     cr_updated_by := dev,
     cr_source := (if item_key c \<in> set (back_by_hand p) then UserAdded
                   else if item_key c \<in> set (listed_by_school p) then NtustPortal else cr_source r),
     cr_added_at := (case map_of (added_at p) (item_key c) of Some t \<Rightarrow> Some t | None \<Rightarrow> cr_added_at r),
     cr_enrollment := (if item_key c \<in> set enrol then Enrolled else cr_enrollment r)\<rparr>"

definition upsert_course ::
  "uuid \<Rightarrow> uuid option \<Rightarrow> datetime \<Rightarrow> upload_plan \<Rightarrow> string list \<Rightarrow> course_item \<Rightarrow> course_db \<Rightarrow> course_db" where
  "upsert_course u dev arrival p enrol c db =
    (let same = (\<lambda>r. cr_user r = u \<and> cr_semester r = it_semester c \<and> cr_key r = item_key c) in
     if item_key c \<in> set (skip_keys p) then db
     else if \<exists>r \<in> set (courses db). same r
     then db\<lparr>courses := update_where same (touch_course dev arrival p enrol c) (courses db)\<rparr>
     else db\<lparr>courses := courses db @ [new_course u dev arrival p c (course_seq db)], course_seq := Suc (course_seq db)\<rparr>)"

text \<open>A roster drops the term's school courses it leaves out.\<close>

definition drops :: "uuid \<Rightarrow> upload_request \<Rightarrow> string list \<Rightarrow> course_db \<Rightarrow> course_row \<Rightarrow> bool" where
  "drops u req ts db r \<longleftrightarrow> cr_user r = u \<and> cr_semester r \<in> set ts \<and> cr_key r \<notin> set (payload_keys req) \<and>
     tombstone_of db u (cr_key r) = None \<and> cr_source r = NtustPortal \<and> cr_added_at r = None \<and> cr_enrollment r = Enrolled"

definition drop_course :: "uuid option \<Rightarrow> course_row \<Rightarrow> course_row" where
  "drop_course dev r = r\<lparr>cr_enrollment := Dropped, cr_version := cr_version r + 1, cr_updated_by := dev\<rparr>"

section \<open>Colours and the server's own sync\<close>

definition new_override :: "uuid \<Rightarrow> nat \<Rightarrow> override_row" where
  "new_override u i = \<lparr>ov_user = u, ov_course = i,
     ov_names = \<lparr>custom_names = [], custom_names_updated_at = [], custom_name_updated_at = None, custom_name_device_id = None\<rparr>,
     ov_color = \<lparr>fld_value = None, fld_stamp = None, fld_device = None\<rparr>,
     ov_ignore = \<lparr>fld_value = False, fld_stamp = None, fld_device = None\<rparr>, ov_moodle_course = None\<rparr>"

definition ensure_override :: "uuid \<Rightarrow> nat \<Rightarrow> course_db \<Rightarrow> course_db" where
  "ensure_override u i db = (if override_of db u i = None then db\<lparr>overrides := overrides db @ [new_override u i]\<rparr> else db)"

definition modify_override :: "uuid \<Rightarrow> nat \<Rightarrow> (override_row \<Rightarrow> override_row) \<Rightarrow> course_db \<Rightarrow> course_db" where
  "modify_override u i f db = db\<lparr>overrides := update_where (\<lambda>o'. ov_user o' = u \<and> ov_course o' = i) f (overrides db)\<rparr>"

text \<open>The colour fills a course without one, as the oldest value.\<close>

definition fill_color ::
  "uuid \<Rightarrow> uuid option \<Rightarrow> datetime \<Rightarrow> string list \<Rightarrow> string \<times> string \<Rightarrow> nat \<times> course_db \<Rightarrow> nat \<times> course_db" where
  "fill_color u dev arrival existing item n_db =
    (let (key, color) = item; (n, db) = n_db in
     case course_of db u key of
       None \<Rightarrow> (n, db)
     | Some c \<Rightarrow>
        if key \<in> set existing \<and> covering (load_resets db u) (Some (cr_semester c)) \<noteq> None then (n, db)
        else
          let db1 = ensure_override u (cr_id c) db; f = ov_color (the (override_of db1 u (cr_id c)));
              (changed, f') = apply_field True f (Some color) OLDEST dev arrival
          in if fld_value f = None
             then ((if changed then n + 1 else n), modify_override u (cr_id c) (\<lambda>o'. o'\<lparr>ov_color := f'\<rparr>) db1)
             else (n, db1))"

definition CLIENT_SYNC_PUSHBACK_SECONDS :: int where
  "CLIENT_SYNC_PUSHBACK_SECONDS = 7200"

definition push_back_sync_jobs :: "uuid \<Rightarrow> sync_job_type \<Rightarrow> int \<Rightarrow> datetime \<Rightarrow> course_db \<Rightarrow> course_db" where
  "push_back_sync_jobs u ty secs tnow db = db\<lparr>worker_jobs := update_where
    (\<lambda>j. sj_user j = u \<and> sj_type j = ty \<and> sj_status j = JobPending \<and>
      (\<exists>p \<in> set (worker_policies db). sp_job_type p = sj_type j \<and>
        (case sj_last_success_at j of None \<Rightarrow> False | Some t \<Rightarrow> tnow < t + seconds (sp_default_interval_seconds p))))
    (\<lambda>j. j\<lparr>sj_run_after := max (sj_run_after j) (tnow + seconds secs)\<rparr>) (worker_jobs db)\<rparr>"

section \<open>The handler\<close>

text \<open>The part of the upload that writes courses: the plan, the upserts and the dropped courses; with it the keys
  uploaded and those whose change goes into the log.\<close>

definition write_courses ::
  "uuid \<Rightarrow> uuid option \<Rightarrow> bool \<Rightarrow> datetime \<Rightarrow> upload_request \<Rightarrow> upload_plan \<Rightarrow> course_db \<Rightarrow> course_db \<Rightarrow> string list \<times> string list \<times> course_db" where
  "write_courses u dev speaks_clock arrival req p before db =
    (let existing_rows = filter (\<lambda>r. cr_user r = u) (courses before); existing = map cr_key existing_rows;
         enrol = map fst (added_at p) @ map item_key (filter (\<lambda>c. it_semester c \<in> set (roster_terms req)) (up_courses req));
         uploaded = filter (\<lambda>k. k \<notin> set (skip_keys p)) (payload_keys req);
         db1 = fold (upsert_course u dev arrival p enrol) (up_courses req) db;
         hand = map add_key (up_adds req) @ force_keys req;
         rostered = filter (\<lambda>t. \<exists>c \<in> set (up_courses req). it_semester c = t \<and> item_key c \<notin> set hand) (remdups (roster_terms req));
         dropped = map cr_key (filter (drops u req rostered db1) (courses db1));
         db2 = db1\<lparr>courses := update_where (drops u req rostered db1) (drop_course dev) (courses db1),
                   rosters := fold (\<lambda>t m. m((u, t) := Some arrival)) rostered (rosters db1)\<rparr>;
         re_enrolled = filter (\<lambda>k. k \<in> set enrol \<and> k \<in> set uploaded) (map cr_key (filter (\<lambda>r. cr_enrollment r \<noteq> Enrolled) existing_rows));
         by_school = map cr_key (filter (\<lambda>r. cr_key r \<in> set (listed_by_school p) \<and> cr_source r = UserAdded) existing_rows);
         new_keys = filter (\<lambda>k. k \<notin> set existing) uploaded @
           (if speaks_clock then filter (\<lambda>k. k \<in> set uploaded) (map fst (added_at p) @ by_school) else []) @ dropped @ re_enrolled
     in (uploaded, new_keys, db2))"

definition upload_courses ::
  "uuid \<Rightarrow> uuid option \<Rightarrow> bool \<Rightarrow> datetime \<Rightarrow> datetime \<Rightarrow> upload_request \<Rightarrow> course_db \<Rightarrow> (http_error + upload_answer) \<times> course_db" where
  "upload_courses u dev speaks_clock arrival tnow req db0 =
    (if speaks_clock \<and> \<not> add_key ` set (up_adds req) \<subseteq> set (payload_keys req)
     then (Inl (HTTPException 422 ''add_not_in_courses''), db0)
     else case (if speaks_clock then read_adds arrival (up_adds req) [] else Inr []) of Inl e \<Rightarrow> (Inl e, db0) | Inr adds \<Rightarrow>
       let db = lock_user u db0;
           (p, db1) = (if speaks_clock then clock_plan u req adds db else legacy_plan u dev arrival req db);
           (uploaded, new_keys, db2) = write_courses u dev speaks_clock arrival req p db db1;
           new_rows = filter (\<lambda>r. cr_user r = u \<and> cr_key r \<in> set new_keys) (courses db2);
           changes = map (\<lambda>r. (nat_str (cr_id r), ''upsert'', JObj [(''course_key'', JStr (cr_key r))])) new_rows;
           db3 = (if new_keys = [] then db2 else queue_sync_trigger u dev tnow (fold (log_course u dev tnow) changes db2));
           colors = [(k, c). (k, Some c) \<leftarrow> up_overrides req, c \<noteq> []];
           existing = map cr_key (filter (\<lambda>r. cr_user r = u) (courses db));
           (n, db4) = fold (fill_color u dev arrival existing) colors (0, db3);
           db5 = push_back_sync_jobs u NtustCourses CLIENT_SYNC_PUSHBACK_SECONDS tnow db4;
           db6 = (case dev of
                    Some d \<Rightarrow> if \<exists>x \<in> set (devices (queue db5)). pv_id x = d then db5\<lparr>device_seen := (device_seen db5)(d := Some tnow)\<rparr> else db5
                  | None \<Rightarrow> db5)
       in (Inr \<lparr>upserted = length uploaded, skipped_tombstoned = length (payload_keys req) - length uploaded, overrides_applied = n,
             accepted_keys = sort (remdups uploaded), add_answers = plan_answers p\<rparr>, db6))"

text \<open>\<open>/v4\<close> takes neither \<open>force_keys\<close> nor colours.\<close>

definition upload_courses_v4 ::
  "uuid \<Rightarrow> uuid option \<Rightarrow> datetime \<Rightarrow> datetime \<Rightarrow> course_item list \<Rightarrow> course_add list \<Rightarrow> string list \<Rightarrow> course_db \<Rightarrow>
   (http_error + upload_answer) \<times> course_db" where
  "upload_courses_v4 u dev arrival tnow items adds roster db =
    upload_courses u dev True arrival tnow \<lparr>up_courses = items, up_overrides = [], force_keys = [], up_adds = adds, roster_terms = roster\<rparr> db"
end
