(* ===== verification/CourseRegister.thy ===== *)
theory CourseRegister
  imports CourseUpload "HOL-Library.Option_ord"
begin

text \<open>
  Membership as a register. \<^verbatim>\<open>sync/membership.py\<close> says that per course key the user's last choice stands: an add, a
  hide or removal, or a reset, by their stamps. Here \<open>choice\<close> abstracts the tables to that register (the latest
  stamp that bears on the key, and the add that stands), \<open>reg_put\<close> is the abstract edit, and every endpoint is shown to
  implement it on a well-formed database (\<open>course_wf\<close>), which it keeps. The contract \<open>lww_register\<close> of the theory \<open>SyncMerge\<close> then gives
  convergence.
\<close>

section \<open>Stamps\<close>

lemma fold_max_assoc: "fold max xs (max b a) = max a (fold max xs (b :: 'a :: linorder))"
proof (induction xs arbitrary: b)
  case (Cons x xs)
  have "fold max xs (max x (max b a)) = fold max xs (max (max x b) a)" by (simp only: max.assoc)
  then show ?case using Cons.IH by simp
qed (simp add: max.commute)

lemma max_Some: "max (Some a) (Some b) = Some (max a (b :: 'a :: linorder))"
  by (simp add: max_def)

lemma max_None [simp]: "max None x = x" "max x None = (x :: 'a :: linorder option)"
  by (simp_all add: max_def) (cases x, simp_all)+

lemma latest_Nil [simp]: "latest [] = None"
  by (simp add: latest_def)

lemma latest_Cons [simp]: "latest (a # as) = max a (latest as)"
proof -
  define ys where "ys = [s. Some s \<leftarrow> as]"
  have L: "latest as = (case ys of [] \<Rightarrow> None | x # xs \<Rightarrow> Some (fold max xs x))" by (simp add: latest_def ys_def)
  show ?thesis
  proof (cases a)
    case None
    then show ?thesis by (simp add: latest_def max_def)
  next
    case (Some s)
    have "latest (a # as) = Some (fold max ys s)" by (simp add: latest_def Some ys_def)
    also have "\<dots> = max a (latest as)"
      by (cases ys) (simp_all add: L Some fold_max_assoc max_Some)
    finally show ?thesis .
  qed
qed

lemma Some_le_iff [simp]: "Some s \<le> x \<longleftrightarrow> (case x of None \<Rightarrow> False | Some t \<Rightarrow> s \<le> t)"
  by (cases x) simp_all

section \<open>Looking up rows\<close>

lemma find_update:
  "(\<And>r. Q (f r) = Q r) \<Longrightarrow> find Q (update_where P f xs) = map_option (\<lambda>r. if P r then f r else r) (find Q xs)"
  by (induction xs) (auto simp: update_where_def)

lemma find_append: "find Q (xs @ ys) = (case find Q xs of None \<Rightarrow> find Q ys | Some r \<Rightarrow> Some r)"
  by (induction xs) auto

lemma find_SomeD: "find Q xs = Some r \<Longrightarrow> r \<in> set xs \<and> Q r"
  by (induction xs) (auto split: if_splits)

lemma find_filter_one:
  "(\<And>x y. x \<in> set xs \<Longrightarrow> y \<in> set xs \<Longrightarrow> Q x \<Longrightarrow> Q y \<Longrightarrow> x = y) \<Longrightarrow>
   find Q (filter K xs) = (case find Q xs of None \<Rightarrow> None | Some r \<Rightarrow> if K r then Some r else None)"
proof (induction xs)
  case (Cons a xs)
  have IH: "find Q (filter K xs) = (case find Q xs of None \<Rightarrow> None | Some r \<Rightarrow> if K r then Some r else None)"
    by (rule Cons.IH) (use Cons.prems in auto)
  show ?case
  proof (cases "Q a")
    case True
    then have "\<forall>x \<in> set xs. Q x \<longrightarrow> x = a" using Cons.prems [of _ a] by simp
    then have "\<not> K a \<Longrightarrow> find Q (filter K xs) = None" by (auto simp: find_None_iff)
    then show ?thesis using True by simp
  qed (simp add: IH)
qed simp

section \<open>Well-formed course tables\<close>

text \<open>The ids are distinct, a user has one row and one tombstone per course key that names its term, and they carry that
  term; what a reset deleted is covered by its recorded stamp, and an add that stands is the latest choice.\<close>

definition key_added :: "course_db \<Rightarrow> uuid \<Rightarrow> string \<Rightarrow> datetime option" where
  "key_added db u k = Option.bind (course_of db u k) cr_added_at"

definition key_stamp :: "course_db \<Rightarrow> uuid \<Rightarrow> string \<Rightarrow> datetime option" where
  "key_stamp db u k = membership_stamp (course_of db u k) (tombstone_of db u k) (load_resets db u) (semester_of k)"

definition choice :: "course_db \<Rightarrow> uuid \<Rightarrow> string \<Rightarrow> datetime option \<times> datetime option" where
  "choice db u k = (key_stamp db u k, key_added db u k)"

definition stands :: "datetime option \<times> datetime option \<Rightarrow> bool" where
  "stands c \<longleftrightarrow> snd c = None \<or> snd c = fst c"

definition rows_wf :: "course_row list \<Rightarrow> bool" where
  "rows_wf cs \<longleftrightarrow> distinct (map cr_id cs) \<and>
    (\<forall>r \<in> set cs. \<forall>r' \<in> set cs. cr_user r = cr_user r' \<and> cr_key r = cr_key r' \<and> semester_of (cr_key r) \<noteq> None \<longrightarrow> r = r') \<and>
    (\<forall>r \<in> set cs. \<forall>s. semester_of (cr_key r) = Some s \<longrightarrow> cr_semester r = s)"

definition tombs_wf :: "tombstone list \<Rightarrow> bool" where
  "tombs_wf ts \<longleftrightarrow>
    (\<forall>t \<in> set ts. \<forall>t' \<in> set ts. tb_user t = tb_user t' \<and> tb_key t = tb_key t' \<and> semester_of (tb_key t) \<noteq> None \<longrightarrow> t = t') \<and>
    (\<forall>t \<in> set ts. \<forall>s. semester_of (tb_key t) = Some s \<longrightarrow> tb_semester t = s)"

definition course_wf :: "course_db \<Rightarrow> bool" where
  "course_wf db \<longleftrightarrow> rows_wf (courses db) \<and> (\<forall>r \<in> set (courses db). cr_id r < course_seq db) \<and> tombs_wf (tombstones db) \<and>
    (\<forall>t \<in> set (tombstones db). tb_by_reset t \<longrightarrow> Some (tb_deleted_at t) \<le> covering (load_resets db (tb_user t)) (Some (tb_semester t))) \<and>
    (\<forall>r \<in> set (courses db). semester_of (cr_key r) \<noteq> None \<longrightarrow> stands (choice db (cr_user r) (cr_key r)))"

text \<open>Locking, logging and the trigger touch none of these tables.\<close>

definition same_tables :: "course_db \<Rightarrow> course_db \<Rightarrow> bool" where
  "same_tables db db' \<longleftrightarrow> courses db' = courses db \<and> course_seq db' = course_seq db \<and> tombstones db' = tombstones db \<and>
     semester_resets db' = semester_resets db \<and> courses_reset_at db' = courses_reset_at db"

lemma same_tables_refl [simp]: "same_tables db db"
  by (simp add: same_tables_def)

lemma same_tables_steps [simp]:
  "same_tables db (lock_user u db)" "same_tables db (log_course u dev t ch db)" "same_tables db (queue_sync_trigger u dev t db)"
  by (simp_all add: same_tables_def lock_user_def log_course_def queue_sync_trigger_def)

lemma same_tables_trans: "same_tables a b \<Longrightarrow> same_tables b c \<Longrightarrow> same_tables a c"
  by (simp add: same_tables_def)

lemma same_tables_fold: "(\<And>x d. x \<in> set xs \<Longrightarrow> same_tables d (f x d)) \<Longrightarrow> same_tables db (fold f xs db)"
proof (induction xs arbitrary: db)
  case (Cons x xs)
  have "same_tables (f x db) (fold f xs (f x db))" by (rule Cons.IH) (use Cons.prems in auto)
  then show ?case using Cons.prems [of x db] same_tables_trans by simp
qed simp

lemma same_tables_logged: "same_tables db (queue_sync_trigger u dev t (fold (log_course v dev' t') chs db))"
  by (rule same_tables_trans [OF same_tables_fold same_tables_steps(3)]) simp

lemma load_resets_same: "same_tables db db' \<Longrightarrow> load_resets db' = load_resets db"
  by (rule ext) (simp add: same_tables_def load_resets_def term_reset_def [abs_def])

lemma choice_same:
  assumes "same_tables db db'"
  shows "choice db' u k = choice db u k" "course_wf db' = course_wf db"
proof -
  have c: "course_of db' = course_of db" "tombstone_of db' = tombstone_of db"
    using assms by (auto simp: same_tables_def course_of_def tombstone_of_def fun_eq_iff)
  note l = load_resets_same [OF assms]
  show "choice db' u k = choice db u k" by (simp add: choice_def key_stamp_def key_added_def c l)
  have "key_added db' = key_added db" by (simp add: fun_eq_iff key_added_def c)
  moreover have "choice db' = choice db" by (simp add: fun_eq_iff choice_def key_stamp_def key_added_def c l)
  ultimately show "course_wf db' = course_wf db" using assms by (simp add: course_wf_def l same_tables_def)
qed

lemma choice_cong:
  "course_of db' v k = course_of db v k \<Longrightarrow> tombstone_of db' v k = tombstone_of db v k \<Longrightarrow> load_resets db' v = load_resets db v \<Longrightarrow>
   choice db' v k = choice db v k"
  by (simp add: choice_def key_stamp_def key_added_def)

lemma one_course:
  "rows_wf cs \<Longrightarrow> semester_of k \<noteq> None \<Longrightarrow> x \<in> set cs \<Longrightarrow> y \<in> set cs \<Longrightarrow> cr_user x = u \<and> cr_key x = k \<Longrightarrow> cr_user y = u \<and> cr_key y = k \<Longrightarrow> x = y"
  by (auto simp: rows_wf_def)

lemma one_tombstone:
  "tombs_wf ts \<Longrightarrow> semester_of k \<noteq> None \<Longrightarrow> x \<in> set ts \<Longrightarrow> y \<in> set ts \<Longrightarrow> tb_user x = u \<and> tb_key x = k \<Longrightarrow> tb_user y = u \<and> tb_key y = k \<Longrightarrow> x = y"
  by (auto simp: tombs_wf_def)

lemma rows_wf_update:
  assumes "rows_wf cs" "\<And>x. cr_id (f x) = cr_id x \<and> cr_user (f x) = cr_user x \<and> cr_key (f x) = cr_key x \<and> cr_semester (f x) = cr_semester x"
  shows "rows_wf (update_where P f cs)"
proof -
  define g where "g x = (if P x then f x else x)" for x
  have g: "cr_id (g x) = cr_id x" "cr_user (g x) = cr_user x" "cr_key (g x) = cr_key x" "cr_semester (g x) = cr_semester x" for x
    using assms(2) by (auto simp: g_def)
  have "update_where P f cs = map g cs" by (simp add: update_where_def g_def)
  then show ?thesis using assms(1) by (simp add: rows_wf_def g comp_def) blast
qed

lemma rows_wf_filter: "rows_wf cs \<Longrightarrow> rows_wf (filter K cs)"
  by (simp add: rows_wf_def distinct_map_filter) blast

lemma tombs_wf_filter: "tombs_wf ts \<Longrightarrow> tombs_wf (filter K ts)"
  by (simp add: tombs_wf_def) blast

lemma tombs_wf_update:
  assumes "tombs_wf ts" "\<And>x. tb_user (f x) = tb_user x \<and> tb_key (f x) = tb_key x \<and> tb_semester (f x) = tb_semester x"
  shows "tombs_wf (update_where P f ts)"
proof -
  define g where "g x = (if P x then f x else x)" for x
  have g: "tb_user (g x) = tb_user x" "tb_key (g x) = tb_key x" "tb_semester (g x) = tb_semester x" for x
    using assms(2) by (auto simp: g_def)
  have "update_where P f ts = map g ts" by (simp add: update_where_def g_def)
  then show ?thesis using assms(1) by (simp add: tombs_wf_def g) blast
qed

lemma course_of_update:
  "(\<And>x. cr_user (f x) = cr_user x \<and> cr_key (f x) = cr_key x) \<Longrightarrow> courses db' = update_where P f (courses db) \<Longrightarrow>
   course_of db' u k = map_option (\<lambda>r. if P r then f r else r) (course_of db u k)"
  by (simp add: course_of_def find_update)

lemma course_of_filter:
  "rows_wf (courses db) \<Longrightarrow> semester_of k \<noteq> None \<Longrightarrow> courses db' = filter K (courses db) \<Longrightarrow>
   course_of db' u k = (case course_of db u k of None \<Rightarrow> None | Some r \<Rightarrow> if K r then Some r else None)"
  unfolding course_of_def by (simp only:) (rule find_filter_one, erule (1) one_course)

lemma tombstone_of_filter:
  "tombs_wf (tombstones db) \<Longrightarrow> semester_of k \<noteq> None \<Longrightarrow> tombstones db' = filter K (tombstones db) \<Longrightarrow>
   tombstone_of db' u k = (case tombstone_of db u k of None \<Rightarrow> None | Some t \<Rightarrow> if K t then Some t else None)"
  unfolding tombstone_of_def by (simp only:) (rule find_filter_one, erule (1) one_tombstone)

lemma course_ofD: "course_of db u k = Some r \<Longrightarrow> r \<in> set (courses db) \<and> cr_user r = u \<and> cr_key r = k"
  by (auto simp: course_of_def dest: find_SomeD)

lemma tombstone_ofD: "tombstone_of db u k = Some t \<Longrightarrow> t \<in> set (tombstones db) \<and> tb_user t = u \<and> tb_key t = k"
  by (auto simp: tombstone_of_def dest: find_SomeD)

lemma course_wf_stands: "course_wf db \<Longrightarrow> semester_of k \<noteq> None \<Longrightarrow> stands (choice db u k)"
  using course_ofD [of db u k] by (cases "course_of db u k") (auto simp: course_wf_def stands_def choice_def key_added_def)

section \<open>The register\<close>

definition reg_put :: "datetime option \<times> datetime option \<Rightarrow> datetime \<times> bool \<Rightarrow> datetime option \<times> datetime option" where
  "reg_put c e = (if Some (fst e) \<le> fst c then c else (Some (fst e), if snd e then Some (fst e) else None))"

interpretation choice_lww: lww_register fst snd reg_put fst "\<lambda>e. if snd e then Some (fst e) else None"
  by unfold_locales (auto simp: reg_put_def split: option.splits)

lemma stands_put: "stands c \<Longrightarrow> stands (reg_put c e)"
  by (simp add: stands_def reg_put_def)

lemma key_stamp_max:
  "key_stamp db u k = max (key_added db u k) (max (map_option tb_deleted_at (tombstone_of db u k)) (covering (load_resets db u) (semester_of k)))"
  by (simp add: key_stamp_def membership_stamp_def key_added_def)

section \<open>Deleting one course\<close>

lemma tombstone_of_upsert:
  "tombstone_of (upsert_tombstone t db) u k = (if u = tb_user t \<and> k = tb_key t
     then Some (case tombstone_of db u k of None \<Rightarrow> t | Some x \<Rightarrow>
       x\<lparr>tb_deleted_at := tb_deleted_at t, tb_device := tb_device t, tb_by_reset := tb_by_reset t, tb_user_added := tb_user_added t\<rparr>)
     else tombstone_of db u k)"
proof (cases "tombstone_of db (tb_user t) (tb_key t)")
  case None
  then show ?thesis by (auto simp: upsert_tombstone_def tombstone_of_def find_append split: option.splits)
next
  case (Some x)
  then show ?thesis
    by (cases "find (\<lambda>y. tb_user y = u \<and> tb_key y = k) (tombstones db)")
      (auto simp: upsert_tombstone_def tombstone_of_def find_update dest: find_SomeD)
qed

lemma upsert_tombstone_frame [simp]:
  "courses (upsert_tombstone t db) = courses db" "course_seq (upsert_tombstone t db) = course_seq db"
  "semester_resets (upsert_tombstone t db) = semester_resets db" "courses_reset_at (upsert_tombstone t db) = courses_reset_at db"
  by (simp_all add: upsert_tombstone_def)

lemma upsert_tombstone_wf:
  assumes "tombs_wf (tombstones db)" "\<And>s. semester_of (tb_key t) = Some s \<Longrightarrow> tb_semester t = s"
  shows "tombs_wf (tombstones (upsert_tombstone t db))"
    "x \<in> set (tombstones (upsert_tombstone t db)) \<Longrightarrow> x \<in> set (tombstones db) \<and> (tb_user x, tb_key x) \<noteq> (tb_user t, tb_key t) \<or>
       tb_user x = tb_user t \<and> tb_key x = tb_key t \<and> tb_deleted_at x = tb_deleted_at t \<and> tb_by_reset x = tb_by_reset t"
proof -
  let ?f = "\<lambda>x. x\<lparr>tb_deleted_at := tb_deleted_at t, tb_device := tb_device t, tb_by_reset := tb_by_reset t, tb_user_added := tb_user_added t\<rparr>"
  have n: "tombstone_of db (tb_user t) (tb_key t) = None \<longleftrightarrow> (\<forall>x \<in> set (tombstones db). (tb_user x, tb_key x) \<noteq> (tb_user t, tb_key t))"
    by (auto simp: tombstone_of_def find_None_iff)
  show "tombs_wf (tombstones (upsert_tombstone t db))"
  proof (cases "tombstone_of db (tb_user t) (tb_key t) = None")
    case True
    then show ?thesis using assms n by (auto simp: upsert_tombstone_def tombs_wf_def)
  next
    case False
    then have "tombstones (upsert_tombstone t db) = update_where (\<lambda>x. tb_user x = tb_user t \<and> tb_key x = tb_key t) ?f (tombstones db)"
      by (auto simp: upsert_tombstone_def)
    then show ?thesis using tombs_wf_update [OF assms(1), of ?f] by simp
  qed
  show "x \<in> set (tombstones db) \<and> (tb_user x, tb_key x) \<noteq> (tb_user t, tb_key t) \<or>
       tb_user x = tb_user t \<and> tb_key x = tb_key t \<and> tb_deleted_at x = tb_deleted_at t \<and> tb_by_reset x = tb_by_reset t"
    if "x \<in> set (tombstones (upsert_tombstone t db))"
    using that n by (auto simp: upsert_tombstone_def set_update_where split: if_splits)
qed

text \<open>Taking one row away, or clearing its add.\<close>

lemma delete_one:
  assumes "rows_wf (courses db)" "course_of db u key = Some r" "semester_of k \<noteq> None"
  shows "course_of (delete_courses (\<lambda>x. cr_id x = cr_id r) db) v k = (if v = u \<and> k = key then None else course_of db v k)"
    "rows_wf (courses (delete_courses (\<lambda>x. cr_id x = cr_id r) db))"
proof -
  let ?d = "delete_courses (\<lambda>x. cr_id x = cr_id r) db"
  have r: "r \<in> set (courses db)" "cr_user r = u" "cr_key r = key" using course_ofD [OF assms(2)] by auto
  then have f: "courses ?d = filter (\<lambda>x. cr_id x \<noteq> cr_id r) (courses db)"
    by (auto simp: delete_courses_def Let_def intro!: filter_cong)
  have i: "x = r" if "x \<in> set (courses db)" "cr_id x = cr_id r" for x
    using that r(1) assms(1) by (auto simp: rows_wf_def distinct_map inj_on_def)
  show "course_of ?d v k = (if v = u \<and> k = key then None else course_of db v k)"
    using course_of_filter [OF assms(1,3) f, of v] course_ofD [of db v k] i r assms(2) by (auto split: option.splits if_splits)
  show "rows_wf (courses ?d)" unfolding f by (rule rows_wf_filter [OF assms(1)])
qed

lemma clear_one:
  assumes "rows_wf (courses db)" "course_of db u key = Some r" "semester_of k \<noteq> None"
    and "db' = db\<lparr>courses := update_where (\<lambda>x. cr_id x = cr_id r) (\<lambda>x. x\<lparr>cr_added_at := None\<rparr>) (courses db)\<rparr>"
  shows "course_of db' v k = (if v = u \<and> k = key then Some (r\<lparr>cr_added_at := None\<rparr>) else course_of db v k)"
    "rows_wf (courses db')"
proof -
  let ?f = "\<lambda>x. x\<lparr>cr_added_at := None\<rparr>"
  have r: "r \<in> set (courses db)" "cr_user r = u" "cr_key r = key" using course_ofD [OF assms(2)] by auto
  have i: "x = r" if "x \<in> set (courses db)" "cr_id x = cr_id r" for x
    using that r(1) assms(1) by (auto simp: rows_wf_def distinct_map inj_on_def)
  have c: "course_of db' v k = map_option (\<lambda>x. if cr_id x = cr_id r then ?f x else x) (course_of db v k)"
    by (rule course_of_update) (simp_all add: assms(4))
  show "course_of db' v k = (if v = u \<and> k = key then Some (?f r) else course_of db v k)"
  proof (cases "v = u \<and> k = key")
    case True
    then show ?thesis using assms(2) c by simp
  next
    case False
    have "cr_id x \<noteq> cr_id r" if "course_of db v k = Some x" for x
      using course_ofD [OF that] i [of x] False r(2,3) by auto
    then show ?thesis using False c by (cases "course_of db v k") auto
  qed
  show "rows_wf (courses db')" unfolding assms(4) by (simp add: rows_wf_update [OF assms(1)])
qed

lemma take_row_effect:
  assumes "rows_wf (courses db)" "semester_of k \<noteq> None"
    and db'_def: "db' = take_row kind (course_of db u key) db"
  shows "(v, k) \<noteq> (u, key) \<Longrightarrow> course_of db' v k = course_of db v k" "k = key \<Longrightarrow> key_added db' u k = None" "rows_wf (courses db')"
    "cr_id ` set (courses db') \<subseteq> cr_id ` set (courses db)" "tombstones db' = tombstones db" "semester_resets db' = semester_resets db"
    "courses_reset_at db' = courses_reset_at db" "course_seq db' = course_seq db"
proof -
  show "tombstones db' = tombstones db" "semester_resets db' = semester_resets db" "courses_reset_at db' = courses_reset_at db" "course_seq db' = course_seq db"
    by (auto simp: db'_def take_row_def delete_courses_def Let_def split: option.splits)
  have "((v, k) \<noteq> (u, key) \<longrightarrow> course_of db' v k = course_of db v k) \<and> (k = key \<longrightarrow> key_added db' u k = None) \<and>
    rows_wf (courses db') \<and> cr_id ` set (courses db') \<subseteq> cr_id ` set (courses db)"
  proof (cases "course_of db u key")
    case None
    then show ?thesis using assms(1) by (simp add: db'_def take_row_def key_added_def)
  next
    case (Some r)
    show ?thesis
    proof (cases "keeps_row kind (Some r)")
      case True
      then have d: "db' = db\<lparr>courses := update_where (\<lambda>x. cr_id x = cr_id r) (\<lambda>x. x\<lparr>cr_added_at := None\<rparr>) (courses db)\<rparr>"
        by (simp add: db'_def Some take_row_def)
      note C = clear_one [OF assms(1) Some assms(2) d]
      have "map cr_id (courses db') = map cr_id (courses db)" by (simp add: d map_key_update_where)
      then have "cr_id ` set (courses db') = cr_id ` set (courses db)" by (metis list.set_map)
      then show ?thesis using C by (auto simp: key_added_def)
    next
      case False
      then have d: "db' = delete_courses (\<lambda>x. cr_id x = cr_id r) db" by (simp add: db'_def Some take_row_def)
      note C = delete_one [OF assms(1) Some assms(2)]
      have "set (courses db') \<subseteq> set (courses db)" by (auto simp: d delete_courses_def Let_def)
      then show ?thesis using C by (auto simp: key_added_def d)
    qed
  qed
  then show "(v, k) \<noteq> (u, key) \<Longrightarrow> course_of db' v k = course_of db v k" "k = key \<Longrightarrow> key_added db' u k = None" "rows_wf (courses db')"
    "cr_id ` set (courses db') \<subseteq> cr_id ` set (courses db)" by simp_all
qed

text \<open>Deleting a key, step by step: refused, or a row taken and a tombstone written.\<close>

lemma delete_course_steps:
  assumes wf: "course_wf db" and key: "semester_of key = Some s" and t: "edit_time hlc arrival age = Inr stamp" "hlc \<noteq> None \<or> age \<noteq> None"
  shows "if Some stamp \<le> key_stamp db u key
    then same_tables db (snd (delete_course u dev key True arrival tnow hlc kind age db))
    else \<exists>x. same_tables (upsert_tombstone x (take_row (deletion_kind kind (course_of db u key)) (course_of db u key) (lock_user u db)))
        (snd (delete_course u dev key True arrival tnow hlc kind age db)) \<and>
      tb_user x = u \<and> tb_key x = key \<and> tb_semester x = s \<and> tb_deleted_at x = stamp \<and> \<not> tb_by_reset x"
proof -
  let ?d = "lock_user u db"
  have lk: "course_of ?d u key = course_of db u key" "tombstone_of ?d u key = tombstone_of db u key"
    by (simp_all add: course_of_def tombstone_of_def lock_user_def)
  have sem: "(case course_of ?d u key of Some r \<Rightarrow> Some (cr_semester r) | None \<Rightarrow>
      (case tombstone_of ?d u key of Some t \<Rightarrow> Some (tb_semester t) | None \<Rightarrow> semester_of key)) = Some s"
    using wf key course_ofD [of db u key] tombstone_ofD [of db u key]
    by (auto simp: lk course_wf_def rows_wf_def tombs_wf_def split: option.splits)
  have st: "membership_stamp (course_of ?d u key) (tombstone_of ?d u key) (load_resets ?d u) (Some s) = key_stamp db u key"
    by (simp add: key_stamp_def key lk load_resets_same [OF same_tables_steps(1)])
  have rs: "require_stamp True hlc age = Inr ()" using t(2) by (auto simp: require_stamp_def)
  have tr: "same_tables d (queue_sync_trigger a b c (log_course e f g h d))" for d a b c e f g h
    by (simp add: same_tables_def queue_sync_trigger_def log_course_def)
  show ?thesis
  proof (cases "Some stamp \<le> key_stamp db u key")
    case True
    then show ?thesis by (simp add: delete_course_def rs t(1) Let_def sem st)
  next
    case False
    have "\<exists>no um R ch. snd (delete_course u dev key True arrival tnow hlc kind age db) =
      (let d = upsert_tombstone \<lparr>tb_user = u, tb_key = key, tb_semester = s, tb_no = no, tb_deleted_at = stamp,
          tb_device = dev, tb_by_reset = False, tb_user_added = um\<rparr> (take_row (deletion_kind kind (course_of ?d u key)) (course_of ?d u key) ?d)
       in if R then d else queue_sync_trigger u dev tnow (log_course u dev tnow ch d))"
      unfolding delete_course_def rs t(1) Let_def sum.case sem st using False
      by (simp only: option.simps simp_thms if_False snd_conv option.sel Some_le_iff) (intro exI, rule refl)
    then obtain no um R ch where E: "snd (delete_course u dev key True arrival tnow hlc kind age db) =
      (let d = upsert_tombstone \<lparr>tb_user = u, tb_key = key, tb_semester = s, tb_no = no, tb_deleted_at = stamp,
          tb_device = dev, tb_by_reset = False, tb_user_added = um\<rparr> (take_row (deletion_kind kind (course_of ?d u key)) (course_of ?d u key) ?d)
       in if R then d else queue_sync_trigger u dev tnow (log_course u dev tnow ch d))" by blast
    let ?x = "\<lparr>tb_user = u, tb_key = key, tb_semester = s, tb_no = no, tb_deleted_at = stamp, tb_device = dev, tb_by_reset = False, tb_user_added = um\<rparr>"
    have "same_tables (upsert_tombstone ?x (take_row (deletion_kind kind (course_of db u key)) (course_of db u key) ?d))
        (snd (delete_course u dev key True arrival tnow hlc kind age db))"
      unfolding E by (simp add: Let_def lk tr)
    then show ?thesis unfolding if_not_P [OF False] by (intro exI [of _ ?x] conjI) simp_all
  qed
qed

text \<open>Writing the tombstone of a key whose add is gone: the abstract edit, and a well-formed database.\<close>

lemma mark_deleted:
  assumes wf: "course_wf db" and key: "semester_of key = Some s" and new: "\<not> Some stamp \<le> key_stamp db u key"
    and e: "tombstones e = tombstones db" "load_resets e = load_resets db" "rows_wf (courses e)"
      "\<forall>r \<in> set (courses e). cr_id r < course_seq e" "key_added e u key = None"
      "\<And>w q. semester_of q \<noteq> None \<Longrightarrow> (w, q) \<noteq> (u, key) \<Longrightarrow> course_of e w q = course_of db w q"
    and x: "tb_user x = u" "tb_key x = key" "tb_semester x = s" "tb_deleted_at x = stamp" "\<not> tb_by_reset x"
  shows "choice (upsert_tombstone x e) u key = reg_put (choice db u key) (stamp, False)"
    and "(w, q) \<noteq> (u, key) \<Longrightarrow> semester_of q \<noteq> None \<Longrightarrow> choice (upsert_tombstone x e) w q = choice db w q"
    and "course_wf (upsert_tombstone x e)"
proof -
  let ?db = "upsert_tombstone x e"
  have tw: "tombs_wf (tombstones db)" using wf by (simp add: course_wf_def)
  have res: "load_resets ?db = load_resets db"
    using e(2) by (simp add: fun_eq_iff load_resets_def term_reset_def [abs_def])
  have co: "course_of ?db w q = course_of db w q" if "(w, q) \<noteq> (u, key)" "semester_of q \<noteq> None" for w q
    using e(6) [OF that(2,1)] by (simp add: course_of_def)
  have ad: "key_added ?db u key = None" using e(5) by (simp add: key_added_def course_of_def)
  have tt: "tombstone_of ?db w q = tombstone_of db w q" if "(w, q) \<noteq> (u, key)" for w q
    using that x by (auto simp: tombstone_of_upsert) (simp_all add: tombstone_of_def e(1))
  obtain y where y: "tombstone_of ?db u key = Some y" "tb_deleted_at y = stamp"
    using x by (auto simp: tombstone_of_upsert split: option.splits)
  have cov: "covering (load_resets db u) (semester_of key) \<le> Some stamp"
    using new by (simp add: key_stamp_max not_le less_imp_le del: Some_le_iff)
  have "key_stamp ?db u key = Some stamp" by (simp add: key_stamp_max ad y res max.absorb1 [OF cov])
  then show put: "choice ?db u key = reg_put (choice db u key) (stamp, False)"
    using new by (simp add: choice_def ad reg_put_def del: Some_le_iff)
  have other: "choice ?db w q = choice db w q" if "(w, q) \<noteq> (u, key)" "semester_of q \<noteq> None" for w q
    by (rule choice_cong) (use co [OF that] tt [OF that(1)] res in simp_all)
  then show "(w, q) \<noteq> (u, key) \<Longrightarrow> semester_of q \<noteq> None \<Longrightarrow> choice ?db w q = choice db w q" .
  have mem: "z \<in> set (tombstones db) \<and> (tb_user z, tb_key z) \<noteq> (u, key) \<or> tb_user z = u \<and> tb_key z = key \<and> \<not> tb_by_reset z"
    if "z \<in> set (tombstones ?db)" for z
    using upsert_tombstone_wf(2) [OF _ _ that] tw x key by (auto simp: e(1))
  show "course_wf ?db"
    unfolding course_wf_def
  proof (intro conjI ballI impI)
    show "tombs_wf (tombstones ?db)" by (rule upsert_tombstone_wf(1)) (use tw x key in \<open>auto simp: e(1)\<close>)
    show "Some (tb_deleted_at z) \<le> covering (load_resets ?db (tb_user z)) (Some (tb_semester z))"
      if "z \<in> set (tombstones ?db)" "tb_by_reset z" for z
      using mem [OF that(1)] that(2) wf by (auto simp: res course_wf_def)
    show "stands (choice ?db (cr_user r) (cr_key r))" if "r \<in> set (courses ?db)" "semester_of (cr_key r) \<noteq> None" for r
      using put other [OF _ that(2), of "cr_user r"] course_wf_stands [OF wf that(2)] stands_put
      by (cases "(cr_user r, cr_key r) = (u, key)") auto
  qed (use e(3,4) in auto)
qed

text \<open>Deleting a key implements the register's edit for it and touches no other key.\<close>

lemma delete_course_refines:
  assumes wf: "course_wf db" and key: "semester_of key = Some s" and t: "edit_time hlc arrival age = Inr stamp" "hlc \<noteq> None \<or> age \<noteq> None"
    and db': "db' = snd (delete_course u dev key True arrival tnow hlc kind age db)"
  shows "semester_of k \<noteq> None \<Longrightarrow> choice db' v k = (if v = u \<and> k = key then reg_put (choice db u key) (stamp, False) else choice db v k)"
    "course_wf db'"
proof -
  note S = delete_course_steps [OF wf key t, where u = u and dev = dev and tnow = tnow and kind = kind, folded db']
  have "(semester_of k \<noteq> None \<longrightarrow> choice db' v k = (if v = u \<and> k = key then reg_put (choice db u key) (stamp, False) else choice db v k)) \<and> course_wf db'"
  proof (cases "Some stamp \<le> key_stamp db u key")
    case True
    then show ?thesis using S choice_same wf by (simp add: reg_put_def choice_def del: Some_le_iff)
  next
    case False
    let ?d = "lock_user u db" and ?c = "course_of db u key"
    define e where "e = take_row (deletion_kind kind ?c) ?c ?d"
    obtain x where x: "same_tables (upsert_tombstone x e) db'"
      "tb_user x = u" "tb_key x = key" "tb_semester x = s" "tb_deleted_at x = stamp" "\<not> tb_by_reset x"
      using S unfolding if_not_P [OF False] e_def by blast
    have cd: "course_of ?d = course_of db" "courses ?d = courses db" by (simp_all add: fun_eq_iff course_of_def lock_user_def)
    have rw: "rows_wf (courses ?d)" using wf by (simp add: course_wf_def cd)
    have ed: "e = take_row (deletion_kind kind ?c) (course_of ?d u key) ?d" by (simp add: e_def cd)
    note T = take_row_effect [OF rw _ ed]
    have key': "semester_of key \<noteq> None" using key by simp
    note T' = T(3-8) [OF key']
    have "load_resets e = load_resets db" using T'(4,5) by (simp add: fun_eq_iff load_resets_def term_reset_def [abs_def] lock_user_def)
    moreover have "\<forall>r \<in> set (courses e). cr_id r < course_seq e"
      using T'(2,6) wf by (auto simp: course_wf_def cd lock_user_def)
    moreover have "tombstones e = tombstones db" using T'(3) by (simp add: lock_user_def)
    ultimately have M: "choice (upsert_tombstone x e) u key = reg_put (choice db u key) (stamp, False)"
      "\<And>w q. (w, q) \<noteq> (u, key) \<Longrightarrow> semester_of q \<noteq> None \<Longrightarrow> choice (upsert_tombstone x e) w q = choice db w q"
      "course_wf (upsert_tombstone x e)"
      using mark_deleted [OF wf key False _ _ T'(1) _ T(2) [OF key' refl] _ x(2-6)] T(1) cd by auto
    then show ?thesis using choice_same [OF x(1)] by auto
  qed
  then show "semester_of k \<noteq> None \<Longrightarrow> choice db' v k = (if v = u \<and> k = key then reg_put (choice db u key) (stamp, False) else choice db v k)"
    "course_wf db'" by auto
qed

section \<open>Resets\<close>

lemma semester_of_nonempty: "semester_of k = Some s \<Longrightarrow> s \<noteq> []"
  by (auto simp: semester_of_def Let_def split: prod.splits if_splits)

lemma in_term_None [simp]: "in_term None s"
  by (simp add: in_term_def given_def)

lemma in_term_Some: "q \<noteq> [] \<Longrightarrow> in_term (Some q) s \<longleftrightarrow> s = q"
  by (auto simp: in_term_def given_def)

lemma latest_two: "latest [a, b] = max a b"
  by simp

lemma record_reset_terms:
  "term_reset (snd (record_reset u (Some q) stamp db)) v s = (if v = u \<and> s = q then max (term_reset db u q) (Some stamp) else term_reset db v s)"
proof (cases "term_reset db u q")
  case None
  then show ?thesis
    by (cases "find (\<lambda>r. sr_user r = v \<and> sr_semester r = s) (semester_resets db)")
      (auto simp: record_reset_def term_reset_def find_append)
next
  case (Some t)
  then show ?thesis
    by (cases "find (\<lambda>r. sr_user r = v \<and> sr_semester r = s) (semester_resets db)")
      (auto simp: record_reset_def term_reset_def find_update max_Some dest: find_SomeD)
qed

lemma record_reset_full:
  "courses_reset_at (snd (record_reset u None stamp db)) v = (if v = u then max (courses_reset_at db u) (Some stamp) else courses_reset_at db v)"
  by (cases "courses_reset_at db u") (auto simp: record_reset_def Let_def max_Some)

lemma covering_max: "covering r (Some s) = max (rs_full r) (if s = [] then None else rs_terms r s)"
  by (simp add: covering_def)

lemma record_reset_covering:
  assumes "semester = None \<or> given semester"
  shows "covering (load_resets (snd (record_reset u semester stamp db)) v) (Some s) =
    (if v = u \<and> in_term semester s then max (covering (load_resets db v) (Some s)) (Some stamp) else covering (load_resets db v) (Some s))"
proof (cases semester)
  case None
  then have "term_reset (snd (record_reset u semester stamp db)) = term_reset db"
    by (simp add: fun_eq_iff term_reset_def record_reset_def Let_def)
  then show ?thesis using None by (simp add: covering_max load_resets_def record_reset_full max.assoc max.commute max.left_commute)
next
  case (Some q)
  then have q: "q \<noteq> []" using assms by (auto simp: given_def)
  have "courses_reset_at (snd (record_reset u semester stamp db)) = courses_reset_at db"
    by (simp add: Some record_reset_def split: option.splits)
  then show ?thesis using q by (auto simp: Some in_term_Some covering_max load_resets_def record_reset_terms max.assoc)
qed

lemma record_reset_frame [simp]:
  "courses (snd (record_reset u semester stamp db)) = courses db" "tombstones (snd (record_reset u semester stamp db)) = tombstones db"
  "course_seq (snd (record_reset u semester stamp db)) = course_seq db" "overrides (snd (record_reset u semester stamp db)) = overrides db"
  by (auto simp: record_reset_def Let_def split: option.splits)

lemma clear_added_frame [simp]:
  "cr_id (snd (clear_added t r)) = cr_id r" "cr_user (snd (clear_added t r)) = cr_user r" "cr_key (snd (clear_added t r)) = cr_key r"
  "cr_semester (snd (clear_added t r)) = cr_semester r"
  "cr_added_at (snd (clear_added t r)) = (case cr_added_at r of Some a \<Rightarrow> if a \<le> t then None else Some a | None \<Rightarrow> None)"
  by (auto simp: clear_added_def split: option.splits)

text \<open>The courses after a reset: those of the scope that go are gone, the others lose an add the reset covers.\<close>

definition reset_courses :: "uuid \<Rightarrow> string option \<Rightarrow> datetime \<Rightarrow> course_db \<Rightarrow> course_db" where
  "reset_courses u semester stamp db =
    delete_courses (\<lambda>r. cr_id r \<in> cr_id ` set (filter (goes db u stamp) (filter (\<lambda>r. cr_user r = u \<and> in_term semester (cr_semester r)) (courses db))))
      (clear_rows u semester stamp db)"

lemma reset_courses_list:
  assumes "rows_wf (courses db)"
  shows "courses (reset_courses u semester stamp db) =
    filter (\<lambda>r. \<not> (cr_user r = u \<and> in_term semester (cr_semester r) \<and> (\<exists>x \<in> set (courses db). cr_id x = cr_id r \<and> goes db u stamp x)))
      (update_where (\<lambda>r. cr_user r = u \<and> in_term semester (cr_semester r) \<and> \<not> goes db u stamp r) (\<lambda>r. snd (clear_added stamp r)) (courses db))"
proof -
  let ?K = "\<lambda>r. cr_user r = u \<and> in_term semester (cr_semester r) \<and> \<not> goes db u stamp r"
  let ?cs = "update_where ?K (\<lambda>r. snd (clear_added stamp r)) (courses db)"
  let ?G = "cr_id ` set (filter (goes db u stamp) (filter (\<lambda>r. cr_user r = u \<and> in_term semester (cr_semester r)) (courses db)))"
  have cs: "courses (clear_rows u semester stamp db) = ?cs" by (simp add: clear_rows_def Let_def)
  have pre: "\<exists>x \<in> set (courses db). cr_id x = cr_id r \<and> cr_user x = cr_user r \<and> cr_semester x = cr_semester r" if "r \<in> set ?cs" for r
    using that by (auto simp: set_update_where)
  have i: "x = y" if "x \<in> set (courses db)" "y \<in> set (courses db)" "cr_id x = cr_id y" for x y
    using that assms by (auto simp: rows_wf_def distinct_map inj_on_def)
  have "filter (\<lambda>r. cr_id r \<notin> set (map cr_id (filter (\<lambda>r. cr_id r \<in> ?G) ?cs))) ?cs =
      filter (\<lambda>r. \<not> (cr_user r = u \<and> in_term semester (cr_semester r) \<and> (\<exists>x \<in> set (courses db). cr_id x = cr_id r \<and> goes db u stamp x))) ?cs"
  proof (rule filter_cong [OF refl])
    fix r assume r: "r \<in> set ?cs"
    then obtain x where x: "x \<in> set (courses db)" "cr_id x = cr_id r" "cr_user x = cr_user r" "cr_semester x = cr_semester r" using pre by blast
    have "cr_id r \<in> ?G \<longleftrightarrow> cr_user r = u \<and> in_term semester (cr_semester r) \<and> (\<exists>y \<in> set (courses db). cr_id y = cr_id r \<and> goes db u stamp y)"
      using x i by (auto simp: image_iff) metis+
    moreover have "cr_id r \<in> set (map cr_id (filter (\<lambda>r. cr_id r \<in> ?G) ?cs)) \<longleftrightarrow> cr_id r \<in> ?G" using r by (auto simp: image_iff)
    ultimately show "(cr_id r \<notin> set (map cr_id (filter (\<lambda>r. cr_id r \<in> ?G) ?cs))) =
        (\<not> (cr_user r = u \<and> in_term semester (cr_semester r) \<and> (\<exists>x \<in> set (courses db). cr_id x = cr_id r \<and> goes db u stamp x)))" by blast
  qed
  moreover have "courses (delete_courses P d) = filter (\<lambda>r. cr_id r \<notin> set (map cr_id (filter P (courses d)))) (courses d)" for P d
    by (simp add: delete_courses_def Let_def)
  ultimately show ?thesis by (simp only: reset_courses_def cs)
qed

lemma reset_course_of:
  assumes rw: "rows_wf (courses db)" and k: "semester_of k = Some s"
  shows "course_of (reset_courses u semester stamp db) v k =
    (case course_of db v k of None \<Rightarrow> None
     | Some r \<Rightarrow> if v = u \<and> in_term semester s then if goes db u stamp r then None else Some (snd (clear_added stamp r)) else Some r)"
    "rows_wf (courses (reset_courses u semester stamp db))"
proof -
  let ?K = "\<lambda>r. cr_user r = u \<and> in_term semester (cr_semester r) \<and> \<not> goes db u stamp r"
  let ?f = "\<lambda>r. snd (clear_added stamp r)"
  let ?L = "\<lambda>r. \<not> (cr_user r = u \<and> in_term semester (cr_semester r) \<and> (\<exists>x \<in> set (courses db). cr_id x = cr_id r \<and> goes db u stamp x))"
  define d where "d = db\<lparr>courses := update_where ?K ?f (courses db)\<rparr>"
  have dw: "rows_wf (courses d)" unfolding d_def by (simp add: rows_wf_update [OF rw])
  have L: "courses (reset_courses u semester stamp db) = filter ?L (courses d)" by (simp add: reset_courses_list [OF rw] d_def)
  show "rows_wf (courses (reset_courses u semester stamp db))" unfolding L by (rule rows_wf_filter [OF dw])
  have c: "course_of d v k = map_option (\<lambda>r. if ?K r then ?f r else r) (course_of db v k)"
    by (rule course_of_update) (simp_all add: d_def)
  have k': "semester_of k \<noteq> None" using k by simp
  note F = course_of_filter [OF dw k' L, of v]
  show "course_of (reset_courses u semester stamp db) v k =
    (case course_of db v k of None \<Rightarrow> None
     | Some r \<Rightarrow> if v = u \<and> in_term semester s then if goes db u stamp r then None else Some (snd (clear_added stamp r)) else Some r)"
  proof (cases "course_of db v k")
    case None
    then show ?thesis by (simp add: F c)
  next
    case (Some r)
    have r: "r \<in> set (courses db)" "cr_user r = v" "cr_key r = k" using course_ofD [OF Some] by auto
    then have rs: "cr_semester r = s" using rw k by (auto simp: rows_wf_def)
    have i: "(\<exists>x \<in> set (courses db). cr_id x = cr_id r \<and> goes db u stamp x) \<longleftrightarrow> goes db u stamp r"
      using r(1) rw by (auto simp: rows_wf_def distinct_map inj_on_def)
    define g where "g = (if ?K r then ?f r else r)"
    have g: "cr_id g = cr_id r" "cr_user g = v" "cr_semester g = s" by (simp_all add: g_def r(2) rs)
    have "?L g \<longleftrightarrow> \<not> (v = u \<and> in_term semester s \<and> goes db u stamp r)" unfolding g i by simp
    moreover have "course_of d v k = Some g" by (simp add: c Some g_def)
    moreover have "g = (if v = u \<and> in_term semester s \<and> \<not> goes db u stamp r then ?f r else r)" by (simp add: g_def r(2) rs)
    ultimately show ?thesis unfolding F Some by (simp split: if_splits)
  qed
qed

lemma goes_added: "goes db u stamp r \<Longrightarrow> cr_added_at r = Some a \<Longrightarrow> a \<le> stamp"
  by (auto simp: goes_def split: option.splits)

lemma reset_key_added:
  assumes "rows_wf (courses db)" "semester_of k = Some s"
  shows "key_added (reset_courses u semester stamp db) v k =
    (if v = u \<and> in_term semester s \<and> key_added db v k \<le> Some stamp then None else key_added db v k)"
  by (auto simp: key_added_def reset_course_of(1) [OF assms] split: option.splits dest: goes_added)

text \<open>The tombstones after a reset: those it does not cover stay, and every other one carries its stamp.\<close>

definition covers :: "uuid \<Rightarrow> string option \<Rightarrow> datetime \<Rightarrow> tombstone \<Rightarrow> bool" where
  "covers u semester stamp t \<longleftrightarrow> tb_user t = u \<and> in_term semester (tb_semester t) \<and> tb_deleted_at t \<le> stamp"

definition scope_rows :: "uuid \<Rightarrow> string option \<Rightarrow> course_row list \<Rightarrow> bool" where
  "scope_rows u semester rs \<longleftrightarrow> (\<forall>r \<in> set rs. cr_user r = u \<and> in_term semester (cr_semester r)) \<and>
    (\<forall>r \<in> set rs. \<forall>s. semester_of (cr_key r) = Some s \<longrightarrow> cr_semester r = s) \<and>
    (\<forall>r \<in> set rs. \<forall>r' \<in> set rs. cr_key r = cr_key r' \<and> semester_of (cr_key r) \<noteq> None \<longrightarrow> r = r')"

lemma set_reset_tombstones:
  assumes "given semester"
    and C_def: "C = covers u semester stamp"
  shows "set (reset_tombstones u dev semester stamp rs kk ts) =
    {x \<in> set ts. \<not> C x} \<union> take_over_tombstone dev stamp ` {x \<in> set ts. C x \<and> tb_key x \<notin> set kk} \<union>
    reset_tombstone u dev stamp ` {r \<in> set rs. \<forall>x \<in> set ts. tb_user x = u \<and> in_term semester (tb_semester x) \<and> tb_key x = cr_key r \<longrightarrow>
      C x \<and> tb_key x \<in> set kk}"
proof -
  let ?t2 = "update_where C (take_over_tombstone dev stamp) (filter (\<lambda>t. \<not> (C t \<and> tb_key t \<in> set kk)) ts)"
  have C: "C = (\<lambda>t. tb_user t = u \<and> in_term semester (tb_semester t) \<and> tb_deleted_at t \<le> stamp)" by (simp add: C_def covers_def fun_eq_iff)
  have t2: "set ?t2 = {x \<in> set ts. \<not> C x} \<union> take_over_tombstone dev stamp ` {x \<in> set ts. C x \<and> tb_key x \<notin> set kk}"
    by (auto simp: set_update_where)
  have later: "k \<in> tb_key ` {x \<in> set ?t2. tb_user x = u \<and> in_term semester (tb_semester x)} \<longleftrightarrow>
      (\<exists>x \<in> set ts. tb_user x = u \<and> in_term semester (tb_semester x) \<and> tb_key x = k \<and> \<not> (C x \<and> tb_key x \<in> set kk))" for k
  proof -
    define P where "P x \<longleftrightarrow> tb_user x = u \<and> in_term semester (tb_semester x)" for x :: tombstone
    define T where "T = take_over_tombstone dev stamp"
    have T: "P (T x) = P x" "tb_key (T x) = tb_key x" for x by (simp_all add: T_def P_def take_over_tombstone_def)
    have "k \<in> tb_key ` {x \<in> {x \<in> set ts. \<not> C x} \<union> T ` {x \<in> set ts. C x \<and> tb_key x \<notin> set kk}. P x} \<longleftrightarrow>
        (\<exists>x \<in> set ts. P x \<and> tb_key x = k \<and> \<not> (C x \<and> tb_key x \<in> set kk))" (is "?l \<longleftrightarrow> ?r")
    proof
      show "?l \<Longrightarrow> ?r" using T by fastforce
      show "?l" if "?r"
      proof -
        from that obtain x where x: "x \<in> set ts" "P x" "tb_key x = k" "\<not> (C x \<and> tb_key x \<in> set kk)" by blast
        show ?thesis
        proof (cases "C x")
          case True
          then show ?thesis using x T by (intro image_eqI [of _ _ "T x"]) auto
        next
          case False
          then show ?thesis using x by (intro image_eqI [of _ _ x]) auto
        qed
      qed
    qed
    then show ?thesis unfolding t2 by (simp only: P_def T_def conj_assoc)
  qed
  have R: "set (reset_tombstones u dev semester stamp rs kk ts) = set ?t2 \<union>
      reset_tombstone u dev stamp ` {r \<in> set rs. cr_key r \<notin> tb_key ` {x \<in> set ?t2. tb_user x = u \<and> in_term semester (tb_semester x)}}"
    unfolding reset_tombstones_def if_P [OF assms(1)] Let_def C by (simp only: set_append set_map set_filter)
  show ?thesis unfolding R later unfolding t2 by auto
qed

lemma take_over_frame [simp]:
  "tb_user (take_over_tombstone dev arr t) = tb_user t" "tb_key (take_over_tombstone dev arr t) = tb_key t"
  "tb_semester (take_over_tombstone dev arr t) = tb_semester t" "tb_deleted_at (take_over_tombstone dev arr t) = arr"
  by (simp_all add: take_over_tombstone_def)

lemma reset_tombstone_frame [simp]:
  "tb_user (reset_tombstone u dev arr r) = u" "tb_key (reset_tombstone u dev arr r) = cr_key r"
  "tb_semester (reset_tombstone u dev arr r) = cr_semester r" "tb_deleted_at (reset_tombstone u dev arr r) = arr"
  by (simp_all add: reset_tombstone_def)

lemma reset_tombstones_mem:
  assumes sem: "semester = None \<or> given semester" and rs: "scope_rows u semester rs"
    and x: "x \<in> set (reset_tombstones u dev semester stamp rs kk ts)"
  shows "x \<in> set ts \<and> \<not> covers u semester stamp x \<or>
    tb_user x = u \<and> in_term semester (tb_semester x) \<and> tb_deleted_at x = stamp \<and>
      ((\<exists>t \<in> set ts. tb_user t = u \<and> tb_key t = tb_key x \<and> tb_key t \<notin> set kk) \<or> (\<exists>r \<in> set rs. cr_key r = tb_key x))"
proof (cases "given semester")
  case True
  then show ?thesis using x rs by (auto simp: set_reset_tombstones scope_rows_def covers_def)
next
  case False
  then show ?thesis using x by (auto simp: reset_tombstones_def covers_def Let_def)
qed

lemma reset_tombstones_keep:
  "x \<in> set ts \<Longrightarrow> \<not> covers u semester stamp x \<Longrightarrow> x \<in> set (reset_tombstones u dev semester stamp rs kk ts)"
proof (cases "given semester")
  case False
  then show "x \<in> set ts \<Longrightarrow> \<not> covers u semester stamp x \<Longrightarrow> ?thesis" by (auto simp: reset_tombstones_def covers_def Let_def)
qed (simp add: set_reset_tombstones)

lemma reset_tombstones_wf:
  assumes tw: "tombs_wf ts" and rs: "scope_rows u semester rs"
  shows "tombs_wf (reset_tombstones u dev semester stamp rs kk ts)"
proof (cases "given semester")
  case False
  then show ?thesis using tw by (simp add: reset_tombstones_def Let_def tombs_wf_filter)
next
  case True
  let ?C = "covers u semester stamp" and ?R = "reset_tombstone u dev stamp"
  define g where "g x = (if ?C x then take_over_tombstone dev stamp x else x)" for x
  let ?S = "{x \<in> set ts. \<not> (?C x \<and> tb_key x \<in> set kk)}"
  let ?N = "{r \<in> set rs. \<forall>x \<in> set ts. tb_user x = u \<and> in_term semester (tb_semester x) \<and> tb_key x = cr_key r \<longrightarrow> ?C x \<and> tb_key x \<in> set kk}"
  have g: "tb_user (g x) = tb_user x" "tb_key (g x) = tb_key x" "tb_semester (g x) = tb_semester x" for x by (simp_all add: g_def)
  have S: "set (reset_tombstones u dev semester stamp rs kk ts) = g ` ?S \<union> ?R ` ?N"
    unfolding set_reset_tombstones [OF True refl] by (auto simp: g_def)
  have old: "g x = g y" if "x \<in> ?S" "y \<in> ?S" "tb_user x = tb_user y" "tb_key x = tb_key y" "semester_of (tb_key x) \<noteq> None" for x y
  proof -
    have "x \<in> set ts" using that(1) by simp
    moreover have "y \<in> set ts" using that(2) by simp
    ultimately have "x = y" by (rule one_tombstone [OF tw that(5), where u = "tb_user x"]) (simp_all only: that(3,4))
    then show ?thesis by (rule arg_cong)
  qed
  have mixed: False if "x \<in> ?S" "r \<in> ?N" "tb_user x = u" "tb_key x = cr_key r" "semester_of (tb_key x) \<noteq> None" for r x
  proof -
    from that(5) obtain q where q: "semester_of (tb_key x) = Some q" by blast
    have "tb_semester x = q" using q tw that(1) by (simp add: tombs_wf_def)
    moreover have r: "r \<in> set rs" using that(2) by simp
    moreover have "cr_semester r = q" using q rs r that(4) by (simp add: scope_rows_def)
    moreover have "in_term semester (cr_semester r)" using rs r by (simp add: scope_rows_def)
    ultimately show False using that(1-4) by force
  qed
  have new: "?R r = ?R r'" if "r \<in> ?N" "r' \<in> ?N" "cr_key r = cr_key r'" "semester_of (cr_key r) \<noteq> None" for r r'
    using that rs by (auto simp: scope_rows_def)
  have one: "x = y" if p: "x \<in> g ` ?S \<union> ?R ` ?N" "y \<in> g ` ?S \<union> ?R ` ?N" "tb_user x = tb_user y" "tb_key x = tb_key y" "semester_of (tb_key x) \<noteq> None" for x y
  proof (cases "x \<in> g ` ?S")
    case True
    then obtain x' where x': "x' \<in> ?S" "x = g x'" by blast
    show ?thesis
    proof (cases "y \<in> g ` ?S")
      case True
      then obtain y' where "y' \<in> ?S" "y = g y'" by blast
      then show ?thesis using old [of x' y'] x' p(3-5) by (simp add: g)
    next
      case False
      then obtain r where "r \<in> ?N" "y = ?R r" using p(2) by blast
      then show ?thesis using mixed [of x' r] x' p(3-5) by (simp add: g)
    qed
  next
    case False
    then obtain r where r: "r \<in> ?N" "x = ?R r" using p(1) by blast
    show ?thesis
    proof (cases "y \<in> g ` ?S")
      case True
      then obtain y' where y': "y' \<in> ?S" "y = g y'" by blast
      have "tb_user y' = u" "tb_key y' = cr_key r" "semester_of (tb_key y') \<noteq> None" using r(2) y'(2) p(3-5) by (simp_all add: g)
      then show ?thesis using mixed [OF y'(1) r(1)] by blast
    next
      case False
      then obtain r' where "r' \<in> ?N" "y = ?R r'" using p(2) by blast
      then show ?thesis using new [of r r'] r p(3-5) by simp
    qed
  qed
  have sm: "tb_semester x = q" if p: "x \<in> g ` ?S \<union> ?R ` ?N" "semester_of (tb_key x) = Some q" for x q
  proof (cases "x \<in> g ` ?S")
    case True
    then obtain x' where "x' \<in> set ts" "x = g x'" by blast
    then show ?thesis using p(2) tw by (simp add: g tombs_wf_def)
  next
    case False
    then obtain r where "r \<in> set rs" "x = ?R r" using p(1) by blast
    then show ?thesis using p(2) rs by (simp add: scope_rows_def)
  qed
  show ?thesis unfolding tombs_wf_def S
  proof (intro conjI ballI allI impI)
    show "x = y" if "x \<in> g ` ?S \<union> ?R ` ?N" "y \<in> g ` ?S \<union> ?R ` ?N" "tb_user x = tb_user y \<and> tb_key x = tb_key y \<and> semester_of (tb_key x) \<noteq> None" for x y
      by (rule one [OF that(1,2)]) (use that(3) in blast)+
  qed (rule sm)
qed

lemma tombstone_of_iff:
  assumes "tombs_wf (tombstones db)" "semester_of k \<noteq> None"
  shows "tombstone_of db u k = Some t \<longleftrightarrow> t \<in> set (tombstones db) \<and> tb_user t = u \<and> tb_key t = k"
proof
  assume t: "t \<in> set (tombstones db) \<and> tb_user t = u \<and> tb_key t = k"
  then obtain y where y: "tombstone_of db u k = Some y" by (cases "tombstone_of db u k") (auto simp: tombstone_of_def find_None_iff)
  have "y = t" by (rule one_tombstone [OF assms, of _ _ u]) (use t tombstone_ofD [OF y] in auto)
  then show "tombstone_of db u k = Some t" using y by simp
qed (rule tombstone_ofD)

lemma course_of_iff:
  assumes "rows_wf (courses db)" "semester_of k \<noteq> None"
  shows "course_of db u k = Some r \<longleftrightarrow> r \<in> set (courses db) \<and> cr_user r = u \<and> cr_key r = k"
proof
  assume r: "r \<in> set (courses db) \<and> cr_user r = u \<and> cr_key r = k"
  then obtain y where y: "course_of db u k = Some y" by (cases "course_of db u k") (auto simp: course_of_def find_None_iff)
  have "y = r" by (rule one_course [OF assms, of _ _ u]) (use r course_ofD [OF y] in auto)
  then show "course_of db u k = Some r" using y by simp
qed (rule course_ofD)

text \<open>A reset is refused, or records its stamp, takes the courses it covers and marks them.\<close>

definition reset_state :: "uuid \<Rightarrow> uuid option \<Rightarrow> string option \<Rightarrow> datetime \<Rightarrow> course_db \<Rightarrow> course_db" where
  "reset_state u dev semester stamp db =
    (let db1 = snd (record_reset u semester stamp db); db3 = reset_courses u semester stamp db1;
         rows = filter (\<lambda>r. cr_user r = u \<and> in_term semester (cr_semester r)) (courses db1)
     in db3\<lparr>tombstones := reset_tombstones u dev semester stamp (filter (goes db1 u stamp) rows)
          (map cr_key (filter (\<lambda>r. \<not> goes db1 u stamp r) rows)) (tombstones db)\<rparr>)"

lemma delete_courses_tombstones: "tombstones (delete_courses P db) = tombstones db"
  by (simp add: delete_courses_def Let_def)

lemma clear_rows_tombstones: "tombstones (clear_rows u semester stamp db) = tombstones db"
  by (simp add: clear_rows_def Let_def)

lemma reset_courses_frame [simp]:
  "tombstones (reset_courses u semester stamp db) = tombstones db" "semester_resets (reset_courses u semester stamp db) = semester_resets db"
  "courses_reset_at (reset_courses u semester stamp db) = courses_reset_at db" "course_seq (reset_courses u semester stamp db) = course_seq db"
  by (simp_all add: reset_courses_def clear_rows_def delete_courses_def Let_def)

definition reset_bar :: "course_db \<Rightarrow> uuid \<Rightarrow> string option \<Rightarrow> datetime option" where
  "reset_bar db u semester = (if given semester then covering (load_resets db u) semester else courses_reset_at db u)"

lemma reset_by_stamp_steps:
  "if Some stamp \<le> reset_bar db u semester then same_tables db (snd (reset_by_stamp u dev semester stamp tnow db))
   else same_tables (reset_state u dev semester stamp (lock_user u db)) (snd (reset_by_stamp u dev semester stamp tnow db))"
proof -
  have st: "(if given semester then covering (load_resets (lock_user u db) u) semester else rs_full (load_resets (lock_user u db) u)) = reset_bar db u semester"
    by (simp add: reset_bar_def load_resets_same [OF same_tables_steps(1)]) (simp add: load_resets_def)
  show ?thesis
  proof (cases "Some stamp \<le> reset_bar db u semester")
    case True
    then show ?thesis by (simp add: reset_by_stamp_def Let_def st)
  next
    case False
    define d where "d = lock_user u db"
    have "\<exists>ch. snd (reset_by_stamp u dev semester stamp tnow db) =
        queue_sync_trigger u dev tnow (fold (log_course u dev tnow) ch (reset_state u dev semester stamp d))"
      using False unfolding reset_by_stamp_def Let_def d_def [symmetric] st [folded d_def] reset_state_def reset_courses_def Some_le_iff
      by (simp only: if_False snd_conv delete_courses_tombstones clear_rows_tombstones record_reset_frame) (rule exI, rule refl)
    then show ?thesis using False same_tables_logged by (auto simp: d_def simp del: Some_le_iff)
  qed
qed

text \<open>What a reset covers loses its add and carries the reset's stamp; a later choice stands.\<close>

lemma reset_state_facts:
  assumes wf: "course_wf db" and sem: "semester = None \<or> given semester"
    and e_def: "e = reset_state u dev semester stamp db"
  shows "tombs_wf (tombstones e)" "rows_wf (courses e)"
    and "semester_of k = Some s \<Longrightarrow> key_added e v k = (if v = u \<and> in_term semester s \<and> key_added db v k \<le> Some stamp then None else key_added db v k)"
    and "covering (load_resets e v) (Some s) =
      (if v = u \<and> in_term semester s then max (covering (load_resets db v) (Some s)) (Some stamp) else covering (load_resets db v) (Some s))"
    and "x \<in> set (tombstones db) \<Longrightarrow> \<not> covers u semester stamp x \<Longrightarrow> x \<in> set (tombstones e)"
    and "x \<in> set (tombstones e) \<Longrightarrow> x \<in> set (tombstones db) \<and> \<not> covers u semester stamp x \<or>
      tb_user x = u \<and> in_term semester (tb_semester x) \<and> tb_deleted_at x = stamp"
proof -
  let ?db1 = "snd (record_reset u semester stamp db)"
  let ?rows = "filter (\<lambda>r. cr_user r = u \<and> in_term semester (cr_semester r)) (courses ?db1)"
  let ?going = "filter (goes ?db1 u stamp) ?rows"
  have rw: "rows_wf (courses ?db1)" and tw: "tombs_wf (tombstones db)" using wf by (simp_all add: course_wf_def)
  have sc: "scope_rows u semester ?going" using rw by (auto simp: scope_rows_def rows_wf_def)
  have te: "tombstones e = reset_tombstones u dev semester stamp ?going (map cr_key (filter (\<lambda>r. \<not> goes ?db1 u stamp r) ?rows)) (tombstones db)"
    by (simp add: e_def reset_state_def Let_def)
  have ce: "courses e = courses (reset_courses u semester stamp ?db1)" by (simp add: e_def reset_state_def Let_def)
  show "tombs_wf (tombstones e)" unfolding te by (rule reset_tombstones_wf [OF tw sc])
  have "courses_reset_at e = courses_reset_at ?db1" "semester_resets e = semester_resets ?db1"
    by (simp_all add: e_def reset_state_def Let_def)
  then have le: "load_resets e = load_resets ?db1" by (simp add: fun_eq_iff load_resets_def term_reset_def)
  show "rows_wf (courses e)" unfolding ce by (rule reset_course_of(2) [OF rw, of "''client:a:b''"]) code_simp
  have ae: "key_added e v k = (if v = u \<and> in_term semester s \<and> key_added db v k \<le> Some stamp then None else key_added db v k)"
    if "semester_of k = Some s" for v k s
  proof -
    have "key_added e v k = key_added (reset_courses u semester stamp ?db1) v k" "key_added ?db1 v k = key_added db v k"
      by (simp_all add: key_added_def course_of_def ce)
    then show ?thesis using reset_key_added [OF rw that, of u semester stamp v] by (simp only:)
  qed
  then show "semester_of k = Some s \<Longrightarrow> key_added e v k = (if v = u \<and> in_term semester s \<and> key_added db v k \<le> Some stamp then None else key_added db v k)" .
  show "covering (load_resets e v) (Some s) =
      (if v = u \<and> in_term semester s then max (covering (load_resets db v) (Some s)) (Some stamp) else covering (load_resets db v) (Some s))"
    unfolding le by (rule record_reset_covering [OF sem])
  show "x \<in> set (tombstones e)" if "x \<in> set (tombstones db)" "\<not> covers u semester stamp x"
    unfolding te by (rule reset_tombstones_keep [OF that])
  show "x \<in> set (tombstones db) \<and> \<not> covers u semester stamp x \<or>
      tb_user x = u \<and> in_term semester (tb_semester x) \<and> tb_deleted_at x = stamp"
    if x: "x \<in> set (tombstones e)"
    using reset_tombstones_mem [OF sem sc x [unfolded te]] by blast
qed

text \<open>The tombstone of a key after a reset.\<close>

lemma reset_tombstone_of:
  assumes wf: "course_wf db" and sem: "semester = None \<or> given semester" and k: "semester_of k = Some s"
    and e_def: "e = reset_state u dev semester stamp db"
  shows "\<not> (v = u \<and> in_term semester s) \<Longrightarrow> tombstone_of e v k = tombstone_of db v k"
    and "in_term semester s \<Longrightarrow> tombstone_of db u k = Some t \<Longrightarrow> stamp < tb_deleted_at t \<Longrightarrow> tombstone_of e u k = Some t"
    and "tombstone_of e u k = Some t \<Longrightarrow> tombstone_of db u k = Some t \<and> \<not> covers u semester stamp t \<or> tb_deleted_at t = stamp"
proof -
  note F = reset_state_facts [OF wf sem e_def]
  have tw: "tombs_wf (tombstones db)" using wf by (simp add: course_wf_def)
  have k': "semester_of k \<noteq> None" using k by simp
  note I = tombstone_of_iff [OF tw k'] tombstone_of_iff [OF F(1) k']
  have keep: "tombstone_of db v k = Some t \<Longrightarrow> \<not> covers u semester stamp t \<Longrightarrow> tombstone_of e v k = Some t" for v t
    using F(5) [of t] by (simp add: I)
  then show "in_term semester s \<Longrightarrow> tombstone_of db u k = Some t \<Longrightarrow> stamp < tb_deleted_at t \<Longrightarrow> tombstone_of e u k = Some t"
    by (simp add: covers_def)
  have new: "tombstone_of db v k = Some t \<and> \<not> covers u semester stamp t \<or> v = u \<and> in_term semester s \<and> tb_deleted_at t = stamp"
    if "tombstone_of e v k = Some t" for v t
  proof -
    have t: "t \<in> set (tombstones e)" "tb_user t = v" "tb_key t = k" using that by (simp_all add: I)
    then have "tb_semester t = s" using F(1) k by (auto simp: tombs_wf_def)
    then show ?thesis using F(6) [OF t(1)] t(2,3) by (auto simp: I)
  qed
  then show "tombstone_of e u k = Some t \<Longrightarrow> tombstone_of db u k = Some t \<and> \<not> covers u semester stamp t \<or> tb_deleted_at t = stamp" by blast
  assume out: "\<not> (v = u \<and> in_term semester s)"
  have "\<not> covers u semester stamp t" if "tombstone_of db v k = Some t" for t
    using that out k tw by (auto simp: I covers_def tombs_wf_def)
  then show "tombstone_of e v k = tombstone_of db v k"
    using keep [of v] new [of v] out by (cases "tombstone_of db v k"; cases "tombstone_of e v k") auto
qed

lemma covering_full_le: "rs_full r \<le> covering r semester"
  by (simp add: covering_def)

text \<open>The arithmetic of a reset at \<open>S\<close>: the add \<open>A\<close>, the tombstone \<open>M\<close> and the recorded resets \<open>C\<close> before, primed after.\<close>

lemma reset_max:
  fixes A M C S :: "'a :: linorder option"
  assumes "A' = (if A \<le> S then None else A)" "A = None \<or> A = max A (max M C)" "S < M \<Longrightarrow> M' = M" "\<not> S < M \<Longrightarrow> M' = S \<or> M' = None"
    and "max A (max M C) \<noteq> S"
  shows "max A' (max M' (max C S)) = (if S \<le> max A (max M C) then max A (max M C) else S) \<and> A' = (if S \<le> max A (max M C) then A else None)"
proof (cases "A \<le> S")
  case True
  then show ?thesis using assms by (cases "S < M") (auto simp: max_def split: if_splits)
next
  case False
  then show ?thesis using assms by (cases "S < M") (auto simp: max_def split: if_splits)
qed

lemma reset_state_choice:
  assumes wf: "course_wf db" and sem: "semester = None \<or> given semester" and k: "semester_of k = Some s"
    and e_def: "e = reset_state u dev semester stamp db"
    and fresh: "key_stamp db u k \<noteq> Some stamp"
  shows "choice e v k = (if v = u \<and> in_term semester s then reg_put (choice db u k) (stamp, False) else choice db v k)"
proof -
  note F = reset_state_facts [OF wf sem e_def] and T = reset_tombstone_of [OF wf sem k e_def]
  have cov: "covering (load_resets e v) (semester_of k) =
      (if v = u \<and> in_term semester s then max (covering (load_resets db v) (semester_of k)) (Some stamp) else covering (load_resets db v) (semester_of k))" for v
    unfolding k by (rule F(4))
  note ad = F(3) [OF k]
  show ?thesis
  proof (cases "v = u \<and> in_term semester s")
    case False
    then have "key_added e v k = key_added db v k" "covering (load_resets e v) (semester_of k) = covering (load_resets db v) (semester_of k)"
      using ad [of v] cov [of v] by auto
    then have "choice e v k = choice db v k" by (simp only: choice_def key_stamp_max T(1) [OF False])
    then show ?thesis unfolding if_not_P [OF False] .
  next
    case True
    then have it: "in_term semester s" and v: "v = u" by simp_all
    define A C M where "A = key_added db u k" and "C = covering (load_resets db u) (semester_of k)"
      and "M = map_option tb_deleted_at (tombstone_of db u k)"
    define A' M' where "A' = key_added e u k" and "M' = map_option tb_deleted_at (tombstone_of e u k)"
    have K: "key_stamp db u k = max A (max M C)" by (simp add: key_stamp_max A_def M_def C_def)
    have K': "key_stamp e u k = max A' (max M' (max C (Some stamp)))" using cov [of u] it by (simp add: key_stamp_max A'_def M'_def C_def)
    have a: "A' = (if A \<le> Some stamp then None else A)" using ad [of u] it by (simp add: A'_def A_def)
    have am: "A = None \<or> A = max A (max M C)"
      using course_wf_stands [OF wf, of k u] k by (simp add: stands_def choice_def K A_def)
    have keep: "M' = M" if "Some stamp < M" using T(2) [OF it] that by (cases "tombstone_of db u k") (auto simp: M_def M'_def)
    have low: "\<not> Some stamp < M \<Longrightarrow> M' = Some stamp \<or> M' = None"
    proof (cases "tombstone_of e u k")
      case (Some t)
      assume "\<not> Some stamp < M"
      then have "tombstone_of db u k = Some t \<Longrightarrow> covers u semester stamp t"
        using it k wf tombstone_ofD [of db u k t] by (auto simp: M_def covers_def course_wf_def tombs_wf_def)
      then show ?thesis using T(3) [OF Some] Some by (auto simp: M'_def)
    qed (simp add: M'_def)
    have "key_stamp e u k = (if Some stamp \<le> key_stamp db u k then key_stamp db u k else Some stamp) \<and>
        A' = (if Some stamp \<le> key_stamp db u k then A else None)"
      unfolding K' unfolding K by (rule reset_max [OF a am keep low]) (use fresh K in simp_all)
    then show ?thesis by (simp add: v it choice_def reg_put_def A'_def A_def)
  qed
qed

lemma reset_state_wf:
  assumes wf: "course_wf db" and sem: "semester = None \<or> given semester" and e_def: "e = reset_state u dev semester stamp db"
    and fresh: "\<And>k. semester_of k \<noteq> None \<Longrightarrow> key_stamp db u k \<noteq> Some stamp"
  shows "course_wf e"
proof -
  note F = reset_state_facts [OF wf sem e_def]
  have sub: "cr_id ` set (courses e) \<subseteq> cr_id ` set (courses db)" "course_seq e = course_seq db"
    by (auto simp: e_def reset_state_def reset_courses_def delete_courses_def clear_rows_def set_update_where Let_def)
  show ?thesis unfolding course_wf_def
  proof (intro conjI ballI impI)
    show "cr_id r < course_seq e" if "r \<in> set (courses e)" for r using that sub wf by (force simp: course_wf_def)
    show "Some (tb_deleted_at x) \<le> covering (load_resets e (tb_user x)) (Some (tb_semester x))" if "x \<in> set (tombstones e)" "tb_by_reset x" for x
    proof -
      have "Some (tb_deleted_at x) \<le> covering (load_resets db (tb_user x)) (Some (tb_semester x)) \<or>
          tb_user x = u \<and> in_term semester (tb_semester x) \<and> tb_deleted_at x = stamp"
        using F(6) [OF that(1)] that(2) wf by (auto simp: course_wf_def simp del: Some_le_iff)
      then show ?thesis unfolding F(4) by (auto simp: le_max_iff_disj simp del: Some_le_iff)
    qed
    show "stands (choice e (cr_user r) (cr_key r))" if k: "semester_of (cr_key r) \<noteq> None" for r
    proof -
      obtain s where s: "semester_of (cr_key r) = Some s" using k by blast
      show ?thesis unfolding reset_state_choice [OF wf sem s e_def fresh [OF k]]
        by (simp add: stands_put course_wf_stands [OF wf k])
    qed
  qed (rule F)+
qed

text \<open>A reset implements the register's edit for every key of its scope and touches no other.\<close>

lemma reset_by_stamp_refines:
  assumes wf: "course_wf db" and sem: "semester = None \<or> given semester"
    and fresh: "\<And>k. semester_of k \<noteq> None \<Longrightarrow> key_stamp db u k \<noteq> Some stamp"
    and db': "db' = snd (reset_by_stamp u dev semester stamp tnow db)"
  shows "semester_of k = Some s \<Longrightarrow> choice db' v k = (if v = u \<and> in_term semester s then reg_put (choice db u k) (stamp, False) else choice db v k)"
    and "course_wf db'"
proof -
  note S = reset_by_stamp_steps [of stamp db u semester dev tnow, folded db']
  let ?l = "lock_user u db"
  have l: "choice ?l v k = choice db v k" "course_wf ?l" "key_stamp ?l v k = key_stamp db v k" for v k
    using choice_same [OF same_tables_steps(1)] wf by (auto simp: choice_def)
  have "(\<forall>s. semester_of k = Some s \<longrightarrow> choice db' v k = (if v = u \<and> in_term semester s then reg_put (choice db u k) (stamp, False) else choice db v k)) \<and> course_wf db'"
  proof (cases "Some stamp \<le> reset_bar db u semester")
    case True
    have "Some stamp \<le> key_stamp db u k" if "semester_of k = Some s" "in_term semester s" for s
    proof -
      have "reset_bar db u semester \<le> covering (load_resets db u) (semester_of k)"
        using that sem by (auto simp: reset_bar_def in_term_def covering_max load_resets_def)
      from order.trans [OF True this] show ?thesis by (simp add: key_stamp_max le_max_iff_disj del: Some_le_iff)
    qed
    then show ?thesis using True S choice_same [of db db'] wf by (auto simp: reg_put_def choice_def simp del: Some_le_iff)
  next
    case False
    define e where "e = reset_state u dev semester stamp ?l"
    have e: "same_tables e db'" using S unfolding if_not_P [OF False] e_def .
    have fr: "semester_of k \<noteq> None \<Longrightarrow> key_stamp ?l u k \<noteq> Some stamp" for k using fresh by (simp add: l)
    have "course_wf e" by (rule reset_state_wf [OF l(2) sem e_def fr])
    moreover have "choice e v k = (if v = u \<and> in_term semester s then reg_put (choice db u k) (stamp, False) else choice db v k)" if "semester_of k = Some s" for s
      using reset_state_choice [OF l(2) sem that e_def fr, of v] that by (simp add: l)
    ultimately show ?thesis using choice_same [OF e] by simp
  qed
  then show "semester_of k = Some s \<Longrightarrow> choice db' v k = (if v = u \<and> in_term semester s then reg_put (choice db u k) (stamp, False) else choice db v k)"
    and "course_wf db'" by blast+
qed

end
