(* ===== verification/RosterRegister.thy ===== *)
theory RosterRegister
  imports CourseRegister
begin

text \<open>
  The upload of protocol 2 as edits of the membership register of the theory \<open>CourseRegister\<close>: an add is the edit with
  its stamp, and a course that is only listed by the roster leaves every choice as it is.
\<close>

section \<open>Keys\<close>

text \<open>An item whose term and number make a key that names its term.\<close>

definition item_ok :: "course_item \<Rightarrow> bool" where
  "item_ok c \<longleftrightarrow> semester_of (item_key c) = Some (it_semester c)"

lemma item_ok_iff: "item_ok c \<longleftrightarrow> it_semester c \<noteq> [] \<and> CHR '':'' \<notin> set (it_semester c) \<and> it_no c \<noteq> []"
proof -
  have t: "takeWhile (\<lambda>x. x \<noteq> CHR '':'') (s @ CHR '':'' # no) = s \<longleftrightarrow> CHR '':'' \<notin> set s" for s no
    by (induction s) auto
  have d: "CHR '':'' \<notin> set s \<Longrightarrow> dropWhile (\<lambda>x. x \<noteq> CHR '':'') (s @ CHR '':'' # no) = CHR '':'' # no" for s no
    by (induction s) auto
  show ?thesis using t [of "it_semester c" "it_no c"] d [of "it_semester c" "it_no c"]
    by (auto simp: item_ok_def item_key_def semester_of_def partition_at_def)
qed

section \<open>The plan\<close>

text \<open>What the roster rules say of one key of the upload: the stamp of an add that wins, whether the key is skipped and
  whether its tombstone is lifted.\<close>

definition add_wins :: "course_db \<Rightarrow> uuid \<Rightarrow> (string \<times> datetime) list \<Rightarrow> string \<Rightarrow> datetime option" where
  "add_wins db u adds k = (case map_of adds k of None \<Rightarrow> None | Some t \<Rightarrow> if Some t \<le> key_stamp db u k then None else Some t)"

definition key_skipped :: "course_db \<Rightarrow> uuid \<Rightarrow> (string \<times> datetime) list \<Rightarrow> string \<Rightarrow> bool" where
  "key_skipped db u adds k \<longleftrightarrow> (case map_of adds k of
     Some t \<Rightarrow> Some t \<le> key_stamp db u k
   | None \<Rightarrow> (case tombstone_of db u k of None \<Rightarrow> False | Some t \<Rightarrow> tombstone_kind t = HIDE))"

definition key_lifted :: "course_db \<Rightarrow> uuid \<Rightarrow> (string \<times> datetime) list \<Rightarrow> string \<Rightarrow> bool" where
  "key_lifted db u adds k \<longleftrightarrow> (case map_of adds k of
     Some t \<Rightarrow> \<not> Some t \<le> key_stamp db u k
   | None \<Rightarrow> (case tombstone_of db u k of None \<Rightarrow> False | Some t \<Rightarrow> tombstone_kind t = RESET))"

lemma roster_step_sets:
  assumes "item_ok c"
  shows "map_of (rp_won (roster_step db u adds c p)) k =
      (if k = item_key c \<and> add_wins db u adds k \<noteq> None then add_wins db u adds k else map_of (rp_won p) k)"
    and "set (rp_skip (roster_step db u adds c p)) = set (rp_skip p) \<union> {k. k = item_key c \<and> key_skipped db u adds k}"
    and "set (rp_lifted (roster_step db u adds c p)) = set (rp_lifted p) \<union> {k. k = item_key c \<and> key_lifted db u adds k}"
proof -
  let ?k = "item_key c"
  have st: "membership_stamp (course_of db u ?k) (tombstone_of db u ?k) (load_resets db u) (Some (it_semester c)) = key_stamp db u ?k"
    using assms by (simp add: key_stamp_def item_ok_def)
  have ap: "(case key_stamp db u ?k of None \<Rightarrow> True | Some s \<Rightarrow> s < t) \<longleftrightarrow> \<not> Some t \<le> key_stamp db u ?k" for t
    by (auto split: option.splits)
  note defs = roster_step_def Let_def st ap add_wins_def key_skipped_def key_lifted_def
  show "map_of (rp_won (roster_step db u adds c p)) k =
      (if k = ?k \<and> add_wins db u adds k \<noteq> None then add_wins db u adds k else map_of (rp_won p) k)"
    by (auto simp: defs AList.update_conv' fun_upd_def simp del: Some_le_iff split: option.splits deletion.splits)
  show "set (rp_skip (roster_step db u adds c p)) = set (rp_skip p) \<union> {k. k = ?k \<and> key_skipped db u adds k}"
    by (auto simp: defs simp del: Some_le_iff split: option.splits deletion.splits)
  show "set (rp_lifted (roster_step db u adds c p)) = set (rp_lifted p) \<union> {k. k = ?k \<and> key_lifted db u adds k}"
    by (auto simp: defs simp del: Some_le_iff split: option.splits deletion.splits)
qed

lemma roster_fold_sets:
  assumes "list_all item_ok items"
  shows "map_of (rp_won (fold (roster_step db u adds) items p)) k =
      (if k \<in> item_key ` set items \<and> add_wins db u adds k \<noteq> None then add_wins db u adds k else map_of (rp_won p) k)"
    and "set (rp_skip (fold (roster_step db u adds) items p)) = set (rp_skip p) \<union> {k \<in> item_key ` set items. key_skipped db u adds k}"
    and "set (rp_lifted (fold (roster_step db u adds) items p)) = set (rp_lifted p) \<union> {k \<in> item_key ` set items. key_lifted db u adds k}"
  using assms by (induction items arbitrary: p) (auto simp: roster_step_sets)

section \<open>The rows\<close>

definition rows_ok :: "course_db \<Rightarrow> bool" where
  "rows_ok db \<longleftrightarrow> rows_wf (courses db) \<and> (\<forall>r \<in> set (courses db). cr_id r < course_seq db)"

lemma touch_course_frame [simp]:
  "cr_id (touch_course dev arr p enrol c r) = cr_id r" "cr_user (touch_course dev arr p enrol c r) = cr_user r"
  "cr_key (touch_course dev arr p enrol c r) = cr_key r" "cr_semester (touch_course dev arr p enrol c r) = cr_semester r"
  "cr_added_at (touch_course dev arr p enrol c r) = (case map_of (added_at p) (item_key c) of Some t \<Rightarrow> Some t | None \<Rightarrow> cr_added_at r)"
  by (simp_all add: touch_course_def)

lemma new_course_frame [simp]:
  "cr_id (new_course u dev arr p c i) = i" "cr_user (new_course u dev arr p c i) = u" "cr_key (new_course u dev arr p c i) = item_key c"
  "cr_semester (new_course u dev arr p c i) = it_semester c" "cr_added_at (new_course u dev arr p c i) = map_of (added_at p) (item_key c)"
  by (simp_all add: new_course_def)

lemma rows_ok_append:
  assumes "rows_ok db" "cr_id r = course_seq db" "\<And>s. semester_of (cr_key r) = Some s \<Longrightarrow> cr_semester r = s"
    and "semester_of (cr_key r) \<noteq> None \<Longrightarrow> course_of db (cr_user r) (cr_key r) = None"
  shows "rows_ok (db\<lparr>courses := courses db @ [r], course_seq := Suc (course_seq db)\<rparr>)"
proof -
  have new: "cr_user x = cr_user r \<and> cr_key x = cr_key r \<Longrightarrow> semester_of (cr_key r) = None" if "x \<in> set (courses db)" for x
    using assms(4) that by (fastforce simp: course_of_def find_None_iff)
  have "cr_id r \<notin> cr_id ` set (courses db)" using assms(1,2) by (auto simp: rows_ok_def)
  moreover have rw: "rows_wf (courses db)" and id: "\<forall>x \<in> set (courses db). cr_id x < course_seq db" using assms(1) by (simp_all add: rows_ok_def)
  moreover have "x = y" if "x \<in> set (courses db @ [r])" "y \<in> set (courses db @ [r])" "cr_user x = cr_user y" "cr_key x = cr_key y" "semester_of (cr_key x) \<noteq> None" for x y
  proof (cases "x = r \<or> y = r")
    case True
    then show ?thesis using that new [of x] new [of y] by auto
  next
    case False
    then show ?thesis using that rw by (auto simp: rows_wf_def)
  qed
  moreover have "cr_semester x = s" if "x \<in> set (courses db @ [r])" "semester_of (cr_key x) = Some s" for x s
    using that assms(3) rw by (auto simp: rows_wf_def)
  ultimately have "rows_wf (courses db @ [r])" unfolding rows_wf_def by (intro conjI ballI allI impI) auto
  then show ?thesis using id assms(2) by (auto simp: rows_ok_def)
qed

lemma upsert_course_effect:
  assumes ok: "rows_ok db" and c: "item_ok c" and db': "db' = upsert_course u dev arr p enrol c db"
  shows "rows_ok db'" "tombstones db' = tombstones db" "load_resets db' = load_resets db"
    and "semester_of k \<noteq> None \<Longrightarrow> key_added db' v k = (if v = u \<and> k = item_key c \<and> k \<notin> set (skip_keys p)
      then (case map_of (added_at p) k of Some t \<Rightarrow> Some t | None \<Rightarrow> key_added db v k) else key_added db v k)"
proof -
  let ?k = "item_key c" and ?f = "touch_course dev arr p enrol c"
  let ?same = "\<lambda>r. cr_user r = u \<and> cr_semester r = it_semester c \<and> cr_key r = ?k"
  show "tombstones db' = tombstones db" by (simp add: db' upsert_course_def Let_def)
  show "load_resets db' = load_resets db" by (simp add: db' upsert_course_def Let_def fun_eq_iff load_resets_def term_reset_def)
  have rw: "rows_wf (courses db)" using ok by (simp add: rows_ok_def)
  have k: "semester_of ?k = Some (it_semester c)" using c by (simp add: item_ok_def)
  have sm: "?same r \<longleftrightarrow> cr_user r = u \<and> cr_key r = ?k" if "r \<in> set (courses db)" for r
    using that rw k by (auto simp: rows_wf_def)
  have has: "(\<exists>r \<in> set (courses db). ?same r) \<longleftrightarrow> course_of db u ?k \<noteq> None"
    using sm by (auto simp: course_of_def find_None_iff)
  consider (skip) "?k \<in> set (skip_keys p)" | (touch) r where "?k \<notin> set (skip_keys p)" "course_of db u ?k = Some r"
    | (add) "?k \<notin> set (skip_keys p)" "course_of db u ?k = None" by blast
  then have "rows_ok db' \<and> (semester_of k \<noteq> None \<longrightarrow> key_added db' v k = (if v = u \<and> k = item_key c \<and> k \<notin> set (skip_keys p)
      then (case map_of (added_at p) k of Some t \<Rightarrow> Some t | None \<Rightarrow> key_added db v k) else key_added db v k))"
  proof cases
    case skip
    then show ?thesis using ok by (auto simp: db' upsert_course_def)
  next
    case touch
    then have d: "db' = db\<lparr>courses := update_where ?same ?f (courses db)\<rparr>" using has by (simp add: db' upsert_course_def Let_def)
    have "\<forall>r \<in> set (courses db'). cr_id r < course_seq db'" using ok by (auto simp: d set_update_where rows_ok_def)
    then have "rows_ok db'" using rows_wf_update [OF rw, of ?f ?same] by (simp add: rows_ok_def d)
    moreover have "course_of db' v k = map_option (\<lambda>r. if ?same r then ?f r else r) (course_of db v k)"
      by (rule course_of_update) (simp_all add: d)
    moreover have "?same r \<longleftrightarrow> v = u \<and> k = ?k" if "course_of db v k = Some r" for r
      using course_ofD [OF that] sm by auto
    ultimately show ?thesis using touch by (cases "course_of db v k") (auto simp: key_added_def split: option.splits)
  next
    case add
    then have d: "db' = db\<lparr>courses := courses db @ [new_course u dev arr p c (course_seq db)], course_seq := Suc (course_seq db)\<rparr>"
      using has by (auto simp: db' upsert_course_def Let_def)
    have "rows_ok db'" unfolding d by (rule rows_ok_append [OF ok]) (use k add in simp_all)
    moreover have "course_of db' v k = (case course_of db v k of None \<Rightarrow>
        if v = u \<and> k = ?k then Some (new_course u dev arr p c (course_seq db)) else None | Some r \<Rightarrow> Some r)"
      by (auto simp: d course_of_def find_append split: option.splits)
    ultimately show ?thesis using add by (auto simp: key_added_def split: option.splits)
  qed
  then show "rows_ok db'" "semester_of k \<noteq> None \<Longrightarrow> key_added db' v k = (if v = u \<and> k = item_key c \<and> k \<notin> set (skip_keys p)
      then (case map_of (added_at p) k of Some t \<Rightarrow> Some t | None \<Rightarrow> key_added db v k) else key_added db v k)" by blast+
qed

lemma upsert_courses_effect:
  assumes "rows_ok db" "list_all item_ok items"
  shows "rows_ok (fold (upsert_course u dev arr p enrol) items db) \<and>
    tombstones (fold (upsert_course u dev arr p enrol) items db) = tombstones db \<and>
    load_resets (fold (upsert_course u dev arr p enrol) items db) = load_resets db \<and>
    (semester_of k \<noteq> None \<longrightarrow> key_added (fold (upsert_course u dev arr p enrol) items db) v k =
      (if v = u \<and> k \<in> item_key ` set items \<and> k \<notin> set (skip_keys p)
       then (case map_of (added_at p) k of Some t \<Rightarrow> Some t | None \<Rightarrow> key_added db v k) else key_added db v k))"
  using assms
proof (induction items arbitrary: db)
  case (Cons c items)
  then have c: "item_ok c" and items: "list_all item_ok items" by simp_all
  note E = upsert_course_effect [OF Cons.prems(1) c refl, where u = u and dev = dev and arr = arr and p = p and enrol = enrol]
  show ?case using Cons.IH [OF E(1) items] E(2,3) E(4) [of k, where v = v] by (auto split: option.splits)
qed simp

lemma drop_course_frame [simp]:
  "cr_id (drop_course dev r) = cr_id r" "cr_user (drop_course dev r) = cr_user r" "cr_key (drop_course dev r) = cr_key r"
  "cr_semester (drop_course dev r) = cr_semester r" "cr_added_at (drop_course dev r) = cr_added_at r"
  by (simp_all add: drop_course_def)

lemma key_added_drop:
  assumes "courses db' = update_where P (drop_course dev) (courses db)"
  shows "key_added db' v k = key_added db v k"
proof -
  have "course_of db' v k = map_option (\<lambda>r. if P r then drop_course dev r else r) (course_of db v k)"
    by (rule course_of_update [OF _ assms]) simp
  then show ?thesis by (cases "course_of db v k") (simp_all add: key_added_def)
qed

lemma write_courses_effect:
  assumes ok: "rows_ok db" and items: "list_all item_ok (up_courses req)"
    and w: "write_courses u dev sc arr req p before db = (uploaded, new_keys, db')"
  shows "rows_ok db'" "tombstones db' = tombstones db" "load_resets db' = load_resets db"
    and "semester_of k \<noteq> None \<Longrightarrow> key_added db' v k = (if v = u \<and> k \<in> set (payload_keys req) \<and> k \<notin> set (skip_keys p)
      then (case map_of (added_at p) k of Some t \<Rightarrow> Some t | None \<Rightarrow> key_added db v k) else key_added db v k)"
proof -
  obtain enrol P R where db': "db' = (fold (upsert_course u dev arr p enrol) (up_courses req) db)
      \<lparr>courses := update_where P (drop_course dev) (courses (fold (upsert_course u dev arr p enrol) (up_courses req) db)), rosters := R\<rparr>"
    using w unfolding write_courses_def Let_def by (simp only: prod.inject) blast
  define e where "e = fold (upsert_course u dev arr p enrol) (up_courses req) db"
  have d: "courses db' = update_where P (drop_course dev) (courses e)" "course_seq db' = course_seq e" "tombstones db' = tombstones e"
    "semester_resets db' = semester_resets e" "courses_reset_at db' = courses_reset_at e"
    by (simp_all add: db' e_def)
  note E = upsert_courses_effect [OF ok items, where u = u and dev = dev and arr = arr and p = p and enrol = enrol and v = v and k = k, folded e_def]
  then have "rows_wf (courses e)" "\<forall>r \<in> set (courses e). cr_id r < course_seq e" by (simp_all add: rows_ok_def)
  then show "rows_ok db'" unfolding rows_ok_def d using rows_wf_update [of "courses e" "drop_course dev" P] by (auto simp: set_update_where)
  show "tombstones db' = tombstones db" using E d(3) by simp
  have "load_resets db' = load_resets e" by (simp add: fun_eq_iff load_resets_def term_reset_def d(4,5))
  then show "load_resets db' = load_resets db" using E by simp
  show "semester_of k \<noteq> None \<Longrightarrow> key_added db' v k = (if v = u \<and> k \<in> set (payload_keys req) \<and> k \<notin> set (skip_keys p)
      then (case map_of (added_at p) k of Some t \<Rightarrow> Some t | None \<Rightarrow> key_added db v k) else key_added db v k)"
    using E by (simp add: key_added_drop [OF d(1)] payload_keys_def)
qed

section \<open>The upload\<close>

lemma fill_color_same: "same_tables db (snd (fill_color u dev arr existing item (n, db)))"
  by (auto simp: fill_color_def same_tables_def ensure_override_def modify_override_def Let_def split: prod.splits option.splits)

lemma fill_colors_same: "same_tables db (snd (fold (fill_color u dev arr existing) items (n, db)))"
proof (induction items arbitrary: n db)
  case (Cons i items)
  obtain m d where d: "fill_color u dev arr existing i (n, db) = (m, d)" by fastforce
  then show ?case using same_tables_trans [OF fill_color_same [of db u dev arr existing i n] ] Cons.IH [where n = m and db = d] by simp
qed simp

text \<open>An upload of protocol 2 is refused before it writes anything, or plans and writes the courses; the rest touches no
  membership.\<close>

lemma upload_courses_steps:
  assumes ok: "fst (upload_courses u dev True arr tnow req db) = Inr ans"
  obtains adds p d1 uploaded new_keys d2 where "read_adds arr (up_adds req) [] = Inr adds" "add_key ` set (up_adds req) \<subseteq> set (payload_keys req)"
    "clock_plan u req adds (lock_user u db) = (p, d1)" "write_courses u dev True arr req p (lock_user u db) d1 = (uploaded, new_keys, d2)"
    "same_tables d2 (snd (upload_courses u dev True arr tnow req db))"
proof -
  have sub: "add_key ` set (up_adds req) \<subseteq> set (payload_keys req)" using ok by (auto simp: upload_courses_def split: if_splits)
  obtain adds where adds: "read_adds arr (up_adds req) [] = Inr adds"
    using ok sub by (cases "read_adds arr (up_adds req) []") (auto simp: upload_courses_def)
  obtain p d1 where p: "clock_plan u req adds (lock_user u db) = (p, d1)" by fastforce
  obtain uploaded new_keys d2 where w: "write_courses u dev True arr req p (lock_user u db) d1 = (uploaded, new_keys, d2)" by (metis prod_cases3)
  have "\<exists>ch ex items. snd (upload_courses u dev True arr tnow req db) =
     (let d4 = snd (fold (fill_color u dev arr ex) items (0, if new_keys = [] then d2 else queue_sync_trigger u dev tnow (fold (log_course u dev tnow) ch d2)));
          d5 = push_back_sync_jobs u NtustCourses CLIENT_SYNC_PUSHBACK_SECONDS tnow d4
      in case dev of Some d \<Rightarrow> if \<exists>x \<in> set (devices (queue d5)). pv_id x = d then d5\<lparr>device_seen := (device_seen d5)(d := Some tnow)\<rparr> else d5 | None \<Rightarrow> d5)"
    unfolding upload_courses_def using sub
    by (simp only: simp_thms if_True if_False adds sum.case Let_def p w split_beta fst_conv snd_conv) (intro exI, rule refl)
  then obtain ch ex items where E: "snd (upload_courses u dev True arr tnow req db) =
     (let d4 = snd (fold (fill_color u dev arr ex) items (0, if new_keys = [] then d2 else queue_sync_trigger u dev tnow (fold (log_course u dev tnow) ch d2)));
          d5 = push_back_sync_jobs u NtustCourses CLIENT_SYNC_PUSHBACK_SECONDS tnow d4
      in case dev of Some d \<Rightarrow> if \<exists>x \<in> set (devices (queue d5)). pv_id x = d then d5\<lparr>device_seen := (device_seen d5)(d := Some tnow)\<rparr> else d5 | None \<Rightarrow> d5)"
    by blast
  define d3 where "d3 = (if new_keys = [] then d2 else queue_sync_trigger u dev tnow (fold (log_course u dev tnow) ch d2))"
  define d4 where "d4 = snd (fold (fill_color u dev arr ex) items (0, d3))"
  define d5 where "d5 = push_back_sync_jobs u NtustCourses CLIENT_SYNC_PUSHBACK_SECONDS tnow d4"
  define d6 where "d6 = (case dev of Some d \<Rightarrow> if \<exists>x \<in> set (devices (queue d5)). pv_id x = d then d5\<lparr>device_seen := (device_seen d5)(d := Some tnow)\<rparr> else d5 | None \<Rightarrow> d5)"
  have "same_tables d2 d3" by (simp add: d3_def same_tables_logged)
  moreover have "same_tables d3 d4" unfolding d4_def by (rule fill_colors_same)
  moreover have "same_tables d4 d5" by (simp add: d5_def push_back_sync_jobs_def same_tables_def)
  moreover have "same_tables d5 d6" by (simp add: d6_def same_tables_def split: option.split)
  ultimately have "same_tables d2 d6" using same_tables_trans by blast
  moreover have "snd (upload_courses u dev True arr tnow req db) = d6" unfolding E Let_def d6_def d5_def d4_def d3_def by (rule refl)
  ultimately have "same_tables d2 (snd (upload_courses u dev True arr tnow req db))" by simp
  then show ?thesis using that adds sub p w by blast
qed

lemma clock_plan_effect:
  assumes items: "list_all item_ok (up_courses req)" and p: "clock_plan u req adds db = (p, d)"
  shows "map_of (added_at p) k = (if k \<in> set (payload_keys req) then add_wins db u adds k else None)"
    and "k \<in> set (skip_keys p) \<longleftrightarrow> k \<in> set (payload_keys req) \<and> key_skipped db u adds k"
    and "d = drop_tombstones u (\<lambda>t. tb_key t \<in> {k \<in> set (payload_keys req). key_lifted db u adds k}) db"
  using p roster_fold_sets [OF items] by (auto simp: clock_plan_def roster_by_stamp_def Let_def payload_keys_def)

text \<open>The upload's edit of one key.\<close>

definition upload_put :: "upload_request \<Rightarrow> (string \<times> datetime) list \<Rightarrow> string \<Rightarrow> datetime option \<times> datetime option \<Rightarrow> datetime option \<times> datetime option" where
  "upload_put req adds k c = (case map_of adds k of None \<Rightarrow> c | Some t \<Rightarrow> reg_put c (t, True))"

lemma upload_choice:
  assumes wf: "course_wf db" and items: "list_all item_ok (up_courses req)" and k: "semester_of k = Some s"
    and sub: "fst ` set adds \<subseteq> set (payload_keys req)"
    and p: "clock_plan u req adds db = (p, d1)" and w: "write_courses u dev True arr req p before d1 = (uploaded, new_keys, d2)"
  shows "choice d2 v k = (if v = u then upload_put req adds k (choice db u k) else choice db v k)"
proof -
  note C = clock_plan_effect [OF items p]
  have d1: "courses d1 = courses db" "course_seq d1 = course_seq db" "load_resets d1 = load_resets db" "key_added d1 = key_added db"
    and td: "tombstones d1 = filter (\<lambda>t. \<not> (tb_user t = u \<and> tb_key t \<in> {k \<in> set (payload_keys req). key_lifted db u adds k})) (tombstones db)"
    by (simp_all add: C(3) drop_tombstones_def fun_eq_iff load_resets_def term_reset_def key_added_def course_of_def)
  have "rows_ok d1" using wf by (simp add: rows_ok_def course_wf_def d1)
  note W = write_courses_effect [OF this items w]
  have k': "semester_of k \<noteq> None" using k by simp
  have tw: "tombs_wf (tombstones db)" using wf by (simp add: course_wf_def)
  have "tombstone_of d2 v k = tombstone_of d1 v k" by (simp add: tombstone_of_def W(2))
  also have "\<dots> = (if v = u \<and> k \<in> set (payload_keys req) \<and> key_lifted db u adds k then None else tombstone_of db v k)"
    using tombstone_of_filter [OF tw k' td, of v] tombstone_ofD [of db v k] by (cases "tombstone_of db v k") auto
  finally have M: "tombstone_of d2 v k = (if v = u \<and> k \<in> set (payload_keys req) \<and> key_lifted db u adds k then None else tombstone_of db v k)" .
  have A: "key_added d2 v k = (if v = u \<and> k \<in> set (payload_keys req) \<and> \<not> key_skipped db u adds k
      then (case add_wins db u adds k of Some t \<Rightarrow> Some t | None \<Rightarrow> key_added db v k) else key_added db v k)"
    using W(4) [OF k', where v = v, unfolded d1(4) C(1,2)] by auto
  have R: "load_resets d2 = load_resets db" by (simp add: W(3) d1)
  show ?thesis
  proof (cases "v = u \<and> k \<in> set (payload_keys req)")
    case False
    then have "v = u \<Longrightarrow> map_of adds k = None" using sub by (metis map_of_eq_None_iff subsetD)
    then show ?thesis using False by (auto simp: choice_def key_stamp_max M A R upload_put_def)
  next
    case True
    then have v: "v = u" and kp: "k \<in> set (payload_keys req)" by simp_all
    show ?thesis
    proof (cases "map_of adds k")
      case None
      have low: "Some (tb_deleted_at t) \<le> covering (load_resets db u) (semester_of k)" if "tombstone_of db u k = Some t" "tombstone_kind t = RESET" for t
      proof -
        have t: "t \<in> set (tombstones db)" "tb_user t = u" "tb_key t = k" using tombstone_ofD [OF that(1)] by auto
        moreover have "tb_semester t = s" using tw t k by (auto simp: tombs_wf_def)
        moreover have "tb_by_reset t" using that(2) by (auto simp: tombstone_kind_def split: if_splits)
        ultimately show ?thesis using wf k by (auto simp: course_wf_def simp del: Some_le_iff)
      qed
      have "key_added d2 u k = key_added db u k" using A by (simp add: v add_wins_def None)
      moreover have "key_stamp d2 u k = key_stamp db u k"
        using M low by (auto simp: key_stamp_max calculation R v kp key_lifted_def None max.absorb2 simp del: Some_le_iff split: option.splits)
      ultimately show ?thesis by (simp add: v choice_def upload_put_def None)
    next
      case (Some t)
      show ?thesis
      proof (cases "Some t \<le> key_stamp db u k")
        case True
        then show ?thesis using M A by (simp add: v choice_def key_stamp_max R upload_put_def Some reg_put_def key_skipped_def key_lifted_def del: Some_le_iff)
      next
        case False
        have cov: "covering (load_resets db u) (semester_of k) \<le> Some t"
          using False by (simp add: key_stamp_max not_le less_imp_le del: Some_le_iff)
        have "key_added d2 u k = Some t" using A False by (simp add: v kp Some add_wins_def key_skipped_def del: Some_le_iff)
        moreover have "tombstone_of d2 u k = None" using M False by (simp add: v kp Some key_lifted_def del: Some_le_iff)
        ultimately have "choice d2 u k = (Some t, Some t)" using cov by (simp add: choice_def key_stamp_max R max.absorb1 del: Some_le_iff)
        then show ?thesis using False by (simp add: v upload_put_def Some reg_put_def choice_def del: Some_le_iff)
      qed
    qed
  qed
qed

lemma upload_wf:
  assumes wf: "course_wf db" and items: "list_all item_ok (up_courses req)" and sub: "fst ` set adds \<subseteq> set (payload_keys req)"
    and p: "clock_plan u req adds db = (p, d1)" and w: "write_courses u dev True arr req p before d1 = (uploaded, new_keys, d2)"
  shows "course_wf d2"
proof -
  note C = clock_plan_effect [OF items p]
  have d1: "courses d1 = courses db" "course_seq d1 = course_seq db" "load_resets d1 = load_resets db"
    by (simp_all add: C(3) drop_tombstones_def fun_eq_iff load_resets_def term_reset_def)
  obtain Q where td: "tombstones d1 = filter Q (tombstones db)" by (simp add: C(3) drop_tombstones_def)
  have "rows_ok d1" using wf by (simp add: rows_ok_def course_wf_def d1)
  note W = write_courses_effect [OF this items w]
  show ?thesis unfolding course_wf_def
  proof (intro conjI ballI impI)
    show "rows_wf (courses d2)" using W(1) by (simp add: rows_ok_def)
    show "cr_id r < course_seq d2" if "r \<in> set (courses d2)" for r using W(1) that by (simp add: rows_ok_def)
    show "tombs_wf (tombstones d2)" using wf by (simp add: W(2) td tombs_wf_filter course_wf_def)
    show "Some (tb_deleted_at t) \<le> covering (load_resets d2 (tb_user t)) (Some (tb_semester t))" if "t \<in> set (tombstones d2)" "tb_by_reset t" for t
      using wf that by (simp add: W(2,3) d1(3) td course_wf_def del: Some_le_iff)
    show "stands (choice d2 (cr_user r) (cr_key r))" if k: "semester_of (cr_key r) \<noteq> None" for r
    proof -
      obtain s where s: "semester_of (cr_key r) = Some s" using k by blast
      show ?thesis unfolding upload_choice [OF wf items s sub p w] upload_put_def
        using course_wf_stands [OF wf k] stands_put by (simp split: option.split)
    qed
  qed
qed

lemma read_adds_keys: "read_adds arr as acc = Inr adds \<Longrightarrow> fst ` set adds \<subseteq> fst ` set acc \<union> add_key ` set as"
proof (induction as arbitrary: acc)
  case (Cons a as)
  then obtain t where "read_adds arr as (AList.update (add_key a) t acc) = Inr adds" by (auto split: sum.splits)
  from Cons.IH [OF this] show ?case by (auto simp: AList.dom_update)
qed simp

text \<open>The adds an upload brings: none when it is refused.\<close>

definition upload_adds :: "datetime \<Rightarrow> upload_request \<Rightarrow> (string \<times> datetime) list" where
  "upload_adds arr req = (if add_key ` set (up_adds req) \<subseteq> set (payload_keys req)
     then (case read_adds arr (up_adds req) [] of Inl _ \<Rightarrow> [] | Inr adds \<Rightarrow> adds) else [])"

lemma upload_courses_refines:
  assumes wf: "course_wf db" and items: "list_all item_ok (up_courses req)"
    and db': "db' = snd (upload_courses u dev True arr tnow req db)"
  shows "semester_of k = Some s \<Longrightarrow> choice db' v k = (if v = u then upload_put req (upload_adds arr req) k (choice db u k) else choice db v k)"
    and "course_wf db'"
proof -
  have "(semester_of k = Some s \<longrightarrow> choice db' v k = (if v = u then upload_put req (upload_adds arr req) k (choice db u k) else choice db v k)) \<and> course_wf db'"
  proof (cases "fst (upload_courses u dev True arr tnow req db)")
    case (Inl e)
    then have "upload_adds arr req = [] \<and> db' = db"
      by (auto simp: db' upload_courses_def upload_adds_def Let_def split: if_splits sum.splits prod.splits)
    then show ?thesis using wf by (simp add: upload_put_def)
  next
    case (Inr ans)
    let ?l = "lock_user u db"
    have l: "choice ?l = choice db" "course_wf ?l" using choice_same [OF same_tables_steps(1)] wf by (simp_all add: fun_eq_iff)
    obtain adds p d1 uploaded new_keys d2 where A: "read_adds arr (up_adds req) [] = Inr adds" "add_key ` set (up_adds req) \<subseteq> set (payload_keys req)"
      and p: "clock_plan u req adds ?l = (p, d1)" and w: "write_courses u dev True arr req p ?l d1 = (uploaded, new_keys, d2)"
      and st: "same_tables d2 db'" by (rule upload_courses_steps [OF Inr]) (unfold db')
    have sub: "fst ` set adds \<subseteq> set (payload_keys req)" using read_adds_keys [OF A(1)] A(2) by simp
    have ua: "upload_adds arr req = adds" by (simp add: upload_adds_def A)
    show ?thesis using upload_choice [OF l(2) items _ sub p w] upload_wf [OF l(2) items sub p w] choice_same [OF st]
      by (simp add: l(1) ua)
  qed
  then show "semester_of k = Some s \<Longrightarrow> choice db' v k = (if v = u then upload_put req (upload_adds arr req) k (choice db u k) else choice db v k)"
    and "course_wf db'" by blast+
qed

end
