(* ===== verification/CourseChoices.thy ===== *)
theory CourseChoices
  imports RosterRegister "HOL-Library.Multiset"
begin

text \<open>
  The endpoints that edit a user's courses under protocol 2, run in any order: \<open>delete_course\<close>, \<open>delete_all_courses\<close>
  and \<open>upload_courses\<close>. Each refines the edits \<open>edit_puts\<close> of the membership register (theories \<open>CourseRegister\<close> and \<open>RosterRegister\<close>),
  so the facts of \<open>lww_register\<close> carry over to the whole handlers: the devices' edits give the same courses in every order of arrival,
  and per course the latest choice stands.
\<close>

section \<open>Edits\<close>

datatype membership_edit =
  DeleteCourse string "deletion option" "int option" "int option"
| ResetCourses "string option" "int option" "int option"
| UploadCourses upload_request

record membership_request =
  mr_device :: "uuid option"
  mr_arrival :: datetime
  mr_now :: datetime
  mr_edit :: membership_edit

definition run_request :: "uuid \<Rightarrow> membership_request \<Rightarrow> course_db \<Rightarrow> course_db" where
  "run_request u q db = (case mr_edit q of
     DeleteCourse key kind hlc age \<Rightarrow> snd (delete_course u (mr_device q) key True (mr_arrival q) (mr_now q) hlc kind age db)
   | ResetCourses semester hlc age \<Rightarrow> snd (delete_all_courses u (mr_device q) semester True (mr_arrival q) (mr_now q) hlc age db)
   | UploadCourses req \<Rightarrow> snd (upload_courses u (mr_device q) True (mr_arrival q) (mr_now q) req db))"

definition run_requests :: "uuid \<Rightarrow> membership_request list \<Rightarrow> course_db \<Rightarrow> course_db" where
  "run_requests u = fold (run_request u)"

text \<open>The stamp of a delete or a reset; none when it is refused.\<close>

definition edit_stamp :: "int option \<Rightarrow> datetime \<Rightarrow> int option \<Rightarrow> datetime option" where
  "edit_stamp hlc arr age = (case require_stamp True hlc age of Inl _ \<Rightarrow> None | Inr _ \<Rightarrow>
     (case edit_time hlc arr age of Inl _ \<Rightarrow> None | Inr t \<Rightarrow> Some t))"

definition request_stamps :: "membership_request \<Rightarrow> datetime list" where
  "request_stamps q = (case mr_edit q of
     DeleteCourse key kind hlc age \<Rightarrow> (case edit_stamp hlc (mr_arrival q) age of None \<Rightarrow> [] | Some t \<Rightarrow> [t])
   | ResetCourses semester hlc age \<Rightarrow> (case edit_stamp hlc (mr_arrival q) age of None \<Rightarrow> [] | Some t \<Rightarrow> [t])
   | UploadCourses req \<Rightarrow> remdups (map snd (upload_adds (mr_arrival q) req)))"

text \<open>What a request asks of one key: a choice with its stamp, True for an add.\<close>

definition edit_puts :: "string \<Rightarrow> membership_request \<Rightarrow> (datetime \<times> bool) list" where
  "edit_puts k q = (case mr_edit q of
     DeleteCourse key kind hlc age \<Rightarrow> if k = key then (case edit_stamp hlc (mr_arrival q) age of None \<Rightarrow> [] | Some t \<Rightarrow> [(t, False)]) else []
   | ResetCourses semester hlc age \<Rightarrow> if in_term semester (the (semester_of k))
       then (case edit_stamp hlc (mr_arrival q) age of None \<Rightarrow> [] | Some t \<Rightarrow> [(t, False)]) else []
   | UploadCourses req \<Rightarrow> (case map_of (upload_adds (mr_arrival q) req) k of None \<Rightarrow> [] | Some t \<Rightarrow> [(t, True)]))"

text \<open>The requests considered: course keys name their term, and a reset names a term or none at all.\<close>

definition request_ok :: "membership_request \<Rightarrow> bool" where
  "request_ok q = (case mr_edit q of
     DeleteCourse key kind hlc age \<Rightarrow> semester_of key \<noteq> None
   | ResetCourses semester hlc age \<Rightarrow> semester = None \<or> given semester
   | UploadCourses req \<Rightarrow> list_all item_ok (up_courses req))"

lemma edit_puts_stamps: "map fst (edit_puts k q) = [] \<or> (\<exists>t \<in> set (request_stamps q). map fst (edit_puts k q) = [t])"
  by (auto simp: edit_puts_def request_stamps_def split: membership_edit.splits option.splits dest!: map_of_SomeD) force

lemma edit_stampD: "edit_stamp hlc arr age = Some t \<Longrightarrow> edit_time hlc arr age = Inr t \<and> (hlc \<noteq> None \<or> age \<noteq> None)"
  by (auto simp: edit_stamp_def require_stamp_def split: sum.splits if_splits)

text \<open>One request: the register's edits of every key of the user, nothing of another user's, a well-formed database.\<close>

lemma run_request_refines:
  assumes wf: "course_wf db" and ok: "request_ok q"
    and fresh: "\<And>k t. semester_of k \<noteq> None \<Longrightarrow> t \<in> set (request_stamps q) \<Longrightarrow> key_stamp db u k \<noteq> Some t"
  shows "semester_of k \<noteq> None \<Longrightarrow> choice (run_request u q db) v k = (if v = u then choice_lww.puts (edit_puts k q) (choice db u k) else choice db v k)"
    and "course_wf (run_request u q db)"
proof -
  have "(\<forall>s. semester_of k = Some s \<longrightarrow> choice (run_request u q db) v k = (if v = u then choice_lww.puts (edit_puts k q) (choice db u k) else choice db v k)) \<and>
    course_wf (run_request u q db)"
  proof (cases "mr_edit q")
    case (DeleteCourse key kind hlc age)
    obtain s where s: "semester_of key = Some s" using ok by (auto simp: request_ok_def DeleteCourse)
    show ?thesis
    proof (cases "edit_stamp hlc (mr_arrival q) age")
      case None
      then have "run_request u q db = db"
        by (auto simp: run_request_def DeleteCourse delete_course_def edit_stamp_def split: sum.splits)
      then show ?thesis using wf by (simp add: edit_puts_def DeleteCourse None)
    next
      case (Some t)
      have db': "run_request u q db = snd (delete_course u (mr_device q) key True (mr_arrival q) (mr_now q) hlc kind age db)"
        by (simp add: run_request_def DeleteCourse)
      note R = delete_course_refines [OF wf s _ _ db'] edit_stampD [OF Some]
      show ?thesis using R by (auto simp: edit_puts_def DeleteCourse Some)
    qed
  next
    case (ResetCourses semester hlc age)
    show ?thesis
    proof (cases "edit_stamp hlc (mr_arrival q) age")
      case None
      then have "run_request u q db = db"
        by (auto simp: run_request_def ResetCourses delete_all_courses_def edit_stamp_def split: sum.splits)
      then show ?thesis using wf by (simp add: edit_puts_def ResetCourses None)
    next
      case (Some t)
      have db': "run_request u q db = snd (reset_by_stamp u (mr_device q) semester t (mr_now q) db)"
        using edit_stampD [OF Some] by (auto simp: run_request_def ResetCourses delete_all_courses_def require_stamp_def)
      have sem: "semester = None \<or> given semester" using ok by (simp add: request_ok_def ResetCourses)
      have fr: "semester_of k \<noteq> None \<Longrightarrow> key_stamp db u k \<noteq> Some t" for k using fresh by (simp add: request_stamps_def ResetCourses Some)
      show ?thesis using reset_by_stamp_refines [OF wf sem fr db'] by (simp add: edit_puts_def ResetCourses Some)
    qed
  next
    case (UploadCourses req)
    have db': "run_request u q db = snd (upload_courses u (mr_device q) True (mr_arrival q) (mr_now q) req db)"
      by (simp add: run_request_def UploadCourses)
    have "list_all item_ok (up_courses req)" using ok by (simp add: request_ok_def UploadCourses)
    from upload_courses_refines [OF wf this db'] show ?thesis by (simp add: edit_puts_def UploadCourses upload_put_def split: option.split)
  qed
  then show "semester_of k \<noteq> None \<Longrightarrow> choice (run_request u q db) v k = (if v = u then choice_lww.puts (edit_puts k q) (choice db u k) else choice db v k)"
    and "course_wf (run_request u q db)" by auto
qed

section \<open>Sequences of requests\<close>

lemma puts_append: "choice_lww.puts (es @ es') c = choice_lww.puts es' (choice_lww.puts es c)"
  by (simp add: choice_lww.puts_def)

lemma observe_choice [simp]: "choice_lww.observe c = c"
  by (simp add: choice_lww.observe_def)

lemma puts_stamp: "fst (choice_lww.puts es c) = fst c \<or> fst (choice_lww.puts es c) \<in> Some ` fst ` set es"
  by (induction es arbitrary: c) (force simp: reg_put_def simp del: Some_le_iff)+

lemma edit_puts_subset: "fst ` set (edit_puts k q) \<subseteq> set (request_stamps q)"
  using edit_puts_stamps [of k q] by (auto simp: map_eq_Cons_conv)

lemma edit_puts_distinct:
  "distinct (concat (map request_stamps qs)) \<Longrightarrow> distinct (map fst (concat (map (edit_puts k) qs)))"
proof (induction qs)
  case (Cons q qs)
  have "set (map fst (concat (map (edit_puts k) qs))) \<subseteq> set (concat (map request_stamps qs))" using edit_puts_subset by fastforce
  moreover have "set (map fst (edit_puts k q)) \<subseteq> set (request_stamps q)" using edit_puts_subset by simp
  moreover have "distinct (map fst (edit_puts k q))" using edit_puts_stamps [of k q] by auto
  ultimately show ?case using Cons by (simp add: distinct_append) blast
qed simp

text \<open>No stamp of the requests is stored yet.\<close>

definition unused_stamps :: "course_db \<Rightarrow> uuid \<Rightarrow> membership_request list \<Rightarrow> bool" where
  "unused_stamps db u qs \<longleftrightarrow> (\<forall>k. semester_of k \<noteq> None \<longrightarrow> key_stamp db u k \<notin> Some ` set (concat (map request_stamps qs)))"

lemma run_requests_refines:
  assumes "course_wf db" "list_all request_ok qs" "distinct (concat (map request_stamps qs))" "unused_stamps db u qs"
  shows "(semester_of k \<noteq> None \<longrightarrow> choice (run_requests u qs db) v k =
      (if v = u then choice_lww.puts (concat (map (edit_puts k) qs)) (choice db u k) else choice db v k)) \<and> course_wf (run_requests u qs db)"
  using assms
proof (induction qs arbitrary: db)
  case Nil
  then show ?case by (simp add: run_requests_def)
next
  case (Cons q qs)
  let ?d = "run_request u q db"
  have ok: "request_ok q" using Cons.prems(2) by simp
  have fresh: "semester_of k \<noteq> None \<Longrightarrow> t \<in> set (request_stamps q) \<Longrightarrow> key_stamp db u k \<noteq> Some t" for k t
    using Cons.prems(4) by (auto simp: unused_stamps_def)
  have R1: "semester_of k \<noteq> None \<Longrightarrow> choice ?d v k = (if v = u then choice_lww.puts (edit_puts k q) (choice db u k) else choice db v k)" for v k
    by (rule run_request_refines(1) [OF Cons.prems(1) ok]) (simp_all add: fresh)
  have R2: "course_wf ?d" by (rule run_request_refines(2) [OF Cons.prems(1) ok]) (simp add: fresh)
  have "unused_stamps ?d u qs"
    unfolding unused_stamps_def
  proof (intro allI impI)
    fix k :: string assume k: "semester_of k \<noteq> None"
    have "key_stamp ?d u k = fst (choice_lww.puts (edit_puts k q) (choice db u k))"
      using arg_cong [OF R1 [OF k, where v = u], of fst] by (simp add: choice_def)
    then have "key_stamp ?d u k = key_stamp db u k \<or> key_stamp ?d u k \<in> Some ` set (request_stamps q)"
      using puts_stamp [of "edit_puts k q" "choice db u k"] edit_puts_subset [of k q] by (auto simp: choice_def)
    moreover have "key_stamp db u k \<notin> Some ` set (concat (map request_stamps (q # qs)))"
      using Cons.prems(4) k by (simp add: unused_stamps_def del: concat.simps)
    moreover have "set (request_stamps q) \<inter> set (concat (map request_stamps qs)) = {}" using Cons.prems(3) by simp
    ultimately show "key_stamp ?d u k \<notin> Some ` set (concat (map request_stamps qs))" by auto
  qed
  then have "(semester_of k \<noteq> None \<longrightarrow> choice (run_requests u qs ?d) v k =
      (if v = u then choice_lww.puts (concat (map (edit_puts k) qs)) (choice ?d u k) else choice ?d v k)) \<and> course_wf (run_requests u qs ?d)"
    using Cons.prems by (intro Cons.IH [OF R2]) auto
  then show ?case using R1 [of k] by (auto simp: run_requests_def puts_append)
qed

lemma mset_concat_map: "mset (concat (map f qs)) = (\<Sum>q \<in># mset qs. mset (f q))"
  by (induction qs) simp_all

lemma latest_put:
  assumes "distinct (map fst es)" "(t, b) \<in> set es" "\<forall>e \<in> set es. fst e \<le> t"
  shows "choice_lww.puts es c = reg_put c (t, b)"
  using choice_lww.puts_latest [of es "(t, b)" c] assms by (auto simp: reg_put_def choice_lww.wins_def split: option.splits)

definition empty_push :: push_db where
  "empty_push = \<lparr>jobs = [], push_job_seq = 0, deliveries = [], delivery_seq = 0, tokens = [], devices = [], terms = [], holidays = [],
     holiday_overrides = [], assignments = [], assignment_seq = 0, assignment_marks = [], user_courses = [], course_overrides = [], sync_log = empty_log\<rparr>"

definition empty_courses :: course_db where
  "empty_courses = \<lparr>courses = [], course_seq = 0, overrides = [], tombstones = [], semester_resets = [], courses_reset_at = (\<lambda>u. None),
     rosters = (\<lambda>x. None), queue = empty_push, worker_jobs = [], worker_policies = [], device_seen = (\<lambda>x. None)\<rparr>"

lemma unused_stamps_empty: "unused_stamps empty_courses u qs"
  by (auto simp: unused_stamps_def key_stamp_max key_added_def course_of_def tombstone_of_def empty_courses_def load_resets_def
      covering_def term_reset_def split: option.splits)

lemma course_wf_empty: "course_wf empty_courses"
  by (simp add: course_wf_def rows_wf_def tombs_wf_def empty_courses_def)

definition sample_upload :: "string \<Rightarrow> int \<Rightarrow> upload_request" where
  "sample_upload no hlc = \<lparr>up_courses = [\<lparr>it_semester = ''1131'', it_no = no, it_info = \<lparr>course_name = ''Logic'', course_name_en = None,
       moodle_id = None, credits = JNull, classroom = None, instructors = [], schedule_json = JNull, classroom_map = JNull\<rparr>\<rparr>],
     up_overrides = [], force_keys = [], up_adds = [\<lparr>add_key = ''client:1131:'' @ no, add_hlc = Some hlc, add_age = None\<rparr>], roster_terms = []\<rparr>"

definition sample_requests :: "membership_request list" where
  "sample_requests =
    [\<lparr>mr_device = Some 1, mr_arrival = 1000, mr_now = 1001, mr_edit = UploadCourses (sample_upload ''CS1'' 100)\<rparr>,
     \<lparr>mr_device = Some 2, mr_arrival = 1100, mr_now = 1101, mr_edit = DeleteCourse ''client:1131:CS1'' None (Some 200) None\<rparr>,
     \<lparr>mr_device = Some 1, mr_arrival = 1200, mr_now = 1201, mr_edit = ResetCourses (Some ''1131'') (Some 150) None\<rparr>]"


lemma sample_requests_ok:
  "list_all request_ok sample_requests" "distinct (concat (map request_stamps sample_requests))" "semester_of ''client:1131:CS1'' \<noteq> None"
  by code_simp+




section \<open>A reset of the empty term\<close>

lemma blank_reset_effect:
  assumes wf: "course_wf db" and new: "\<not> Some stamp \<le> courses_reset_at db u"
    and db': "db' = snd (reset_by_stamp u dev (Some []) stamp tnow db)"
  shows "covering (load_resets db' v) (Some s) = covering (load_resets db v) (Some s)"
    and "r \<in> set (courses db') \<Longrightarrow> cr_user r = u \<Longrightarrow> cr_source r = UserAdded \<Longrightarrow> \<exists>a. cr_added_at r = Some a \<and> stamp < a"
    and "t \<in> set (tombstones db') \<Longrightarrow> tb_user t = u \<Longrightarrow> stamp < tb_deleted_at t"
proof -
  let ?l = "lock_user u db" and ?S = "Some [] :: string option"
  let ?d1 = "snd (record_reset u ?S stamp ?l)"
  define e where "e = reset_state u dev ?S stamp ?l"
  have it: "in_term ?S s" for s by (simp add: in_term_def given_def)
  have "\<not> Some stamp \<le> reset_bar db u ?S" using new by (simp add: reset_bar_def given_def)
  then have st: "same_tables e db'" using reset_by_stamp_steps [of stamp db u ?S dev tnow] by (simp add: e_def db' del: Some_le_iff)
  have rw: "rows_wf (courses ?d1)" using wf by (simp add: lock_user_def course_wf_def)
  have le: "load_resets e v = load_resets ?d1 v" by (simp add: e_def reset_state_def Let_def load_resets_def term_reset_def fun_eq_iff)
  have full: "courses_reset_at ?d1 = courses_reset_at db" by (auto simp: record_reset_def lock_user_def split: option.splits)
  have tr: "term_reset ?l = term_reset db" by (simp add: fun_eq_iff term_reset_def lock_user_def)
  show "covering (load_resets db' v) (Some s) = covering (load_resets db v) (Some s)"
    unfolding load_resets_same [OF st] le by (simp add: covering_max load_resets_def record_reset_terms full tr)
  show "stamp < tb_deleted_at t" if "t \<in> set (tombstones db')" "tb_user t = u"
    using that st it by (simp add: same_tables_def e_def reset_state_def Let_def reset_tombstones_def given_def)
  assume r: "r \<in> set (courses db')" "cr_user r = u" "cr_source r = UserAdded"
  have "courses db' = courses (reset_courses u ?S stamp ?d1)" using st by (simp add: same_tables_def e_def reset_state_def Let_def)
  then have m: "r \<in> set (filter (\<lambda>r. \<not> (cr_user r = u \<and> in_term ?S (cr_semester r) \<and> (\<exists>x \<in> set (courses ?d1). cr_id x = cr_id r \<and> goes ?d1 u stamp x)))
      (update_where (\<lambda>r. cr_user r = u \<and> in_term ?S (cr_semester r) \<and> \<not> goes ?d1 u stamp r) (\<lambda>r. snd (clear_added stamp r)) (courses ?d1)))"
    using r(1) unfolding reset_courses_list [OF rw] by (simp only:)
  define G where "G = goes ?d1 u stamp"
  obtain x where x: "x \<in> set (courses ?d1)" "r = (if cr_user x = u \<and> \<not> G x then snd (clear_added stamp x) else x)"
    using m unfolding G_def [symmetric] by (auto simp: update_where_def it)
  have ng: "\<forall>y \<in> set (courses ?d1). cr_id y = cr_id r \<longrightarrow> \<not> G y" using m r(2) unfolding G_def by (simp add: it)
  have id: "cr_id x = cr_id r" "cr_user x = u" "cr_source x = UserAdded" using x(2) r(2,3) by (auto simp: clear_added_def split: if_splits option.splits)
  then have "\<not> goes ?d1 u stamp x" using x(1) ng by (simp add: G_def)
  then obtain a where "cr_added_at x = Some a" "stamp < a" using id(3) by (auto simp: goes_def split: option.splits)
  then show "\<exists>a. cr_added_at r = Some a \<and> stamp < a" using x(2) by (auto simp: clear_added_def split: if_splits)
qed

text \<open>
  C39. A reset of the empty term (the query \<^verbatim>\<open>semester=\<close>) that is applied clears every hand-added course without a later add and
  every tombstone the user had by then, but it is recorded for a term no course has: for no term does the latest covering reset change,
  so nothing on record refuses an edit older than the reset.
\<close>

theorem blank_term_reset:
  assumes "course_wf db" "\<not> Some stamp \<le> courses_reset_at db u" "db' = snd (reset_by_stamp u dev (Some []) stamp tnow db)"
  shows "(\<forall>v s. covering (load_resets db' v) (Some s) = covering (load_resets db v) (Some s)) \<and>
    filter (\<lambda>r. cr_user r = u \<and> cr_source r = UserAdded \<and> at_or_before (cr_added_at r) stamp) (courses db') = [] \<and>
    filter (\<lambda>t. tb_user t = u \<and> tb_deleted_at t \<le> stamp) (tombstones db') = []"
  using blank_reset_effect [OF assms] by (fastforce simp: filter_empty_conv at_or_before_def)

definition sample_courses :: course_db where
  "sample_courses = empty_courses\<lparr>courses := [\<lparr>cr_id = 0, cr_user = 7, cr_semester = ''1131'', cr_key = ''client:1131:CS1'', cr_no = Some ''CS1'',
     cr_source = UserAdded, cr_info = it_info (hd (up_courses (sample_upload ''CS1'' 0))), cr_enrollment = Enrolled, cr_added_at = Some 100,
     cr_fetched_at = None, cr_last_seen_at = None, cr_version = 1, cr_updated_by = None\<rparr>], course_seq := 1\<rparr>"

lemma sample_courses_wf: "course_wf sample_courses"
proof -
  have "semester_of ''client:1131:CS1'' = Some ''1131''" "stands (choice sample_courses 7 ''client:1131:CS1'')" by code_simp+
  then show ?thesis by (simp add: course_wf_def rows_wf_def tombs_wf_def sample_courses_def empty_courses_def)
qed

theorem blank_term_reset_witness:
  "\<exists>db'. db' = snd (reset_by_stamp 7 (Some 1) (Some []) 150 1000 sample_courses) \<and> courses sample_courses \<noteq> [] \<and>
    filter (\<lambda>r. cr_user r = 7 \<and> cr_source r = UserAdded \<and> at_or_before (cr_added_at r) 150) (courses db') = [] \<and>
    covering (load_resets db' 7) (Some ''1131'') = covering (load_resets sample_courses 7) (Some ''1131'')"
proof -
  have "\<not> Some 150 \<le> courses_reset_at sample_courses 7" "courses sample_courses \<noteq> []" by (simp_all add: sample_courses_def empty_courses_def)
  then show ?thesis using blank_term_reset [OF sample_courses_wf, of 150 7 _ "Some 1" 1000] by blast
qed

end
