(* ===== verification/AuthSessions.thy ===== *)
theory AuthSessions
  imports SyncJobTables
begin

text \<open>
  Refresh-token sessions, \<^verbatim>\<open>server/auth/service.py\<close> (\<open>refresh\<close>, \<open>_rotate\<close>,
  \<open>_handle_revoked_reuse\<close>, \<open>_rotate_again\<close>, \<open>_linked_ids\<close>, \<open>settle_contest\<close>, \<open>_supersede\<close>,
  \<open>logout\<close>), the access check \<^verbatim>\<open>server/auth/dependencies.py\<close> (\<open>require_user\<close> and the first
  use it records) and the session retention \<^verbatim>\<open>server/auth/retention.py\<close>.

  \<open>auth_db\<close> holds the \<^verbatim>\<open>auth_sessions\<close> rows with the sequence of their ids, the users, their
  devices and the other tables a sign-in writes (\<open>Login\<close>). Every operation is one request, atomic as
  the row locks of \<open>lock_contest\<close> make it; it returns the answer and the database it
  commits, so an error that rolls back returns the database it found. The random token, the
  clock reading, the keyed hash, the JWT codec and the UUID text form are arguments.

  A token that is presented again is rotated again while nothing has used a session it was
  rotated into. The sessions that leaves are linked in a ring through
  \<^verbatim>\<open>replaced_by_session_id\<close>; the theory \<open>SessionRing\<close> proves the ring invariant.
\<close>

section \<open>Data\<close>

datatype user_status = UserActive | UserSuspended | UserPendingDeletion

datatype revoked_reason =
  Logout | Rotated | Superseded | ReuseDetected | Expired | AdminRevoked | CredentialRevoked

record auth_session =
  sid :: nat
  s_user :: uuid
  s_device :: "uuid option"
  refresh_token_hash :: string
  expires_at :: datetime
  revoked_at :: "datetime option"
  revoked_reason :: "revoked_reason option"
  replaced_by :: "nat option"
  reuse_detected_at :: "datetime option"
  last_used_at :: datetime
  first_used_at :: "datetime option"
  rerotated_at :: "datetime option"
  s_created_at :: datetime

record auth_user =
  u_id :: uuid
  student_id :: "string option"
  display_name :: "string option"
  u_status :: user_status
  u_last_login_at :: "datetime option"
  u_deleted_at :: "datetime option"

record auth_device =
  d_id :: uuid
  d_user :: uuid
  client_device_id :: string
  platform :: string
  device_model :: "string option"
  app_version :: "string option"
  os_version :: "string option"
  d_last_seen_at :: "datetime option"
  d_last_login_at :: "datetime option"
  d_deleted_at :: "datetime option"

datatype credential_status = CredActive | CredExpired | CredInvalid | CredRevoked

record external_account =
  a_id :: nat
  a_user :: uuid
  a_provider :: string
  external_user_id :: string
  credential_status :: credential_status
  last_auth_success_at :: "datetime option"
  last_auth_error :: "string option"

record credential =
  cr_account :: nat
  encryption_key_id :: string
  ciphertext :: string
  nonce :: string
  aad :: string
  rotated_at :: "datetime option"

datatype push_token_status = TokenActive | TokenInvalidated | TokenExpired

record device_push_token =
  pt_id :: nat
  pt_device :: uuid
  pt_kind :: string
  pt_status :: push_token_status
  pt_last_success_at :: "datetime option"

record device_registration =
  reg_device_id :: string
  reg_linked_user :: "uuid option"
  reg_updated_at :: datetime

record audit_row =
  au_actor :: string
  au_action :: string
  au_user :: uuid
  au_device :: uuid
  au_tokens :: "nat list"

text \<open>\<open>auth_db\<close>: the tables a sign-in, a refresh and a sign-out touch, with the id sequences of
  sessions, external accounts and sync jobs.\<close>

record auth_db =
  users :: "auth_user list"
  auth_devices :: "auth_device list"
  sessions :: "auth_session list"
  session_seq :: nat
  accounts :: "external_account list"
  account_seq :: nat
  credentials :: "credential list"
  push_tokens :: "device_push_token list"
  sync_policies :: "sync_policy list"
  sync_jobs :: "sync_job list"
  job_seq :: nat
  registrations :: "device_registration list"
  audit_log :: "audit_row list"

record auth_settings =
  auth_jwt_secret :: string
  auth_refresh_hmac_key :: string
  auth_refresh_token_ttl_days :: int
  auth_access_token_ttl_seconds :: int
  auth_refresh_reuse_grace_seconds :: int

text \<open>The payload of an access token. PyJWT's \<^verbatim>\<open>encode\<close> and \<^verbatim>\<open>decode\<close>, the keyed hash and the text
  form of a UUID are parameters: \<open>jwt_decode secret issuer audience now token\<close> is \<open>None\<close> for a
  token PyJWT refuses, \<open>uuid_parse\<close> is \<open>None\<close> where \<^verbatim>\<open>uuid.UUID\<close> raises.\<close>

record jwt_payload =
  pl_sub :: string
  pl_sid :: nat
  pl_token_use :: "string option"
  pl_iss :: string
  pl_aud :: string
  pl_iat :: datetime
  pl_exp :: datetime
  pl_did :: "string option"

record access_claims =
  cl_user :: string
  cl_session :: nat
  cl_device :: "string option"

record crypto =
  hmac :: "string \<Rightarrow> string \<Rightarrow> string"
  jwt_encode :: "string \<Rightarrow> jwt_payload \<Rightarrow> string"
  jwt_decode :: "string \<Rightarrow> string \<Rightarrow> string \<Rightarrow> datetime \<Rightarrow> string \<Rightarrow> jwt_payload option"
  uuid_str :: "uuid \<Rightarrow> string"
  uuid_parse :: "string \<Rightarrow> uuid option"

record refresh_result =
  r_access_token :: string
  r_refresh_token :: string
  r_expires_in :: int

definition UNUSED_SESSIONS_KEPT :: nat where
  "UNUSED_SESSIONS_KEPT = 16"

definition REPLACED_REASONS :: "revoked_reason list" where
  "REPLACED_REASONS = [Rotated, Superseded]"

section \<open>Reading the sessions\<close>

definition get_session :: "auth_db \<Rightarrow> nat \<Rightarrow> auth_session option" where
  "get_session db i = row_get sid i (sessions db)"

definition live :: "auth_session \<Rightarrow> bool" where
  "live s \<longleftrightarrow> revoked_at s = None"

definition unused :: "auth_session \<Rightarrow> bool" where
  "unused s \<longleftrightarrow> first_used_at s = None"

definition user_is_active :: "auth_db \<Rightarrow> uuid \<Rightarrow> bool" where
  "user_is_active db u = (case row_get u_id u (users db) of Some x \<Rightarrow> u_status x = UserActive | None \<Rightarrow> False)"

definition hash_refresh_token :: "crypto \<Rightarrow> string \<Rightarrow> string \<Rightarrow> string" where
  "hash_refresh_token c key token = hmac c key token"

definition issue_access_token ::
  "crypto \<Rightarrow> string \<Rightarrow> uuid \<Rightarrow> nat \<Rightarrow> uuid option \<Rightarrow> int \<Rightarrow> datetime \<Rightarrow> string" where
  "issue_access_token c secret u session_id device ttl_seconds now =
    jwt_encode c secret \<lparr>pl_sub = uuid_str c u, pl_sid = session_id, pl_token_use = Some ''access'',
      pl_iss = ''tigerduck-backend'', pl_aud = ''tigerduck-api'', pl_iat = now,
      pl_exp = now + seconds ttl_seconds, pl_did = map_option (uuid_str c) device\<rparr>"

definition decode_access_token :: "crypto \<Rightarrow> string \<Rightarrow> datetime \<Rightarrow> string \<Rightarrow> access_claims option" where
  "decode_access_token c secret now token =
    (case jwt_decode c secret ''tigerduck-backend'' ''tigerduck-api'' now token of
       None \<Rightarrow> None
     | Some p \<Rightarrow> if pl_token_use p \<noteq> Some ''access'' then None
        else Some \<lparr>cl_user = pl_sub p, cl_session = pl_sid p, cl_device = pl_did p\<rparr>)"

text \<open>The \<^verbatim>\<open>try\<close> block of \<open>require_user\<close>: the caller's user, session and device.\<close>

definition read_claims :: "crypto \<Rightarrow> string \<Rightarrow> datetime \<Rightarrow> string \<Rightarrow> (uuid \<times> nat \<times> uuid option) option" where
  "read_claims c secret now token =
    (case decode_access_token c secret now token of
       None \<Rightarrow> None
     | Some cl \<Rightarrow> (case uuid_parse c (cl_user cl) of
          None \<Rightarrow> None
        | Some u \<Rightarrow> (case cl_device cl of
             None \<Rightarrow> Some (u, cl_session cl, None)
           | Some d \<Rightarrow> if d = [] then Some (u, cl_session cl, None)
              else (case uuid_parse c d of None \<Rightarrow> None | Some dev \<Rightarrow> Some (u, cl_session cl, Some dev)))))"

text \<open>The recursive query of \<open>_linked_ids\<close>. A row of the working table is the session's id, what
  it points at and whether it was live; the query starts with the given session counted as
  live, follows the pointer of each live row and stops at a row it already has (\<^verbatim>\<open>UNION\<close>).\<close>

type_synonym link = "nat \<times> nat option \<times> bool"

definition link_of :: "auth_session \<Rightarrow> link" where
  "link_of s = (sid s, replaced_by s, live s)"

definition next_link :: "auth_session list \<Rightarrow> link \<Rightarrow> link option" where
  "next_link rows l =
    (case l of (_, nxt, lv) \<Rightarrow>
      if \<not> lv then None
      else (case nxt of None \<Rightarrow> None | Some j \<Rightarrow> map_option link_of (row_get sid j rows)))"

function walk_links :: "auth_session list \<Rightarrow> link list \<Rightarrow> link \<Rightarrow> link list" where
  "walk_links rows seen l =
    (case next_link rows l of
       None \<Rightarrow> seen
     | Some m \<Rightarrow> if m \<in> set seen then seen else walk_links rows (m # seen) m)"
  by pat_completeness auto
termination
proof (relation "measure (\<lambda>(rows, seen, _). card (link_of ` set rows - set seen))")
  fix rows :: "auth_session list" and seen l m
  assume "next_link rows l = Some m" and "m \<notin> set seen"
  then have "m \<in> link_of ` set rows - set seen"
    by (auto simp: next_link_def dest: row_get_SomeD split: prod.splits if_splits option.splits)
  then show "((rows, m # seen, m), rows, seen, l) \<in> measure (\<lambda>(rows, seen, _). card (link_of ` set rows - set seen))"
    unfolding in_measure split_conv by (intro psubset_card_mono) auto
qed simp

declare walk_links.simps [simp del]

definition linked_ids :: "auth_db \<Rightarrow> nat \<Rightarrow> nat list" where
  "linked_ids db i =
    (case get_session db i of
       None \<Rightarrow> []
     | Some s \<Rightarrow> let l = (sid s, replaced_by s, True) in
         remdups (map fst (walk_links (sessions db) [l] l)))"

section \<open>Rotation\<close>

definition supersede :: "auth_db \<Rightarrow> nat list \<Rightarrow> nat \<Rightarrow> datetime \<Rightarrow> auth_db" where
  "supersede db ids winner now =
    db\<lparr>sessions := update_where (\<lambda>s. sid s \<in> set ids \<and> live s \<and> unused s)
      (\<lambda>s. s\<lparr>revoked_at := Some now, revoked_reason := Some Superseded, replaced_by := Some winner\<rparr>) (sessions db)\<rparr>"

definition modify_session :: "nat \<Rightarrow> (auth_session \<Rightarrow> auth_session) \<Rightarrow> auth_db \<Rightarrow> auth_db" where
  "modify_session i f db = db\<lparr>sessions := row_update sid i f (sessions db)\<rparr>"

definition settle_contest :: "auth_db \<Rightarrow> nat \<Rightarrow> datetime \<Rightarrow> auth_db" where
  "settle_contest db winner now =
    (let rivals = filter (\<lambda>i. i \<noteq> winner) (linked_ids db winner);
         db1 = modify_session winner (\<lambda>s. s\<lparr>replaced_by := None\<rparr>) db
     in if rivals = [] then db1 else supersede db1 rivals winner now)"

definition new_session :: "nat \<Rightarrow> uuid \<Rightarrow> uuid option \<Rightarrow> string \<Rightarrow> datetime \<Rightarrow> datetime \<Rightarrow> auth_session" where
  "new_session i u dev h expires now =
    \<lparr>sid = i, s_user = u, s_device = dev, refresh_token_hash = h, expires_at = expires,
     revoked_at = None, revoked_reason = None, replaced_by = None, reuse_detected_at = None,
     last_used_at = now, first_used_at = None, rerotated_at = None, s_created_at = now\<rparr>"

text \<open>\<open>insert_session\<close> is the flush of a new row: a hash already in the table violates the
  unique index and the request fails with the uncaught \<^verbatim>\<open>IntegrityError\<close>.\<close>

definition insert_session :: "auth_db \<Rightarrow> uuid \<Rightarrow> uuid option \<Rightarrow> string \<Rightarrow> datetime \<Rightarrow> datetime \<Rightarrow> (nat \<times> auth_db) option" where
  "insert_session db u dev h expires now =
    (if h \<in> refresh_token_hash ` set (sessions db) then None
     else Some (session_seq db, db\<lparr>sessions := sessions db @ [new_session (session_seq db) u dev h expires now],
       session_seq := Suc (session_seq db)\<rparr>))"

definition integrity_error :: http_error where
  "integrity_error = HTTPException 500 ''Internal Server Error''"

definition mark_rotated :: "nat \<Rightarrow> datetime \<Rightarrow> auth_session \<Rightarrow> auth_session" where
  "mark_rotated new_id now s = s\<lparr>revoked_at := Some now, revoked_reason := Some Rotated,
     replaced_by := Some new_id, last_used_at := now,
     first_used_at := (case first_used_at s of None \<Rightarrow> Some now | Some t \<Rightarrow> Some t)\<rparr>"

definition rotate ::
  "crypto \<Rightarrow> auth_settings \<Rightarrow> auth_db \<Rightarrow> auth_session \<Rightarrow> datetime \<Rightarrow> string \<Rightarrow> http_error + (nat \<times> refresh_result \<times> auth_db)" where
  "rotate c st db old now new_token =
    (let db1 = (if live old \<and> replaced_by old \<noteq> None then settle_contest db (sid old) now else db) in
     case insert_session db1 (s_user old) (s_device old)
         (hash_refresh_token c (auth_refresh_hmac_key st) new_token)
         (now + days (auth_refresh_token_ttl_days st)) now of
       None \<Rightarrow> Inl integrity_error
     | Some (new_id, db2) \<Rightarrow>
         Inr (new_id,
           \<lparr>r_access_token = issue_access_token c (auth_jwt_secret st) (s_user old) new_id (s_device old)
                (auth_access_token_ttl_seconds st) now,
            r_refresh_token = new_token, r_expires_in = auth_access_token_ttl_seconds st\<rparr>,
           modify_session (sid old) (mark_rotated new_id now) db2))"

definition may_rotate_again :: "auth_session \<Rightarrow> auth_session option \<Rightarrow> bool" where
  "may_rotate_again token successor \<longleftrightarrow> revoked_reason token = Some Rotated \<and>
     (case successor of None \<Rightarrow> False | Some s \<Rightarrow> live s \<and> unused s)"

text \<open>The tail of \<open>_rotate_again\<close>: the new session joins the ring after the successor, and the
  oldest beyond \<open>UNUSED_SESSIONS_KEPT\<close> are superseded. \<open>ring[-16]\<close> and \<open>ring[:-16]\<close> are read only
  when the ring is longer than that.\<close>

definition join_ring :: "auth_db \<Rightarrow> nat \<Rightarrow> nat \<Rightarrow> nat option \<Rightarrow> datetime \<Rightarrow> auth_db" where
  "join_ring db replacement successor successor_next now =
    (let db1 = modify_session replacement
           (\<lambda>s. s\<lparr>replaced_by := Some (case successor_next of None \<Rightarrow> successor | Some j \<Rightarrow> j)\<rparr>) db;
         db2 = modify_session successor (\<lambda>s. s\<lparr>replaced_by := Some replacement\<rparr>) db1;
         ring = sort (linked_ids db2 replacement);
         n = length ring
     in if n > UNUSED_SESSIONS_KEPT
        then supersede
          (modify_session replacement (\<lambda>s. s\<lparr>replaced_by := Some (ring ! (n - UNUSED_SESSIONS_KEPT))\<rparr>) db2)
          (take (n - UNUSED_SESSIONS_KEPT) ring) replacement now
        else db2)"

definition rotate_again ::
  "crypto \<Rightarrow> auth_settings \<Rightarrow> auth_db \<Rightarrow> auth_session \<Rightarrow> auth_session \<Rightarrow> datetime \<Rightarrow> string \<Rightarrow> http_error + (refresh_result \<times> auth_db)" where
  "rotate_again c st db token successor now new_token =
    (case rotate c st db token now new_token of
       Inl e \<Rightarrow> Inl e
     | Inr (new_id, result, db1) \<Rightarrow>
         Inr (result, modify_session (sid token) (\<lambda>s. s\<lparr>rerotated_at := Some now\<rparr>)
           (join_ring db1 new_id (sid successor) (replaced_by successor) now)))"

definition session_revoked :: http_error where
  "session_revoked = HTTPException 401 ''session_revoked''"

definition refresh_token_expired :: http_error where
  "refresh_token_expired = HTTPException 401 ''refresh_token_expired''"

definition handle_revoked_reuse ::
  "crypto \<Rightarrow> auth_settings \<Rightarrow> auth_db \<Rightarrow> auth_session \<Rightarrow> datetime \<Rightarrow> string \<Rightarrow> (http_error + refresh_result) \<times> auth_db" where
  "handle_revoked_reuse c st db token now new_token =
    (if (case revoked_reason token of None \<Rightarrow> True | Some r \<Rightarrow> r \<notin> set REPLACED_REASONS)
     then (Inl session_revoked, db)
     else
       let successor = (case replaced_by token of None \<Rightarrow> None | Some j \<Rightarrow> get_session db j) in
       if may_rotate_again token successor then
         (if expires_at token \<le> now then (Inl refresh_token_expired, db)
          else (case rotate_again c st db token (the successor) now new_token of
                  Inl e \<Rightarrow> (Inl e, db) | Inr (result, db') \<Rightarrow> (Inr result, db')))
       else
         let since_rotation = now - the (revoked_at token) in
         if since_rotation < seconds (auth_refresh_reuse_grace_seconds st)
         then (Inl session_revoked, db)
         else (Inl session_revoked, modify_session (sid token) (\<lambda>s. s\<lparr>reuse_detected_at := Some now\<rparr>) db))"

definition refresh ::
  "crypto \<Rightarrow> auth_settings \<Rightarrow> auth_db \<Rightarrow> string \<Rightarrow> datetime \<Rightarrow> string \<Rightarrow> (http_error + refresh_result) \<times> auth_db" where
  "refresh c st db refresh_token now new_token =
    (if auth_jwt_secret st = [] \<or> auth_refresh_hmac_key st = []
     then (Inl (HTTPException 503 ''auth_not_configured''), db)
     else case row_get refresh_token_hash (hash_refresh_token c (auth_refresh_hmac_key st) refresh_token) (sessions db) of
       None \<Rightarrow> (Inl (HTTPException 401 ''invalid_refresh_token''), db)
     | Some s \<Rightarrow>
         if \<not> user_is_active db (s_user s) then (Inl session_revoked, db)
         else if \<not> live s then handle_revoked_reuse c st db s now new_token
         else if expires_at s \<le> now then
           (Inl refresh_token_expired,
            if replaced_by s = None
            then modify_session (sid s) (\<lambda>r. r\<lparr>revoked_at := Some now, revoked_reason := Some Expired\<rparr>) db
            else db)
         else (case rotate c st db s now new_token of
                 Inl e \<Rightarrow> (Inl e, db)
               | Inr (_, result, db') \<Rightarrow> (Inr result, db')))"

section \<open>Using a session\<close>

definition record_first_use :: "auth_db \<Rightarrow> auth_session \<Rightarrow> datetime \<Rightarrow> auth_db" where
  "record_first_use db s now =
    (let db1 = (if replaced_by s \<noteq> None then settle_contest db (sid s) now else db)
     in modify_session (sid s)
          (\<lambda>r. if unused r then r\<lparr>first_used_at := Some now\<rparr> else r) db1)"

definition bring_back :: "auth_db \<Rightarrow> uuid \<Rightarrow> auth_db" where
  "bring_back db dev = db\<lparr>auth_devices := update_where (\<lambda>d. d_id d = dev \<and> d_deleted_at d \<noteq> None)
     (\<lambda>d. d\<lparr>d_deleted_at := None\<rparr>) (auth_devices db)\<rparr>"

record current_auth =
  ca_user :: uuid
  ca_session :: nat
  ca_device :: "uuid option"

definition require_user ::
  "crypto \<Rightarrow> auth_settings \<Rightarrow> auth_db \<Rightarrow> string option \<Rightarrow> datetime \<Rightarrow> (http_error + current_auth) \<times> auth_db" where
  "require_user c st db authorization now =
    (if auth_jwt_secret st = [] then (Inl (HTTPException 503 ''auth_not_configured''), db)
     else case authorization of
       None \<Rightarrow> (Inl (HTTPException 401 ''missing_bearer_token''), db)
     | Some header \<Rightarrow>
        if \<not> starts_with ''Bearer '' header then (Inl (HTTPException 401 ''missing_bearer_token''), db)
        else (case read_claims c (auth_jwt_secret st) now (py_strip (remove_prefix ''Bearer '' header)) of
           None \<Rightarrow> (Inl (HTTPException 401 ''invalid_access_token''), db)
         | Some (user_id, session_id, device_id) \<Rightarrow>
            (case get_session db session_id of
               None \<Rightarrow> (Inl session_revoked, db)
             | Some s \<Rightarrow>
                if \<not> live s then (Inl session_revoked, db)
                else if s_user s \<noteq> user_id then (Inl (HTTPException 401 ''session_user_mismatch''), db)
                else if \<not> user_is_active db user_id then (Inl session_revoked, db)
                else
                  let db1 = (if unused s then record_first_use db s now else db);
                      db2 = (case device_id of Some d \<Rightarrow> bring_back db1 d | None \<Rightarrow> db1)
                  in (Inr \<lparr>ca_user = user_id, ca_session = session_id, ca_device = device_id\<rparr>, db2))))"

definition logout :: "auth_db \<Rightarrow> nat \<Rightarrow> datetime \<Rightarrow> auth_db" where
  "logout db i now =
    (case get_session db i of
       None \<Rightarrow> db
     | Some s \<Rightarrow> if \<not> live s then db
        else modify_session i (\<lambda>r. r\<lparr>revoked_at := Some now, revoked_reason := Some Logout, last_used_at := now\<rparr>) db)"

text \<open>The revocation of \<^verbatim>\<open>server/routes/user_devices.py\<close>, \<open>delete_device\<close>: every live session of the
  device; the repeated passes find nothing more once no refresh is in flight.\<close>

definition revoke_device_sessions :: "auth_db \<Rightarrow> uuid \<Rightarrow> datetime \<Rightarrow> auth_db" where
  "revoke_device_sessions db dev now =
    db\<lparr>sessions := update_where (\<lambda>s. s_device s = Some dev \<and> live s)
      (\<lambda>s. s\<lparr>revoked_at := Some now, revoked_reason := Some AdminRevoked\<rparr>) (sessions db)\<rparr>"

text \<open>Deleting session rows sets the pointers at them to null (\<^verbatim>\<open>ON DELETE SET NULL\<close>);
  deleting a device row deletes its push tokens and sets its sessions' device to null.\<close>

definition forget_pointer :: "nat set \<Rightarrow> auth_session \<Rightarrow> auth_session" where
  "forget_pointer gone s = (case replaced_by s of Some j \<Rightarrow> if j \<in> gone then s\<lparr>replaced_by := None\<rparr> else s | None \<Rightarrow> s)"

definition delete_sessions :: "(auth_session \<Rightarrow> bool) \<Rightarrow> auth_db \<Rightarrow> auth_db" where
  "delete_sessions P db =
    (let gone = sid ` {s \<in> set (sessions db). P s} in
     db\<lparr>sessions := map (forget_pointer gone) (filter (\<lambda>s. \<not> P s) (sessions db))\<rparr>)"

definition prunable :: "datetime \<Rightarrow> auth_session \<Rightarrow> bool" where
  "prunable cutoff s \<longleftrightarrow> expires_at s < cutoff \<and> (\<not> live s \<or> replaced_by s = None)"

definition prune_expired_sessions :: "auth_db \<Rightarrow> datetime \<Rightarrow> int \<Rightarrow> auth_db" where
  "prune_expired_sessions db now retention_days =
    delete_sessions (prunable (now - days retention_days)) db"

definition detach_device :: "auth_db \<Rightarrow> uuid \<Rightarrow> auth_db" where
  "detach_device db dev =
    db\<lparr>auth_devices := filter (\<lambda>d. d_id d \<noteq> dev) (auth_devices db),
       push_tokens := filter (\<lambda>t. pt_device t \<noteq> dev) (push_tokens db),
       sessions := update_where (\<lambda>s. s_device s = Some dev) (\<lambda>s. s\<lparr>s_device := None\<rparr>) (sessions db)\<rparr>"

end
