(* ===== verification/SessionRing.thy ===== *)
theory SessionRing
  imports AuthSessions
begin

text \<open>
  The ring invariant of the refresh sessions. A session created by rotating token \<open>t\<close> has
  origin \<open>t\<close> (a ghost map beside the database). The live, unused sessions of one origin are
  its \<open>group\<close>; the invariant says that a group of two or more is linked in a ring in id order,
  that the token points at its newest member, that it never holds more than
  \<open>UNUSED_SESSIONS_KEPT\<close> sessions, and that once a session of an origin has been used no other
  session of that origin is live. Every request of \<open>AuthSessions\<close> keeps it.
\<close>

section \<open>Successors in a finite set of ids\<close>

definition cyc_next :: "nat set \<Rightarrow> nat \<Rightarrow> nat" where
  "cyc_next U i = (if \<exists>j \<in> U. i < j then Min {j \<in> U. i < j} else Min U)"

lemma cyc_next_in: "finite U \<Longrightarrow> U \<noteq> {} \<Longrightarrow> cyc_next U i \<in> U"
  using Min_in [of "{j \<in> U. i < j}"] by (auto simp: cyc_next_def)

lemma cyc_next_gt:
  assumes "finite U" "j \<in> U" "i < j"
  shows "i < cyc_next U i \<and> cyc_next U i \<le> j \<and> cyc_next U i \<in> U"
proof -
  have "finite {j \<in> U. i < j}" "j \<in> {j \<in> U. i < j}" using assms by auto
  then have "Min {j \<in> U. i < j} \<in> {j \<in> U. i < j}" "Min {j \<in> U. i < j} \<le> j"
    by (metis Min_in empty_iff, rule Min_le)
  with assms show ?thesis by (auto simp: cyc_next_def)
qed

lemma cyc_next_Max: "finite U \<Longrightarrow> U \<noteq> {} \<Longrightarrow> cyc_next U (Max U) = Min U"
proof -
  assume "finite U" "U \<noteq> {}"
  then have "\<not> (\<exists>j \<in> U. Max U < j)" by (meson Max_ge leD)
  then show ?thesis by (simp add: cyc_next_def)
qed

lemma cyc_next_reaches:
  assumes "finite U" "b \<in> U"
  shows "a \<in> U \<Longrightarrow> a \<le> b \<Longrightarrow> \<exists>n. (cyc_next U ^^ n) a = b"
proof (induction "b - a" arbitrary: a rule: less_induct)
  case less
  show ?case
  proof (cases "a = b")
    case True
    then have "(cyc_next U ^^ 0) a = b" by simp
    then show ?thesis by blast
  next
    case False
    then have c: "a < cyc_next U a" "cyc_next U a \<le> b" "cyc_next U a \<in> U"
      using cyc_next_gt [OF assms, of a] less.prems by auto
    then have "b - cyc_next U a < b - a" by arith
    then obtain n where "(cyc_next U ^^ n) (cyc_next U a) = b"
      using less.hyps c by blast
    then have "(cyc_next U ^^ Suc n) a = b" by (simp add: funpow_swap1)
    then show ?thesis by blast
  qed
qed

lemma cyc_next_orbit:
  assumes "finite U" "w \<in> U"
  shows "range (\<lambda>n. (cyc_next U ^^ n) w) = U"
proof
  have "(cyc_next U ^^ n) w \<in> U" for n
    using assms cyc_next_in by (induction n) auto
  then show "range (\<lambda>n. (cyc_next U ^^ n) w) \<subseteq> U" by auto
  show "U \<subseteq> range (\<lambda>n. (cyc_next U ^^ n) w)"
  proof
    fix v assume v: "v \<in> U"
    obtain n1 where n1: "(cyc_next U ^^ n1) w = Max U"
      using cyc_next_reaches [OF assms(1) Max_in, of w] assms by (metis Max_ge empty_iff)
    obtain n2 where n2: "(cyc_next U ^^ n2) (Min U) = v"
      using cyc_next_reaches [OF assms(1) v, of "Min U"] assms v by (metis Min_in Min_le empty_iff)
    have "(cyc_next U ^^ Suc n1) w = Min U"
      using cyc_next_Max [of U] assms by (auto simp: n1)
    then have "(cyc_next U ^^ (n2 + Suc n1)) w = v"
      using n2 by (simp only: funpow_add comp_apply)
    then show "v \<in> range (\<lambda>n. (cyc_next U ^^ n) w)" by blast
  qed
qed

lemma cyc_next_insert_max:
  assumes "finite U" "U \<noteq> {}" "\<forall>j \<in> U. j < m" "i \<in> insert m U"
  shows "cyc_next (insert m U) i = (if i = Max U then m else if i = m then Min U else cyc_next U i)"
proof -
  consider "i = m" | "i = Max U" "i \<noteq> m" | "i \<in> U" "i < Max U"
    using assms by (metis Max_ge insertE le_neq_implies_less)
  then show ?thesis
  proof cases
    case 1
    have "Min (insert m U) = Min U"
    proof -
      have "Min U < m" using assms(1-3) Min_in [of U] by blast
      then show ?thesis using assms(1,2) by simp
    qed
    moreover have "\<not> (\<exists>j \<in> insert m U. m < j)" using assms(3) by auto
    moreover have "m \<noteq> Max U" using assms Max_in [OF assms(1,2)] by (metis less_irrefl)
    ultimately show ?thesis using 1 by (simp add: cyc_next_def)
  next
    case 2
    then have "{j \<in> insert m U. i < j} = {m}"
      using assms Max_in [of U] Max_ge [of U] by (auto simp: not_less [symmetric])
    moreover from this have "\<exists>j \<in> insert m U. i < j" by blast
    ultimately show ?thesis using 2 by (simp add: cyc_next_def)
  next
    case 3
    have ne: "{j \<in> U. i < j} \<noteq> {}" using 3 assms Max_in by blast
    have "{j \<in> insert m U. i < j} = insert m {j \<in> U. i < j}" using 3 assms by auto
    moreover have "Min (insert m {j \<in> U. i < j}) = Min {j \<in> U. i < j}"
    proof -
      have "Min {j \<in> U. i < j} \<in> {j \<in> U. i < j}" using ne assms(1) by (intro Min_in) auto
      then have "Min {j \<in> U. i < j} < m" using assms(3) by auto
      then show ?thesis using ne assms(1) by simp
    qed
    moreover have "\<exists>j \<in> U. i < j" using ne by auto
    moreover have "i \<noteq> m" "i \<noteq> Max U" using 3 assms by auto
    ultimately show ?thesis by (simp add: cyc_next_def)
  qed
qed

lemma cyc_next_remove_min:
  assumes "finite U" "2 \<le> card U" "i \<in> U - {Min U}"
  shows "cyc_next (U - {Min U}) i = (if i = Max U then Min (U - {Min U}) else cyc_next U i)"
proof -
  have ne: "U \<noteq> {}" using assms(2) by auto
  have i: "i \<in> U" "Min U < i" using assms by (auto simp: order.not_eq_order_implies_strict)
  have eq: "{j \<in> U - {Min U}. i < j} = {j \<in> U. i < j}" using i by auto
  show ?thesis
  proof (cases "i = Max U")
    case True
    then have "\<not> (\<exists>j \<in> U. i < j)" using assms(1) by (meson Max_ge leD)
    with True show ?thesis by (simp add: cyc_next_def)
  next
    case False
    then have "Max U \<in> {j \<in> U. i < j}"
      using assms(1) ne i(1) Max_in [OF assms(1) ne] Max_ge [OF assms(1) i(1)] by (simp add: order.not_eq_order_implies_strict)
    then have "\<exists>j \<in> U. i < j" "\<exists>j \<in> U - {Min U}. i < j" using eq by blast+
    with False eq show ?thesis by (simp add: cyc_next_def)
  qed
qed

section \<open>The walk collects the orbit\<close>

lemma funpow_closed: "(\<And>i. i \<in> U \<Longrightarrow> f i \<in> U) \<Longrightarrow> w \<in> U \<Longrightarrow> (f ^^ n) w \<in> U"
  by (induction n) auto

lemma funpow_repeats:
  fixes f :: "'a \<Rightarrow> 'a"
  assumes "(f ^^ Suc n) w \<in> (\<lambda>k. (f ^^ k) w) ` {..n}"
  shows "(\<lambda>k. (f ^^ k) w) ` {..n} = range (\<lambda>k. (f ^^ k) w)"
proof -
  have "(f ^^ k) w \<in> (\<lambda>k. (f ^^ k) w) ` {..n}" for k
  proof (induction k)
    case 0
    show ?case by (rule image_eqI [of _ _ 0]) simp_all
  next
    case (Suc k)
    then obtain j where j: "j \<le> n" "(f ^^ k) w = (f ^^ j) w" by auto
    show ?case
    proof (cases "j = n")
      case True
      have "(f ^^ Suc k) w = (f ^^ Suc n) w" by (simp only: funpow.simps comp_apply j(2) True)
      with assms show ?thesis by (simp only:)
    next
      case False
      with j have "Suc j \<le> n" "(f ^^ Suc k) w = (f ^^ Suc j) w" by auto
      then show ?thesis by blast
    qed
  qed
  then show ?thesis by auto
qed

lemma walk_links_orbit_aux:
  fixes f :: "nat \<Rightarrow> nat"
  assumes U: "\<And>i. i \<in> U \<Longrightarrow> f i \<in> U" "w \<in> U"
  shows "(\<forall>i \<in> U. next_link rows (i, Some (f i), True) = Some (f i, Some (f (f i)), True)) \<Longrightarrow>
    l = ((f ^^ n) w, Some (f ((f ^^ n) w)), True) \<Longrightarrow>
    set seen = (\<lambda>i. (i, Some (f i), True)) ` (\<lambda>k. (f ^^ k) w) ` {..n} \<Longrightarrow>
    fst ` set (walk_links rows seen l) = range (\<lambda>k. (f ^^ k) w)"
proof (induction rows seen l arbitrary: n rule: walk_links.induct)
  case (1 rows seen l)
  let ?L = "\<lambda>i. (i, Some (f i), True)" let ?v = "(f ^^ Suc n) w"
  have nxt: "next_link rows l = Some (?L ?v)"
    using "1.prems"(1,2) funpow_closed [of U f w n] U by simp
  show ?case
  proof (cases "?L ?v \<in> set seen")
    case True
    then have "?v \<in> (\<lambda>k. (f ^^ k) w) ` {..n}" using "1.prems"(3) by auto
    then have "(\<lambda>k. (f ^^ k) w) ` {..n} = range (\<lambda>k. (f ^^ k) w)" by (rule funpow_repeats)
    moreover have "fst ` set seen = (\<lambda>k. (f ^^ k) w) ` {..n}"
      unfolding "1.prems"(3) by (simp add: image_image)
    ultimately show ?thesis using nxt True by (simp add: walk_links.simps [of rows seen l])
  next
    case False
    have "set (?L ?v # seen) = ?L ` (\<lambda>k. (f ^^ k) w) ` {..Suc n}"
      using "1.prems"(3) by (simp add: atMost_Suc)
    then have "fst ` set (walk_links rows (?L ?v # seen) (?L ?v)) = range (\<lambda>k. (f ^^ k) w)"
      using "1.IH" [OF nxt False "1.prems"(1)] by blast
    then show ?thesis using nxt False by (simp add: walk_links.simps [of rows seen l])
  qed
qed

lemma walk_links_orbit:
  fixes f :: "nat \<Rightarrow> nat"
  assumes "\<And>i. i \<in> U \<Longrightarrow> f i \<in> U" "w \<in> U"
    and "\<And>i. i \<in> U \<Longrightarrow> \<exists>s. row_get sid i rows = Some s \<and> replaced_by s = Some (f i) \<and> live s"
  shows "fst ` set (walk_links rows [(w, Some (f w), True)] (w, Some (f w), True)) = range (\<lambda>k. (f ^^ k) w)"
proof (rule walk_links_orbit_aux [OF assms(1,2), where n = 0])
  show "\<forall>i \<in> U. next_link rows (i, Some (f i), True) = Some (f i, Some (f (f i)), True)"
  proof
    fix i assume "i \<in> U"
    then obtain s where "row_get sid (f i) rows = Some s" "replaced_by s = Some (f (f i))" "live s"
      using assms(1,3) by blast
    then show "next_link rows (i, Some (f i), True) = Some (f i, Some (f (f i)), True)"
      by (auto simp: next_link_def link_of_def dest: row_get_SomeD)
  qed
qed (simp_all add: atMost_0)

section \<open>Groups and the ring pointer\<close>

type_synonym origins = "nat \<Rightarrow> nat option"

definition grp :: "auth_db \<Rightarrow> origins \<Rightarrow> nat \<Rightarrow> nat set" where
  "grp db org t = {i. org i = Some t \<and> (\<exists>s. get_session db i = Some s \<and> live s \<and> unused s)}"

definition ring_ptr :: "nat set \<Rightarrow> nat \<Rightarrow> nat option" where
  "ring_ptr U i = (if i \<in> U \<and> 2 \<le> card U then Some (cyc_next U i) else None)"

text \<open>What a live row's \<^verbatim>\<open>replaced_by_session_id\<close> must be.\<close>

definition live_ptr :: "auth_db \<Rightarrow> origins \<Rightarrow> nat \<Rightarrow> nat option" where
  "live_ptr db org i = (case org i of None \<Rightarrow> None | Some t \<Rightarrow> ring_ptr (grp db org t) i)"

definition same_owner :: "auth_session \<Rightarrow> auth_session \<Rightarrow> bool" where
  "same_owner s r \<longleftrightarrow> s_user s = s_user r \<and> s_device s = s_device r"

definition ring_inv :: "auth_db \<Rightarrow> origins \<Rightarrow> bool" where
  "ring_inv db org \<longleftrightarrow>
     distinct (map sid (sessions db)) \<and>
     (\<forall>i s. get_session db i = Some s \<longrightarrow> i < session_seq db) \<and>
     (\<forall>i t. org i = Some t \<longrightarrow> t < i \<and> i < session_seq db) \<and>
     (\<forall>i s. get_session db i = Some s \<longrightarrow> live s \<longrightarrow>
        replaced_by s = live_ptr db org i \<and> revoked_reason s = None) \<and>
     (\<forall>t r. get_session db t = Some r \<longrightarrow> grp db org t \<noteq> {} \<longrightarrow> replaced_by r = Some (Max (grp db org t))) \<and>
     (\<forall>t r j. get_session db t = Some r \<longrightarrow> org j = Some t \<longrightarrow> \<not> live r \<and> revoked_reason r = Some Rotated \<and> \<not> unused r) \<and>
     (\<forall>t. card (grp db org t) \<le> UNUSED_SESSIONS_KEPT) \<and>
     (\<forall>i s j r t. get_session db i = Some s \<longrightarrow> org i = Some t \<longrightarrow> \<not> unused s \<longrightarrow>
        get_session db j = Some r \<longrightarrow> org j = Some t \<longrightarrow> j \<noteq> i \<longrightarrow> \<not> live r) \<and>
     (\<forall>i s j. get_session db i = Some s \<longrightarrow> revoked_reason s = Some Rotated \<longrightarrow> replaced_by s = Some j \<longrightarrow>
        org j = Some i) \<and>
     (\<forall>i j s r t. get_session db i = Some s \<longrightarrow> get_session db j = Some r \<longrightarrow> org i = Some t \<longrightarrow>
        (j = t \<or> org j = Some t) \<longrightarrow> same_owner s r)"

lemma ring_invD:
  assumes "ring_inv db org"
  shows "distinct (map sid (sessions db))"
    "\<And>i s. get_session db i = Some s \<Longrightarrow> i < session_seq db"
    "\<And>i t. org i = Some t \<Longrightarrow> t < i \<and> i < session_seq db"
    "\<And>i s. get_session db i = Some s \<Longrightarrow> live s \<Longrightarrow> replaced_by s = live_ptr db org i \<and> revoked_reason s = None"
    "\<And>t r. get_session db t = Some r \<Longrightarrow> grp db org t \<noteq> {} \<Longrightarrow> replaced_by r = Some (Max (grp db org t))"
    "\<And>t r j. get_session db t = Some r \<Longrightarrow> org j = Some t \<Longrightarrow> \<not> live r \<and> revoked_reason r = Some Rotated \<and> \<not> unused r"
    "\<And>t. card (grp db org t) \<le> UNUSED_SESSIONS_KEPT"
    "\<And>i s j r t. get_session db i = Some s \<Longrightarrow> org i = Some t \<Longrightarrow> \<not> unused s \<Longrightarrow>
        get_session db j = Some r \<Longrightarrow> org j = Some t \<Longrightarrow> j \<noteq> i \<Longrightarrow> \<not> live r"
    "\<And>i s j. get_session db i = Some s \<Longrightarrow> revoked_reason s = Some Rotated \<Longrightarrow> replaced_by s = Some j \<Longrightarrow> org j = Some i"
    "\<And>i j s r t. get_session db i = Some s \<Longrightarrow> get_session db j = Some r \<Longrightarrow> org i = Some t \<Longrightarrow>
        j = t \<or> org j = Some t \<Longrightarrow> same_owner s r"
  using assms unfolding ring_inv_def by (elim conjE, metis)+

lemma used_empties:
  assumes "ring_inv db org" "get_session db i = Some s" "org i = Some t" "\<not> unused s"
  shows "grp db org t = {}"
proof (rule equals0I)
  fix j assume "j \<in> grp db org t"
  then obtain r where r: "org j = Some t" "get_session db j = Some r" "live r" "unused r" by (auto simp: grp_def)
  then have "j \<noteq> i" using assms by auto
  then show False using ring_invD(8) [OF assms r(2,1)] r(3) by blast
qed

lemma get_session_sid: "get_session db i = Some s \<Longrightarrow> sid s = i"
  by (auto simp: get_session_def dest: row_get_SomeD)

lemma grp_in: "i \<in> grp db org t \<Longrightarrow> org i = Some t \<and> (\<exists>s. get_session db i = Some s \<and> live s \<and> unused s)"
  by (simp add: grp_def)

lemma finite_grp: "ring_inv db org \<Longrightarrow> finite (grp db org t)"
  by (rule finite_subset [of _ "{..<session_seq db}"]) (auto simp: grp_def dest: ring_invD(2))

lemma linked_ids_single:
  assumes "get_session db w = Some s" "replaced_by s = None"
  shows "linked_ids db w = [w]"
  using assms get_session_sid [OF assms(1)]
  by (simp add: linked_ids_def Let_def walk_links.simps next_link_def)

text \<open>The walk from a member of a group of two or more returns the whole group.\<close>

lemma linked_ids_group:
  assumes U: "finite U" "w \<in> U"
    and ptr: "\<And>i. i \<in> U \<Longrightarrow> \<exists>s. get_session db i = Some s \<and> live s \<and> replaced_by s = Some (cyc_next U i)"
  shows "set (linked_ids db w) = U" "distinct (linked_ids db w)"
proof -
  obtain s where s: "get_session db w = Some s" "replaced_by s = Some (cyc_next U w)" using ptr U by blast
  have "fst ` set (walk_links (sessions db) [(w, Some (cyc_next U w), True)] (w, Some (cyc_next U w), True))
      = range (\<lambda>k. (cyc_next U ^^ k) w)"
    using ptr cyc_next_in [OF U(1)] U(2)
    by (intro walk_links_orbit [where U = U]) (auto simp: get_session_def)
  then show "set (linked_ids db w) = U"
    using s get_session_sid [OF s(1)] cyc_next_orbit [OF U] by (simp add: linked_ids_def Let_def)
  show "distinct (linked_ids db w)"
    using s by (simp add: linked_ids_def Let_def)
qed

lemma linked_ids_live:
  assumes inv: "ring_inv db org" and w: "get_session db w = Some s" "live s" "unused s" "org w = Some t"
  shows "set (linked_ids db w) = grp db org t"
proof (cases "2 \<le> card (grp db org t)")
  case True
  have "\<exists>s. get_session db i = Some s \<and> live s \<and> replaced_by s = Some (cyc_next (grp db org t) i)"
    if i: "i \<in> grp db org t" for i
    using grp_in [OF i] i True ring_invD(4) [OF inv] by (auto simp: live_ptr_def ring_ptr_def)
  moreover have "w \<in> grp db org t" using w by (auto simp: grp_def)
  ultimately show ?thesis using finite_grp [OF inv] by (intro linked_ids_group) auto
next
  case False
  have win: "w \<in> grp db org t" using w by (auto simp: grp_def)
  then have "card (grp db org t) = 1"
    using False finite_grp [OF inv, of t] card_gt_0_iff [of "grp db org t"] by force
  then have "grp db org t = {w}" using win by (auto simp: card_1_singleton_iff)
  moreover have "replaced_by s = None"
    using ring_invD(4) [OF inv w(1,2)] False w(4) by (simp add: live_ptr_def ring_ptr_def)
  ultimately show ?thesis using linked_ids_single [OF w(1)] by simp
qed

section \<open>Requests that empty groups\<close>

text \<open>Most requests only revoke, mark or delete rows. Such a step keeps the invariant when the
  groups it touches (the tokens in \<open>D\<close>) are emptied whole.\<close>

definition row_shrinks :: "auth_db \<Rightarrow> origins \<Rightarrow> nat set \<Rightarrow> nat \<Rightarrow> auth_session \<Rightarrow> auth_session \<Rightarrow> bool" where
  "row_shrinks db org D i s s' \<longleftrightarrow>
     (live s' \<longrightarrow> live s \<and> revoked_reason s' = revoked_reason s \<and>
        replaced_by s' = (if org i \<in> Some ` D then None else replaced_by s)) \<and>
     (\<not> live s \<longrightarrow> revoked_reason s' = revoked_reason s) \<and>
     (revoked_reason s' = Some Rotated \<longrightarrow>
        replaced_by s' = None \<or> replaced_by s' = replaced_by s \<and> revoked_reason s = Some Rotated) \<and>
     (i \<notin> D \<and> grp db org i \<noteq> {} \<longrightarrow> replaced_by s' = replaced_by s) \<and>
     (unused s' \<longrightarrow> unused s) \<and> (\<not> unused s' \<longrightarrow> \<not> unused s \<or> org i = None \<or> org i \<in> Some ` D)"

lemma ring_inv_shrink:
  assumes inv: "ring_inv db org"
    and dist: "distinct (map sid (sessions db'))" and seq: "session_seq db' = session_seq db"
    and rows: "\<And>i s'. get_session db' i = Some s' \<Longrightarrow> \<exists>s. get_session db i = Some s \<and> row_shrinks db org D i s s'"
    and keep: "\<And>t. t \<notin> D \<Longrightarrow> grp db' org t = grp db org t"
    and drop: "\<And>t. t \<in> D \<Longrightarrow> grp db' org t = {}"
    and own: "\<And>i j s r s' r'. get_session db i = Some s \<Longrightarrow> get_session db j = Some r \<Longrightarrow>
        get_session db' i = Some s' \<Longrightarrow> get_session db' j = Some r' \<Longrightarrow> same_owner s r \<Longrightarrow> same_owner s' r'"
    and sole: "\<And>i j s' r' t. get_session db' i = Some s' \<Longrightarrow> get_session db' j = Some r' \<Longrightarrow> org i = Some t \<Longrightarrow>
        org j = Some t \<Longrightarrow> j \<noteq> i \<Longrightarrow> \<not> unused s' \<Longrightarrow> live r' \<Longrightarrow> \<exists>s. get_session db i = Some s \<and> \<not> unused s"
  shows "ring_inv db' org"
proof -
  have sub: "grp db' org t \<noteq> {} \<Longrightarrow> t \<notin> D" for t using drop by blast
  show ?thesis
    unfolding ring_inv_def
  proof (intro conjI allI impI)
    show "distinct (map sid (sessions db'))" by (rule dist)
    fix i j t :: nat and s r
    {
      assume "get_session db' i = Some s"
      then show "i < session_seq db'" using rows ring_invD(2) [OF inv] seq by metis
    next
      assume o: "org i = Some t"
      show "t < i" using ring_invD(3) [OF inv o] by simp
      show "i < session_seq db'" using ring_invD(3) [OF inv o] seq by simp
    next
      assume s: "get_session db' i = Some s" "live s"
      obtain s0 where s0: "get_session db i = Some s0" "row_shrinks db org D i s0 s" using rows s(1) by blast
      then have l: "live s0" "revoked_reason s = revoked_reason s0"
          "replaced_by s = (if org i \<in> Some ` D then None else replaced_by s0)"
        using s(2) by (auto simp: row_shrinks_def)
      have "live_ptr db' org i = (if org i \<in> Some ` D then None else live_ptr db org i)"
      proof (cases "org i")
        case (Some t)
        then show ?thesis
          by (cases "t \<in> D") (simp_all add: live_ptr_def ring_ptr_def keep drop inj_image_mem_iff)
      qed (auto simp: live_ptr_def)
      then show "replaced_by s = live_ptr db' org i" using l ring_invD(4) [OF inv s0(1) l(1)] by simp
      show "revoked_reason s = None" using l ring_invD(4) [OF inv s0(1) l(1)] by simp
    next
      assume s: "get_session db' t = Some r" and g: "grp db' org t \<noteq> {}"
      obtain r0 where r0: "get_session db t = Some r0" "row_shrinks db org D t r0 r" using rows s by blast
      have "t \<notin> D" "grp db org t \<noteq> {}" "grp db' org t = grp db org t" using sub [OF g] keep g by auto
      then show "replaced_by r = Some (Max (grp db' org t))"
        using r0 ring_invD(5) [OF inv r0(1)] by (auto simp: row_shrinks_def)
    next
      assume s: "get_session db' t = Some r" and o: "org j = Some t"
      obtain r0 where r0: "get_session db t = Some r0" "row_shrinks db org D t r0 r" using rows s by blast
      show "\<not> live r" "revoked_reason r = Some Rotated" "\<not> unused r"
        using r0 ring_invD(6) [OF inv r0(1) o] by (auto simp: row_shrinks_def)
    next
      show "card (grp db' org t) \<le> UNUSED_SESSIONS_KEPT"
        using keep [of t] drop [of t] ring_invD(7) [OF inv, of t] by (cases "t \<in> D") auto
    next
      assume s: "get_session db' i = Some s" and o: "org i = Some t" and u: "\<not> unused s"
        and r: "get_session db' j = Some r" "org j = Some t" "j \<noteq> i"
      show "\<not> live r"
      proof
        assume l: "live r"
        obtain s0 where s0: "get_session db i = Some s0" "\<not> unused s0" using sole [OF s r(1) o r(2,3) u l] by blast
        obtain r0 where r0: "get_session db j = Some r0" "row_shrinks db org D j r0 r" using rows r(1) by blast
        then have "live r0" using l by (simp add: row_shrinks_def)
        then show False using ring_invD(8) [OF inv s0(1) o s0(2) r0(1) r(2,3)] by blast
      qed
    next
      assume s: "get_session db' i = Some s" and r: "revoked_reason s = Some Rotated" "replaced_by s = Some j"
      obtain s0 where s0: "get_session db i = Some s0" "row_shrinks db org D i s0 s" using rows s by blast
      then have "revoked_reason s0 = Some Rotated" "replaced_by s0 = Some j" using r by (simp_all add: row_shrinks_def)
      then show "org j = Some i" using ring_invD(9) [OF inv s0(1)] by blast
    next
      assume s: "get_session db' i = Some s" "get_session db' j = Some r" and o: "org i = Some t" "j = t \<or> org j = Some t"
      obtain s0 where s0: "get_session db i = Some s0" using rows s(1) by blast
      obtain r0 where r0: "get_session db j = Some r0" using rows s(2) by blast
      show "same_owner s r" by (rule own [OF s0 r0 s ring_invD(10) [OF inv s0 r0 o]])
    }
  qed
qed

section \<open>Using a session empties its group\<close>

definition rivals :: "auth_db \<Rightarrow> origins \<Rightarrow> nat \<Rightarrow> nat set" where
  "rivals db org w = (case org w of None \<Rightarrow> {} | Some t \<Rightarrow> grp db org t - {w})"

definition superseded_by :: "nat \<Rightarrow> datetime \<Rightarrow> auth_session \<Rightarrow> auth_session" where
  "superseded_by w now s = s\<lparr>revoked_at := Some now, revoked_reason := Some Superseded, replaced_by := Some w\<rparr>"

lemma rivals_live: "i \<in> rivals db org w \<Longrightarrow> i \<noteq> w \<and> (\<exists>s. get_session db i = Some s \<and> live s \<and> unused s)"
  by (auto simp: rivals_def grp_def split: option.splits)

lemma get_modify_session:
  "(\<And>s. sid (f s) = sid s) \<Longrightarrow>
   get_session (modify_session w f db) i = (if i = w then map_option f (get_session db i) else get_session db i)"
  by (auto simp: get_session_def modify_session_def row_get_row_update)

lemma get_supersede:
  "get_session (supersede db ids w now) i =
    map_option (\<lambda>s. if i \<in> set ids \<and> live s \<and> unused s then superseded_by w now s else s) (get_session db i)"
proof -
  have "map_option (\<lambda>s. if sid s \<in> set ids \<and> live s \<and> unused s then superseded_by w now s else s) (get_session db i)
      = map_option (\<lambda>s. if i \<in> set ids \<and> live s \<and> unused s then superseded_by w now s else s) (get_session db i)"
    by (rule option.map_cong) (auto dest: get_session_sid)
  then show ?thesis
    unfolding superseded_by_def by (simp add: get_session_def supersede_def row_get_update_where)
qed

lemma session_ops_frame [simp]:
  "session_seq (modify_session w f db) = session_seq db"
  "session_seq (supersede db ids w now) = session_seq db"
  "session_seq (settle_contest db w now) = session_seq db"
  "users (modify_session w f db) = users db"
  "users (supersede db ids w now) = users db"
  "users (settle_contest db w now) = users db"
  by (simp_all add: modify_session_def supersede_def settle_contest_def Let_def)

lemma sids_modify_session: "(\<And>s. sid (f s) = sid s) \<Longrightarrow> map sid (sessions (modify_session w f db)) = map sid (sessions db)"
  by (simp add: modify_session_def map_key_row_update)

lemma sids_supersede: "map sid (sessions (supersede db ids w now)) = map sid (sessions db)"
  by (simp add: supersede_def map_key_update_where)

lemma sids_settle: "map sid (sessions (settle_contest db w now)) = map sid (sessions db)"
  by (simp add: settle_contest_def Let_def sids_supersede sids_modify_session)

text \<open>The prologue of a rotation and of a first use: a session in a ring settles its contest.\<close>

definition claimed :: "auth_db \<Rightarrow> auth_session \<Rightarrow> datetime \<Rightarrow> auth_db" where
  "claimed db s now = (if replaced_by s \<noteq> None then settle_contest db (sid s) now else db)"

lemma claimed_frame [simp]:
  "session_seq (claimed db s now) = session_seq db" "users (claimed db s now) = users db"
  "map sid (sessions (claimed db s now)) = map sid (sessions db)"
  by (simp_all add: claimed_def sids_settle)

lemma get_settle:
  "get_session (settle_contest db w now) i = map_option (\<lambda>r. if i = w then r\<lparr>replaced_by := None\<rparr>
     else if i \<in> set (linked_ids db w) \<and> live r \<and> unused r then superseded_by w now r else r) (get_session db i)"
proof -
  let ?R = "filter (\<lambda>i. i \<noteq> w) (linked_ids db w)"
  have "get_session (settle_contest db w now) i =
      get_session (supersede (modify_session w (\<lambda>s. s\<lparr>replaced_by := None\<rparr>) db) ?R w now) i"
    by (cases "?R = []") (simp_all add: settle_contest_def Let_def get_supersede option.map_id0 [unfolded id_def])
  then show ?thesis
    by (cases "i = w"; cases "get_session db i") (simp_all add: get_supersede get_modify_session live_def unused_def)
qed

lemma no_rivals:
  assumes inv: "ring_inv db org" and w: "get_session db w = Some s" "live s" "replaced_by s = None"
  shows "rivals db org w = {}"
proof (cases "org w")
  case (Some t)
  have ptr: "ring_ptr (grp db org t) w = None" using ring_invD(4) [OF inv w(1,2)] w(3) Some by (simp add: live_ptr_def)
  have fin: "finite (grp db org t)" by (rule finite_grp [OF inv])
  show ?thesis
  proof (rule ccontr)
    assume "rivals db org w \<noteq> {}"
    then obtain j where j: "j \<in> grp db org t" "j \<noteq> w" using Some by (auto simp: rivals_def)
    then have "unused s" using used_empties [OF inv w(1) Some] by blast
    then have "w \<in> grp db org t" using w Some by (simp add: grp_def)
    moreover from this have "card {w, j} \<le> card (grp db org t)" using j fin by (intro card_mono) auto
    ultimately show False using j ptr by (simp add: ring_ptr_def)
  qed
qed (simp add: rivals_def)

lemma claimed_rows:
  assumes inv: "ring_inv db org" and w: "get_session db w = Some s" "live s"
  shows "get_session (claimed db s now) i = map_option (\<lambda>r. if i = w then r\<lparr>replaced_by := None\<rparr>
     else if i \<in> rivals db org w then superseded_by w now r else r) (get_session db i)"
proof -
  have ptr: "replaced_by s = live_ptr db org w" using ring_invD(4) [OF inv w] by simp
  note sid = get_session_sid [OF w(1)]
  show ?thesis
  proof (cases "replaced_by s")
    case None
    have "rivals db org w = {}" by (rule no_rivals [OF inv w None])
    moreover have "s\<lparr>replaced_by := None\<rparr> = s" using None by simp
    ultimately show ?thesis using None w(1) by (cases "get_session db i") (auto simp: claimed_def)
  next
    case (Some j)
    then obtain t where t: "org w = Some t" "w \<in> grp db org t"
      using ptr by (auto simp: live_ptr_def ring_ptr_def split: option.splits if_splits)
    then have u: "unused s" using w by (auto simp: grp_def)
    have "set (linked_ids db w) = grp db org t" by (rule linked_ids_live [OF inv w u t(1)])
    then show ?thesis
      using Some t sid by (cases "get_session db i") (auto simp: claimed_def get_settle rivals_def grp_def)
  qed
qed

lemma ring_inv_use:
  assumes inv: "ring_inv db org" and w: "get_session db w = Some s" "live s"
    and frame: "map sid (sessions db') = map sid (sessions db)" "session_seq db' = session_seq db"
    and rows: "\<And>i. get_session db' i = map_option (\<lambda>r. if i = w then g r
      else if i \<in> rivals db org w then superseded_by w now r else r) (get_session db i)"
    and g: "\<not> (live (g s) \<and> unused (g s))" "same_owner (g s) s"
      "live (g s) \<Longrightarrow> revoked_reason (g s) = None" "live (g s) \<or> revoked_reason (g s) = Some Rotated \<Longrightarrow> replaced_by (g s) = None"
      "unused (g s) \<Longrightarrow> unused s"
  shows "ring_inv db' org" "grp db' org t = (if org w = Some t then {} else grp db org t)"
proof -
  have dead: "\<not> live (superseded_by w now r)" for r by (simp add: superseded_by_def live_def)
  have no_child: "org j \<noteq> Some w" for j using ring_invD(6) [OF inv w(1)] w(2) by blast
  show grp_eq: "grp db' org t = (if org w = Some t then {} else grp db org t)" for t
  proof (intro set_eqI iffI)
    fix i assume i: "i \<in> grp db' org t"
    then have "i \<noteq> w" using w g(1) by (auto simp: grp_def rows)
    moreover have "i \<notin> rivals db org w" using i \<open>i \<noteq> w\<close> dead by (auto simp: grp_def rows)
    ultimately have "i \<in> grp db org t" using i by (auto simp: grp_def rows)
    then show "i \<in> (if org w = Some t then {} else grp db org t)"
      using \<open>i \<notin> rivals db org w\<close> \<open>i \<noteq> w\<close> by (auto simp: rivals_def)
  next
    fix i assume i: "i \<in> (if org w = Some t then {} else grp db org t)"
    then have "i \<noteq> w" "i \<notin> rivals db org w" by (auto simp: grp_def rivals_def split: if_splits option.splits)
    then show "i \<in> grp db' org t" using i by (auto simp: grp_def rows split: if_splits)
  qed
  show "ring_inv db' org"
  proof (rule ring_inv_shrink [OF inv, where D = "{t. org w = Some t}"])
    fix i s' assume "get_session db' i = Some s'"
    then obtain r where r: "get_session db i = Some r"
        "s' = (if i = w then g r else if i \<in> rivals db org w then superseded_by w now r else r)"
      by (auto simp: rows)
    have "row_shrinks db org {t. org w = Some t} i r s'"
    proof (cases "i = w")
      case True
      then have "r = s" "s' = g s" using r w by auto
      moreover have "replaced_by s = None \<or> org w \<noteq> None" using ring_invD(4) [OF inv w] by (auto simp: live_ptr_def)
      moreover have "grp db org w = {}" using no_child by (auto simp: grp_def)
      moreover have "revoked_reason s = None" using ring_invD(4) [OF inv w] by simp
      ultimately show ?thesis
        using True w(2) g by (cases "org w") (auto simp: row_shrinks_def)
    next
      case False
      show ?thesis
      proof (cases "i \<in> rivals db org w")
        case True
        then have "live r" "\<exists>t. org w = Some t \<and> org i = Some t" using r(1)
          by (auto simp: rivals_def grp_def split: option.splits)
        moreover have "grp db org i = {}" using ring_invD(6) [OF inv r(1)] \<open>live r\<close> by (auto simp: grp_def)
        ultimately show ?thesis using True False r dead by (auto simp: row_shrinks_def superseded_by_def unused_def)
      next
        case i: False
        have "replaced_by r = None" if "live r" "org i = Some t" "org w = Some t" for t
          using ring_invD(4) [OF inv r(1) that(1)] that i False r(1)
          by (auto simp: live_ptr_def ring_ptr_def rivals_def)
        then show ?thesis using i False r by (auto simp: row_shrinks_def)
      qed
    qed
    with r show "\<exists>s. get_session db i = Some s \<and> row_shrinks db org {t. org w = Some t} i s s'" by blast
  next
    fix i j s1 r1 s' r'
    assume a: "get_session db i = Some s1" "get_session db j = Some r1" "get_session db' i = Some s'"
      "get_session db' j = Some r'" "same_owner s1 r1"
    have "same_owner s' s1" "same_owner r' r1"
      using a w g(2) by (auto simp: rows same_owner_def superseded_by_def split: if_splits)
    with a(5) show "same_owner s' r'" by (simp add: same_owner_def)
  next
    fix i j s' r' t
    assume a: "get_session db' i = Some s'" "get_session db' j = Some r'" "org i = Some t" "org j = Some t" "j \<noteq> i"
      "\<not> unused s'" "live r'"
    show "\<exists>s. get_session db i = Some s \<and> \<not> unused s"
    proof (cases "i = w")
      case True
      then have jr: "j \<notin> rivals db org w" using a(2,5,7) dead by (auto simp: rows)
      then obtain r where r: "get_session db j = Some r" "live r" "j \<notin> rivals db org w"
        using True a(2,5,7) by (auto simp: rows)
      then have "\<not> unused r" using True a(3-5) by (auto simp: rivals_def grp_def)
      then show ?thesis using ring_invD(8) [OF inv r(1) a(4) _ w(1)] w(2) a(3,5) True by auto
    next
      case False
      then show ?thesis using a(1,6) by (auto simp: rows superseded_by_def unused_def split: if_splits)
    qed
  qed (use frame ring_invD(1) [OF inv] grp_eq in auto)
qed

section \<open>Rotations add a session to a group\<close>

text \<open>The shape of the table after token \<open>w\<close> was rotated into the new session \<open>m\<close>: of the sessions
  \<open>w\<close> was rotated into, those in \<open>V\<close> are live, unused and linked, the rest are not live.\<close>

lemma ring_inv_join:
  assumes inv: "ring_inv db org" and m: "m = session_seq db"
    and w: "get_session db w = Some s" "\<not> live s"
    and fresh: "\<And>i r. get_session db i = Some r \<Longrightarrow> org i = Some w \<Longrightarrow> unused r"
    and V: "m \<in> V" "V \<subseteq> insert m (grp db org w)" "card V \<le> UNUSED_SESSIONS_KEPT"
    and frame: "distinct (map sid (sessions db'))" "session_seq db' = Suc m"
    and n: "get_session db' m = Some n" "live n" "unused n" "revoked_reason n = None" "replaced_by n = ring_ptr V m" "same_owner n s"
    and s': "get_session db' w = Some s'" "\<not> live s'" "revoked_reason s' = Some Rotated" "replaced_by s' = Some m"
      "same_owner s' s" "\<not> unused s'" "\<not> unused s"
    and inV: "\<And>i r. i \<in> V \<Longrightarrow> i \<noteq> m \<Longrightarrow> get_session db i = Some r \<Longrightarrow>
      get_session db' i = Some (r\<lparr>replaced_by := ring_ptr V i\<rparr>)"
    and cut: "\<And>i r. i \<in> grp db org w \<Longrightarrow> i \<notin> V \<Longrightarrow> get_session db i = Some r \<Longrightarrow>
      get_session db' i = Some (superseded_by m now r)"
    and rest: "\<And>i. i \<noteq> m \<Longrightarrow> i \<noteq> w \<Longrightarrow> i \<notin> grp db org w \<Longrightarrow> get_session db' i = get_session db i"
  shows "ring_inv db' (org(m := Some w))" "grp db' (org(m := Some w)) t = (if t = w then V else grp db org t)"
proof -
  let ?org = "org(m := Some w)"
  have mfree: "get_session db m = None" "org m = None" "m \<noteq> w" "org j \<noteq> Some m" for j
    using ring_invD(2,3) [OF inv] m w(1) by (metis less_irrefl not_Some_eq less_imp_not_less less_trans)+
  have wU: "w \<notin> grp db org t" for t using w by (simp add: grp_def)
  have Vm: "i \<in> V \<Longrightarrow> i \<noteq> m \<Longrightarrow> i \<in> grp db org w" for i using V by auto
  have rowE: "\<exists>r. get_session db i = Some r \<and> same_owner r' r \<and> (live r' \<longrightarrow> live r \<and> revoked_reason r' = revoked_reason r) \<and>
      (unused r' = unused r) \<and> (i = w \<or> i \<in> grp db org w \<or> r' = r) \<and> (i \<in> grp db org w \<longrightarrow> live r) \<and>
      (i \<in> grp db org w \<longrightarrow> i \<notin> V \<longrightarrow> \<not> live r') \<and> (i \<in> grp db org w \<longrightarrow> revoked_reason r' \<noteq> Some Rotated)"
    if r': "get_session db' i = Some r'" "i \<noteq> m" for i r'
  proof -
    consider "i = w" | "i \<in> grp db org w" "i \<in> V" | "i \<in> grp db org w" "i \<notin> V" | "i \<noteq> w" "i \<notin> grp db org w" by blast
    then show ?thesis
    proof cases
      case 1 then show ?thesis using r' w s' wU by simp
    next
      case 2
      then obtain r where r: "get_session db i = Some r" "live r" using grp_in by blast
      have "r' = r\<lparr>replaced_by := ring_ptr V i\<rparr>" using r' inV [OF 2(2) r'(2) r(1)] by simp
      then show ?thesis using 2 r ring_invD(4) [OF inv r] by (simp add: same_owner_def live_def unused_def)
    next
      case 3
      then obtain r where r: "get_session db i = Some r" "live r" using grp_in by blast
      have "r' = superseded_by m now r" using r' cut [OF 3 r(1)] by simp
      then show ?thesis using 3 r by (simp add: same_owner_def live_def unused_def superseded_by_def)
    next
      case 4 then show ?thesis using r' rest by (auto simp: same_owner_def)
    qed
  qed
  show grp': "grp db' ?org t = (if t = w then V else grp db org t)" for t
  proof (intro set_eqI iffI)
    fix i assume i: "i \<in> grp db' ?org t"
    show "i \<in> (if t = w then V else grp db org t)"
    proof (cases "i = m")
      case False
      then obtain r' where r': "get_session db' i = Some r'" "live r'" "unused r'" "org i = Some t"
        using i by (auto simp: grp_def)
      obtain r where "get_session db i = Some r" "live r" "i = w \<or> i \<in> grp db org w \<or> r' = r" "i \<in> grp db org w \<longrightarrow> i \<in> V"
        using rowE [OF r'(1) False] r'(2) by blast
      then show ?thesis using r' w by (auto simp: grp_def)
    qed (use i V in \<open>auto simp: grp_def\<close>)
  next
    fix i assume i: "i \<in> (if t = w then V else grp db org t)"
    consider "i = m" | "i \<noteq> m" "t = w" | "i \<noteq> m" "t \<noteq> w" by blast
    then show "i \<in> grp db' ?org t"
    proof cases
      case 1
      then have "t = w" using i mfree by (auto simp: grp_def split: if_splits)
      then show ?thesis using 1 n by (simp add: grp_def)
    next
      case 2
      then have "i \<in> grp db org w" "i \<in> V" using i Vm by auto
      then show ?thesis using 2 inV by (auto simp: grp_def live_def unused_def)
    next
      case 3
      then have "i \<in> grp db org t" "i \<notin> grp db org w" "i \<noteq> w" using i wU by (auto simp: grp_def split: if_splits)
      then show ?thesis using 3 rest by (auto simp: grp_def)
    qed
  qed
  have Max: "Max V = m"
  proof (rule Max_eqI)
    show "finite V" using V(2) finite_grp [OF inv] by (meson finite_insert finite_subset)
    show "y \<le> m" if "y \<in> V" for y using that V(2) ring_invD(2) [OF inv] m by (auto simp: grp_def dest: less_imp_le)
  qed (rule V)
  have Vrow: "\<exists>r'. get_session db' i = Some r' \<and> replaced_by r' = ring_ptr V i" if "i \<in> V" for i
    using that n inV Vm grp_in by (cases "i = m") fastforce+
  show "ring_inv db' ?org"
    unfolding ring_inv_def
  proof (intro conjI allI impI)
    show "distinct (map sid (sessions db'))" by (rule frame)
    fix i j t :: nat and r q
    {
      assume r: "get_session db' i = Some r"
      have "i < m" if "i \<noteq> m" using rowE [OF r that] ring_invD(2) [OF inv] m by blast
      then show "i < session_seq db'" using frame(2) by (cases "i = m") auto
    next
      assume "?org i = Some t"
      then have "i = m \<and> t = w \<or> org i = Some t" by (auto split: if_splits)
      then show "t < i" "i < session_seq db'"
        using ring_invD(2) [OF inv w(1)] ring_invD(3) [OF inv, of i t] m frame(2) by auto
    next
      assume r: "get_session db' i = Some r" "live r"
      have ptr: "live_ptr db' ?org i = (if ?org i = Some w then ring_ptr V i else live_ptr db org i)"
        using mfree(2) by (auto simp: live_ptr_def grp' split: option.splits if_splits)
      show "replaced_by r = live_ptr db' ?org i"
      proof (cases "i \<in> V")
        case True
        then have "?org i = Some w" using V by (auto simp: grp_def)
        then show ?thesis using Vrow [OF True] r ptr by simp
      next
        case False
        then have im: "i \<noteq> m" using V by auto
        obtain r0 where r0: "get_session db i = Some r0" "live r0" "i = w \<or> i \<in> grp db org w \<or> r = r0" "i \<notin> grp db org w"
          using rowE [OF r(1) im] r(2) False by blast
        then have "r = r0" using w by auto
        moreover have "replaced_by r0 = live_ptr db org i" using ring_invD(4) [OF inv r0(1,2)] by simp
        moreover have "ring_ptr V i = None" using False by (simp add: ring_ptr_def)
        moreover have "live_ptr db org i = None" if "org i = Some w" using that r0(4) by (simp add: live_ptr_def ring_ptr_def)
        ultimately show ?thesis using ptr im by simp
      qed
      show "revoked_reason r = None"
      proof (cases "i = m")
        case False
        then obtain r0 where "get_session db i = Some r0" "live r0" "revoked_reason r = revoked_reason r0"
          using rowE [OF r(1)] r(2) by blast
        then show ?thesis using ring_invD(4) [OF inv] by auto
      qed (use n r in simp)
    next
      assume r: "get_session db' t = Some r" and g: "grp db' ?org t \<noteq> {}"
      show "replaced_by r = Some (Max (grp db' ?org t))"
      proof (cases "t = w")
        case True
        then show ?thesis using r s' grp' Max by simp
      next
        case False
        have gt: "grp db org t \<noteq> {}" "grp db' ?org t = grp db org t" using g grp' False by auto
        then have tm: "t \<noteq> m" using mfree by (auto simp: grp_def)
        then obtain r0 where r0: "get_session db t = Some r0" "t = w \<or> t \<in> grp db org w \<or> r = r0"
          "t \<in> grp db org w \<longrightarrow> live r0" using rowE r by blast
        obtain c where "org c = Some t" using gt(1) by (auto simp: grp_def)
        then have "\<not> live r0" using ring_invD(6) [OF inv r0(1)] by blast
        then show ?thesis using r0 False gt ring_invD(5) [OF inv r0(1)] by auto
      qed
    next
      assume r: "get_session db' t = Some r" and o: "?org j = Some t"
      have "\<not> live r \<and> revoked_reason r = Some Rotated \<and> \<not> unused r"
      proof (cases "t = w")
        case True then show ?thesis using r s' by simp
      next
        case False
        then have o': "org j = Some t" using o by (auto split: if_splits)
        then have tm: "t \<noteq> m" using mfree by auto
        then obtain r0 where r0: "get_session db t = Some r0" "t = w \<or> t \<in> grp db org w \<or> r = r0"
          "t \<in> grp db org w \<longrightarrow> live r0" using rowE r by blast
        then show ?thesis using False ring_invD(6) [OF inv r0(1) o'] by auto
      qed
      then show "\<not> live r" "revoked_reason r = Some Rotated" "\<not> unused r" by auto
    next
      show "card (grp db' ?org t) \<le> UNUSED_SESSIONS_KEPT" using grp' V(3) ring_invD(7) [OF inv] by simp
    next
      assume r: "get_session db' i = Some r" and o: "?org i = Some t" and u: "\<not> unused r"
      then have im: "i \<noteq> m" using n by auto
      then obtain r0 where r0: "get_session db i = Some r0" "\<not> unused r0" using rowE [OF r] u by blast
      have tw: "t \<noteq> w" "org i = Some t" using fresh [OF r0(1)] r0(2) o im by auto
      assume q: "get_session db' j = Some q" and oj: "?org j = Some t" "j \<noteq> i"
      then have jm: "j \<noteq> m" "org j = Some t" using tw(1) by (auto split: if_splits)
      then obtain q0 where "get_session db j = Some q0" "live q \<longrightarrow> live q0" using rowE [OF q] by blast
      then show "\<not> live q" using ring_invD(8) [OF inv r0(1) tw(2) r0(2) _ jm(2) oj(2)] by blast
    next
      assume r: "get_session db' i = Some r" and q: "revoked_reason r = Some Rotated" "replaced_by r = Some j"
      then have im: "i \<noteq> m" using n by auto
      show "?org j = Some i"
      proof (cases "i = w")
        case True then show ?thesis using r q s' by simp
      next
        case False
        obtain r0 where r0: "get_session db i = Some r0" "i \<in> grp db org w \<or> r = r0" "i \<notin> grp db org w"
          using rowE [OF r im] q False by blast
        then have "org j = Some i" using q ring_invD(9) [OF inv r0(1)] by blast
        then show ?thesis using mfree(2) by auto
      qed
    next
      assume rq: "get_session db' i = Some r" "get_session db' j = Some q" and o: "?org i = Some t" "j = t \<or> ?org j = Some t"
      have own: "\<exists>r0. get_session db k = Some r0 \<and> same_owner r1 r0" if "get_session db' k = Some r1" "k \<noteq> m" for k r1
        using rowE [OF that] by blast
      have kin: "same_owner r1 s" if k: "get_session db' k = Some r1" "k = w \<or> ?org k = Some w" for k r1
      proof (cases "k = m")
        case True then show ?thesis using n k by simp
      next
        case False
        then obtain r0 where r0: "get_session db k = Some r0" "same_owner r1 r0" using own [OF k(1)] by blast
        moreover have "same_owner r0 s"
          using False k(2) r0(1) w ring_invD(10) [OF inv r0(1) w(1)] by (auto simp: same_owner_def)
        ultimately show ?thesis by (simp add: same_owner_def)
      qed
      show "same_owner r q"
      proof (cases "t = w")
        case True
        then show ?thesis using kin [OF rq(1)] kin [OF rq(2)] o by (auto simp: same_owner_def)
      next
        case False
        then have o': "org i = Some t" "i \<noteq> m" "j \<noteq> m" "j = t \<or> org j = Some t"
          using o mfree by (auto split: if_splits)
        obtain r0 q0 where "get_session db i = Some r0" "same_owner r r0" "get_session db j = Some q0" "same_owner q q0"
          using own rq o' by metis
        then show ?thesis using ring_invD(10) [OF inv _ _ o'(1,4)] by (auto simp: same_owner_def)
      qed
    }
  qed
qed

section \<open>The requests keep the invariant\<close>

lemma insert_sessionD:
  assumes "insert_session db u dev h e now = Some (m, db')"
  shows "m = session_seq db" "session_seq db' = Suc m" "users db' = users db"
    "map sid (sessions db') = map sid (sessions db) @ [m]"
    "h \<notin> refresh_token_hash ` set (sessions db)"
    "sessions db' = sessions db @ [new_session m u dev h e now]"
  using assms by (auto simp: insert_session_def new_session_def split: if_splits)

lemma get_insert_session:
  assumes "insert_session db u dev h e now = Some (m, db')" "get_session db m = None"
  shows "get_session db' i = (if i = m then Some (new_session m u dev h e now) else get_session db i)"
  using assms(2) by (auto simp: get_session_def insert_sessionD(6) [OF assms(1)] new_session_def split: option.splits)

lemma seq_free: "ring_inv db org \<Longrightarrow> get_session db (session_seq db) = None"
  using ring_invD(2) by (metis less_irrefl not_Some_eq)

lemma new_session_props [simp]:
  "live (new_session m u dev h e now)" "unused (new_session m u dev h e now)"
  "revoked_reason (new_session m u dev h e now) = None" "replaced_by (new_session m u dev h e now) = None"
  "s_user (new_session m u dev h e now) = u" "s_device (new_session m u dev h e now) = dev"
  "sid (new_session m u dev h e now) = m" "refresh_token_hash (new_session m u dev h e now) = h"
  "expires_at (new_session m u dev h e now) = e"
  by (simp_all add: new_session_def live_def unused_def)

lemma mark_rotated_props [simp]:
  "\<not> live (mark_rotated m now s)" "\<not> unused (mark_rotated m now s)"
  "revoked_reason (mark_rotated m now s) = Some Rotated" "replaced_by (mark_rotated m now s) = Some m"
  "s_user (mark_rotated m now s) = s_user s" "s_device (mark_rotated m now s) = s_device s"
  "sid (mark_rotated m now s) = sid s" "expires_at (mark_rotated m now s) = expires_at s"
  by (simp_all add: mark_rotated_def live_def unused_def split: option.splits)

lemma pointer_update_props [simp]:
  "live (s\<lparr>replaced_by := p\<rparr>) = live s" "unused (s\<lparr>replaced_by := p\<rparr>) = unused s"
  "live (s\<lparr>rerotated_at := q\<rparr>) = live s" "unused (s\<lparr>rerotated_at := q\<rparr>) = unused s"
  by (simp_all add: live_def unused_def)

lemma ring_inv_sign_in:
  assumes inv: "ring_inv db org" and ins: "insert_session db u dev h e now = Some (m, db')"
  shows "ring_inv db' org"
proof -
  note D = insert_sessionD [OF ins]
  have get: "get_session db' i = (if i = m then Some (new_session m u dev h e now) else get_session db i)" for i
    using get_insert_session [OF ins] seq_free [OF inv] D(1) by simp
  have mfree: "org m = None" "org j \<noteq> Some m" for j
    using ring_invD(3) [OF inv] D(1) by (metis less_irrefl not_Some_eq less_imp_not_less less_trans)+
  have grp: "grp db' org t = grp db org t" for t using mfree by (auto simp: grp_def get)
  have ptr: "live_ptr db' org i = live_ptr db org i" for i by (cases "org i") (simp_all add: live_ptr_def grp)
  have "m \<notin> set (map sid (sessions db))"
    using seq_free [OF inv] D(1) by (simp add: get_session_def row_get_None_iff)
  then have dist: "distinct (map sid (sessions db'))" using D(4) ring_invD(1) [OF inv] by simp
  have seq: "i < session_seq db'" if "get_session db' i = Some s" for i s
    using that ring_invD(2) [OF inv, of i s] D(1,2) by (simp add: get split: if_splits)
  have oseq: "t < i \<and> i < session_seq db'" if "org i = Some t" for i t
    using ring_invD(3) [OF inv that] D(1,2) by simp
  have new: "live_ptr db org m = None" "grp db org m = {}" using mfree by (auto simp: live_ptr_def grp_def)
  have old: "i = m \<and> r = new_session m u dev h e now \<or> i \<noteq> m \<and> get_session db i = Some r" if "get_session db' i = Some r" for i r
    using that by (auto simp: get split: if_splits)
  show ?thesis
    unfolding ring_inv_def grp ptr
  proof (intro conjI allI impI)
    fix i j t :: nat and r q
    {
      assume r: "get_session db' i = Some r" "live r"
      show "replaced_by r = live_ptr db org i" "revoked_reason r = None"
        using old [OF r(1)] new ring_invD(4) [OF inv] r(2) by auto
    next
      assume r: "get_session db' t = Some r" "grp db org t \<noteq> {}"
      show "replaced_by r = Some (Max (grp db org t))" using old [OF r(1)] r(2) new ring_invD(5) [OF inv] by metis
    next
      assume r: "get_session db' t = Some r" "org j = Some t"
      show "\<not> live r" "revoked_reason r = Some Rotated" "\<not> unused r"
        using old [OF r(1)] mfree(2) [of j] r(2) ring_invD(6) [OF inv _ r(2)] by auto
    next
      assume r: "get_session db' i = Some r" "org i = Some t" "\<not> unused r" "get_session db' j = Some q" "org j = Some t" "j \<noteq> i"
      have "get_session db i = Some r" "get_session db j = Some q" using old [OF r(1)] old [OF r(4)] r mfree(1) by auto
      then show "\<not> live q" using ring_invD(8) [OF inv _ r(2,3) _ r(5,6)] by blast
    next
      assume r: "get_session db' i = Some r" "revoked_reason r = Some Rotated" "replaced_by r = Some j"
      show "org j = Some i" using old [OF r(1)] r ring_invD(9) [OF inv] by auto
    next
      assume r: "get_session db' i = Some r" "get_session db' j = Some q" "org i = Some t" "j = t \<or> org j = Some t"
      have "i \<noteq> m" "j \<noteq> m" using r(3,4) mfree by auto
      then show "same_owner r q" using old [OF r(1)] old [OF r(2)] ring_invD(10) [OF inv _ _ r(3,4)] by blast
    }
  qed (use dist seq oseq ring_invD(7) [OF inv] in auto)
qed

text \<open>A rotation of a live session: its group is emptied and the new session is alone in its own.\<close>

lemma rotate_live_rows:
  assumes inv: "ring_inv db org" and w: "get_session db (sid s) = Some s" "live s"
    and rot: "rotate c st db s now tok = Inr (m, res, db')"
  defines "h \<equiv> hash_refresh_token c (auth_refresh_hmac_key st) tok"
  shows "m = session_seq db" "session_seq db' = Suc m" "users db' = users db"
    "map sid (sessions db') = map sid (sessions db) @ [m]"
    "get_session db' i =
      (if i = m then Some (new_session m (s_user s) (s_device s) h (now + days (auth_refresh_token_ttl_days st)) now)
       else if i = sid s then Some (mark_rotated m now s)
       else if i \<in> rivals db org (sid s) then map_option (superseded_by (sid s) now) (get_session db i)
       else get_session db i)"
proof -
  have c: "(if live s \<and> replaced_by s \<noteq> None then settle_contest db (sid s) now else db) = claimed db s now"
    using w(2) by (simp add: claimed_def)
  obtain db2 where ins: "insert_session (claimed db s now) (s_user s) (s_device s) h
      (now + days (auth_refresh_token_ttl_days st)) now = Some (m, db2)"
    and db': "db' = modify_session (sid s) (mark_rotated m now) db2"
    using rot unfolding rotate_def Let_def c h_def by (auto split: option.splits)
  note D = insert_sessionD [OF ins]
  show m: "m = session_seq db" and "session_seq db' = Suc m" "users db' = users db"
    using D db' by simp_all
  have sid: "sid (mark_rotated m now r) = sid r" for r by (simp add: mark_rotated_def)
  show "map sid (sessions db') = map sid (sessions db) @ [m]" using D db' sid by (simp add: sids_modify_session)
  have free: "get_session (claimed db s now) m = None"
    using claimed_rows [OF inv w] seq_free [OF inv] m by simp
  have "sid s \<noteq> m" using seq_free [OF inv] w(1) m by auto
  moreover have "mark_rotated m now (s\<lparr>replaced_by := None\<rparr>) = mark_rotated m now s" by (simp add: mark_rotated_def)
  ultimately show "get_session db' i =
      (if i = m then Some (new_session m (s_user s) (s_device s) h (now + days (auth_refresh_token_ttl_days st)) now)
       else if i = sid s then Some (mark_rotated m now s)
       else if i \<in> rivals db org (sid s) then map_option (superseded_by (sid s) now) (get_session db i)
       else get_session db i)"
    using w(1) by (simp add: db' get_modify_session sid get_insert_session [OF ins free] claimed_rows [OF inv w] option.map_ident)
qed

lemma ring_inv_rotate:
  assumes inv: "ring_inv db org" and w: "get_session db (sid s) = Some s" "live s"
    and rot: "rotate c st db s now tok = Inr (m, res, db')"
  shows "ring_inv db' (org(m := Some (sid s)))"
    "grp db' (org(m := Some (sid s))) t = (if t = sid s then {m} else if org (sid s) = Some t then {} else grp db org t)"
proof -
  let ?w = "sid s"
  note R = rotate_live_rows [OF inv w rot]
  define g where "g r = (mark_rotated m now r)\<lparr>replaced_by := None\<rparr>" for r
  define dbA where "dbA = modify_session ?w g (claimed db s now)"
  have gsid: "sid (g r) = sid r" for r by (simp add: g_def mark_rotated_def)
  have rowsA: "get_session dbA i = map_option (\<lambda>r. if i = ?w then g r
      else if i \<in> rivals db org ?w then superseded_by ?w now r else r) (get_session db i)" for i
  proof -
    have "g (r\<lparr>replaced_by := None\<rparr>) = g r" for r by (simp add: g_def mark_rotated_def)
    then show ?thesis
      by (cases "i = ?w"; cases "get_session db i")
        (simp_all add: dbA_def get_modify_session gsid claimed_rows [OF inv w])
  qed
  have A: "ring_inv dbA org" "\<And>t. grp dbA org t = (if org ?w = Some t then {} else grp db org t)"
    by (rule ring_inv_use [OF inv w _ _ rowsA];
        simp add: dbA_def sids_modify_session gsid g_def same_owner_def)+
  have seqA: "session_seq dbA = m" using R(1) by (simp add: dbA_def)
  have no_child: "org j \<noteq> Some ?w" for j using ring_invD(6) [OF inv w(1)] w(2) by blast
  have wA: "get_session dbA ?w = Some (g s)" using rowsA w by simp
  have wm: "?w \<noteq> m" using R(1) seq_free [OF inv] w(1) by auto
  have noU: "grp dbA org ?w = {}" using no_child by (auto simp: grp_def)
  have "m \<notin> set (map sid (sessions db))" using R(1) seq_free [OF inv] by (simp add: get_session_def row_get_None_iff)
  then have dist: "distinct (map sid (sessions db'))" using R(4) ring_invD(1) [OF inv] by simp
  have join: "ring_inv db' (org(m := Some ?w)) \<and> grp db' (org(m := Some ?w)) t = (if t = ?w then {m} else grp dbA org t)" for t
    by (intro conjI; rule ring_inv_join [OF A(1) seqA [symmetric] wA, where V = "{m}"
          and n = "new_session m (s_user s) (s_device s) (hash_refresh_token c (auth_refresh_hmac_key st) tok)
             (now + days (auth_refresh_token_ttl_days st)) now" and s' = "mark_rotated m now s"])
      (use noU no_child wm dist R(2,5) in
        \<open>auto simp: UNUSED_SESSIONS_KEPT_def g_def ring_ptr_def same_owner_def rowsA option.map_ident\<close>)
  show "ring_inv db' (org(m := Some ?w))"
    "grp db' (org(m := Some ?w)) t = (if t = ?w then {m} else if org ?w = Some t then {} else grp db org t)"
    using join [of t] A(2) [of t] by simp_all
qed

text \<open>The ring after a member joined: \<open>kept\<close> is what stays live of the group \<open>U\<close> and the new session \<open>m\<close>.\<close>

definition kept :: "nat set \<Rightarrow> nat \<Rightarrow> nat set" where
  "kept U m = (if card U < UNUSED_SESSIONS_KEPT then insert m U else insert m U - {Min U})"

lemma ring_ptr_Max_next:
  assumes "finite U" "U \<noteq> {}"
  shows "(case ring_ptr U (Max U) of None \<Rightarrow> Max U | Some j \<Rightarrow> j) = Min U"
proof (cases "2 \<le> card U")
  case False
  then have "card U = 1" using assms by (simp add: card_gt_0_iff order_antisym Suc_leI not_le less_Suc_eq_le)
  then obtain x where "U = {x}" by (auto simp: card_1_singleton_iff)
  then show ?thesis by (simp add: ring_ptr_def)
qed (use assms in \<open>simp add: ring_ptr_def cyc_next_Max\<close>)

lemma linked_pair:
  assumes U: "finite U" "U \<noteq> {}" "\<And>j. j \<in> U \<Longrightarrow> j < m"
    and rows: "\<And>i. i \<in> U \<Longrightarrow> \<exists>r. get_session db i = Some r \<and> live r \<and> unused r \<and> replaced_by r = ring_ptr U i"
    and n: "get_session db m = Some n" "live n" "unused n"
    and db2: "\<And>i. get_session db2 i = (if i = Max U then map_option (\<lambda>s. s\<lparr>replaced_by := Some m\<rparr>) (get_session db i)
       else if i = m then map_option (\<lambda>s. s\<lparr>replaced_by := Some (Min U)\<rparr>) (get_session db i) else get_session db i)"
  shows "get_session db2 i = (if i \<in> insert m U then map_option (\<lambda>s. s\<lparr>replaced_by := Some (cyc_next (insert m U) i)\<rparr>) (get_session db i)
       else get_session db i)"
    "sort (linked_ids db2 m) = sorted_list_of_set (insert m U)"
proof -
  have MU: "Max U \<in> U" using U by simp
  show rows2: "get_session db2 i = (if i \<in> insert m U then map_option (\<lambda>s. s\<lparr>replaced_by := Some (cyc_next (insert m U) i)\<rparr>) (get_session db i)
       else get_session db i)" for i
  proof (cases "i \<in> insert m U")
    case True
    then have nx: "cyc_next (insert m U) i = (if i = Max U then m else if i = m then Min U else cyc_next U i)"
      using cyc_next_insert_max [OF U(1,2)] U(3) by blast
    show ?thesis
    proof (cases "i = Max U \<or> i = m")
      case False
      then have iU: "i \<in> U" using True by auto
      obtain r where r: "get_session db i = Some r" "replaced_by r = ring_ptr U i" using rows [OF iU] by blast
      have "card {i, Max U} \<le> card U" using iU MU U(1) by (intro card_mono) auto
      then have "replaced_by r = Some (cyc_next U i)" using False r iU by (simp add: ring_ptr_def)
      then have "r\<lparr>replaced_by := Some (cyc_next U i)\<rparr> = r" by simp
      then show ?thesis using False True nx r by (simp add: db2)
    qed (use MU nx db2 in auto)
  qed (use MU db2 in auto)
  have lv: "\<exists>s. get_session db2 i = Some s \<and> live s \<and> replaced_by s = Some (cyc_next (insert m U) i)" if i: "i \<in> insert m U" for i
  proof -
    obtain r where "get_session db i = Some r" "live r" using i rows n by blast
    then show ?thesis using i by (simp add: rows2)
  qed
  have "set (linked_ids db2 m) = insert m U" "distinct (linked_ids db2 m)"
    using linked_ids_group [of "insert m U" m db2] lv U(1) by blast+
  then show "sort (linked_ids db2 m) = sorted_list_of_set (insert m U)"
    using sorted_list_of_set_sort_remdups [of "linked_ids db2 m"] by (simp add: distinct_remdups_id)
qed

lemma sorted_set_cut:
  fixes U :: "nat set"
  assumes "finite U" "2 \<le> card U"
  shows "take 1 (sorted_list_of_set U) = [Min U]" "sorted_list_of_set U ! 1 = Min (U - {Min U})"
proof -
  have "U \<noteq> {}" "U - {Min U} \<noteq> {}"
    using assms by (auto, metis One_nat_def Suc_1 card_1_singleton_iff card_mono empty_not_insert finite.emptyI finite.insertI not_less_eq_eq subset_singleton_iff Diff_eq_empty_iff)
  then have "sorted_list_of_set U = Min U # Min (U - {Min U}) # sorted_list_of_set (U - {Min U} - {Min (U - {Min U})})"
    using assms(1) by (metis finite_Diff sorted_list_of_set_nonempty)
  then show "take 1 (sorted_list_of_set U) = [Min U]" "sorted_list_of_set U ! 1 = Min (U - {Min U})" by simp_all
qed

lemma join_ring_rows:
  assumes U: "finite U" "U \<noteq> {}" "\<And>j. j \<in> U \<Longrightarrow> j < m" "card U \<le> UNUSED_SESSIONS_KEPT"
    and rows: "\<And>i. i \<in> U \<Longrightarrow> \<exists>r. get_session db i = Some r \<and> live r \<and> unused r \<and> replaced_by r = ring_ptr U i"
    and n: "get_session db m = Some n" "live n" "unused n"
  shows "get_session (join_ring db m (Max U) (ring_ptr U (Max U)) now) i =
    (if i \<in> kept U m then map_option (\<lambda>r. r\<lparr>replaced_by := ring_ptr (kept U m) i\<rparr>) (get_session db i)
     else if i \<in> U then map_option (superseded_by m now) (get_session db i)
     else get_session db i)"
proof -
  let ?W = "insert m U"
  have mU: "m \<notin> U" using U(3) by blast
  have MU: "Max U \<in> U" using U by simp
  then have ne: "Max U \<noteq> m" using mU by metis
  have cW: "card ?W = Suc (card U)" "2 \<le> card ?W" using U(1,2) mU card_gt_0_iff [of U] by auto
  define db2 where "db2 = modify_session (Max U) (\<lambda>s. s\<lparr>replaced_by := Some m\<rparr>)
     (modify_session m (\<lambda>s. s\<lparr>replaced_by := Some (Min U)\<rparr>) db)"
  have get2: "get_session db2 i = (if i = Max U then map_option (\<lambda>s. s\<lparr>replaced_by := Some m\<rparr>) (get_session db i)
       else if i = m then map_option (\<lambda>s. s\<lparr>replaced_by := Some (Min U)\<rparr>) (get_session db i) else get_session db i)" for i
    using ne by (simp add: db2_def get_modify_session)
  have L: "\<And>i. get_session db2 i = (if i \<in> ?W then map_option (\<lambda>s. s\<lparr>replaced_by := Some (cyc_next ?W i)\<rparr>) (get_session db i)
       else get_session db i)" "sort (linked_ids db2 m) = sorted_list_of_set ?W"
    by ((rule linked_pair [OF U(1,2) _ _ n]; fact U(3) rows get2)+)
  have len: "length (sorted_list_of_set ?W) = Suc (card U)" using cW U(1) by (simp only: length_sorted_list_of_set)
  have J: "join_ring db m (Max U) (ring_ptr U (Max U)) now =
     (if card U < UNUSED_SESSIONS_KEPT then db2
      else supersede (modify_session m (\<lambda>s. s\<lparr>replaced_by := Some (Min (?W - {Min ?W}))\<rparr>) db2) [Min ?W] m now)"
  proof -
    have J1: "join_ring db m (Max U) (ring_ptr U (Max U)) now =
       (let ring = sorted_list_of_set ?W; k = length ring
        in if k > UNUSED_SESSIONS_KEPT
          then supersede (modify_session m (\<lambda>s. s\<lparr>replaced_by := Some (ring ! (k - UNUSED_SESSIONS_KEPT))\<rparr>) db2)
            (take (k - UNUSED_SESSIONS_KEPT) ring) m now
          else db2)"
      unfolding join_ring_def ring_ptr_Max_next [OF U(1,2)] Let_def
      unfolding db2_def [symmetric] unfolding L(2) by (rule refl)
    show ?thesis
    proof (cases "card U < UNUSED_SESSIONS_KEPT")
      case False
      then have "Suc (card U) - UNUSED_SESSIONS_KEPT = 1" "UNUSED_SESSIONS_KEPT < Suc (card U)" using U(4) by simp_all
      then show ?thesis
        using False sorted_set_cut [of ?W] U(1) cW(2) unfolding J1 Let_def len by (simp only: finite_insert if_True if_False)
    qed (simp only: J1 Let_def len, simp)
  qed
  show ?thesis
  proof (cases "card U < UNUSED_SESSIONS_KEPT")
    case True
    then show ?thesis unfolding J using cW(2) by (auto simp: L(1) kept_def ring_ptr_def)
  next
    case False
    have "Min U \<in> U" using U by simp
    then have "Min U < m" using U(3) by blast
    then have Min: "Min ?W = Min U" using U by simp
    have Max: "Max ?W = m" using U by (intro Max_eqI) (auto dest: U(3))
    let ?V = "?W - {Min U}"
    have cV: "2 \<le> card ?V"
      using False cW U(1) \<open>Min U \<in> U\<close> by (simp add: UNUSED_SESSIONS_KEPT_def)
    have nV: "cyc_next ?V i = (if i = m then Min ?V else cyc_next ?W i)" if "i \<in> ?V"
      using cyc_next_remove_min [of ?W i] U(1) cW(2) that unfolding Min Max by simp
    show ?thesis
    proof (cases "i = Min U")
      case True
      obtain r where "get_session db i = Some r" "live r" "unused r" using rows \<open>Min U \<in> U\<close> True by blast
      then show ?thesis
        unfolding J using False True \<open>Min U \<in> U\<close> \<open>Min U < m\<close>
        by (simp add: Min get_supersede get_modify_session L(1) kept_def superseded_by_def)
    next
      case i: False
      have "get_session (join_ring db m (Max U) (ring_ptr U (Max U)) now) i =
          (if i = m then map_option (\<lambda>s. s\<lparr>replaced_by := Some (Min ?V)\<rparr>) (get_session db2 i) else get_session db2 i)"
        unfolding J using False i by (simp add: Min get_supersede get_modify_session option.map_ident)
      also have "\<dots> = (if i \<in> ?V then map_option (\<lambda>r. r\<lparr>replaced_by := ring_ptr ?V i\<rparr>) (get_session db i) else get_session db i)"
        using i nV cV \<open>Min U < m\<close> by (auto simp: L(1) ring_ptr_def option.map_comp comp_def)
      finally show ?thesis using False i by (auto simp: kept_def)
    qed
  qed
qed

lemma kept_facts:
  assumes "finite U" "U \<noteq> {}" "\<And>j. j \<in> U \<Longrightarrow> j < m" "card U \<le> UNUSED_SESSIONS_KEPT"
  shows "m \<in> kept U m" "kept U m \<subseteq> insert m U" "card (kept U m) \<le> UNUSED_SESSIONS_KEPT"
proof -
  have mn: "Min U \<in> U" "m \<notin> U" using assms(1-3) by auto
  then have "Min U \<noteq> m" by metis
  then show "m \<in> kept U m" "kept U m \<subseteq> insert m U" by (auto simp: kept_def)
  show "card (kept U m) \<le> UNUSED_SESSIONS_KEPT" using assms(1,4) mn by (simp add: kept_def)
qed

lemma successor_is_newest:
  assumes inv: "ring_inv db org" and w: "get_session db w = Some s" "replaced_by s = Some j" "get_session db j = Some q"
    and may: "may_rotate_again s (Some q)"
  shows "j = Max (grp db org w)" "j \<in> grp db org w" "org j = Some w" "\<not> unused s" "\<not> live s"
    "replaced_by q = ring_ptr (grp db org w) j"
proof -
  have q: "revoked_reason s = Some Rotated" "live q" "unused q" using may by (auto simp: may_rotate_again_def)
  show o: "org j = Some w" using ring_invD(9) [OF inv w(1) q(1) w(2)] .
  then show jg: "j \<in> grp db org w" using w(3) q by (simp add: grp_def)
  then show "j = Max (grp db org w)" using ring_invD(5) [OF inv w(1)] w(2) by force
  show "\<not> unused s" "\<not> live s" using ring_invD(6) [OF inv w(1) o] by auto
  show "replaced_by q = ring_ptr (grp db org w) j" using ring_invD(4) [OF inv w(3) q(2)] o by (simp add: live_ptr_def)
qed

lemma rotate_again_rows:
  assumes inv: "ring_inv db org" and w: "get_session db (sid s) = Some s" "replaced_by s = Some j" "get_session db j = Some q"
    and may: "may_rotate_again s (Some q)"
    and rot: "rotate_again c st db s q now tok = Inr (res, db')"
  defines "m \<equiv> session_seq db" and "U \<equiv> grp db org (sid s)"
  defines "n \<equiv> new_session m (s_user s) (s_device s) (hash_refresh_token c (auth_refresh_hmac_key st) tok)
      (now + days (auth_refresh_token_ttl_days st)) now"
  shows "session_seq db' = Suc m" "map sid (sessions db') = map sid (sessions db) @ [m]"
    "get_session db' i = (if i = m then Some (n\<lparr>replaced_by := ring_ptr (kept U m) m\<rparr>)
       else if i = sid s then Some ((mark_rotated m now s)\<lparr>rerotated_at := Some now\<rparr>)
       else if i \<in> kept U m then map_option (\<lambda>r. r\<lparr>replaced_by := ring_ptr (kept U m) i\<rparr>) (get_session db i)
       else if i \<in> U then map_option (superseded_by m now) (get_session db i)
       else get_session db i)"
    "users db' = users db"
proof -
  note S = successor_is_newest [OF inv w may]
  obtain m' db1 where ins': "insert_session db (s_user s) (s_device s) (hash_refresh_token c (auth_refresh_hmac_key st) tok)
      (now + days (auth_refresh_token_ttl_days st)) now = Some (m', db1)"
    and db'': "db' = modify_session (sid s) (\<lambda>s. s\<lparr>rerotated_at := Some now\<rparr>)
       (join_ring (modify_session (sid s) (mark_rotated m' now) db1) m' (sid q) (replaced_by q) now)"
    using rot S(5) by (auto simp: rotate_again_def rotate_def Let_def split: option.splits)
  have mm: "m' = m" using insert_sessionD(1) [OF ins'] by (simp add: m_def)
  note ins = ins' [unfolded mm] and db' = db'' [unfolded mm]
  note D = insert_sessionD [OF ins]
  let ?db2 = "modify_session (sid s) (mark_rotated m now) db1"
  have free: "get_session db m = None" using seq_free [OF inv] by (simp add: m_def)
  have ws: "sid s \<noteq> m" "sid s \<notin> U" using free w(1) S(5) by (auto simp: U_def grp_def)
  have get2: "get_session ?db2 i = (if i = m then Some n else if i = sid s then Some (mark_rotated m now s) else get_session db i)" for i
    using w(1) ws by (simp add: get_modify_session get_insert_session [OF ins free] n_def)
  have q: "sid q = Max U" "replaced_by q = ring_ptr U (Max U)" using S get_session_sid [OF w(3)] by (simp_all add: U_def)
  have U: "finite U" "U \<noteq> {}" "card U \<le> UNUSED_SESSIONS_KEPT"
    using finite_grp [OF inv] S(2) ring_invD(7) [OF inv] by (auto simp: U_def)
  have Um: "j < m" if "j \<in> U" for j using that ring_invD(2) [OF inv] by (auto simp: U_def grp_def m_def)
  have rows: "\<exists>r. get_session ?db2 i = Some r \<and> live r \<and> unused r \<and> replaced_by r = ring_ptr U i" if i: "i \<in> U" for i
  proof -
    obtain r where r: "get_session db i = Some r" "live r" "unused r" "org i = Some (sid s)" using i by (auto simp: U_def grp_def)
    then have "replaced_by r = ring_ptr U i" using ring_invD(4) [OF inv r(1,2)] by (simp add: live_ptr_def U_def)
    moreover have "i \<noteq> m" "i \<noteq> sid s" using i Um ws by auto
    ultimately show ?thesis using r by (simp add: get2)
  qed
  have J: "get_session (join_ring ?db2 m (sid q) (replaced_by q) now) i =
    (if i \<in> kept U m then map_option (\<lambda>r. r\<lparr>replaced_by := ring_ptr (kept U m) i\<rparr>) (get_session ?db2 i)
     else if i \<in> U then map_option (superseded_by m now) (get_session ?db2 i) else get_session ?db2 i)" for i
    unfolding q by (rule join_ring_rows [OF U(1,2) _ U(3), where n = n]) (use Um rows in \<open>simp_all add: get2 n_def\<close>)
  have K: "m \<in> kept U m" "kept U m \<subseteq> insert m U" using kept_facts [of U m] U Um by auto
  then have sk: "sid s \<notin> kept U m" using ws by auto
  show "get_session db' i = (if i = m then Some (n\<lparr>replaced_by := ring_ptr (kept U m) m\<rparr>)
       else if i = sid s then Some ((mark_rotated m now s)\<lparr>rerotated_at := Some now\<rparr>)
       else if i \<in> kept U m then map_option (\<lambda>r. r\<lparr>replaced_by := ring_ptr (kept U m) i\<rparr>) (get_session db i)
       else if i \<in> U then map_option (superseded_by m now) (get_session db i)
       else get_session db i)"
    using ws sk K(1) by (simp add: db' get_modify_session J get2)
  have "session_seq (join_ring d m x y now) = session_seq d" "users (join_ring d m x y now) = users d"
    "map sid (sessions (join_ring d m x y now)) = map sid (sessions d)" for d x y
    by (simp_all add: join_ring_def Let_def sids_modify_session sids_supersede)
  then show "session_seq db' = Suc m" "map sid (sessions db') = map sid (sessions db) @ [m]" "users db' = users db"
    using D by (simp_all add: db' sids_modify_session)
qed

lemma ring_inv_rotate_again:
  assumes inv: "ring_inv db org" and w: "get_session db (sid s) = Some s" "replaced_by s = Some j" "get_session db j = Some q"
    and may: "may_rotate_again s (Some q)"
    and rot: "rotate_again c st db s q now tok = Inr (res, db')"
  defines "m \<equiv> session_seq db"
  shows "ring_inv db' (org(m := Some (sid s)))"
    "grp db' (org(m := Some (sid s))) t = (if t = sid s then kept (grp db org (sid s)) m else grp db org t)"
proof -
  let ?U = "grp db org (sid s)"
  note S = successor_is_newest [OF inv w may]
  note R = rotate_again_rows [OF inv w may rot, folded m_def]
  have U: "finite ?U" "?U \<noteq> {}" "card ?U \<le> UNUSED_SESSIONS_KEPT"
    using finite_grp [OF inv] S(2) ring_invD(7) [OF inv] by auto
  have Um: "j < m" if "j \<in> ?U" for j using that ring_invD(2) [OF inv] by (auto simp: grp_def m_def)
  have K: "m \<in> kept ?U m" "kept ?U m \<subseteq> insert m ?U" "card (kept ?U m) \<le> UNUSED_SESSIONS_KEPT"
    by (intro kept_facts [OF U(1,2) Um U(3)]; assumption)+
  have free: "get_session db m = None" using seq_free [OF inv] by (simp add: m_def)
  have ws: "sid s \<noteq> m" "sid s \<notin> ?U" "sid s \<notin> kept ?U m" using free w(1) S(5) K(2) by (auto simp: grp_def)
  have mU: "m \<notin> ?U" using Um by blast
  have "m \<notin> set (map sid (sessions db))" using free by (simp add: get_session_def row_get_None_iff)
  then have dist: "distinct (map sid (sessions db'))" using R(2) ring_invD(1) [OF inv] by simp
  have fresh: "unused r" if "get_session db i = Some r" "org i = Some (sid s)" for i r
    using used_empties [OF inv that] U(2) by blast
  have "ring_inv db' (org(m := Some (sid s))) \<and>
      grp db' (org(m := Some (sid s))) t = (if t = sid s then kept ?U m else grp db org t)" for t
    by (intro conjI; rule ring_inv_join [OF inv m_def [THEN meta_eq_to_obj_eq] w(1) S(5) fresh K dist R(1),
          where now = now and n = "(new_session m (s_user s) (s_device s) (hash_refresh_token c (auth_refresh_hmac_key st) tok)
             (now + days (auth_refresh_token_ttl_days st)) now)\<lparr>replaced_by := ring_ptr (kept ?U m) m\<rparr>"
          and s' = "(mark_rotated m now s)\<lparr>rerotated_at := Some now\<rparr>"])
      (use K ws mU S(4) in \<open>auto simp: R(3) same_owner_def\<close>)
  then show "ring_inv db' (org(m := Some (sid s)))"
    "grp db' (org(m := Some (sid s))) t = (if t = sid s then kept ?U m else grp db org t)" by blast+
qed

lemma used_not_linked:
  assumes inv: "ring_inv db org" and w: "get_session db w = Some s" "live s" "\<not> unused s"
  shows "replaced_by s = None"
  using ring_invD(4) [OF inv w(1,2)] used_empties [OF inv w(1) _ w(3)]
  by (cases "org w") (auto simp: live_ptr_def ring_ptr_def)

lemma record_first_use_claimed:
  "record_first_use db s now = modify_session (sid s)
     (\<lambda>r. if unused r then r\<lparr>first_used_at := Some now\<rparr> else r) (claimed db s now)"
  by (simp add: record_first_use_def claimed_def Let_def)

lemma first_use_rows:
  assumes inv: "ring_inv db org" and w: "get_session db (sid s) = Some s" "live s"
  shows "get_session (record_first_use db s now) i = map_option (\<lambda>r. if i = sid s
      then (if unused r then r\<lparr>first_used_at := Some now, replaced_by := None\<rparr> else r\<lparr>replaced_by := None\<rparr>)
      else if i \<in> rivals db org (sid s) then superseded_by (sid s) now r else r) (get_session db i)"
  by (cases "i = sid s"; cases "get_session db i")
    (simp_all add: record_first_use_claimed get_modify_session claimed_rows [OF inv w])

lemma first_use_frame [simp]:
  "session_seq (record_first_use db s now) = session_seq db" "users (record_first_use db s now) = users db"
  "map sid (sessions (record_first_use db s now)) = map sid (sessions db)"
  by (simp_all add: record_first_use_claimed sids_modify_session)

lemma ring_inv_first_use:
  assumes inv: "ring_inv db org" and w: "get_session db (sid s) = Some s" "live s"
  shows "ring_inv (record_first_use db s now) org"
    "grp (record_first_use db s now) org t = (if org (sid s) = Some t then {} else grp db org t)"
proof -
  have r: "revoked_reason s = None" using ring_invD(4) [OF inv w] by simp
  show "ring_inv (record_first_use db s now) org"
    by (rule ring_inv_use(1) [OF inv w _ _ first_use_rows [OF inv w]])
      (use r w(2) in \<open>auto simp: live_def unused_def same_owner_def split: if_splits\<close>)
  show "grp (record_first_use db s now) org t = (if org (sid s) = Some t then {} else grp db org t)"
    by (rule ring_inv_use(2) [OF inv w _ _ first_use_rows [OF inv w]])
      (use r w(2) in \<open>auto simp: live_def unused_def same_owner_def split: if_splits\<close>)
qed

lemma ring_inv_frame: "sessions db' = sessions db \<Longrightarrow> session_seq db' = session_seq db \<Longrightarrow> ring_inv db' org = ring_inv db org"
proof -
  assume eq: "sessions db' = sessions db" "session_seq db' = session_seq db"
  then have "get_session db' = get_session db" by (simp add: fun_eq_iff get_session_def)
  moreover from this have g: "grp db' = grp db" by (simp add: fun_eq_iff grp_def)
  moreover have "live_ptr db' = live_ptr db" unfolding fun_eq_iff live_ptr_def g by simp
  ultimately show ?thesis using eq by (simp add: ring_inv_def)
qed

text \<open>Revoking one unlinked session (logout, expiry).\<close>

lemma ring_inv_revoke_one:
  assumes inv: "ring_inv db org" and w: "get_session db w = Some s" "live s" "replaced_by s = None"
    and f: "\<And>r. sid (f r) = sid r" "\<not> live (f s)" "same_owner (f s) s" "revoked_reason (f s) \<noteq> Some Rotated" "unused (f s) = unused s"
  shows "ring_inv (modify_session w f db) org"
proof (rule ring_inv_use(1) [OF inv w(1,2), where g = f])
  show "get_session (modify_session w f db) i = map_option (\<lambda>r. if i = w then f r
      else if i \<in> rivals db org w then superseded_by w now r else r) (get_session db i)" for i now
    using no_rivals [OF inv w] f(1) by (cases "i = w") (simp_all add: get_modify_session option.map_ident)
qed (use f in \<open>simp_all add: sids_modify_session\<close>)

text \<open>Marks on a row that the invariant does not read.\<close>

lemma ring_inv_mark:
  assumes inv: "ring_inv db org"
    and f: "\<And>r. sid (f r) = sid r" "\<And>r. live (f r) = live r" "\<And>r. unused (f r) = unused r" "\<And>r. same_owner (f r) r"
      "\<And>r. revoked_reason (f r) = revoked_reason r" "\<And>r. replaced_by (f r) = replaced_by r"
  shows "ring_inv (modify_session w f db) org"
proof (rule ring_inv_shrink [OF inv, where D = "{}"])
  have grp: "grp (modify_session w f db) org t = grp db org t" for t
    using f by (auto simp: grp_def get_modify_session split: if_splits)
  then show "grp (modify_session w f db) org t = grp db org t" "t \<in> {} \<Longrightarrow> grp (modify_session w f db) org t = {}" for t
    by simp_all
  fix i s' assume "get_session (modify_session w f db) i = Some s'"
  then show "\<exists>s. get_session db i = Some s \<and> row_shrinks db org {} i s s'"
    using f by (auto simp: get_modify_session row_shrinks_def split: if_splits)
next
  fix i j s r s' r'
  assume a: "get_session db i = Some s" "get_session db j = Some r" "get_session (modify_session w f db) i = Some s'"
    "get_session (modify_session w f db) j = Some r'" "same_owner s r"
  have "same_owner s' s" "same_owner r' r"
    using a f(1,4) by (auto simp: get_modify_session same_owner_def split: if_splits)
  then show "same_owner s' r'" using a(5) by (simp add: same_owner_def)
next
  fix i j s' r' t
  assume "get_session (modify_session w f db) i = Some s'" "\<not> unused s'"
  then show "\<exists>s. get_session db i = Some s \<and> \<not> unused s" using f by (auto simp: get_modify_session split: if_splits)
qed (use f ring_invD(1) [OF inv] in \<open>simp_all add: sids_modify_session\<close>)

end
