(* ===== verification/SessionSafety.thy ===== *)
theory SessionSafety
  imports SessionRing
begin

text \<open>
  The session requests as a transition system, and what the ring invariant of
  \<open>SessionRing\<close> gives: a rotated token is accepted again only while nothing used a
  session it was rotated into, the first use of one of them revokes the rest, at most
  \<open>UNUSED_SESSIONS_KEPT\<close> of them are live, no request revokes a session outside the group it
  is about, and a client that lost the reply of a rotation can always recover.
\<close>

section \<open>Bulk requests\<close>

lemma get_update_sessions:
  assumes "\<And>r. sid (f r) = sid r"
  shows "get_session (db\<lparr>sessions := update_where P f (sessions db)\<rparr>) i =
    map_option (\<lambda>r. if P r then f r else r) (get_session db i)"
  using assms by (simp add: get_session_def row_get_update_where)

lemma ring_inv_revoke_device:
  assumes inv: "ring_inv db org"
  shows "ring_inv (revoke_device_sessions db dev now) org"
proof -
  let ?f = "\<lambda>s. s\<lparr>revoked_at := Some now, revoked_reason := Some AdminRevoked\<rparr> :: auth_session"
  let ?P = "\<lambda>s. s_device s = Some dev \<and> live s"
  let ?db = "revoke_device_sessions db dev now"
  define D where "D = {t. \<exists>i s. i \<in> grp db org t \<and> get_session db i = Some s \<and> s_device s = Some dev}"
  have get: "get_session ?db i = map_option (\<lambda>r. if ?P r then ?f r else r) (get_session db i)" for i
    unfolding revoke_device_sessions_def by (rule get_update_sessions) simp
  have dead: "\<not> live (?f r)" for r by (simp add: live_def)
  have same: "s_device s = Some dev" if "t \<in> D" "org i = Some t" "get_session db i = Some s" for t i s
  proof -
    obtain j r where j: "org j = Some t" "get_session db j = Some r" "s_device r = Some dev"
      using \<open>t \<in> D\<close> by (auto simp: D_def grp_def)
    then have "same_owner s r" using ring_invD(10) [OF inv that(3) j(2) that(2)] by blast
    then show ?thesis using j(3) by (simp add: same_owner_def)
  qed
  show ?thesis
  proof (rule ring_inv_shrink [OF inv, where D = D])
    show "distinct (map sid (sessions ?db))" "session_seq ?db = session_seq db"
      using ring_invD(1) [OF inv] by (simp_all add: revoke_device_sessions_def map_key_update_where)
    show "grp ?db org t = grp db org t" if t: "t \<notin> D" for t
    proof -
      have "\<not> ?P s" if "i \<in> grp db org t" "get_session db i = Some s" for i s using t that by (auto simp: D_def)
      then show ?thesis using dead by (fastforce simp: grp_def get split: if_splits)
    qed
    show "grp ?db org t = {}" if t: "t \<in> D" for t
    proof (rule equals0I)
      fix i assume "i \<in> grp ?db org t"
      then obtain s where s: "org i = Some t" "get_session db i = Some s" "live (if ?P s then ?f s else s)"
        by (auto simp: grp_def get)
      then show False using same [OF t s(1,2)] dead by (auto split: if_splits)
    qed
  next
    fix i s' assume "get_session ?db i = Some s'"
    then obtain s where s: "get_session db i = Some s" "s' = (if ?P s then ?f s else s)" by (auto simp: get)
    have "row_shrinks db org D i s s'"
    proof (cases "?P s")
      case True
      then have "grp db org i = {}" using ring_invD(6) [OF inv s(1)] by (auto simp: grp_def)
      then show ?thesis using True s dead by (simp add: row_shrinks_def unused_def)
    next
      case False
      then have "\<not> live s" if "org i \<in> Some ` D" using same [OF _ _ s(1)] that by auto
      then show ?thesis using False s by (auto simp: row_shrinks_def)
    qed
    with s show "\<exists>s. get_session db i = Some s \<and> row_shrinks db org D i s s'" by blast
  next
    fix i j s r s' r'
    assume "get_session db i = Some s" "get_session db j = Some r" "get_session ?db i = Some s'"
      "get_session ?db j = Some r'" "same_owner s r"
    then show "same_owner s' r'" by (auto simp: get same_owner_def split: if_splits)
  next
    fix i s' assume "get_session ?db i = Some s'" "\<not> unused s'"
    then show "\<exists>s. get_session db i = Some s \<and> \<not> unused s" by (auto simp: get unused_def split: if_splits)
  qed
qed

lemma ring_inv_detach:
  assumes inv: "ring_inv db org"
  shows "ring_inv (detach_device db dev) org"
proof -
  let ?f = "\<lambda>s. if s_device s = Some dev then s\<lparr>s_device := None\<rparr> else (s :: auth_session)"
  let ?db = "detach_device db dev"
  have get: "get_session ?db i = map_option ?f (get_session db i)" for i
    unfolding detach_device_def by (simp add: get_session_def row_get_update_where)
  have f: "live (?f r) = live r" "unused (?f r) = unused r" for r by (simp_all add: live_def unused_def)
  have grp: "grp ?db org t = grp db org t" for t
  proof -
    have "(\<exists>s. get_session ?db i = Some s \<and> live s \<and> unused s) = (\<exists>s. get_session db i = Some s \<and> live s \<and> unused s)" for i
      using f by (cases "get_session db i") (simp_all only: get option.map option.inject ex_simps, simp_all)
    then show ?thesis by (simp add: grp_def)
  qed
  show ?thesis
  proof (rule ring_inv_shrink [OF inv, where D = "{}"])
    fix i s' assume "get_session ?db i = Some s'"
    then show "\<exists>s. get_session db i = Some s \<and> row_shrinks db org {} i s s'"
      by (auto simp: get row_shrinks_def live_def unused_def)
  next
    fix i j s r s' r'
    assume "get_session db i = Some s" "get_session db j = Some r" "get_session ?db i = Some s'"
      "get_session ?db j = Some r'" "same_owner s r"
    then show "same_owner s' r'" by (auto simp: get same_owner_def)
  next
    fix i s' assume "get_session ?db i = Some s'" "\<not> unused s'"
    then show "\<exists>s. get_session db i = Some s \<and> \<not> unused s" by (auto simp: get unused_def split: if_splits)
  qed (use ring_invD(1) [OF inv] grp in \<open>simp_all add: detach_device_def map_key_update_where\<close>)
qed

text \<open>The retention run deletes revoked rows and unlinked live ones past the cutoff.\<close>

lemma forget_pointer_props [simp]:
  "sid (forget_pointer g s) = sid s" "live (forget_pointer g s) = live s" "unused (forget_pointer g s) = unused s"
  "revoked_reason (forget_pointer g s) = revoked_reason s" "same_owner (forget_pointer g s) s"
  by (auto simp: forget_pointer_def same_owner_def split: option.splits)

lemma replaced_by_forget: "replaced_by (forget_pointer g s) =
   (case replaced_by s of None \<Rightarrow> None | Some j \<Rightarrow> if j \<in> g then None else Some j)"
  by (auto simp: forget_pointer_def split: option.splits)

lemma get_delete_sessions:
  assumes "distinct (map sid (sessions db))"
  shows "get_session (delete_sessions P db) i =
    (case get_session db i of None \<Rightarrow> None
     | Some s \<Rightarrow> if P s then None else Some (forget_pointer (sid ` {s \<in> set (sessions db). P s}) s))"
proof -
  have *: "row_get sid i (map (forget_pointer g) (filter (\<lambda>s. \<not> P s) rows)) =
      (case row_get sid i rows of None \<Rightarrow> None | Some s \<Rightarrow> if P s then None else Some (forget_pointer g s))"
    if "distinct (map sid rows)" for rows :: "auth_session list" and g
    using that
  proof (induction rows)
    case (Cons a rows)
    show ?case
    proof (cases "sid a = i")
      case True
      then have "row_get sid i rows = None" using Cons.prems by (auto simp: row_get_None_iff)
      then show ?thesis using True Cons by simp
    qed (use Cons in simp)
  qed simp
  show ?thesis
    using * [OF assms] by (simp add: get_session_def delete_sessions_def Let_def)
qed

lemma ring_inv_prune:
  assumes inv: "ring_inv db org"
  shows "ring_inv (prune_expired_sessions db now n) org"
proof -
  let ?P = "prunable (now - days n)" let ?db = "prune_expired_sessions db now n"
  let ?gone = "sid ` {s \<in> set (sessions db). ?P s}"
  define D where "D = {t. \<exists>i s. i \<in> grp db org t \<and> get_session db i = Some s \<and> ?P s}"
  note get = get_delete_sessions [OF ring_invD(1) [OF inv], of ?P, folded prune_expired_sessions_def]
  have gone: "?P s" if "i \<in> ?gone" "get_session db i = Some s" for i s
    using that row_get_in_set [OF ring_invD(1) [OF inv]] by (auto simp: get_session_def)
  have alone: "grp db org t = {i}" if "i \<in> grp db org t" "get_session db i = Some s" "?P s" for t i s
  proof -
    have s: "live s" "replaced_by s = None" "org i = Some t" using that by (auto simp: grp_def prunable_def)
    have "rivals db org i = {}" by (rule no_rivals [OF inv that(2) s(1,2)])
    then show ?thesis using that(1) s(3) by (auto simp: rivals_def)
  qed
  have not_gone: "i \<notin> ?gone" if ti: "t \<notin> D" "i \<in> grp db org t" for t i
  proof
    assume i: "i \<in> ?gone"
    obtain s where s: "get_session db i = Some s" using grp_in [OF ti(2)] by blast
    have "?P s" by (rule gone [OF i s])
    then have "t \<in> D" unfolding D_def using s ti(2) by blast
    then show False using ti(1) by blast
  qed
  have keep: "grp ?db org t = grp db org t" if t: "t \<notin> D" for t
    using t by (auto simp: grp_def D_def get split: option.splits if_splits)
  have drop: "grp ?db org t = {}" if t: "t \<in> D" for t
  proof -
    obtain i s where i: "i \<in> grp db org t" "get_session db i = Some s" "?P s" using t by (auto simp: D_def)
    have "grp ?db org t \<subseteq> grp db org t - {i}" using i(2,3) by (auto simp: grp_def get split: option.splits if_splits)
    then show ?thesis using alone [OF i] by auto
  qed
  show ?thesis
  proof (rule ring_inv_shrink [OF inv _ _ _ keep drop])
    have "distinct (map sid (filter (\<lambda>s. \<not> ?P s) (sessions db)))" using ring_invD(1) [OF inv] by (rule distinct_map_filter)
    then show "distinct (map sid (sessions ?db))" "session_seq ?db = session_seq db"
      by (simp_all add: prune_expired_sessions_def delete_sessions_def Let_def comp_def)
  next
    fix i s' assume "get_session ?db i = Some s'"
    then obtain s where s: "get_session db i = Some s" "\<not> ?P s" "s' = forget_pointer ?gone s"
      by (auto simp: get split: option.splits if_splits)
    have ptr: "replaced_by s' = replaced_by s \<or> (\<exists>j. replaced_by s = Some j \<and> j \<in> ?gone \<and> replaced_by s' = None)"
      unfolding s(3) by (auto simp: forget_pointer_def split: option.splits)
    have lv: "replaced_by s' = (if org i \<in> Some ` D then None else replaced_by s)" if l: "live s"
    proof (cases "replaced_by s")
      case (Some j)
      then obtain t where t: "org i = Some t" "i \<in> grp db org t" "2 \<le> card (grp db org t)" "j = cyc_next (grp db org t) i"
        using ring_invD(4) [OF inv s(1) l] by (auto simp: live_ptr_def ring_ptr_def split: option.splits if_splits)
      have tD: "t \<notin> D"
      proof
        assume "t \<in> D"
        then obtain k where "grp db org t = {k}" unfolding D_def using alone by blast
        then show False using t(3) by simp
      qed
      have jg: "j \<in> grp db org t" using t(2,4) cyc_next_in [OF finite_grp [OF inv]] by blast
      have "j \<notin> ?gone" using not_gone [OF tD jg] .
      moreover note tD
      ultimately show ?thesis using ptr Some t(1) by auto
    qed (use ptr in auto)
    have tok: "replaced_by s' = replaced_by s" if "i \<notin> D" "grp db org i \<noteq> {}"
    proof -
      have "Max (grp db org i) \<in> grp db org i" using that(2) finite_grp [OF inv] by simp
      then have "Max (grp db org i) \<notin> ?gone" by (rule not_gone [OF that(1)])
      then show ?thesis using ptr ring_invD(5) [OF inv s(1) that(2)] by auto
    qed
    have "row_shrinks db org D i s s'"
      unfolding row_shrinks_def using lv tok ptr s(3) by auto
    with s(1) show "\<exists>s. get_session db i = Some s \<and> row_shrinks db org D i s s'" by blast
  next
    fix i j s r s' r'
    assume a: "get_session db i = Some s" "get_session db j = Some r" "get_session ?db i = Some s'"
      "get_session ?db j = Some r'" "same_owner s r"
    then have "same_owner s' s" "same_owner r' r" by (auto simp: get split: if_splits)
    then show "same_owner s' r'" using a(5) by (simp add: same_owner_def)
  next
    fix i s' assume "get_session ?db i = Some s'" "\<not> unused s'"
    then show "\<exists>s. get_session db i = Some s \<and> \<not> unused s" by (auto simp: get split: option.splits if_splits)
  qed
qed

section \<open>The transition system\<close>

definition presented :: "crypto \<Rightarrow> auth_settings \<Rightarrow> auth_db \<Rightarrow> string \<Rightarrow> auth_session option" where
  "presented c st db tok = row_get refresh_token_hash (hash_refresh_token c (auth_refresh_hmac_key st) tok) (sessions db)"

text \<open>The ghost origin of the session a refresh made: the session whose token was presented.\<close>

definition refresh_origins :: "crypto \<Rightarrow> auth_settings \<Rightarrow> auth_db \<Rightarrow> string \<Rightarrow> auth_db \<Rightarrow> origins \<Rightarrow> origins" where
  "refresh_origins c st db tok db' org =
    (case presented c st db tok of
       None \<Rightarrow> org
     | Some s \<Rightarrow> if session_seq db' = session_seq db then org else org(session_seq db := Some (sid s)))"

definition logout_request ::
  "crypto \<Rightarrow> auth_settings \<Rightarrow> auth_db \<Rightarrow> string option \<Rightarrow> datetime \<Rightarrow> datetime \<Rightarrow> http_error option \<times> auth_db" where
  "logout_request c st db header now now' =
    (case require_user c st db header now of
       (Inl e, db1) \<Rightarrow> (Some e, db1)
     | (Inr ca, db1) \<Rightarrow> (None, logout db1 (ca_session ca) now'))"

text \<open>Every request that touches sessions; \<open>elsewhere\<close> is any request that leaves them alone. A full
  sign-in, sign-out or device removal is a sequence of these steps (theory \<open>Login\<close>).\<close>

inductive auth_step :: "crypto \<Rightarrow> auth_settings \<Rightarrow> auth_db \<times> origins \<Rightarrow> auth_db \<times> origins \<Rightarrow> bool" for c st where
  sign_in: "insert_session db u dev h e now = Some (m, db') \<Longrightarrow> auth_step c st (db, org) (db', org)"
| refreshing: "refresh c st db tok now tok' = (r, db') \<Longrightarrow>
    auth_step c st (db, org) (db', refresh_origins c st db tok db' org)"
| request: "require_user c st db header now = (r, db') \<Longrightarrow> auth_step c st (db, org) (db', org)"
| sign_out: "logout_request c st db header now now' = (r, db') \<Longrightarrow> auth_step c st (db, org) (db', org)"
| remove_device: "auth_step c st (db, org) (revoke_device_sessions db dev now, org)"
| switch_account: "auth_step c st (db, org) (detach_device db dev, org)"
| retention: "auth_step c st (db, org) (prune_expired_sessions db now n, org)"
| elsewhere: "sessions db' = sessions db \<Longrightarrow> session_seq db' = session_seq db \<Longrightarrow> auth_step c st (db, org) (db', org)"

definition auth_init :: "auth_db \<times> origins \<Rightarrow> bool" where
  "auth_init x \<longleftrightarrow> sessions (fst x) = [] \<and> snd x = (\<lambda>_. None)"

lemma presentedD:
  assumes "ring_inv db org" "presented c st db tok = Some s"
  shows "get_session db (sid s) = Some s"
  using assms row_get_in_set [OF ring_invD(1) [OF assms(1)]]
  by (auto simp: presented_def get_session_def dest: row_get_SomeD)

text \<open>What a refresh can do.\<close>

lemma refresh_cases:
  assumes "refresh c st db tok now tok' = (r, db')"
  obtains (refused) e where "r = Inl e" "db' = db"
  | (marked) s where "presented c st db tok = Some s" "r = Inl session_revoked" "\<not> live s"
      "db' = modify_session (sid s) (\<lambda>s. s\<lparr>reuse_detected_at := Some now\<rparr>) db"
  | (expired) s where "presented c st db tok = Some s" "r = Inl refresh_token_expired" "live s" "replaced_by s = None"
      "expires_at s \<le> now"
      "db' = modify_session (sid s) (\<lambda>r. r\<lparr>revoked_at := Some now, revoked_reason := Some Expired\<rparr>) db"
  | (rotated) s m res where "presented c st db tok = Some s" "r = Inr res" "live s" "now < expires_at s"
      "user_is_active db (s_user s)" "rotate c st db s now tok' = Inr (m, res, db')"
  | (again) s i q res where "presented c st db tok = Some s" "r = Inr res" "\<not> live s" "now < expires_at s"
      "user_is_active db (s_user s)" "replaced_by s = Some i" "get_session db i = Some q"
      "may_rotate_again s (Some q)" "rotate_again c st db s q now tok' = Inr (res, db')"
proof (cases "presented c st db tok")
  case None
  then show ?thesis using assms refused by (auto simp: refresh_def presented_def split: if_splits)
next
  case (Some s)
  note R = assms [unfolded refresh_def, folded presented_def, unfolded Some, simplified]
  consider (cfg) "auth_jwt_secret st = [] \<or> auth_refresh_hmac_key st = [] \<or> \<not> user_is_active db (s_user s)"
    | (dead) "auth_jwt_secret st \<noteq> []" "auth_refresh_hmac_key st \<noteq> []" "user_is_active db (s_user s)" "\<not> live s"
    | (old) "auth_jwt_secret st \<noteq> []" "auth_refresh_hmac_key st \<noteq> []" "user_is_active db (s_user s)" "live s" "expires_at s \<le> now"
    | (ok) "auth_jwt_secret st \<noteq> []" "auth_refresh_hmac_key st \<noteq> []" "user_is_active db (s_user s)" "live s" "now < expires_at s"
    by force
  then show ?thesis
  proof cases
    case cfg then show ?thesis using R refused by (auto split: if_splits)
  next
    case dead
    then have H: "handle_revoked_reuse c st db s now tok' = (r, db')" using R by simp
    let ?succ = "case replaced_by s of None \<Rightarrow> None | Some j \<Rightarrow> get_session db j"
    show ?thesis
    proof (cases "may_rotate_again s ?succ")
      case True
      then obtain i q where q: "replaced_by s = Some i" "get_session db i = Some q" "may_rotate_again s (Some q)"
        by (auto simp: may_rotate_again_def split: option.splits)
      have "revoked_reason s = Some Rotated" using True by (simp add: may_rotate_again_def)
      then show ?thesis
        using H True q refused again [OF Some _ dead(4) _ dead(3) q]
        by (cases "rotate_again c st db s q now tok'")
          (auto simp: handle_revoked_reuse_def REPLACED_REASONS_def Let_def split: if_splits)
    next
      case False
      then show ?thesis
        using H refused marked [OF Some _ dead(4)]
        by (auto simp: handle_revoked_reuse_def Let_def split: if_splits)
    qed
  next
    case old then show ?thesis using R refused expired [OF Some] by (auto split: if_splits)
  next
    case ok
    then show ?thesis
      using R refused rotated [OF Some _ ok(4,5,3)] by (cases "rotate c st db s now tok'") auto
  qed
qed

lemma bring_back_frame [simp]:
  "sessions (bring_back db d) = sessions db" "session_seq (bring_back db d) = session_seq db" "users (bring_back db d) = users db"
  by (simp_all add: bring_back_def)

lemma require_user_cases:
  assumes "require_user c st db header now = (r, db')"
  obtains (refused) e where "r = Inl e" "db' = db"
  | (granted) ca s where "r = Inr ca" "get_session db (ca_session ca) = Some s" "live s" "s_user s = ca_user ca"
      "user_is_active db (ca_user ca)"
      "sessions db' = sessions (if unused s then record_first_use db s now else db)"
      "session_seq db' = session_seq db" "users db' = users db"
proof (cases header)
  case None
  then show ?thesis using assms refused by (auto simp: require_user_def split: if_splits)
next
  case (Some h)
  show ?thesis
  proof (cases "auth_jwt_secret st = [] \<or> \<not> starts_with ''Bearer '' h")
    case True
    then show ?thesis using assms Some refused by (auto simp: require_user_def split: if_splits)
  next
    case ok: False
    note R = assms [unfolded require_user_def Some, simplified]
    show ?thesis
    proof (cases "read_claims c (auth_jwt_secret st) now (py_strip (remove_prefix ''Bearer '' h))")
      case None
      then show ?thesis using R ok refused by auto
    next
      case cl: (Some cl)
      obtain u i d where cl': "cl = (u, i, d)" by (cases cl) auto
      show ?thesis
      proof (cases "get_session db i")
        case None
        then show ?thesis using R ok cl cl' refused by auto
      next
        case s: (Some s)
        show ?thesis
        proof (cases "live s \<and> s_user s = u \<and> user_is_active db u")
          case True
          let ?ca = "\<lparr>ca_user = u, ca_session = i, ca_device = d\<rparr>"
          show ?thesis
            using R ok cl cl' s True by (intro granted [of ?ca s]) (auto simp: Let_def split: option.splits)
        next
          case False
          then show ?thesis using R ok cl cl' s refused by (auto split: if_splits)
        qed
      qed
    qed
  qed
qed

lemma ring_inv_require_user:
  assumes inv: "ring_inv db org" and req: "require_user c st db header now = (r, db')"
  shows "ring_inv db' org"
  using req
proof (cases rule: require_user_cases)
  case (granted ca s)
  have s: "get_session db (sid s) = Some s" using granted(2) get_session_sid by metis
  have "ring_inv (if unused s then record_first_use db s now else db) org"
    using inv ring_inv_first_use(1) [OF inv s granted(3)] by simp
  then show ?thesis using granted(6,7) ring_inv_frame [of db' "if unused s then record_first_use db s now else db"] by simp
qed (use inv in simp)

text \<open>A session that passed \<open>require_user\<close> is live, used and unlinked afterwards.\<close>

lemma granted_session:
  assumes inv: "ring_inv db org" and req: "require_user c st db header now = (Inr ca, db')"
  shows "\<exists>s. get_session db' (ca_session ca) = Some s \<and> live s \<and> \<not> unused s \<and> replaced_by s = None"
  using req
proof (cases rule: require_user_cases)
  case (granted ca' s)
  have ca: "ca' = ca" using granted(1) by simp
  have sid: "sid s = ca_session ca" using granted(2) get_session_sid ca by blast
  have s: "get_session db (sid s) = Some s" using granted(2) sid ca by simp
  have g: "get_session db' i = get_session (if unused s then record_first_use db s now else db) i" for i
    using granted(6) by (simp add: get_session_def)
  show ?thesis
  proof (cases "unused s")
    case True
    then show ?thesis
      using s granted(3) first_use_rows [OF inv s granted(3), of now "sid s"] by (auto simp: g sid live_def unused_def)
  next
    case False
    then show ?thesis using s granted(3) used_not_linked [OF inv s granted(3)] by (simp add: g sid)
  qed
qed simp

lemma ring_inv_logout_request:
  assumes inv: "ring_inv db org" and req: "logout_request c st db header now now' = (r, db')"
  shows "ring_inv db' org"
proof -
  obtain a db1 where ru: "require_user c st db header now = (a, db1)" by fastforce
  have inv1: "ring_inv db1 org" by (rule ring_inv_require_user [OF inv ru])
  show ?thesis
  proof (cases a)
    case (Inl e)
    then show ?thesis using req ru inv1 by (simp add: logout_request_def)
  next
    case (Inr ca)
    obtain s where s: "get_session db1 (ca_session ca) = Some s" "live s" "\<not> unused s" "replaced_by s = None"
      using granted_session [OF inv ru [unfolded Inr]] by blast
    have "ring_inv (modify_session (ca_session ca)
        (\<lambda>r. r\<lparr>revoked_at := Some now', revoked_reason := Some Logout, last_used_at := now'\<rparr>) db1) org"
      by (rule ring_inv_revoke_one [OF inv1 s(1,2,4)]) (simp_all add: live_def unused_def same_owner_def)
    then show ?thesis using req ru Inr s by (auto simp: logout_request_def logout_def)
  qed
qed

lemma ring_inv_refresh:
  assumes inv: "ring_inv db org" and ref: "refresh c st db tok now tok' = (r, db')"
  shows "ring_inv db' (refresh_origins c st db tok db' org)"
  using ref
proof (cases rule: refresh_cases)
  case (refused e)
  then show ?thesis using inv by (simp add: refresh_origins_def split: option.splits)
next
  case (marked s)
  have "ring_inv db' org" unfolding marked(4)
    by (rule ring_inv_mark [OF inv]) (simp_all add: live_def unused_def same_owner_def)
  then show ?thesis using marked by (simp add: refresh_origins_def)
next
  case (expired s)
  have "ring_inv db' org" unfolding expired(6)
    by (rule ring_inv_revoke_one [OF inv presentedD [OF inv expired(1)] expired(3,4)])
      (simp_all add: live_def unused_def same_owner_def)
  then show ?thesis using expired by (simp add: refresh_origins_def)
next
  case (rotated s m res)
  note s = presentedD [OF inv rotated(1)]
  have "m = session_seq db" "session_seq db' = Suc m" using rotate_live_rows [OF inv s rotated(3,6)] by auto
  then show ?thesis using ring_inv_rotate(1) [OF inv s rotated(3,6)] rotated(1) by (simp add: refresh_origins_def)
next
  case (again s i q res)
  note s = presentedD [OF inv again(1)]
  have "session_seq db' = Suc (session_seq db)" by (rule rotate_again_rows(1) [OF inv s again(6-9)])
  then show ?thesis using ring_inv_rotate_again(1) [OF inv s again(6-9)] again(1) by (simp add: refresh_origins_def)
qed

lemma ring_inv_step: "auth_step c st x y \<Longrightarrow> ring_inv (fst x) (snd x) \<Longrightarrow> ring_inv (fst y) (snd y)"
proof (induction rule: auth_step.induct)
  case (elsewhere db' db org)
  then show ?case using ring_inv_frame [of db' db] by simp
qed (auto intro: ring_inv_sign_in ring_inv_refresh ring_inv_require_user ring_inv_logout_request
    ring_inv_revoke_device ring_inv_detach ring_inv_prune)

lemma ring_inv_init: "auth_init x \<Longrightarrow> ring_inv (fst x) (snd x)"
  by (simp add: auth_init_def ring_inv_def get_session_def grp_def)

interpretation auth_sys: invariant_system auth_init "auth_step c st" "\<lambda>x. ring_inv (fst x) (snd x)" for c st
  by unfold_locales (use ring_inv_init ring_inv_step in blast)+

section \<open>What the requests guarantee\<close>

lemma refresh_success:
  assumes inv: "ring_inv db org" and ref: "refresh c st db tok now tok' = (Inr res, db')"
    and s: "presented c st db tok = Some s"
  shows "live s \<Longrightarrow> \<exists>m. rotate c st db s now tok' = Inr (m, res, db')"
    "\<not> live s \<Longrightarrow> \<exists>i q. replaced_by s = Some i \<and> get_session db i = Some q \<and> may_rotate_again s (Some q) \<and>
       rotate_again c st db s q now tok' = Inr (res, db')"
  using ref by (cases rule: refresh_cases; use s in auto)+

lemma again_frame:
  assumes inv: "ring_inv db org" and ref: "refresh c st db tok now tok' = (Inr res, db')"
    and s: "presented c st db tok = Some s" "\<not> live s"
    and i: "get_session db i = Some r" "i \<noteq> sid s" "org i \<noteq> Some (sid s)"
  shows "get_session db' i = Some r"
proof -
  note ps = presentedD [OF inv s(1)]
  obtain k q where q: "replaced_by s = Some k" "get_session db k = Some q" "may_rotate_again s (Some q)"
      "rotate_again c st db s q now tok' = Inr (res, db')"
    using refresh_success(2) [OF inv ref s(1)] s(2) by blast
  have "i \<noteq> session_seq db" using seq_free [OF inv] i(1) by auto
  moreover have "i \<notin> grp db org (sid s)" using i(3) by (auto simp: grp_def)
  moreover have "kept U m \<subseteq> insert m U" for U m by (auto simp: kept_def)
  ultimately show ?thesis using i rotate_again_rows(3) [OF inv ps q, of i] by auto
qed

lemma rotate_succeeds:
  assumes "hash_refresh_token c (auth_refresh_hmac_key st) tok' \<notin> refresh_token_hash ` set (sessions db)"
  shows "\<exists>m res db'. rotate c st db s now tok' = Inr (m, res, db')"
proof -
  have hs: "refresh_token_hash ` set (sessions (settle_contest db w now)) = refresh_token_hash ` set (sessions db)" for w
  proof -
    have "map refresh_token_hash (sessions (settle_contest db w now)) = map refresh_token_hash (sessions db)"
      by (simp add: settle_contest_def supersede_def modify_session_def Let_def update_where_def row_update_def)
    then show ?thesis by (metis list.set_map)
  qed
  show ?thesis using assms by (auto simp: rotate_def insert_session_def Let_def hs)
qed

lemma refresh_live:
  assumes "presented c st db tok = Some s" "live s" "now < expires_at s" "user_is_active db (s_user s)"
    and "auth_jwt_secret st \<noteq> []" "auth_refresh_hmac_key st \<noteq> []"
    and "hash_refresh_token c (auth_refresh_hmac_key st) tok' \<notin> refresh_token_hash ` set (sessions db)"
  shows "\<exists>m res db'. refresh c st db tok now tok' = (Inr res, db') \<and> rotate c st db s now tok' = Inr (m, res, db')"
  using assms(1-6) rotate_succeeds [OF assms(7), of s now] by (auto simp: refresh_def presented_def)

lemma refresh_again:
  assumes inv: "ring_inv db org" and s: "presented c st db tok = Some s" "revoked_reason s = Some Rotated"
    and g: "grp db org (sid s) \<noteq> {}"
    and "now < expires_at s" "user_is_active db (s_user s)" "auth_jwt_secret st \<noteq> []" "auth_refresh_hmac_key st \<noteq> []"
    and h: "hash_refresh_token c (auth_refresh_hmac_key st) tok' \<notin> refresh_token_hash ` set (sessions db)"
  shows "\<exists>res db'. refresh c st db tok now tok' = (Inr res, db')"
proof -
  note ps = presentedD [OF inv s(1)]
  let ?j = "Max (grp db org (sid s))"
  have ptr: "replaced_by s = Some ?j" by (rule ring_invD(5) [OF inv ps g])
  have "?j \<in> grp db org (sid s)" using g finite_grp [OF inv] by simp
  then obtain q where q: "get_session db ?j = Some q" "live q" "unused q" "org ?j = Some (sid s)" by (auto simp: grp_def)
  then have may: "may_rotate_again s (Some q)" using s by (simp add: may_rotate_again_def)
  have dead: "\<not> live s" using ring_invD(6) [OF inv ps q(4)] by simp
  have "\<exists>res db'. rotate_again c st db s q now tok' = Inr (res, db')"
    using rotate_succeeds [OF h, of s now] by (auto simp: rotate_again_def)
  then show ?thesis
    using assms ptr q may dead
    by (auto simp: refresh_def presented_def handle_revoked_reuse_def REPLACED_REASONS_def Let_def)
qed

section \<open>A concrete run\<close>

text \<open>One user signs in (session 1), refreshes (2) and sends the old token again (3). It is the
  concrete state the theorems are applied to.\<close>

definition run_crypto :: crypto where
  "run_crypto = \<lparr>hmac = (\<lambda>k t. k @ t), jwt_encode = (\<lambda>k p. replicate (pl_sid p) CHR ''s''),
     jwt_decode = (\<lambda>k i a now t. Some \<lparr>pl_sub = ''uuuuu'', pl_sid = length t, pl_token_use = Some ''access'', pl_iss = i, pl_aud = a,
       pl_iat = 0, pl_exp = 10 ^ 9, pl_did = None\<rparr>),
     uuid_str = (\<lambda>u. replicate u CHR ''u''), uuid_parse = (\<lambda>t. Some (length t))\<rparr>"

definition run_settings :: auth_settings where
  "run_settings = \<lparr>auth_jwt_secret = ''k'', auth_refresh_hmac_key = ''h'', auth_refresh_token_ttl_days = 60,
     auth_access_token_ttl_seconds = 900, auth_refresh_reuse_grace_seconds = 60\<rparr>"

definition run0 :: auth_db where
  "run0 = \<lparr>users = [\<lparr>u_id = 5, student_id = Some ''b1'', display_name = None, u_status = UserActive, u_last_login_at = None, u_deleted_at = None\<rparr>],
     auth_devices = [], sessions = [], session_seq = 1, accounts = [], account_seq = 1, credentials = [], push_tokens = [],
     sync_policies = [], sync_jobs = [], job_seq = 1, registrations = [], audit_log = []\<rparr>"

definition run1 :: auth_db where
  "run1 = snd (the (insert_session run0 5 (Some 9) ''hA'' (days 60) 0))"

definition run2 :: auth_db where
  "run2 = snd (refresh run_crypto run_settings run1 ''A'' 10 ''B'')"

definition run3 :: auth_db where
  "run3 = snd (refresh run_crypto run_settings run2 ''A'' 20 ''C'')"

definition run4 :: auth_db where
  "run4 = snd (require_user run_crypto run_settings run3 (Some ''Bearer ss'') 30)"

lemma run_reaches:
  "reaches auth_init (auth_step run_crypto run_settings) (run1, \<lambda>_. None)"
  "reaches auth_init (auth_step run_crypto run_settings) (run2, [2 \<mapsto> 1])"
  "reaches auth_init (auth_step run_crypto run_settings) (run3, [2 \<mapsto> 1, 3 \<mapsto> 1])"
  "reaches auth_init (auth_step run_crypto run_settings) (run4, [2 \<mapsto> 1, 3 \<mapsto> 1])"
proof -
  have r0: "reaches auth_init (auth_step run_crypto run_settings) (run0, \<lambda>_. None)"
    by (rule reaches_init) (simp add: auth_init_def run0_def)
  have i1: "insert_session run0 5 (Some 9) ''hA'' (days 60) 0 = Some (1, run1)" by code_simp
  show r1: "reaches auth_init (auth_step run_crypto run_settings) (run1, \<lambda>_. None)"
    by (rule reaches_step [OF r0 auth_step.sign_in [OF i1]])
  have "refresh run_crypto run_settings run1 ''A'' 10 ''B'' = (fst (refresh run_crypto run_settings run1 ''A'' 10 ''B''), run2)"
    by (simp add: run2_def)
  from reaches_step [OF r1 auth_step.refreshing [OF this]]
  have "reaches auth_init (auth_step run_crypto run_settings)
    (run2, refresh_origins run_crypto run_settings run1 ''A'' run2 (\<lambda>_. None))" .
  moreover have "map_option sid (presented run_crypto run_settings run1 ''A'') = Some 1" "session_seq run1 = 2" "session_seq run2 = 3"
    by code_simp+
  ultimately show r2: "reaches auth_init (auth_step run_crypto run_settings) (run2, [2 \<mapsto> 1])"
    by (auto simp: refresh_origins_def)
  have "refresh run_crypto run_settings run2 ''A'' 20 ''C'' = (fst (refresh run_crypto run_settings run2 ''A'' 20 ''C''), run3)"
    by (simp add: run3_def)
  from reaches_step [OF r2 auth_step.refreshing [OF this]]
  have "reaches auth_init (auth_step run_crypto run_settings)
    (run3, refresh_origins run_crypto run_settings run2 ''A'' run3 [2 \<mapsto> 1])" .
  moreover have "map_option sid (presented run_crypto run_settings run2 ''A'') = Some 1" "session_seq run2 = 3" "session_seq run3 = 4"
    by code_simp+
  ultimately show r3: "reaches auth_init (auth_step run_crypto run_settings) (run3, [2 \<mapsto> 1, 3 \<mapsto> 1])"
    by (auto simp: refresh_origins_def)
  have "require_user run_crypto run_settings run3 (Some ''Bearer ss'') 30 =
    (fst (require_user run_crypto run_settings run3 (Some ''Bearer ss'') 30), run4)" by (simp add: run4_def)
  from reaches_step [OF r3 auth_step.request [OF this]]
  show "reaches auth_init (auth_step run_crypto run_settings) (run4, [2 \<mapsto> 1, 3 \<mapsto> 1])" .
qed

section \<open>Properties\<close>

lemma reached_inv: "reaches auth_init (auth_step c st) (db, org) \<Longrightarrow> ring_inv db org"
  using auth_sys.reaches_inv by force

text \<open>C35. In every reachable state, at most 16 of the sessions one token was rotated into are
  live and unused, however often the token is presented.\<close>

theorem unused_sessions_bounded:
  assumes "reaches auth_init (auth_step c st) (db, org)"
  shows "card {i. org i = Some t \<and> (\<exists>s. get_session db i = Some s \<and> live s \<and> unused s)} \<le> UNUSED_SESSIONS_KEPT"
  using ring_invD(7) [OF reached_inv [OF assms], of t] by (simp add: grp_def)

theorem unused_sessions_bounded_witness:
  "card {i. [2 \<mapsto> 1, 3 \<mapsto> 1] i = Some (1 :: nat) \<and> (\<exists>s. get_session run3 i = Some s \<and> live s \<and> unused s)} \<le> 16"
  using unused_sessions_bounded [OF run_reaches(3), of 1] by (simp only: UNUSED_SESSIONS_KEPT_def)

text \<open>C2. A token whose session is no longer live is rotated again only when it was itself
  revoked by a rotation and no session it was rotated into has been used; and rotating it
  again changes no session outside that token's own.\<close>

theorem refresh_again_only_before_use:
  assumes "reaches auth_init (auth_step c st) (db, org)"
    and "refresh c st db tok now tok' = (Inr res, db')"
    and "presented c st db tok = Some s" and "\<not> live s"
  shows "revoked_reason s = Some Rotated \<and>
    (\<forall>i r. get_session db i = Some r \<and> org i = Some (sid s) \<longrightarrow> unused r) \<and>
    (\<forall>i r. get_session db i = Some r \<and> i \<noteq> sid s \<and> org i \<noteq> Some (sid s) \<longrightarrow> get_session db' i = Some r)"
proof -
  note inv = reached_inv [OF assms(1)] and ps = presentedD [OF reached_inv [OF assms(1)] assms(3)]
  obtain k q where q: "replaced_by s = Some k" "get_session db k = Some q" "may_rotate_again s (Some q)"
    using refresh_success(2) [OF inv assms(2,3)] assms(4) by blast
  have "grp db org (sid s) \<noteq> {}" using successor_is_newest(2) [OF inv ps q] by blast
  then have "\<forall>i r. get_session db i = Some r \<and> org i = Some (sid s) \<longrightarrow> unused r" using used_empties [OF inv] by blast
  then show ?thesis using q(3) again_frame [OF inv assms(2-4)] by (simp add: may_rotate_again_def)
qed

theorem refresh_again_only_before_use_witness:
  "\<exists>r. get_session run2 2 = Some r \<and> unused r"
proof -
  obtain s where s: "presented run_crypto run_settings run2 ''A'' = Some s" "\<not> live s" "sid s = 1"
  proof -
    have "(case presented run_crypto run_settings run2 ''A'' of Some s \<Rightarrow> \<not> live s \<and> sid s = 1 | None \<Rightarrow> False)" by code_simp
    then show ?thesis using that by (auto split: option.splits)
  qed
  obtain res where r: "fst (refresh run_crypto run_settings run2 ''A'' 20 ''C'') = Inr res"
  proof -
    have "(case fst (refresh run_crypto run_settings run2 ''A'' 20 ''C'') of Inr _ \<Rightarrow> True | Inl _ \<Rightarrow> False)" by code_simp
    then show ?thesis using that by (auto split: sum.splits)
  qed
  have "refresh run_crypto run_settings run2 ''A'' 20 ''C'' = (Inr res, run3)"
    using r by (simp add: run3_def prod_eq_iff)
  from refresh_again_only_before_use [OF run_reaches(2) this s(1,2)]
  have "\<forall>i r. get_session run2 i = Some r \<and> [2 \<mapsto> 1] i = Some (sid s) \<longrightarrow> unused r" by blast
  from this [rule_format, of 2] have "unused r" if "get_session run2 2 = Some r" for r using that s(3) by simp
  moreover have "get_session run2 2 \<noteq> None" by code_simp
  ultimately show ?thesis by auto
qed

text \<open>Once a session that a token was rotated into has been used, presenting the token is
  refused, and the refusal changes no session but the token's own row: no session is revoked.\<close>

theorem used_session_ends_reuse:
  assumes "reaches auth_init (auth_step c st) (db, org)"
    and "presented c st db tok = Some s" and "get_session db i = Some r" "org i = Some (sid s)" "\<not> unused r"
    and "refresh c st db tok now tok' = (a, db')"
  shows "(\<exists>e. a = Inl e) \<and> (\<forall>j. j \<noteq> sid s \<longrightarrow> get_session db' j = get_session db j)"
proof -
  note inv = reached_inv [OF assms(1)]
  note ps = presentedD [OF inv assms(2)]
  have dead: "\<not> live s" and empty: "grp db org (sid s) = {}"
    using ring_invD(6) [OF inv ps assms(4)] used_empties [OF inv assms(3,4,5)] by auto
  from assms(6) show ?thesis
  proof (cases rule: refresh_cases)
    case (again s' k q res)
    then have "s' = s" using assms(2) by simp
    then show ?thesis using successor_is_newest(2) [OF inv ps] again empty by blast
  qed (use dead assms(2) in \<open>auto simp: get_modify_session\<close>)
qed

theorem used_session_ends_reuse_witness:
  "(\<exists>e. fst (refresh run_crypto run_settings run4 ''A'' 40 ''D'') = Inl e)"
proof -
  obtain s where s: "presented run_crypto run_settings run4 ''A'' = Some s" "sid s = 1"
  proof -
    have "(case presented run_crypto run_settings run4 ''A'' of Some s \<Rightarrow> sid s = 1 | None \<Rightarrow> False)" by code_simp
    then show ?thesis using that by (auto split: option.splits)
  qed
  obtain r where r: "get_session run4 2 = Some r" "\<not> unused r"
  proof -
    have "(case get_session run4 2 of Some s \<Rightarrow> \<not> unused s | None \<Rightarrow> False)" by code_simp
    then show ?thesis using that by (auto split: option.splits)
  qed
  have "[2 \<mapsto> 1, 3 \<mapsto> 1] 2 = Some (sid s)" using s by simp
  then show ?thesis
    using used_session_ends_reuse [OF run_reaches(4) s(1) r(1) _ r(2) surjective_pairing, where tok' = "''D''" and now = 40] by blast
qed



text \<open>Refreshing with a live, unexpired token of an active user rotates it: the answer carries
  the new refresh token and an access token for the new session, which is live, unused and of the
  same user and device; the presented session is revoked as rotated and points at the new one;
  the rivals of the presented session are no longer live; every other session is unchanged.\<close>

theorem refresh_rotates:
  assumes "reaches auth_init (auth_step c st) (db, org)"
    and "presented c st db tok = Some s" "live s" "now < expires_at s" "user_is_active db (s_user s)"
    and "auth_jwt_secret st \<noteq> []" "auth_refresh_hmac_key st \<noteq> []"
    and "hash_refresh_token c (auth_refresh_hmac_key st) tok' \<notin> refresh_token_hash ` set (sessions db)"
  defines "m \<equiv> session_seq db"
  shows "\<exists>db'. refresh c st db tok now tok' =
      (Inr \<lparr>r_access_token = issue_access_token c (auth_jwt_secret st) (s_user s) m (s_device s) (auth_access_token_ttl_seconds st) now,
            r_refresh_token = tok', r_expires_in = auth_access_token_ttl_seconds st\<rparr>, db') \<and>
    get_session db' m = Some (new_session m (s_user s) (s_device s)
      (hash_refresh_token c (auth_refresh_hmac_key st) tok') (now + days (auth_refresh_token_ttl_days st)) now) \<and>
    get_session db' (sid s) = Some (mark_rotated m now s) \<and>
    (\<forall>i r. get_session db i = Some r \<and> i \<noteq> sid s \<and> org (sid s) \<noteq> None \<and> org i = org (sid s) \<longrightarrow>
       (\<exists>r'. get_session db' i = Some r' \<and> \<not> live r')) \<and>
    (\<forall>i r. get_session db i = Some r \<and> i \<noteq> sid s \<and> (org (sid s) = None \<or> org i \<noteq> org (sid s)) \<longrightarrow> get_session db' i = Some r)"
proof -
  note inv = reached_inv [OF assms(1)]
  note ps = presentedD [OF inv assms(2)]
  obtain m' res db' where r: "refresh c st db tok now tok' = (Inr res, db')" "rotate c st db s now tok' = Inr (m', res, db')"
    using refresh_live [OF assms(2-8)] by blast
  note R = rotate_live_rows [OF inv ps assms(3) r(2)]
  have m': "m' = m" using R(1) by (simp add: m_def)
  have res: "res = \<lparr>r_access_token = issue_access_token c (auth_jwt_secret st) (s_user s) m (s_device s) (auth_access_token_ttl_seconds st) now,
      r_refresh_token = tok', r_expires_in = auth_access_token_ttl_seconds st\<rparr>"
    using r(2) m' by (auto simp: rotate_def Let_def split: option.splits)
  have free: "i \<noteq> m" if "get_session db i = Some r" for i r using that seq_free [OF inv] by (auto simp: m_def)
  have A: "\<exists>r'. get_session db' i = Some r' \<and> \<not> live r'"
    if i: "get_session db i = Some r" "i \<noteq> sid s" "org (sid s) = Some t" "org i = Some t" for i r t
  proof (cases "i \<in> rivals db org (sid s)")
    case True
    then show ?thesis using R(5) i(1,2) free [OF i(1)] m' by (simp add: superseded_by_def live_def)
  next
    case False
    then have "\<not> (live r \<and> unused r)" using i by (auto simp: rivals_def grp_def)
    moreover have "unused r" if "live r" using ring_invD(8) [OF inv i(1) i(4) _ ps i(3)] i(2) assms(3) by blast
    ultimately show ?thesis using R(5) False i free [OF i(1)] m' by auto
  qed
  have B: "get_session db' i = Some r"
    if i: "get_session db i = Some r" "i \<noteq> sid s" "org (sid s) = None \<or> org i \<noteq> org (sid s)" for i r
  proof -
    have "i \<notin> rivals db org (sid s)" using i(3) by (auto simp: rivals_def grp_def split: option.splits)
    then show ?thesis using R(5) i free [OF i(1)] m' by simp
  qed
  have C: "get_session db' (sid s) = Some (mark_rotated m now s)" "get_session db' m = Some (new_session m (s_user s) (s_device s)
      (hash_refresh_token c (auth_refresh_hmac_key st) tok') (now + days (auth_refresh_token_ttl_days st)) now)"
    using R(5) m' free [OF ps] by simp_all
  show ?thesis
  proof (intro exI [of _ db'] conjI allI impI)
    fix i r assume "get_session db i = Some r \<and> i \<noteq> sid s \<and> org (sid s) \<noteq> None \<and> org i = org (sid s)"
    then show "\<exists>r'. get_session db' i = Some r' \<and> \<not> live r'" using A by (metis not_None_eq)
  qed (use r(1) res B C in blast)+
qed

theorem refresh_rotates_witness:
  "\<exists>db'. fst (refresh run_crypto run_settings run1 ''A'' 10 ''B'') =
      Inr \<lparr>r_access_token = ''ss'', r_refresh_token = ''B'', r_expires_in = 900\<rparr> \<and>
    map_option live (get_session db' 2) = Some True \<and> refresh run_crypto run_settings run1 ''A'' 10 ''B'' = (Inr
      \<lparr>r_access_token = ''ss'', r_refresh_token = ''B'', r_expires_in = 900\<rparr>, db')"
proof -
  obtain s where s: "presented run_crypto run_settings run1 ''A'' = Some s" "live s" "10 < expires_at s"
    "user_is_active run1 (s_user s)" "s_user s = 5" "s_device s = Some 9"
  proof -
    have "(case presented run_crypto run_settings run1 ''A'' of None \<Rightarrow> False
       | Some s \<Rightarrow> live s \<and> 10 < expires_at s \<and> user_is_active run1 (s_user s) \<and> s_user s = 5 \<and> s_device s = Some 9)" by code_simp
    then show ?thesis using that by (auto split: option.splits)
  qed
  have st: "auth_jwt_secret run_settings \<noteq> []" "auth_refresh_hmac_key run_settings \<noteq> []"
    "hash_refresh_token run_crypto (auth_refresh_hmac_key run_settings) ''B'' \<notin> refresh_token_hash ` set (sessions run1)" by code_simp+
  have n: "session_seq run1 = 2" by code_simp
  have a: "issue_access_token run_crypto (auth_jwt_secret run_settings) 5 2 (Some 9) 900 10 = ''ss''"
    "auth_access_token_ttl_seconds run_settings = 900" by code_simp+
  show ?thesis
    using refresh_rotates [OF run_reaches(1) s(1-4) st, unfolded n s(5,6) a(2)] by (auto simp: a(1))
qed

text \<open>C19. A client that lost the reply to a rotation recovers: a token revoked by rotation, unexpired,
  of an active user, is rotated again as long as one session it was rotated into is live and unused.
  The newest of those sessions, up to 16 with the new one, stay live and unused.\<close>

theorem lost_reply_recovers:
  assumes "reaches auth_init (auth_step c st) (db, org)"
    and "presented c st db tok = Some s" "revoked_reason s = Some Rotated"
    and "org i = Some (sid s)" "get_session db i = Some r" "live r" "unused r"
    and "now < expires_at s" "user_is_active db (s_user s)" "auth_jwt_secret st \<noteq> []" "auth_refresh_hmac_key st \<noteq> []"
    and "hash_refresh_token c (auth_refresh_hmac_key st) tok' \<notin> refresh_token_hash ` set (sessions db)"
  shows "\<exists>res db'. refresh c st db tok now tok' = (Inr res, db') \<and>
    grp db' (refresh_origins c st db tok db' org) (sid s) = kept (grp db org (sid s)) (session_seq db) \<and>
    (\<exists>n. get_session db' (session_seq db) = Some n \<and> live n \<and> unused n \<and>
       refresh_token_hash n = hash_refresh_token c (auth_refresh_hmac_key st) tok')"
proof -
  note inv = reached_inv [OF assms(1)]
  note ps = presentedD [OF inv assms(2)]
  have "i \<in> grp db org (sid s)" using assms(4-7) by (simp add: grp_def)
  then obtain res db' where ref: "refresh c st db tok now tok' = (Inr res, db')"
    using refresh_again [OF inv assms(2,3) _ assms(8-12)] by blast
  have "\<not> live s" using ring_invD(6) [OF inv ps assms(4)] by simp
  then obtain k q where q: "replaced_by s = Some k" "get_session db k = Some q" "may_rotate_again s (Some q)"
      "rotate_again c st db s q now tok' = Inr (res, db')"
    using refresh_success(2) [OF inv ref assms(2)] by blast
  have "session_seq db' = Suc (session_seq db)" by (rule rotate_again_rows(1) [OF inv ps q])
  then have "refresh_origins c st db tok db' org = org(session_seq db := Some (sid s))"
    using assms(2) by (simp add: refresh_origins_def)
  then show ?thesis
    using ref ring_inv_rotate_again(2) [OF inv ps q, of "sid s"] rotate_again_rows(3) [OF inv ps q, of "session_seq db"] by simp
qed

theorem lost_reply_recovers_witness:
  "\<exists>res db'. refresh run_crypto run_settings run3 ''A'' 20 ''D'' = (Inr res, db') \<and>
    (\<exists>n. get_session db' 4 = Some n \<and> live n \<and> unused n)"
proof -
  obtain s where s: "presented run_crypto run_settings run3 ''A'' = Some s" "revoked_reason s = Some Rotated" "20 < expires_at s"
    "user_is_active run3 (s_user s)" "sid s = 1"
  proof -
    have "(case presented run_crypto run_settings run3 ''A'' of None \<Rightarrow> False
       | Some s \<Rightarrow> revoked_reason s = Some Rotated \<and> 20 < expires_at s \<and> user_is_active run3 (s_user s) \<and> sid s = 1)" by code_simp
    then show ?thesis using that by (auto split: option.splits)
  qed
  obtain r where r: "get_session run3 2 = Some r" "live r" "unused r"
  proof -
    have "(case get_session run3 2 of Some s \<Rightarrow> live s \<and> unused s | None \<Rightarrow> False)" by code_simp
    then show ?thesis using that by (auto split: option.splits)
  qed
  have o: "[2 \<mapsto> 1, 3 \<mapsto> 1] 2 = Some (sid s)" using s(5) by simp
  have st: "auth_jwt_secret run_settings \<noteq> []" "auth_refresh_hmac_key run_settings \<noteq> []"
    "hash_refresh_token run_crypto (auth_refresh_hmac_key run_settings) ''D'' \<notin> refresh_token_hash ` set (sessions run3)" by code_simp+
  have n: "session_seq run3 = 4" by code_simp
  show ?thesis using lost_reply_recovers [OF run_reaches(3) s(1,2) o r s(3,4) st] unfolding n by blast
qed

definition codec_stable :: "crypto \<Rightarrow> bool" where
  "codec_stable c \<longleftrightarrow> (\<forall>k i a t t' tok x y. jwt_decode c k i a t tok = Some x \<longrightarrow> jwt_decode c k i a t' tok = Some y \<longrightarrow> x = y)"

lemma read_claims_stable:
  assumes "codec_stable c"
    and "read_claims c k t tok = Some x" "read_claims c k t' tok = Some y"
  shows "y = x"
proof -
  let ?d = "\<lambda>t. jwt_decode c k ''tigerduck-backend'' ''tigerduck-api'' t tok"
  obtain p q where "?d t = Some p" "?d t' = Some q"
    using assms(2,3) by (auto simp: read_claims_def decode_access_token_def split: option.splits)
  moreover from this have "p = q" using assms(1) unfolding codec_stable_def by blast
  ultimately show ?thesis using assms(2,3) by (simp add: read_claims_def decode_access_token_def)
qed

text \<open>Logging out ends the session: once a logout request was accepted, the same access token
  is refused from then on. The codec gives a token the same claims whenever it accepts it.\<close>

theorem logged_out_stays_out:
  assumes "reaches auth_init (auth_step c st) (db, org)"
    and "codec_stable c"
    and "logout_request c st db header now now' = (None, db')"
  shows "\<exists>e. require_user c st db' header later = (Inl e, db')"
proof -
  note inv = reached_inv [OF assms(1)]
  obtain ca db1 where ru: "require_user c st db header now = (Inr ca, db1)" and db': "db' = logout db1 (ca_session ca) now'"
    using assms(3) by (auto simp: logout_request_def split: prod.splits sum.splits)
  obtain s where s: "get_session db1 (ca_session ca) = Some s" "live s" using granted_session [OF inv ru] by blast
  obtain s' where s': "get_session db' (ca_session ca) = Some s'" "\<not> live s'"
    using s by (simp add: db' logout_def get_modify_session live_def)
  obtain h u d where h: "header = Some h" "starts_with ''Bearer '' h"
      "read_claims c (auth_jwt_secret st) now (py_strip (remove_prefix ''Bearer '' h)) = Some (u, ca_session ca, d)"
    using ru by (auto simp: require_user_def Let_def split: if_splits option.splits)
  show ?thesis
  proof (cases "read_claims c (auth_jwt_secret st) later (py_strip (remove_prefix ''Bearer '' h))")
    case None
    then show ?thesis using h by (simp add: require_user_def)
  next
    case (Some cl')
    then have "cl' = (u, ca_session ca, d)" using read_claims_stable [OF assms(2)] h(3) by blast
    then show ?thesis using Some h s' by (simp add: require_user_def)
  qed
qed

theorem logged_out_stays_out_witness:
  "\<exists>e db'. logout_request run_crypto run_settings run3 (Some ''Bearer ss'') 30 31 = (None, db') \<and>
     require_user run_crypto run_settings db' (Some ''Bearer ss'') 40 = (Inl e, db')"
proof -
  obtain db' where l: "logout_request run_crypto run_settings run3 (Some ''Bearer ss'') 30 31 = (None, db')"
  proof -
    have "fst (logout_request run_crypto run_settings run3 (Some ''Bearer ss'') 30 31) = None" by code_simp
    then show ?thesis using that by (metis prod.collapse)
  qed
  have "\<exists>e. require_user run_crypto run_settings db' (Some ''Bearer ss'') 40 = (Inl e, db')"
    by (rule logged_out_stays_out [OF run_reaches(3) _ l]) (simp add: codec_stable_def run_crypto_def)
  with l show ?thesis by blast
qed

text \<open>C36. Deleting a device row (a sign-in of another student on the same phone) does not end the
  sessions of the previous student: a live session of the deleted device can still be refreshed.\<close>

theorem detached_session_still_refreshes:
  assumes "presented c st db tok = Some s" "s_device s = Some dev"
    and "live s" "now < expires_at s" "user_is_active db (s_user s)" "auth_jwt_secret st \<noteq> []" "auth_refresh_hmac_key st \<noteq> []"
    and "hash_refresh_token c (auth_refresh_hmac_key st) tok' \<notin> refresh_token_hash ` set (sessions db)"
  shows "\<exists>res db'. refresh c st (detach_device db dev) tok now tok' = (Inr res, db')"
proof -
  let ?db = "detach_device db dev"
  have "presented c st ?db tok = Some (s\<lparr>s_device := None\<rparr>)"
    using assms(1,2) by (simp add: presented_def detach_device_def row_get_update_where)
  moreover have "refresh_token_hash ` set (sessions ?db) = refresh_token_hash ` set (sessions db)"
  proof -
    have "map refresh_token_hash (sessions ?db) = map refresh_token_hash (sessions db)"
      by (simp add: detach_device_def map_key_update_where)
    then show ?thesis by (metis list.set_map)
  qed
  moreover have "user_is_active ?db (s_user s)" using assms(5) by (simp add: user_is_active_def detach_device_def)
  ultimately show ?thesis
    using refresh_live [of c st ?db tok "s\<lparr>s_device := None\<rparr>" now tok'] assms(3-8) by (auto simp: live_def)
qed

theorem detached_session_still_refreshes_witness:
  "\<exists>res db'. refresh run_crypto run_settings (detach_device run1 9) ''A'' 10 ''B'' = (Inr res, db')"
proof -
  obtain s where s: "presented run_crypto run_settings run1 ''A'' = Some s" "s_device s = Some 9" "live s" "10 < expires_at s"
    "user_is_active run1 (s_user s)"
  proof -
    have "(case presented run_crypto run_settings run1 ''A'' of None \<Rightarrow> False
       | Some s \<Rightarrow> live s \<and> 10 < expires_at s \<and> user_is_active run1 (s_user s) \<and> s_device s = Some 9)" by code_simp
    then show ?thesis using that by (auto split: option.splits)
  qed
  have st: "auth_jwt_secret run_settings \<noteq> []" "auth_refresh_hmac_key run_settings \<noteq> []"
    "hash_refresh_token run_crypto (auth_refresh_hmac_key run_settings) ''B'' \<notin> refresh_token_hash ` set (sessions run1)" by code_simp+
  show ?thesis by (rule detached_session_still_refreshes [OF s st])
qed

end
