(* ===== verification/RateLimit.thy ===== *)
theory RateLimit
  imports Prelude
begin

text \<open>
  The in-memory sliding-window limiter of \<^verbatim>\<open>server/auth/rate_limit.py\<close>
  (\<^verbatim>\<open>SlidingWindowLimiter\<close>). The state is the dictionary of attempt times per key; every
  operation takes the clock reading it makes as the argument \<open>now\<close>. Clock readings and the
  window are integers in one unit: the code only adds, subtracts and compares them, and
  floating-point rounding is not modelled.

  The lemmas show that pruning and sweeping never change an admission decision: \<open>allow\<close>
  counts exactly the attempts recorded in the last window, so a guarded caller never records
  more than \<open>max_attempts\<close> attempts of one key in any window.
\<close>

record limiter =
  max_attempts :: int
  window :: int
  attempts :: "string \<Rightarrow> int list option"
  next_sweep :: int

definition new_limiter :: "int \<Rightarrow> int \<Rightarrow> limiter" where
  "new_limiter m w = \<lparr>max_attempts = m, window = w, attempts = Map.empty, next_sweep = 0\<rparr>"

definition prune :: "limiter \<Rightarrow> string \<Rightarrow> int \<Rightarrow> int list \<times> limiter" where
  "prune l key now =
    (let cutoff = now - window l;
         bucket = (case attempts l key of None \<Rightarrow> [] | Some b \<Rightarrow> b);
         bucket' = dropWhile (\<lambda>t. t \<le> cutoff) bucket
     in (bucket', l\<lparr>attempts := (if bucket' = [] then (attempts l)(key := None)
                                else (attempts l)(key \<mapsto> bucket'))\<rparr>))"

definition allow :: "limiter \<Rightarrow> string \<Rightarrow> int \<Rightarrow> bool \<times> limiter" where
  "allow l key now = (let (bucket, l') = prune l key now in (int (length bucket) < max_attempts l', l'))"

definition sweep :: "limiter \<Rightarrow> int \<Rightarrow> limiter" where
  "sweep l now =
    (if now < next_sweep l then l
     else let cutoff = now - window l in
       l\<lparr>next_sweep := now + window l,
         attempts := (\<lambda>k. case attempts l k of None \<Rightarrow> None
                       | Some b \<Rightarrow> if b = [] \<or> last b \<le> cutoff then None else Some b)\<rparr>)"

definition record_attempt :: "limiter \<Rightarrow> string \<Rightarrow> int \<Rightarrow> limiter" where
  "record_attempt l key now =
    (let l' = sweep l now;
         bucket = (case attempts l' key of None \<Rightarrow> [] | Some b \<Rightarrow> b)
     in l'\<lparr>attempts := (attempts l')(key \<mapsto> bucket @ [now])\<rparr>)"

definition reset :: "limiter \<Rightarrow> string \<Rightarrow> limiter" where
  "reset l key = l\<lparr>attempts := (attempts l)(key := None)\<rparr>"

lemmas limiter_defs = prune_def allow_def sweep_def record_attempt_def reset_def

section \<open>Well-formed buckets\<close>

text \<open>The limiter's buckets hold attempt times in order, none of them in the future.\<close>

definition bucket_of :: "limiter \<Rightarrow> string \<Rightarrow> int list" where
  "bucket_of l key = (case attempts l key of None \<Rightarrow> [] | Some b \<Rightarrow> b)"

definition limiter_wf :: "limiter \<Rightarrow> int \<Rightarrow> bool" where
  "limiter_wf l now \<longleftrightarrow> (\<forall>key. sorted (bucket_of l key) \<and> (\<forall>t \<in> set (bucket_of l key). t \<le> now))"

text \<open>What the limiter is for: the attempts of \<open>key\<close> recorded in the window that ends at \<open>now\<close>.\<close>

definition recent :: "limiter \<Rightarrow> string \<Rightarrow> int \<Rightarrow> int list" where
  "recent l key now = filter (\<lambda>t. now - window l < t) (bucket_of l key)"

lemma dropWhile_sorted_filter: "sorted xs \<Longrightarrow> dropWhile (\<lambda>t. t \<le> (c::int)) xs = filter (\<lambda>t. c < t) xs"
proof (induction xs)
  case (Cons x xs)
  have "filter (\<lambda>t. c < t) xs = xs" if "c < x"
    using that Cons.prems by (intro filter_True) fastforce
  with Cons show ?case by (cases "x \<le> c") auto
qed simp

lemma bucket_of_new [simp]: "bucket_of (new_limiter m w) key = []"
  by (simp add: bucket_of_def new_limiter_def)

lemma max_attempts_ops [simp]:
  "max_attempts (snd (prune l key now)) = max_attempts l"
  "max_attempts (snd (allow l key now)) = max_attempts l"
  "max_attempts (sweep l now) = max_attempts l"
  "max_attempts (record_attempt l key now) = max_attempts l"
  "max_attempts (reset l key) = max_attempts l"
  by (simp_all add: limiter_defs Let_def)

lemma window_ops [simp]:
  "window (snd (prune l key now)) = window l"
  "window (snd (allow l key now)) = window l"
  "window (sweep l now) = window l"
  "window (record_attempt l key now) = window l"
  "window (reset l key) = window l"
  by (simp_all add: limiter_defs Let_def)

lemma bucket_of_prune:
  "bucket_of (snd (prune l key now)) k =
    (if k = key then dropWhile (\<lambda>t. t \<le> now - window l) (bucket_of l k) else bucket_of l k)"
  by (auto simp: prune_def bucket_of_def Let_def dropWhile_eq_Nil_conv [THEN iffD2] split: option.splits)

lemma snd_allow: "snd (allow l key now) = snd (prune l key now)"
  by (simp add: allow_def split_beta Let_def)

lemma bucket_of_sweep:
  "bucket_of (sweep l now) k =
    (if now < next_sweep l then bucket_of l k
     else if bucket_of l k = [] \<or> last (bucket_of l k) \<le> now - window l then [] else bucket_of l k)"
  by (auto simp: sweep_def bucket_of_def Let_def split: option.splits)

lemma bucket_of_record:
  "bucket_of (record_attempt l key now) k =
    (if k = key then bucket_of (sweep l now) k @ [now] else bucket_of (sweep l now) k)"
  by (auto simp: record_attempt_def bucket_of_def Let_def)

lemma bucket_of_reset: "bucket_of (reset l key) k = (if k = key then [] else bucket_of l k)"
  by (simp add: reset_def bucket_of_def)

lemma limiter_wf_new: "limiter_wf (new_limiter m w) now"
  by (simp add: limiter_wf_def)

lemma limiter_wf_mono: "limiter_wf l now \<Longrightarrow> now \<le> now' \<Longrightarrow> limiter_wf l now'"
  by (force simp: limiter_wf_def)

lemma limiter_wf_prune: "limiter_wf l now \<Longrightarrow> limiter_wf (snd (prune l key now)) now"
  by (auto simp: limiter_wf_def bucket_of_prune dropWhile_sorted_filter sorted_wrt_filter)

lemma limiter_wf_allow: "limiter_wf l now \<Longrightarrow> limiter_wf (snd (allow l key now)) now"
  by (simp add: snd_allow limiter_wf_prune)

lemma limiter_wf_record: "limiter_wf l now \<Longrightarrow> limiter_wf (record_attempt l key now) now"
  by (auto simp: limiter_wf_def bucket_of_record bucket_of_sweep sorted_append)

lemma limiter_wf_reset: "limiter_wf l now \<Longrightarrow> limiter_wf (reset l key) now"
  by (simp add: limiter_wf_def bucket_of_reset)

lemmas limiter_wf_ops = limiter_wf_allow limiter_wf_record limiter_wf_reset

section \<open>Pruning and sweeping are invisible\<close>

lemma recent_prune:
  assumes "limiter_wf l now" "now \<le> now'"
  shows "recent (snd (prune l key now)) k now' = recent l k now'"
proof -
  have "filter (\<lambda>t. now' - window l < t) (filter (\<lambda>t. now - window l < t) xs)
      = filter (\<lambda>t. now' - window l < t) xs" for xs
    using assms(2) by (induction xs) auto
  then show ?thesis
    using assms(1) by (simp add: recent_def bucket_of_prune dropWhile_sorted_filter limiter_wf_def)
qed

lemma recent_sweep:
  assumes "limiter_wf l now" "now \<le> now'"
  shows "recent (sweep l now) k now' = recent l k now'"
proof -
  have "filter (\<lambda>t. now' - window l < t) (bucket_of l k) = []"
    if "last (bucket_of l k) \<le> now - window l" "bucket_of l k \<noteq> []"
  proof -
    have "t \<le> last (bucket_of l k)" if "t \<in> set (bucket_of l k)" for t
      using assms(1) that by (simp add: limiter_wf_def sorted_le_last)
    with that assms(2) show ?thesis by (fastforce simp: filter_empty_conv)
  qed
  then show ?thesis
    by (cases "bucket_of l k = []") (auto simp: recent_def bucket_of_sweep)
qed

lemma recent_record:
  assumes "limiter_wf l now" "now \<le> now'"
  shows "recent (record_attempt l key now) k now' =
    recent l k now' @ (if k = key \<and> now' - window l < now then [now] else [])"
  using recent_sweep [OF assms, of k] by (auto simp: recent_def bucket_of_record)

lemma recent_reset: "recent (reset l key) k now = (if k = key then [] else recent l k now)"
  by (simp add: recent_def bucket_of_reset)

lemma allow_iff_recent:
  "limiter_wf l now \<Longrightarrow> fst (allow l key now) \<longleftrightarrow> int (length (recent l key now)) < max_attempts l"
  by (simp add: allow_def prune_def recent_def bucket_of_def Let_def limiter_wf_def
      dropWhile_sorted_filter split: option.splits)

section \<open>Runs of the limiter\<close>

text \<open>A sequence of calls, each at its clock reading, and the attempts a fresh account of the
  history would count: every recorded attempt of the key since its last reset.\<close>

datatype limiter_call = Allow string int | Record string int | Reset string int

fun call_time :: "limiter_call \<Rightarrow> int" where
  "call_time (Allow _ t) = t"
| "call_time (Record _ t) = t"
| "call_time (Reset _ t) = t"

fun run_call :: "limiter_call \<Rightarrow> limiter \<Rightarrow> limiter" where
  "run_call (Allow k t) l = snd (allow l k t)"
| "run_call (Record k t) l = record_attempt l k t"
| "run_call (Reset k t) l = reset l k"

definition run_calls :: "limiter_call list \<Rightarrow> limiter \<Rightarrow> limiter" where
  "run_calls cs l = fold run_call cs l"

fun history_step :: "string \<Rightarrow> limiter_call \<Rightarrow> int list \<Rightarrow> int list" where
  "history_step k (Allow _ _) h = h"
| "history_step k (Record k' t) h = (if k' = k then h @ [t] else h)"
| "history_step k (Reset k' t) h = (if k' = k then [] else h)"

definition history :: "string \<Rightarrow> limiter_call list \<Rightarrow> int list" where
  "history k cs = fold (history_step k) cs []"

lemma run_calls_simps [simp]:
  "run_calls [] l = l"
  "run_calls (cs @ [c]) l = run_call c (run_calls cs l)"
  by (simp_all add: run_calls_def)

lemma history_simps [simp]:
  "history k [] = []"
  "history k (cs @ [c]) = history_step k c (history k cs)"
  by (simp_all add: history_def)

lemma run_call_window [simp]: "window (run_call c l) = window l"
  by (cases c) simp_all

lemma run_call_max [simp]: "max_attempts (run_call c l) = max_attempts l"
  by (cases c) simp_all

lemma run_call_wf: "limiter_wf l (call_time c) \<Longrightarrow> limiter_wf (run_call c l) (call_time c)"
  by (cases c) (simp_all add: limiter_wf_ops)

lemma run_call_recent:
  assumes "limiter_wf l (call_time c)" "call_time c \<le> now"
    "recent l k now = filter (\<lambda>t. now - window l < t) h"
  shows "recent (run_call c l) k now = filter (\<lambda>t. now - window l < t) (history_step k c h)"
  using assms by (cases c) (auto simp: snd_allow recent_prune recent_record recent_reset)

lemma run_calls_refines:
  assumes "sorted (map call_time cs)"
  shows "(\<forall>c \<in> set cs. call_time c \<le> now) \<Longrightarrow>
    (let l = run_calls cs (new_limiter m w) in
       window l = w \<and> max_attempts l = m \<and> limiter_wf l now \<and>
       recent l k now = filter (\<lambda>t. now - w < t) (history k cs))"
  using assms
proof (induction cs arbitrary: now rule: rev_induct)
  case Nil
  then show ?case by (simp add: limiter_wf_new recent_def) (simp add: new_limiter_def)
next
  case (snoc c cs)
  let ?l = "run_calls cs (new_limiter m w)"
  have srt: "sorted (map call_time cs)" and le: "\<forall>d \<in> set cs. call_time d \<le> call_time c"
    using snoc.prems(2) by (auto simp: sorted_append)
  have now: "\<forall>d \<in> set cs. call_time d \<le> now" "call_time c \<le> now"
    using snoc.prems(1) by auto
  have IH: "window ?l = w" "max_attempts ?l = m" "limiter_wf ?l (call_time c)"
    and R: "recent ?l k now = filter (\<lambda>t. now - w < t) (history k cs)"
    using snoc.IH [OF le srt] snoc.IH [OF now(1) srt] by (simp_all add: Let_def)
  have wf: "limiter_wf (run_call c ?l) now"
    using run_call_wf [OF IH(3)] now(2) by (rule limiter_wf_mono)
  have "recent (run_call c ?l) k now = filter (\<lambda>t. now - w < t) (history_step k c (history k cs))"
    using run_call_recent [OF IH(3) now(2)] R IH(1) by simp
  with IH(1,2) wf show ?case by (simp add: Let_def)
qed

section \<open>A guarded caller\<close>

text \<open>
  The login route's use of the limiter (\<^verbatim>\<open>server/auth/service.py\<close>, \<open>login\<close>): both keys must
  allow, in this order and with Python's short-circuit, before both are recorded.
\<close>

definition admit_login :: "limiter \<Rightarrow> string \<Rightarrow> string \<Rightarrow> int \<Rightarrow> bool \<times> limiter" where
  "admit_login l sid_key ip_key now =
    (let (ok1, l1) = allow l sid_key now in
     if \<not> ok1 then (False, l1)
     else let (ok2, l2) = allow l1 ip_key now in
     if \<not> ok2 then (False, l2)
     else (True, record_attempt (record_attempt l2 sid_key now) ip_key now))"

text \<open>Repeated logins of one key pair, the clock advancing: the times that were admitted.\<close>

fun admitted :: "limiter \<Rightarrow> string \<Rightarrow> string \<Rightarrow> int list \<Rightarrow> int list" where
  "admitted l sid ip [] = []"
| "admitted l sid ip (t # ts) =
    (let (ok, l') = admit_login l sid ip t in
     (if ok then [t] else []) @ admitted l' sid ip ts)"

lemma admit_login_wf: "limiter_wf l now \<Longrightarrow> limiter_wf (snd (admit_login l s i now)) now"
  using limiter_wf_allow [of l now s] limiter_wf_allow [of "snd (allow l s now)" now i]
  by (auto simp: admit_login_def split_beta Let_def limiter_wf_record)

lemma admit_login_window [simp]: "window (snd (admit_login l s i now)) = window l"
  by (simp add: admit_login_def split_beta Let_def)

lemma admit_login_max [simp]: "max_attempts (snd (admit_login l s i now)) = max_attempts l"
  by (simp add: admit_login_def split_beta Let_def)

lemma admit_login_ok:
  assumes "limiter_wf l now"
  shows "fst (admit_login l s i now) \<longleftrightarrow>
    int (length (recent l s now)) < max_attempts l \<and> int (length (recent l i now)) < max_attempts l"
  using assms allow_iff_recent [OF assms, of s] limiter_wf_allow [OF assms, of s]
    allow_iff_recent [of "snd (allow l s now)" now i] recent_prune [OF assms order_refl, of s i]
  by (auto simp: admit_login_def split_beta Let_def snd_allow)

lemma admit_login_recent_ip:
  assumes "limiter_wf l now" "now \<le> now'" "s \<noteq> i"
  shows "recent (snd (admit_login l s i now)) i now' =
    recent l i now' @ (if fst (admit_login l s i now) \<and> now' - window l < now then [now] else [])"
  using assms limiter_wf_allow [OF assms(1), of s]
    limiter_wf_allow [of "snd (allow l s now)" now i]
    limiter_wf_record [of "snd (allow (snd (allow l s now)) i now)" now s]
  by (auto simp: admit_login_def split_beta Let_def recent_record recent_prune snd_allow)

lemma admit_login_recent:
  assumes "limiter_wf l now" "now \<le> now'" "s \<noteq> i"
  shows "recent (snd (admit_login l s i now)) s now' =
    recent l s now' @ (if fst (admit_login l s i now) \<and> now' - window l < now then [now] else [])"
  using assms limiter_wf_allow [OF assms(1), of s]
    limiter_wf_allow [of "snd (allow l s now)" now i]
    limiter_wf_record [of "snd (allow (snd (allow l s now)) i now)" now s]
  by (auto simp: admit_login_def split_beta Let_def recent_record recent_prune snd_allow)

text \<open>No window holds more than \<open>m\<close> of the times in \<open>h\<close>.\<close>

definition within_limit :: "int \<Rightarrow> int \<Rightarrow> int list \<Rightarrow> bool" where
  "within_limit m w h \<longleftrightarrow> (\<forall>e. int (length (filter (\<lambda>t. e - w < t \<and> t \<le> e) h)) \<le> m)"

lemma within_limit_snoc:
  assumes "within_limit m w h" "int (length (filter (\<lambda>x. t - w < x) h)) < m"
  shows "within_limit m w (h @ [t])"
  unfolding within_limit_def
proof
  fix e
  show "int (length (filter (\<lambda>x. e - w < x \<and> x \<le> e) (h @ [t]))) \<le> m"
  proof (cases "e - w < t \<and> t \<le> e")
    case True
    then have "length (filter (\<lambda>x. e - w < x \<and> x \<le> e) h) \<le> length (filter (\<lambda>x. t - w < x) h)"
      by (intro length_filter_mono) auto
    with assms(2) True show ?thesis by simp
  next
    case False
    with assms(1) show ?thesis by (auto simp: within_limit_def)
  qed
qed

lemma admitted_within_limit_from:
  assumes "sorted ts" "\<forall>t \<in> set ts. now \<le> t" "limiter_wf l now" "s \<noteq> i"
    "\<And>now'. now \<le> now' \<Longrightarrow> recent l s now' = filter (\<lambda>t. now' - window l < t) h"
    "within_limit (max_attempts l) (window l) h"
  shows "within_limit (max_attempts l) (window l) (h @ admitted l s i ts)"
  using assms
proof (induction ts arbitrary: l h now)
  case Nil
  then show ?case by simp
next
  case (Cons t ts)
  define l' where "l' = snd (admit_login l s i t)"
  define ok where "ok = fst (admit_login l s i t)"
  have wf: "limiter_wf l t"
    using Cons.prems(2,3) by (auto intro: limiter_wf_mono)
  have ok_iff: "int (length (filter (\<lambda>x. t - window l < x) h)) < max_attempts l" if ok
    using that admit_login_ok [OF wf, of s i] Cons.prems(2,5) by (simp add: ok_def)
  let ?h = "h @ (if ok then [t] else [])"
  have rec: "recent l' s now' = filter (\<lambda>x. now' - window l < x) ?h" if "t \<le> now'" for now'
    using admit_login_recent [OF wf that Cons.prems(4)] Cons.prems(2,5) that
    by (auto simp: l'_def ok_def)
  have lmt: "within_limit (max_attempts l) (window l) ?h"
    using Cons.prems(6) within_limit_snoc ok_iff by auto
  have "within_limit (max_attempts l') (window l') (?h @ admitted l' s i ts)"
  proof (rule Cons.IH [where now = t])
    show "sorted ts" "\<forall>u \<in> set ts. t \<le> u" using Cons.prems(1) by auto
    show "limiter_wf l' t" using wf by (simp add: l'_def admit_login_wf)
  qed (use Cons.prems(4) rec lmt in \<open>auto simp: l'_def\<close>)
  then show ?case by (simp add: l'_def ok_def split_beta Let_def)
qed

section \<open>Properties\<close>

text \<open>
  C22. The limiter counts exactly: after any sequence of calls at non-decreasing clock
  readings, \<open>allow key now\<close> answers whether fewer than \<open>max_attempts\<close> attempts of \<open>key\<close> since
  its last reset lie in the window ending at \<open>now\<close>. Neither pruning a bucket nor sweeping
  abandoned keys ever changes an answer.
\<close>

theorem allow_counts_exactly:
  assumes "sorted (map call_time cs)" "\<forall>c \<in> set cs. call_time c \<le> now"
  shows "fst (allow (run_calls cs (new_limiter m w)) key now) \<longleftrightarrow>
    int (length (filter (\<lambda>t. now - w < t) (history key cs))) < m"
  using run_calls_refines [OF assms, of m w key] allow_iff_recent
  by (simp add: Let_def)

theorem allow_counts_exactly_witness:
  "\<not> fst (allow (run_calls [Record ''k'' 1, Record ''k'' 8, Allow ''k'' 9, Record ''k'' 9]
      (new_limiter 2 5)) ''k'' 10)"
  using allow_counts_exactly
    [of "[Record ''k'' 1, Record ''k'' 8, Allow ''k'' 9, Record ''k'' 9]" 10 2 5 "''k''"]
  by (simp add: history_def)

text \<open>
  Logins are rate limited: however often one student tries from one address, the
  attempts the login route admits never exceed \<open>max_attempts\<close> in any window of the
  configured length (no successful login resets the keys in between).
\<close>

theorem login_rate_limited:
  assumes "sorted ts" "0 \<le> m" "sid_key \<noteq> ip_key"
  shows "int (length (filter (\<lambda>t. e - w < t \<and> t \<le> e)
    (admitted (new_limiter m w) sid_key ip_key ts))) \<le> m"
proof (cases ts)
  case Nil
  with assms(2) show ?thesis by simp
next
  case (Cons t us)
  have "within_limit (max_attempts (new_limiter m w)) (window (new_limiter m w))
      ([] @ admitted (new_limiter m w) sid_key ip_key ts)"
  proof (rule admitted_within_limit_from [where now = t])
    show "limiter_wf (new_limiter m w) t" by (rule limiter_wf_new)
  qed (use assms Cons in \<open>auto simp: recent_def within_limit_def new_limiter_def bucket_of_def\<close>)
  then show ?thesis by (simp add: within_limit_def new_limiter_def)
qed

theorem login_rate_limited_witness:
  "admitted (new_limiter 2 10) ''s'' ''i'' [1, 2, 3, 4, 12] = [1, 2, 12] \<and>
   int (length (filter (\<lambda>t. 4 - 10 < t \<and> t \<le> 4) (admitted (new_limiter 2 10) ''s'' ''i'' [1, 2, 3, 4, 12]))) \<le> 2"
proof -
  have "admitted (new_limiter 2 10) ''s'' ''i'' [1, 2, 3, 4, 12] = [1, 2, 12]"
    by code_simp
  moreover note login_rate_limited [of "[1, 2, 3, 4, 12]" 2 "''s''" "''i''" 4 10]
  ultimately show ?thesis by simp
qed

end
