(* ===== verification/Login.thy ===== *)
theory Login
  imports SessionSafety RateLimit
begin

text \<open>
  Signing in and out: \<^verbatim>\<open>server/auth/service.py\<close> (\<open>login\<close> and the helpers it calls),
  \<^verbatim>\<open>server/auth/moodle.py\<close> (the check of the Moodle token and the display name),
  \<^verbatim>\<open>server/syncjobs/provisioning.py\<close>, \<^verbatim>\<open>server/routes/auth.py\<close> (\<open>login\<close>, \<open>refresh\<close>,
  \<open>update_credentials\<close>), \<open>delete_device\<close> of \<^verbatim>\<open>server/routes/user_devices.py\<close> and
  \<^verbatim>\<open>server/auth/retirement.py\<close>.

  A request returns its answer, the limiter and the database it commits; one that raises
  returns the database it started with. Moodle, the cipher, the generated ids and the random
  token are arguments.
\<close>

section \<open>Moodle\<close>

record moodle_verify_result =
  mv_ok :: bool
  mv_username :: "string option"
  mv_error :: "string option"
  mv_fullname :: "string option"

text \<open>What came back from Moodle: nothing (a transport or parse error), or the status code and the
  decoded body.\<close>

datatype moodle_reply = Unreachable | Reply int json

definition json_field :: "string \<Rightarrow> (string \<times> json) list \<Rightarrow> json option" where
  "json_field k obj = map_of obj k"

definition TOKEN_ERRORCODES :: "string list" where
  "TOKEN_ERRORCODES = [''invalidtoken'', ''accessexception'']"

text \<open>\<^verbatim>\<open>str(body.get(k, ''))\<close> for a string or missing entry; the text of any other JSON value is a
  parameter.\<close>

definition str_entry :: "(json \<Rightarrow> string) \<Rightarrow> string \<Rightarrow> (string \<times> json) list \<Rightarrow> string" where
  "str_entry json_str k obj = (case json_field k obj of None \<Rightarrow> [] | Some (JStr s) \<Rightarrow> s | Some j \<Rightarrow> json_str j)"

definition verify_reply :: "(json \<Rightarrow> string) \<Rightarrow> moodle_reply \<Rightarrow> string \<Rightarrow> moodle_verify_result" where
  "verify_reply json_str reply student =
    (let failed = (\<lambda>e. \<lparr>mv_ok = False, mv_username = None, mv_error = Some e, mv_fullname = None\<rparr>) in
     case reply of
       Unreachable \<Rightarrow> failed ''unreachable''
     | Reply code body \<Rightarrow>
        (case body of
           JObj obj \<Rightarrow>
             if code \<ge> 400 then failed ''unreachable''
             else if json_field ''exception'' obj \<noteq> None then
               (if str_entry json_str ''errorcode'' obj \<in> set TOKEN_ERRORCODES
                then failed ''invalid_token'' else failed ''unreachable'')
             else
               let username = str_entry json_str ''username'' obj in
               if py_lower username \<noteq> py_lower student then failed ''username_mismatch''
               else \<lparr>mv_ok = True, mv_username = Some username, mv_error = None,
                     mv_fullname = (case json_field ''fullname'' obj of Some (JStr s) \<Rightarrow> Some s | _ \<Rightarrow> None)\<rparr>
         | _ \<Rightarrow> failed ''unreachable''))"

text \<open>\<open>display_name_from\<close>: \<open>partition_at\<close> is \<^verbatim>\<open>str.partition('@')\<close>, \<open>rpartition_space\<close> is
  \<^verbatim>\<open>str.rpartition(' ')\<close>.\<close>

definition partition_at :: "string \<Rightarrow> string \<times> bool \<times> string" where
  "partition_at s = (let before = takeWhile (\<lambda>ch. ch \<noteq> CHR ''@'') s in
     if length before = length s then (s, False, []) else (before, True, drop (Suc (length before)) s))"

definition rpartition_space :: "string \<Rightarrow> string \<times> string" where
  "rpartition_space s = (let lst = rev (takeWhile (\<lambda>ch. ch \<noteq> CHR '' '') (rev s)) in
     if length lst = length s then ([], s) else (take (length s - length lst - 1) s, lst))"

definition py_rstrip :: "string \<Rightarrow> string" where
  "py_rstrip s = rev (dropWhile is_space (rev s))"

definition DISPLAY_NAME_MAX :: nat where
  "DISPLAY_NAME_MAX = 128"

definition display_name_from :: "string option \<Rightarrow> string option" where
  "display_name_from fullname =
    (let whole = py_strip (case fullname of None \<Rightarrow> [] | Some f \<Rightarrow> f);
         (before, arr, after) = partition_at whole;
         name0 = py_strip after;
         name = (if arr \<and> name0 = [] then
                   (let (rest, lst) = rpartition_space (py_strip before) in
                    if py_strip rest \<noteq> [] \<and> (\<exists>ch \<in> set lst. is_digit ch) then py_strip rest else name0)
                 else name0);
         out = py_rstrip (take DISPLAY_NAME_MAX (if name \<noteq> [] then name else whole))
     in if out = [] then None else Some out)"

section \<open>Credentials\<close>

record encrypted_blob =
  eb_key_id :: string
  eb_nonce :: string
  eb_ciphertext :: string
  eb_aad :: string

definition build_credential_aad :: "nat \<Rightarrow> string \<Rightarrow> string" where
  "build_credential_aad i provider = ''external_account:'' @ nat_str i @ '':provider:'' @ provider"

definition PROVIDER_NTUST_SSO :: string where
  "PROVIDER_NTUST_SSO = ''ntust_sso''"

text \<open>The services a sign-in calls: the check of a token against Moodle (of which
  \<open>verify_reply\<close> is the decision), the cipher when one is configured, and the text form of a time.\<close>

record auth_services =
  verify :: "string \<Rightarrow> string \<Rightarrow> moodle_verify_result"
  cipher :: "(json \<Rightarrow> string \<Rightarrow> encrypted_blob) option"
  isoformat :: "datetime \<Rightarrow> string"

definition json_opt :: "string option \<Rightarrow> json" where
  "json_opt x = (case x of None \<Rightarrow> JNull | Some s \<Rightarrow> JStr s)"

definition token_payload :: "auth_services \<Rightarrow> string \<Rightarrow> string option \<Rightarrow> datetime \<Rightarrow> json" where
  "token_payload sv moodle_token private_token now =
    JObj [(''token_cache'', JObj [(''moodle_token'', JStr moodle_token),
      (''moodle_private_token'', json_opt private_token), (''obtained_at'', JStr (isoformat sv now))])]"

definition put_credential :: "encrypted_blob \<Rightarrow> nat \<Rightarrow> datetime \<Rightarrow> auth_db \<Rightarrow> auth_db" where
  "put_credential blob acct now db =
    (if row_get cr_account acct (credentials db) = None
     then db\<lparr>credentials := credentials db @ [\<lparr>cr_account = acct, encryption_key_id = eb_key_id blob,
        ciphertext = eb_ciphertext blob, nonce = eb_nonce blob, aad = eb_aad blob, rotated_at = None\<rparr>]\<rparr>
     else db\<lparr>credentials := row_update cr_account acct (\<lambda>c. c\<lparr>encryption_key_id := eb_key_id blob,
        ciphertext := eb_ciphertext blob, nonce := eb_nonce blob, aad := eb_aad blob, rotated_at := Some now\<rparr>)
        (credentials db)\<rparr>)"

definition credential_ok :: "nat \<Rightarrow> datetime \<Rightarrow> auth_db \<Rightarrow> auth_db" where
  "credential_ok acct now db = db\<lparr>accounts := row_update a_id acct
     (\<lambda>a. a\<lparr>credential_status := CredActive, last_auth_success_at := Some now, last_auth_error := None\<rparr>) (accounts db)\<rparr>"

definition store_credentials ::
  "auth_services \<Rightarrow> (json \<Rightarrow> string \<Rightarrow> encrypted_blob) \<Rightarrow> nat \<Rightarrow> string \<Rightarrow> string option \<Rightarrow> datetime \<Rightarrow> auth_db \<Rightarrow> auth_db" where
  "store_credentials sv encrypt acct moodle_token private_token now db =
    (let blob = encrypt (token_payload sv moodle_token private_token now) (build_credential_aad acct PROVIDER_NTUST_SSO)
     in credential_ok acct now (put_credential blob acct now db))"

definition has_device :: "auth_db \<Rightarrow> uuid \<Rightarrow> bool" where
  "has_device db u \<longleftrightarrow> (\<exists>d \<in> set (auth_devices db). d_user d = u \<and> d_deleted_at d = None)"

definition forget_credentials_once_signed_out :: "uuid \<Rightarrow> auth_db \<Rightarrow> auth_db" where
  "forget_credentials_once_signed_out u db =
    db\<lparr>credentials := filter (\<lambda>c. \<not> (cr_account c \<in> a_id ` {a \<in> set (accounts db). a_user a = u} \<and> \<not> has_device db u))
      (credentials db)\<rparr>"

definition store_display_name :: "uuid \<Rightarrow> string option \<Rightarrow> auth_db \<Rightarrow> auth_db" where
  "store_display_name u fullname db =
    (case display_name_from fullname of
       None \<Rightarrow> db
     | Some name \<Rightarrow> db\<lparr>users := update_where (\<lambda>x. u_id x = u \<and> display_name x \<noteq> Some name)
         (\<lambda>x. x\<lparr>display_name := Some name\<rparr>) (users db)\<rparr>)"

section \<open>Sync jobs\<close>

definition HANDLED_JOB_TYPES :: "sync_job_type list" where
  "HANDLED_JOB_TYPES = [MoodleAssignments, NtustCourses]"

definition revive_job :: "nat \<Rightarrow> datetime \<Rightarrow> sync_job \<Rightarrow> sync_job" where
  "revive_job acct now j = j\<lparr>sj_status := JobPending, sj_attempts := 0, sj_run_after := now,
     sj_locked_by := None, sj_locked_at := None, sj_last_error := None, sj_account := acct\<rparr>"

definition ensure_sync_job :: "uuid \<Rightarrow> nat \<Rightarrow> datetime \<Rightarrow> sync_job_type \<Rightarrow> auth_db \<Rightarrow> auth_db" where
  "ensure_sync_job u acct now ty db =
    (if \<exists>j \<in> set (sync_jobs db). sj_user j = u \<and> sj_type j = ty
     then db\<lparr>sync_jobs := update_where (\<lambda>j. sj_user j = u \<and> sj_type j = ty \<and> sj_status j = JobDisabled)
       (revive_job acct now) (sync_jobs db)\<rparr>
     else
       let policy = row_get sp_job_type ty (sync_policies db) in
       db\<lparr>job_seq := Suc (job_seq db),
          sync_jobs := sync_jobs db @ [\<lparr>sj_id = job_seq db, sj_user = u, sj_account = acct, sj_type = ty,
            sj_priority = (case policy of Some p \<Rightarrow> sp_priority p | None \<Rightarrow> 100), sj_status = JobPending,
            sj_run_after = now, sj_locked_by = None, sj_locked_at = None, sj_attempts = 0,
            sj_max_attempts = (case policy of Some p \<Rightarrow> sp_max_attempts p | None \<Rightarrow> 3),
            sj_last_success_at = None, sj_last_failure_at = None, sj_last_error = None, sj_cursor = JObj []\<rparr>]\<rparr>)"

definition ensure_sync_jobs :: "uuid \<Rightarrow> nat \<Rightarrow> datetime \<Rightarrow> auth_db \<Rightarrow> auth_db" where
  "ensure_sync_jobs u acct now db = fold (ensure_sync_job u acct now) HANDLED_JOB_TYPES db"

section \<open>Login\<close>

record device_info =
  di_client_device_id :: string
  di_platform :: string
  di_app_version :: "string option"
  di_os_version :: "string option"
  di_device_model :: "string option"

record login_result =
  lr_access_token :: string
  lr_refresh_token :: string
  lr_expires_in :: int
  lr_user :: uuid
  lr_device :: uuid
  lr_fullname :: "string option"

text \<open>What stops the transaction: an answer of its own, or a constraint the database refused
  (\<^verbatim>\<open>IntegrityError\<close>, answered with 409).\<close>

datatype txn_error = Refuse http_error | Integrity

definition student_taken :: "auth_db \<Rightarrow> uuid \<Rightarrow> string \<Rightarrow> bool" where
  "student_taken db u student \<longleftrightarrow>
    (\<exists>x \<in> set (users db). u_id x \<noteq> u \<and> student_id x = Some student \<and> u_deleted_at x = None)"

definition sign_in_user :: "string \<Rightarrow> auth_user \<Rightarrow> auth_user" where
  "sign_in_user student x =
    (let y = (if u_deleted_at x \<noteq> None then x\<lparr>u_deleted_at := None, u_status := UserActive\<rparr> else x)
     in if student_id y \<noteq> Some student then y\<lparr>student_id := Some student\<rparr> else y)"

definition find_or_create_user :: "auth_db \<Rightarrow> string \<Rightarrow> uuid \<Rightarrow> txn_error + (uuid \<times> auth_db)" where
  "find_or_create_user db student fresh =
    (case find (\<lambda>a. a_provider a = PROVIDER_NTUST_SSO \<and> external_user_id a = student) (accounts db) of
       None \<Rightarrow>
         if fresh \<in> u_id ` set (users db) \<or> student_taken db fresh student then Inl Integrity
         else Inr (fresh, db\<lparr>users := users db @ [\<lparr>u_id = fresh, student_id = Some student, display_name = None,
           u_status = UserActive, u_last_login_at = None, u_deleted_at = None\<rparr>]\<rparr>)
     | Some a \<Rightarrow>
        (case row_get u_id (a_user a) (users db) of
           None \<Rightarrow> Inl (Refuse (HTTPException 500 ''Internal Server Error''))
         | Some x \<Rightarrow>
            if u_status x = UserSuspended then Inl (Refuse (HTTPException 403 ''account_suspended''))
            else if sign_in_user student x \<noteq> x \<and> student_taken db (u_id x) student then Inl Integrity
            else Inr (u_id x, db\<lparr>users := row_update u_id (u_id x) (sign_in_user student) (users db)\<rparr>)))"

definition upsert_external_account :: "auth_db \<Rightarrow> uuid \<Rightarrow> string \<Rightarrow> txn_error + (nat \<times> auth_db)" where
  "upsert_external_account db u student =
    (case find (\<lambda>a. a_user a = u \<and> a_provider a = PROVIDER_NTUST_SSO) (accounts db) of
       Some a \<Rightarrow> Inr (a_id a, db)
     | None \<Rightarrow>
        if \<exists>a \<in> set (accounts db). a_provider a = PROVIDER_NTUST_SSO \<and> external_user_id a = student then Inl Integrity
        else Inr (account_seq db, db\<lparr>account_seq := Suc (account_seq db),
          accounts := accounts db @ [\<lparr>a_id = account_seq db, a_user = u, a_provider = PROVIDER_NTUST_SSO,
            external_user_id = student, credential_status = CredActive, last_auth_success_at = None, last_auth_error = None\<rparr>]\<rparr>))"

definition touch_device :: "device_info \<Rightarrow> datetime \<Rightarrow> auth_device \<Rightarrow> auth_device" where
  "touch_device info now d = d\<lparr>platform := di_platform info,
     app_version := (case di_app_version info of None \<Rightarrow> app_version d | Some v \<Rightarrow> Some v),
     os_version := (case di_os_version info of None \<Rightarrow> os_version d | Some v \<Rightarrow> Some v),
     device_model := (case di_device_model info of None \<Rightarrow> device_model d | Some v \<Rightarrow> Some v),
     d_deleted_at := None, d_last_seen_at := Some now, d_last_login_at := Some now\<rparr>"

definition stale_devices :: "auth_db \<Rightarrow> uuid \<Rightarrow> string \<Rightarrow> auth_device list" where
  "stale_devices db u client_id = filter (\<lambda>d. client_device_id d = client_id \<and> d_user d \<noteq> u) (auth_devices db)"

definition take_over_device :: "auth_db \<Rightarrow> uuid \<Rightarrow> string \<Rightarrow> auth_db" where
  "take_over_device db u client_id =
    (let old = stale_devices db u client_id;
         db1 = fold (\<lambda>d db. detach_device db (d_id d)) old db
     in fold forget_credentials_once_signed_out (remdups (map d_user old)) db1)"

definition upsert_device :: "auth_db \<Rightarrow> uuid \<Rightarrow> device_info \<Rightarrow> uuid \<Rightarrow> datetime \<Rightarrow> txn_error + (uuid \<times> auth_db)" where
  "upsert_device db u info fresh now =
    (let db1 = take_over_device db u (di_client_device_id info) in
     case find (\<lambda>d. d_user d = u \<and> client_device_id d = di_client_device_id info) (auth_devices db1) of
       Some d \<Rightarrow> Inr (d_id d, db1\<lparr>auth_devices := row_update d_id (d_id d) (touch_device info now) (auth_devices db1)\<rparr>)
     | None \<Rightarrow>
        if fresh \<in> d_id ` set (auth_devices db1) then Inl Integrity
        else Inr (fresh, db1\<lparr>auth_devices := auth_devices db1 @ [touch_device info now
          \<lparr>d_id = fresh, d_user = u, client_device_id = di_client_device_id info, platform = di_platform info,
           device_model = None, app_version = None, os_version = None, d_last_seen_at = None,
           d_last_login_at = None, d_deleted_at = None\<rparr>]\<rparr>))"

text \<open>The ids and the token a sign-in draws.\<close>

record drawn =
  new_user_id :: uuid
  new_device_id :: uuid
  new_refresh_token :: string

text \<open>The transaction of \<open>login\<close>, from \<open>_find_or_create_user\<close> to the flush of the new session.\<close>

definition sign_in_txn ::
  "crypto \<Rightarrow> auth_settings \<Rightarrow> auth_services \<Rightarrow> (json \<Rightarrow> string \<Rightarrow> encrypted_blob) \<Rightarrow> auth_db \<Rightarrow> string \<Rightarrow> string \<Rightarrow>
   string option \<Rightarrow> device_info \<Rightarrow> drawn \<Rightarrow> datetime \<Rightarrow> txn_error + (uuid \<times> uuid \<times> nat \<times> auth_db)" where
  "sign_in_txn c st sv encrypt db student moodle_token private_token info dr now =
    (case find_or_create_user db student (new_user_id dr) of
       Inl e \<Rightarrow> Inl e
     | Inr (u, db1) \<Rightarrow>
    (case upsert_external_account db1 u student of
       Inl e \<Rightarrow> Inl e
     | Inr (acct, db2) \<Rightarrow>
    (let db3 = store_credentials sv encrypt acct moodle_token private_token now db2;
         db4 = ensure_sync_jobs u acct now db3
     in case upsert_device db4 u info (new_device_id dr) now of
       Inl e \<Rightarrow> Inl e
     | Inr (dev, db5) \<Rightarrow>
    (case insert_session db5 u (Some dev) (hash_refresh_token c (auth_refresh_hmac_key st) (new_refresh_token dr))
         (now + days (auth_refresh_token_ttl_days st)) now of
       None \<Rightarrow> Inl Integrity
     | Some (m, db6) \<Rightarrow> Inr (u, dev, m,
         db6\<lparr>users := row_update u_id u (\<lambda>x. x\<lparr>u_last_login_at := Some now\<rparr>) (users db6)\<rparr>)))))"

definition sid_key :: "string \<Rightarrow> string" where
  "sid_key student = ''login:sid:'' @ py_lower student"

definition ip_key :: "string \<Rightarrow> string" where
  "ip_key ip = ''login:ip:'' @ ip"

definition login ::
  "crypto \<Rightarrow> auth_settings \<Rightarrow> auth_services \<Rightarrow> limiter \<Rightarrow> auth_db \<Rightarrow> string \<Rightarrow> string option \<Rightarrow>
   string option \<Rightarrow> device_info \<Rightarrow> string \<Rightarrow> drawn \<Rightarrow> int \<Rightarrow> datetime \<Rightarrow> (http_error + login_result) \<times> limiter \<times> auth_db" where
  "login c st sv lmt db student moodle_token private_token info client_ip dr tick now =
    (case cipher sv of
       None \<Rightarrow> (Inl (HTTPException 503 ''auth_not_configured''), lmt, db)
     | Some encrypt \<Rightarrow>
       if auth_jwt_secret st = [] \<or> auth_refresh_hmac_key st = []
       then (Inl (HTTPException 503 ''auth_not_configured''), lmt, db)
       else
         let (ok, lim1) = admit_login lmt (sid_key student) (ip_key client_ip) tick in
         if \<not> ok then (Inl (HTTPException 429 ''too_many_login_attempts''), lim1, db)
         else case moodle_token of
           None \<Rightarrow> (Inl (HTTPException 400 ''moodle_token_required''), lim1, db)
         | Some token \<Rightarrow>
            if token = [] then (Inl (HTTPException 400 ''moodle_token_required''), lim1, db)
            else
              let result = verify sv token student in
              if \<not> mv_ok result then
                (Inl (if mv_error result = Some ''unreachable'' then HTTPException 503 ''moodle_unreachable''
                      else HTTPException 401 ''moodle_verification_failed''), lim1, db)
              else (case sign_in_txn c st sv encrypt db student token private_token info dr now of
                 Inl (Refuse e) \<Rightarrow> (Inl e, lim1, db)
               | Inl Integrity \<Rightarrow> (Inl (HTTPException 409 ''login_conflict_retry''), lim1, db)
               | Inr (u, dev, m, db') \<Rightarrow>
                   (Inr \<lparr>lr_access_token = issue_access_token c (auth_jwt_secret st) u m (Some dev)
                           (auth_access_token_ttl_seconds st) now,
                         lr_refresh_token = new_refresh_token dr,
                         lr_expires_in = auth_access_token_ttl_seconds st,
                         lr_user = u, lr_device = dev, lr_fullname = mv_fullname result\<rparr>,
                    reset (reset lim1 (sid_key student)) (ip_key client_ip), db')))"

text \<open>The route stores the display name in a transaction of its own afterwards, which may fail.\<close>

definition login_route ::
  "crypto \<Rightarrow> auth_settings \<Rightarrow> auth_services \<Rightarrow> limiter \<Rightarrow> auth_db \<Rightarrow> string \<Rightarrow> string option \<Rightarrow>
   string option \<Rightarrow> device_info \<Rightarrow> string \<Rightarrow> drawn \<Rightarrow> int \<Rightarrow> datetime \<Rightarrow> bool \<Rightarrow> (http_error + login_result) \<times> limiter \<times> auth_db" where
  "login_route c st sv lmt db student moodle_token private_token info client_ip dr tick now name_ok =
    (case login c st sv lmt db student moodle_token private_token info client_ip dr tick now of
       (Inl e, lim', db') \<Rightarrow> (Inl e, lim', db')
     | (Inr r, lim', db') \<Rightarrow> (Inr r, lim', if name_ok then store_display_name (lr_user r) (lr_fullname r) db' else db'))"

definition refresh_route ::
  "crypto \<Rightarrow> auth_settings \<Rightarrow> limiter \<Rightarrow> auth_db \<Rightarrow> string \<Rightarrow> string \<Rightarrow> int \<Rightarrow> datetime \<Rightarrow> string \<Rightarrow>
   (http_error + refresh_result) \<times> limiter \<times> auth_db" where
  "refresh_route c st lmt db tok ip tick now tok' =
    (let (ok, lim1) = allow lmt ip tick in
     if \<not> ok then (Inl (HTTPException 429 ''too many refresh attempts, try again later''), lim1, db)
     else let lim2 = record_attempt lim1 ip tick; (r, db') = refresh c st db tok now tok' in (r, lim2, db'))"

section \<open>Credential updates, sign-out and retirement\<close>

text \<open>\<^verbatim>\<open>PATCH /auth/credentials\<close> of an authenticated user. It commits before it asks Moodle, so other
  requests run meanwhile: \<open>meanwhile\<close> is what they do to the database.\<close>

definition update_credentials ::
  "crypto \<Rightarrow> auth_services \<Rightarrow> limiter \<Rightarrow> auth_db \<Rightarrow> uuid \<Rightarrow> string \<Rightarrow> string option \<Rightarrow> (auth_db \<Rightarrow> auth_db) \<Rightarrow>
   int \<Rightarrow> datetime \<Rightarrow> bool \<Rightarrow> (http_error + bool) \<times> limiter \<times> auth_db" where
  "update_credentials c sv lmt db u token private_token meanwhile tick now name_ok =
    (let key = ''credentials:'' @ uuid_str c u; (ok, lim1) = allow lmt key tick in
     if \<not> ok then (Inl (HTTPException 429 ''too_many_credential_updates''), lim1, db)
     else let lim2 = record_attempt lim1 key tick in
     case cipher sv of
       None \<Rightarrow> (Inr False, lim2, db)
     | Some encrypt \<Rightarrow>
       (case find (\<lambda>a. a_user a = u) (accounts db) of
          None \<Rightarrow> (Inr False, lim2, db)
        | Some acct \<Rightarrow>
          let result = verify sv token (external_user_id acct); db1 = meanwhile db in
          if \<not> mv_ok result then (Inr False, lim2, db1)
          else (case row_get a_id (a_id acct) (accounts db1) of
             None \<Rightarrow> (Inr False, lim2, db1)
           | Some a \<Rightarrow>
             if \<not> has_device db1 u then (Inr False, lim2, db1)
             else
               let blob = encrypt (token_payload sv token private_token now) (build_credential_aad (a_id a) (a_provider a));
                   db2 = credential_ok (a_id a) now (put_credential blob (a_id a) now db1);
                   db3 = (if credential_status a \<noteq> CredActive
                     then db2\<lparr>sync_jobs := update_where (\<lambda>j. sj_user j = u \<and> sj_status j = JobDisabled)
                       (\<lambda>j. j\<lparr>sj_status := JobPending, sj_run_after := now, sj_attempts := 0,
                         sj_locked_by := None, sj_locked_at := None, sj_last_error := None\<rparr>) (sync_jobs db2)\<rparr>
                     else db2)
               in (Inr True, lim2, if name_ok then store_display_name u (mv_fullname result) db3 else db3))))"

definition invalidate_tokens :: "(uuid \<Rightarrow> bool) \<Rightarrow> auth_db \<Rightarrow> auth_db" where
  "invalidate_tokens P db = db\<lparr>push_tokens := update_where (\<lambda>t. P (pt_device t) \<and> pt_status t = TokenActive)
     (\<lambda>t. t\<lparr>pt_status := TokenInvalidated\<rparr>) (push_tokens db)\<rparr>"

definition delete_device :: "auth_db \<Rightarrow> uuid \<Rightarrow> string \<Rightarrow> datetime \<Rightarrow> (http_error + unit) \<times> auth_db" where
  "delete_device db u client_id now =
    (case find (\<lambda>d. client_device_id d = client_id \<and> d_user d = u \<and> d_deleted_at d = None) (auth_devices db) of
       None \<Rightarrow> (Inl (HTTPException 404 ''device not found''), db)
     | Some d \<Rightarrow>
        let db1 = db\<lparr>auth_devices := row_update d_id (d_id d) (\<lambda>x. x\<lparr>d_deleted_at := Some now\<rparr>) (auth_devices db)\<rparr>;
            db2 = revoke_device_sessions db1 (d_id d) now;
            db3 = invalidate_tokens (\<lambda>i. i = d_id d) db2;
            db4 = forget_credentials_once_signed_out u db3
        in (Inr (), db4\<lparr>registrations := update_where
              (\<lambda>r. reg_device_id r = client_device_id d \<and> reg_linked_user r = Some u)
              (\<lambda>r. r\<lparr>reg_linked_user := None\<rparr>) (registrations db4)\<rparr>))"

definition SILENT_FOR :: timedelta where
  "SILENT_FOR = days 7"

definition dead_device :: "auth_db \<Rightarrow> datetime \<Rightarrow> auth_device \<Rightarrow> bool" where
  "dead_device db now d \<longleftrightarrow> d_deleted_at d = None \<and>
     (case d_last_seen_at d of None \<Rightarrow> True | Some t \<Rightarrow> t < now - SILENT_FOR) \<and>
     \<not> (\<exists>s \<in> set (sessions db). s_device s = Some (d_id d) \<and> live s \<and> now < expires_at s) \<and>
     \<not> (\<exists>r \<in> set (registrations db). reg_device_id r = client_device_id d \<and> now - SILENT_FOR < reg_updated_at r) \<and>
     \<not> (\<exists>t \<in> set (push_tokens db). pt_device t = d_id d \<and> pt_kind t = ''standard'' \<and> pt_status t = TokenActive \<and>
         (case pt_last_success_at t of None \<Rightarrow> False | Some x \<Rightarrow> now - SILENT_FOR < x))"

definition retire_dead_devices :: "auth_db \<Rightarrow> datetime \<Rightarrow> nat \<times> auth_db" where
  "retire_dead_devices db now =
    (let dead = filter (dead_device db now) (auth_devices db) in
     if dead = [] then (0, db)
     else
       let gone = set (map d_id dead);
           db1 = db\<lparr>auth_devices := update_where (dead_device db now) (\<lambda>d. d\<lparr>d_deleted_at := Some now\<rparr>) (auth_devices db)\<rparr>;
           invalidated = filter (\<lambda>t. pt_device t \<in> gone \<and> pt_status t = TokenActive) (push_tokens db1);
           db2 = invalidate_tokens (\<lambda>i. i \<in> gone) db1
       in (length dead, db2\<lparr>audit_log := audit_log db2 @ map (\<lambda>d. \<lparr>au_actor = ''system'', au_action = ''device.deregister'',
            au_user = d_user d, au_device = d_id d,
            au_tokens = sort (map pt_id (filter (\<lambda>t. pt_device t = d_id d) invalidated))\<rparr>) dead\<rparr>))"

section \<open>What the parts of a sign-in leave alone\<close>

lemma credential_frames [simp]:
  "users (store_credentials sv e a t p n db) = users db" "sessions (store_credentials sv e a t p n db) = sessions db"
  "session_seq (store_credentials sv e a t p n db) = session_seq db"
  "users (forget_credentials_once_signed_out u db) = users db"
  "sessions (forget_credentials_once_signed_out u db) = sessions db"
  "session_seq (forget_credentials_once_signed_out u db) = session_seq db"
  "auth_devices (forget_credentials_once_signed_out u db) = auth_devices db"
  "sync_jobs (forget_credentials_once_signed_out u db) = sync_jobs db"
  "accounts (forget_credentials_once_signed_out u db) = accounts db"
  by (simp_all add: store_credentials_def credential_ok_def put_credential_def forget_credentials_once_signed_out_def Let_def)

lemma ensure_job_frames [simp]:
  "users (ensure_sync_job u a n ty db) = users db" "sessions (ensure_sync_job u a n ty db) = sessions db"
  "session_seq (ensure_sync_job u a n ty db) = session_seq db"
  by (simp_all add: ensure_sync_job_def Let_def)

lemma ensure_jobs_frames [simp]:
  "users (ensure_sync_jobs u a n db) = users db" "sessions (ensure_sync_jobs u a n db) = sessions db"
  "session_seq (ensure_sync_jobs u a n db) = session_seq db"
  by (simp_all add: ensure_sync_jobs_def HANDLED_JOB_TYPES_def)

lemma detach_frames [simp]:
  "users (detach_device db dev) = users db" "session_seq (detach_device db dev) = session_seq db"
  "sync_jobs (detach_device db dev) = sync_jobs db"
  by (simp_all add: detach_device_def)

lemma fold_forget_frames [simp]:
  "users (fold forget_credentials_once_signed_out us db) = users db"
  "sessions (fold forget_credentials_once_signed_out us db) = sessions db"
  "session_seq (fold forget_credentials_once_signed_out us db) = session_seq db"
  "auth_devices (fold forget_credentials_once_signed_out us db) = auth_devices db"
  "sync_jobs (fold forget_credentials_once_signed_out us db) = sync_jobs db"
  by (induction us arbitrary: db) simp_all

lemma fold_detach_frames [simp]:
  "users (fold (\<lambda>d db. detach_device db (d_id d)) ds db) = users db"
  "session_seq (fold (\<lambda>d db. detach_device db (d_id d)) ds db) = session_seq db"
  "sync_jobs (fold (\<lambda>d db. detach_device db (d_id d)) ds db) = sync_jobs db"
  by (induction ds arbitrary: db) simp_all

lemma take_over_frames [simp]:
  "users (take_over_device db u k) = users db" "session_seq (take_over_device db u k) = session_seq db"
  "sync_jobs (take_over_device db u k) = sync_jobs db"
  by (simp_all add: take_over_device_def Let_def)

text \<open>A session a take-over touched lost its device and nothing else.\<close>

definition detached :: "auth_session \<Rightarrow> auth_session \<Rightarrow> bool" where
  "detached s s' \<longleftrightarrow> s' = s \<or> s' = s\<lparr>s_device := None\<rparr>"

lemma get_fold_detach:
  "get_session db i = Some s \<Longrightarrow> \<exists>s'. get_session (fold (\<lambda>d db. detach_device db (d_id d)) ds db) i = Some s' \<and> detached s s'"
proof (induction ds arbitrary: db s)
  case (Cons d ds)
  have "get_session (detach_device db (d_id d)) i = Some (if s_device s = Some (d_id d) then s\<lparr>s_device := None\<rparr> else s)"
    using Cons.prems by (simp add: detach_device_def get_session_def row_get_update_where)
  from Cons.IH [OF this] show ?case by (auto simp: detached_def split: if_splits)
qed (simp add: detached_def)

lemma ring_inv_fold_detach:
  "ring_inv db org \<Longrightarrow> ring_inv (fold (\<lambda>d db. detach_device db (d_id d)) ds db) org"
  by (induction ds arbitrary: db) (simp_all add: ring_inv_detach)

section \<open>What a sign-in does\<close>

text \<open>A user pending deletion carries the time it was deleted.\<close>

definition users_consistent :: "auth_db \<Rightarrow> bool" where
  "users_consistent db \<longleftrightarrow> (\<forall>x \<in> set (users db). u_status x = UserPendingDeletion \<longrightarrow> u_deleted_at x \<noteq> None)"

lemma find_or_create_userD:
  assumes "find_or_create_user db student fresh = Inr (u, db1)"
  shows "sessions db1 = sessions db" "session_seq db1 = session_seq db" "accounts db1 = accounts db"
    "users_consistent db \<Longrightarrow> user_is_active db1 u"
proof -
  show "sessions db1 = sessions db" "session_seq db1 = session_seq db" "accounts db1 = accounts db"
    using assms by (auto simp: find_or_create_user_def split: option.splits if_splits)
  assume wf: "users_consistent db"
  show "user_is_active db1 u"
  proof (cases "find (\<lambda>a. a_provider a = PROVIDER_NTUST_SSO \<and> external_user_id a = student) (accounts db)")
    case None
    then have u: "u \<notin> u_id ` set (users db)" and db1: "db1 = db\<lparr>users := users db @ [\<lparr>u_id = u, student_id = Some student, display_name = None,
           u_status = UserActive, u_last_login_at = None, u_deleted_at = None\<rparr>]\<rparr>"
      using assms by (auto simp: find_or_create_user_def split: if_splits)
    have "row_get u_id u (users db) = None" using u by (simp add: row_get_None_iff)
    then show ?thesis by (simp add: user_is_active_def db1)
  next
    case (Some a)
    then obtain x where x: "row_get u_id (a_user a) (users db) = Some x" "u_status x \<noteq> UserSuspended" "u = u_id x"
        "db1 = db\<lparr>users := row_update u_id (u_id x) (sign_in_user student) (users db)\<rparr>"
      using assms by (auto simp: find_or_create_user_def split: option.splits if_splits)
    have "u_id x = a_user a" "x \<in> set (users db)" using row_get_SomeD [OF x(1)] by auto
    moreover have "u_status (sign_in_user student x) = UserActive"
      using wf x(2) \<open>x \<in> _\<close> by (cases "u_status x") (auto simp: sign_in_user_def users_consistent_def Let_def)
    moreover have "u_id (sign_in_user student y) = u_id y" for y by (simp add: sign_in_user_def Let_def)
    ultimately show ?thesis using x by (simp add: user_is_active_def row_get_row_update)
  qed
qed

lemma upsert_external_accountD:
  assumes "upsert_external_account db u student = Inr (a, db1)"
  shows "sessions db1 = sessions db" "session_seq db1 = session_seq db" "users db1 = users db"
  using assms by (auto simp: upsert_external_account_def split: option.splits if_splits)

lemma upsert_deviceD:
  assumes "upsert_device db u info fresh now = Inr (dev, db1)"
  shows "sessions db1 = sessions (fold (\<lambda>d db. detach_device db (d_id d)) (stale_devices db u (di_client_device_id info)) db)"
    "session_seq db1 = session_seq db" "users db1 = users db" "sync_jobs db1 = sync_jobs db"
    "\<exists>d \<in> set (auth_devices db1). d_id d = dev \<and> d_deleted_at d = None \<and> d_last_login_at d = Some now"
proof -
  let ?db = "take_over_device db u (di_client_device_id info)"
  have s: "sessions ?db = sessions (fold (\<lambda>d db. detach_device db (d_id d)) (stale_devices db u (di_client_device_id info)) db)"
    by (simp add: take_over_device_def Let_def)
  show "sessions db1 = sessions (fold (\<lambda>d db. detach_device db (d_id d)) (stale_devices db u (di_client_device_id info)) db)"
    "session_seq db1 = session_seq db" "users db1 = users db" "sync_jobs db1 = sync_jobs db"
    using assms by (auto simp: upsert_device_def Let_def s [symmetric] split: option.splits if_splits)
  have t: "d_id (touch_device info now d) = d_id d" "d_deleted_at (touch_device info now d) = None"
    "d_last_login_at (touch_device info now d) = Some now" for d by (simp_all add: touch_device_def)
  show "\<exists>d \<in> set (auth_devices db1). d_id d = dev \<and> d_deleted_at d = None \<and> d_last_login_at d = Some now"
  proof (cases "find (\<lambda>d. d_user d = u \<and> client_device_id d = di_client_device_id info) (auth_devices ?db)")
    case None
    then show ?thesis using assms t by (auto simp: upsert_device_def Let_def split: if_splits)
  next
    case (Some d)
    then have "d \<in> set (auth_devices ?db)" by (auto simp: find_Some_iff in_set_conv_nth)
    then have "touch_device info now d \<in> set (row_update d_id (d_id d) (touch_device info now) (auth_devices ?db))"
      by (force simp: row_update_def)
    moreover have "db1 = ?db\<lparr>auth_devices := row_update d_id (d_id d) (touch_device info now) (auth_devices ?db)\<rparr>" "dev = d_id d"
      using assms Some by (auto simp: upsert_device_def Let_def)
    ultimately show ?thesis using t by (intro bexI [of _ "touch_device info now d"]) simp_all
  qed
qed

text \<open>The session part of a sign-in: a take-over, then the new session.\<close>

lemma sign_in_txnD:
  assumes "sign_in_txn c st sv e db student tok ptok info dr now = Inr (u, dev, m, db')"
  obtains ds :: "auth_device list" and db5 db6 where "sessions db5 = sessions (fold (\<lambda>d db. detach_device db (d_id d)) ds db)"
    "session_seq db5 = session_seq db"
    "insert_session db5 u (Some dev) (hash_refresh_token c (auth_refresh_hmac_key st) (new_refresh_token dr))
       (now + days (auth_refresh_token_ttl_days st)) now = Some (m, db6)"
    "db' = db6\<lparr>users := row_update u_id u (\<lambda>x. x\<lparr>u_last_login_at := Some now\<rparr>) (users db6)\<rparr>"
    "users_consistent db \<Longrightarrow> user_is_active db5 u"
proof -
  obtain db1 where f: "find_or_create_user db student (new_user_id dr) = Inr (u, db1)"
    using assms by (auto simp: sign_in_txn_def Let_def split: sum.splits option.splits)
  obtain acct db2 where a: "upsert_external_account db1 u student = Inr (acct, db2)"
    using assms f by (auto simp: sign_in_txn_def Let_def split: sum.splits option.splits)
  let ?db4 = "ensure_sync_jobs u acct now (store_credentials sv e acct tok ptok now db2)"
  obtain db5 where d: "upsert_device ?db4 u info (new_device_id dr) now = Inr (dev, db5)"
    using assms f a by (auto simp: sign_in_txn_def Let_def split: sum.splits option.splits)
  obtain db6 where i: "insert_session db5 u (Some dev) (hash_refresh_token c (auth_refresh_hmac_key st) (new_refresh_token dr))
       (now + days (auth_refresh_token_ttl_days st)) now = Some (m, db6)"
      "db' = db6\<lparr>users := row_update u_id u (\<lambda>x. x\<lparr>u_last_login_at := Some now\<rparr>) (users db6)\<rparr>"
    using assms f a d by (auto simp: sign_in_txn_def Let_def split: sum.splits option.splits)
  let ?ds = "stale_devices ?db4 u (di_client_device_id info)"
  have det: "sessions (fold (\<lambda>d db. detach_device db (d_id d)) ds x) = sessions (fold (\<lambda>d db. detach_device db (d_id d)) ds y)"
    if "sessions x = sessions y" for ds x y
    using that by (induction ds arbitrary: x y) (simp_all add: detach_device_def)
  have "sessions db5 = sessions (fold (\<lambda>d db. detach_device db (d_id d)) ?ds db)"
    using upsert_deviceD(1) [OF d] det [of ?db4 db ?ds] find_or_create_userD(1) [OF f] upsert_external_accountD(1) [OF a] by simp
  moreover have "session_seq db5 = session_seq db"
    using upsert_deviceD(2) [OF d] find_or_create_userD(2) [OF f] upsert_external_accountD(2) [OF a] by simp
  moreover have "user_is_active db5 u" if "users_consistent db"
    using find_or_create_userD(4) [OF f that] upsert_deviceD(3) [OF d] upsert_external_accountD(3) [OF a]
    by (simp add: user_is_active_def)
  ultimately show ?thesis using i by (intro that [of db5 ?ds db6])
qed

lemma loginD:
  assumes "login c st sv lmt db student mt ptok info ip dr tick now = (Inr r, lim', db')"
  obtains e tok m where "cipher sv = Some e" "mt = Some tok" "auth_jwt_secret st \<noteq> []" "auth_refresh_hmac_key st \<noteq> []"
    "mv_ok (verify sv tok student)"
    "sign_in_txn c st sv e db student tok ptok info dr now = Inr (lr_user r, lr_device r, m, db')"
    "lr_refresh_token r = new_refresh_token dr"
    "lr_access_token r = issue_access_token c (auth_jwt_secret st) (lr_user r) m (Some (lr_device r)) (auth_access_token_ttl_seconds st) now"
  using assms by (auto simp: login_def Let_def split: option.splits prod.splits if_splits sum.splits txn_error.splits)

section \<open>Sign-in and sign-out are steps of the session system\<close>

lemma reaches_elsewhere:
  "reaches auth_init (auth_step c st) (db, org) \<Longrightarrow> sessions db' = sessions db \<Longrightarrow> session_seq db' = session_seq db \<Longrightarrow>
   reaches auth_init (auth_step c st) (db', org)"
  by (rule reaches_step) (auto intro: auth_step.elsewhere)

lemma reaches_fold_detach:
  fixes ds :: "auth_device list"
  shows "reaches auth_init (auth_step c st) (db, org) \<Longrightarrow>
    reaches auth_init (auth_step c st) (fold (\<lambda>d db. detach_device db (d_id d)) ds db, org)"
proof (induction ds arbitrary: db)
  case (Cons d ds)
  from reaches_step [OF Cons.prems auth_step.switch_account] Cons.IH show ?case by simp
qed simp

lemma reaches_sign_in:
  assumes r: "reaches auth_init (auth_step c st) (db, org)"
    and t: "sign_in_txn c st sv e db student tok ptok info dr now = Inr (u, dev, m, db')"
  shows "reaches auth_init (auth_step c st) (db', org)"
  using t
proof (rule sign_in_txnD)
  fix ds :: "auth_device list" and db5 db6
  assume a: "sessions db5 = sessions (fold (\<lambda>d db. detach_device db (d_id d)) ds db)" "session_seq db5 = session_seq db"
    "insert_session db5 u (Some dev) (hash_refresh_token c (auth_refresh_hmac_key st) (new_refresh_token dr))
       (now + days (auth_refresh_token_ttl_days st)) now = Some (m, db6)"
    "db' = db6\<lparr>users := row_update u_id u (\<lambda>x. x\<lparr>u_last_login_at := Some now\<rparr>) (users db6)\<rparr>"
  have "reaches auth_init (auth_step c st) (db5, org)"
    by (rule reaches_elsewhere [OF reaches_fold_detach [OF r] a(1)]) (simp add: a(2))
  from reaches_step [OF this auth_step.sign_in [OF a(3)]] show ?thesis by (rule reaches_elsewhere) (simp_all add: a(4))
qed

lemma sign_in_keeps:
  assumes t: "sign_in_txn c st sv e db student tok ptok info dr now = Inr (u, dev, m, db')"
    and s: "get_session db i = Some s"
  shows "\<exists>s'. get_session db' i = Some s' \<and> detached s s'"
  using t
proof (rule sign_in_txnD)
  fix ds :: "auth_device list" and db5 db6
  assume a: "sessions db5 = sessions (fold (\<lambda>d db. detach_device db (d_id d)) ds db)"
    "insert_session db5 u (Some dev) (hash_refresh_token c (auth_refresh_hmac_key st) (new_refresh_token dr))
       (now + days (auth_refresh_token_ttl_days st)) now = Some (m, db6)"
    "db' = db6\<lparr>users := row_update u_id u (\<lambda>x. x\<lparr>u_last_login_at := Some now\<rparr>) (users db6)\<rparr>"
  obtain s' where "get_session db5 i = Some s'" "detached s s'"
    using get_fold_detach [OF s, of ds] a(1) by (auto simp: get_session_def)
  then show ?thesis by (auto simp: get_session_def a(3) insert_sessionD(6) [OF a(2)])
qed

lemma sign_in_presented:
  assumes t: "sign_in_txn c st sv e db student tok ptok info dr now = Inr (u, dev, m, db')" and wf: "users_consistent db"
  shows "presented c st db' (new_refresh_token dr) = Some (new_session m u (Some dev)
     (hash_refresh_token c (auth_refresh_hmac_key st) (new_refresh_token dr)) (now + days (auth_refresh_token_ttl_days st)) now)"
    "user_is_active db' u"
proof -
  obtain db5 db6 where
    a: "insert_session db5 u (Some dev) (hash_refresh_token c (auth_refresh_hmac_key st) (new_refresh_token dr))
       (now + days (auth_refresh_token_ttl_days st)) now = Some (m, db6)"
    "db' = db6\<lparr>users := row_update u_id u (\<lambda>x. x\<lparr>u_last_login_at := Some now\<rparr>) (users db6)\<rparr>" "user_is_active db5 u"
    using t by (rule sign_in_txnD) (use wf in blast)
  have "row_get refresh_token_hash (hash_refresh_token c (auth_refresh_hmac_key st) (new_refresh_token dr)) (sessions db5) = None"
    using insert_sessionD(5) [OF a(1)] by (simp add: row_get_None_iff)
  then show "presented c st db' (new_refresh_token dr) = Some (new_session m u (Some dev)
     (hash_refresh_token c (auth_refresh_hmac_key st) (new_refresh_token dr)) (now + days (auth_refresh_token_ttl_days st)) now)"
    by (simp add: presented_def a(2) insert_sessionD(6) [OF a(1)])
  show "user_is_active db' u"
    using a(3) by (auto simp: user_is_active_def a(2) insert_sessionD(3) [OF a(1)] row_get_row_update split: option.splits)
qed

lemma ensure_job_present:
  "\<exists>j \<in> set (sync_jobs (ensure_sync_job u a n ty db)). sj_user j = u \<and> sj_type j = ty \<and> sj_status j \<noteq> JobDisabled"
proof (cases "\<exists>j \<in> set (sync_jobs db). sj_user j = u \<and> sj_type j = ty")
  case True
  then obtain j where j: "j \<in> set (sync_jobs db)" "sj_user j = u" "sj_type j = ty" by blast
  have "(if sj_user j = u \<and> sj_type j = ty \<and> sj_status j = JobDisabled then revive_job a n j else j)
      \<in> set (sync_jobs (ensure_sync_job u a n ty db))"
    using True j(1) by (auto simp: ensure_sync_job_def update_where_def)
  then show ?thesis by (rule bexI [rotated]) (use j(2,3) in \<open>simp add: revive_job_def\<close>)
qed (auto simp: ensure_sync_job_def Let_def)

lemma ensure_job_keeps:
  assumes "j \<in> set (sync_jobs db)" "sj_status j \<noteq> JobDisabled"
  shows "j \<in> set (sync_jobs (ensure_sync_job u a n ty db))"
  using assms by (auto simp: ensure_sync_job_def Let_def set_update_where)

lemma ensure_jobs_present:
  assumes "ty \<in> set HANDLED_JOB_TYPES"
  shows "\<exists>j \<in> set (sync_jobs (ensure_sync_jobs u a n db)). sj_user j = u \<and> sj_type j = ty \<and> sj_status j \<noteq> JobDisabled"
proof -
  have eq: "ensure_sync_jobs u a n db = ensure_sync_job u a n NtustCourses (ensure_sync_job u a n MoodleAssignments db)"
    by (simp add: ensure_sync_jobs_def HANDLED_JOB_TYPES_def)
  consider "ty = NtustCourses" | "ty = MoodleAssignments" using assms by (auto simp: HANDLED_JOB_TYPES_def)
  then show ?thesis
  proof cases
    case 1
    show ?thesis unfolding eq 1 by (rule ensure_job_present)
  next
    case 2
    obtain j where "j \<in> set (sync_jobs (ensure_sync_job u a n MoodleAssignments db))" "sj_user j = u" "sj_type j = ty" "sj_status j \<noteq> JobDisabled"
      using ensure_job_present [of u a n MoodleAssignments db] 2 by blast
    then show ?thesis unfolding eq using ensure_job_keeps by blast
  qed
qed

section \<open>A concrete sign-in\<close>

definition run_blob :: "json \<Rightarrow> string \<Rightarrow> encrypted_blob" where
  "run_blob j a = \<lparr>eb_key_id = ''k1'', eb_nonce = ''n'', eb_ciphertext = ''c'', eb_aad = a\<rparr>"

definition run_services :: auth_services where
  "run_services = \<lparr>verify = (\<lambda>t s. \<lparr>mv_ok = True, mv_username = Some s, mv_error = None, mv_fullname = None\<rparr>),
     cipher = Some run_blob, isoformat = (\<lambda>_. ''t'')\<rparr>"

definition run_info :: device_info where
  "run_info = \<lparr>di_client_device_id = ''phone'', di_platform = ''ios'', di_app_version = None, di_os_version = None, di_device_model = None\<rparr>"

definition run_login :: "(http_error + login_result) \<times> limiter \<times> auth_db" where
  "run_login = login run_crypto run_settings run_services (new_limiter 5 60) (run0\<lparr>users := []\<rparr>) ''B1'' (Some ''mt'') None run_info ''1.1.1.1''
     \<lparr>new_user_id = 5, new_device_id = 9, new_refresh_token = ''A''\<rparr> 0 100"

lemma run_login_ok: "\<exists>r lim'. run_login = (Inr r, lim', snd (snd run_login)) \<and> lr_refresh_token r = ''A''"
proof -
  have "(case fst run_login of Inr r \<Rightarrow> lr_refresh_token r = ''A'' | _ \<Rightarrow> False)" by code_simp
  then show ?thesis by (cases "fst run_login") (auto simp: prod_eq_iff)
qed

lemma run_login_start: "reaches auth_init (auth_step run_crypto run_settings) (run0\<lparr>users := []\<rparr>, \<lambda>_. None)"
  by (rule reaches_init) (simp add: auth_init_def run0_def)

lemma run_login_reaches: "reaches auth_init (auth_step run_crypto run_settings) (snd (snd run_login), \<lambda>_. None)"
proof -
  obtain r lim' where r: "run_login = (Inr r, lim', snd (snd run_login))" using run_login_ok by blast
  from trans [OF run_login_def [symmetric] r] show ?thesis
    by (rule loginD) (rule reaches_sign_in [OF run_login_start])
qed

section \<open>Properties\<close>

text \<open>A Moodle token counts as the student's exactly when Moodle answered without an error and named
  the same user, letter case aside; everything else is refused, and only an answer that says so
  blames the token.\<close>

theorem moodle_accepts_iff:
  "mv_ok (verify_reply js reply student) =
     (\<exists>code obj. reply = Reply code (JObj obj) \<and> code < 400 \<and> json_field ''exception'' obj = None \<and>
        py_lower (str_entry js ''username'' obj) = py_lower student) \<and>
   (mv_error (verify_reply js reply student) = Some ''invalid_token'') =
     (\<exists>code obj. reply = Reply code (JObj obj) \<and> code < 400 \<and> json_field ''exception'' obj \<noteq> None \<and>
        str_entry js ''errorcode'' obj \<in> {''invalidtoken'', ''accessexception''})"
  by (cases reply) (auto simp: verify_reply_def Let_def TOKEN_ERRORCODES_def split: json.splits)



text \<open>A sign-in is a run of session steps, so every guarantee about sessions holds after it, and it
  ends no session: each earlier session is still there, unchanged except that one whose device
  another student took over has lost its device.\<close>

theorem login_keeps_sessions:
  assumes "reaches auth_init (auth_step c st) (db, org)"
    and "login c st sv lmt db student mt ptok info ip dr tick now = (Inr r, lim', db')"
  shows "reaches auth_init (auth_step c st) (db', org) \<and>
    (\<forall>i s. get_session db i = Some s \<longrightarrow> (\<exists>s'. get_session db' i = Some s' \<and> (s' = s \<or> s' = s\<lparr>s_device := None\<rparr>)))"
  using assms(2)
proof (rule loginD)
  fix e tok m assume "sign_in_txn c st sv e db student tok ptok info dr now = Inr (lr_user r, lr_device r, m, db')"
  then show ?thesis using reaches_sign_in [OF assms(1)] sign_in_keeps by (fastforce simp: detached_def)
qed

theorem login_keeps_sessions_witness:
  "reaches auth_init (auth_step run_crypto run_settings) (snd (snd run_login), \<lambda>_. None)"
proof -
  obtain r lim' where r: "run_login = (Inr r, lim', snd (snd run_login))" using run_login_ok by blast
  from login_keeps_sessions [OF run_login_start trans [OF run_login_def [symmetric] r]] show ?thesis by blast
qed

text \<open>A sign-in leaves the user with a sync job of every handled type that is not disabled, the
  device signed in, and the answer's access token made for the new session.\<close>

theorem login_provisions:
  assumes "login c st sv lmt db student mt ptok info ip dr tick now = (Inr r, lim', db')"
  shows "(\<exists>j \<in> set (sync_jobs db'). sj_user j = lr_user r \<and> sj_type j = MoodleAssignments \<and> sj_status j \<noteq> JobDisabled) \<and>
    (\<exists>j \<in> set (sync_jobs db'). sj_user j = lr_user r \<and> sj_type j = NtustCourses \<and> sj_status j \<noteq> JobDisabled) \<and>
    (\<exists>d \<in> set (auth_devices db'). d_id d = lr_device r \<and> d_deleted_at d = None \<and> d_last_login_at d = Some now) \<and>
    (\<exists>m s. get_session db' m = Some s \<and> sid s = m \<and>
       lr_access_token r = issue_access_token c (auth_jwt_secret st) (lr_user r) m (Some (lr_device r)) (auth_access_token_ttl_seconds st) now)"
  using assms
proof (rule loginD)
  fix e tok m
  assume t: "sign_in_txn c st sv e db student tok ptok info dr now = Inr (lr_user r, lr_device r, m, db')"
    and acc: "lr_access_token r = issue_access_token c (auth_jwt_secret st) (lr_user r) m (Some (lr_device r)) (auth_access_token_ttl_seconds st) now"
  obtain acct db2 db5 db6 where
    d: "upsert_device (ensure_sync_jobs (lr_user r) acct now (store_credentials sv e acct tok ptok now db2)) (lr_user r) info (new_device_id dr) now
         = Inr (lr_device r, db5)"
    and i: "insert_session db5 (lr_user r) (Some (lr_device r)) (hash_refresh_token c (auth_refresh_hmac_key st) (new_refresh_token dr))
       (now + days (auth_refresh_token_ttl_days st)) now = Some (m, db6)"
    and db': "db' = db6\<lparr>users := row_update u_id (lr_user r) (\<lambda>x. x\<lparr>u_last_login_at := Some now\<rparr>) (users db6)\<rparr>"
    using t by (auto simp: sign_in_txn_def Let_def split: sum.splits option.splits)
  have same: "sync_jobs db' = sync_jobs db5" "auth_devices db' = auth_devices db5"
    using i by (auto simp: db' insert_session_def split: if_splits)
  note jobs = ensure_jobs_present [of _ "lr_user r" acct now "store_credentials sv e acct tok ptok now db2"]
  have "row_get sid m (sessions db') \<noteq> None"
    using insert_sessionD(6) [OF i] by (cases "row_get sid m (sessions db5)") (simp_all add: db')
  then have "\<exists>m' s. get_session db' m' = Some s \<and> sid s = m' \<and> m' = m"
    by (auto simp: get_session_def dest: row_get_SomeD)
  then show ?thesis
    using jobs [of MoodleAssignments] jobs [of NtustCourses] upsert_deviceD(4,5) [OF d] acc
    by (auto simp: same HANDLED_JOB_TYPES_def)
qed

theorem login_provisions_witness:
  "\<exists>j \<in> set (sync_jobs (snd (snd run_login))). sj_user j = 5 \<and> sj_type j = NtustCourses"
proof -
  have "(case fst run_login of Inr r \<Rightarrow> lr_user r = 5 | _ \<Rightarrow> False)" by code_simp
  then obtain r lim' where r: "run_login = (Inr r, lim', snd (snd run_login))" "lr_user r = 5"
    by (cases "fst run_login") (auto simp: prod_eq_iff)
  from login_provisions [OF trans [OF run_login_def [symmetric] r(1)]] show ?thesis unfolding r(2) by blast
qed

text \<open>C34. Removing a device signs it out: none of its sessions stays live, none of its push tokens stays
  active, and once the user has no device left no stored Moodle token remains. The sessions stay in
  the reachable states of the session system.\<close>

lemma revoked_device_dead:
  assumes "get_session (revoke_device_sessions db dev now) i = Some s" "s_device s = Some dev"
  shows "\<not> live s"
proof -
  obtain r where "s = (if s_device r = Some dev \<and> live r then r\<lparr>revoked_at := Some now, revoked_reason := Some AdminRevoked\<rparr> else r)"
    using assms(1) by (auto simp: revoke_device_sessions_def get_session_def row_get_update_where)
  then show ?thesis using assms(2) by (cases "s_device r = Some dev \<and> live r") (auto simp: live_def)
qed

theorem delete_device_signs_out:
  assumes "reaches auth_init (auth_step c st) (db, org)" and "delete_device db u client now = (Inr (), db')"
  shows "reaches auth_init (auth_step c st) (db', org) \<and>
    (\<exists>d \<in> set (auth_devices db). client_device_id d = client \<and> d_user d = u \<and> d_deleted_at d = None \<and>
      (\<forall>i s. get_session db' i = Some s \<and> s_device s = Some (d_id d) \<longrightarrow> \<not> live s) \<and>
      (\<forall>t \<in> set (push_tokens db'). pt_device t = d_id d \<longrightarrow> pt_status t \<noteq> TokenActive) \<and>
      (\<forall>x \<in> set (auth_devices db'). d_id x = d_id d \<longrightarrow> d_deleted_at x = Some now)) \<and>
    (\<not> has_device db' u \<longrightarrow> (\<forall>a \<in> set (accounts db'). \<forall>cr \<in> set (credentials db'). a_user a = u \<longrightarrow> cr_account cr \<noteq> a_id a))"
proof -
  obtain d where f: "find (\<lambda>d. client_device_id d = client \<and> d_user d = u \<and> d_deleted_at d = None) (auth_devices db) = Some d"
    using assms(2) by (auto simp: delete_device_def split: option.splits)
  then have d: "d \<in> set (auth_devices db)" "client_device_id d = client" "d_user d = u" "d_deleted_at d = None"
    by (auto simp: find_Some_iff)
  define db1 where "db1 = db\<lparr>auth_devices := row_update d_id (d_id d) (\<lambda>x. x\<lparr>d_deleted_at := Some now\<rparr>) (auth_devices db)\<rparr>"
  define db3 where "db3 = invalidate_tokens (\<lambda>i. i = d_id d) (revoke_device_sessions db1 (d_id d) now)"
  define db4 where "db4 = forget_credentials_once_signed_out u db3"
  have db': "db' = db4\<lparr>registrations := update_where (\<lambda>r. reg_device_id r = client_device_id d \<and> reg_linked_user r = Some u)
      (\<lambda>r. r\<lparr>reg_linked_user := None\<rparr>) (registrations db4)\<rparr>"
    using assms(2) f by (simp add: delete_device_def db1_def db3_def db4_def Let_def)
  have "reaches auth_init (auth_step c st) (db1, org)" by (rule reaches_elsewhere [OF assms(1)]) (simp_all add: db1_def)
  from reaches_step [OF this auth_step.remove_device [of c st db1 org "d_id d" now]]
  have r: "reaches auth_init (auth_step c st) (db', org)"
    by (rule reaches_elsewhere) (simp_all add: db' db4_def db3_def invalidate_tokens_def)
  have s: "get_session db' i = get_session (revoke_device_sessions db1 (d_id d) now) i" for i
    by (simp add: db' db4_def db3_def invalidate_tokens_def get_session_def)
  have tokens: "pt_status t \<noteq> TokenActive" if "t \<in> set (push_tokens db')" "pt_device t = d_id d" for t
    using that by (auto simp: db' db4_def db3_def invalidate_tokens_def forget_credentials_once_signed_out_def update_where_def split: if_splits)
  have devs: "d_deleted_at x = Some now" if "x \<in> set (auth_devices db')" "d_id x = d_id d" for x
    using that by (auto simp: db' db4_def db3_def db1_def invalidate_tokens_def revoke_device_sessions_def row_update_def split: if_splits)
  have hd: "has_device db' u = has_device db3 u" by (simp add: has_device_def db' db4_def)
  have creds: "cr_account cr \<noteq> a_id a"
    if "\<not> has_device db' u" "a \<in> set (accounts db')" "cr \<in> set (credentials db')" "a_user a = u" for a cr
    using that hd by (auto simp: db' db4_def forget_credentials_once_signed_out_def)
  have "\<not> live s" if "get_session db' i = Some s" "s_device s = Some (d_id d)" for i s
    using that revoked_device_dead unfolding s by blast
  with r d tokens devs creds show ?thesis by blast
qed

theorem delete_device_signs_out_witness:
  "\<not> has_device (snd (delete_device (snd (snd run_login)) 5 ''phone'' 300)) 5 \<and>
   reaches auth_init (auth_step run_crypto run_settings) (snd (delete_device (snd (snd run_login)) 5 ''phone'' 300), \<lambda>_. None)"
proof -
  have "fst (delete_device (snd (snd run_login)) 5 ''phone'' 300) = Inr ()" by code_simp
  then have d: "delete_device (snd (snd run_login)) 5 ''phone'' 300 = (Inr (), snd (delete_device (snd (snd run_login)) 5 ''phone'' 300))"
    by (simp add: prod_eq_iff)
  from delete_device_signs_out [OF run_login_reaches d]
  have "reaches auth_init (auth_step run_crypto run_settings) (snd (delete_device (snd (snd run_login)) 5 ''phone'' 300), \<lambda>_. None)" by blast
  moreover have "\<not> has_device (snd (delete_device (snd (snd run_login)) 5 ''phone'' 300)) 5" by code_simp
  ultimately show ?thesis by blast
qed

text \<open>The daily retirement leaves every device that can still call the API: a device with a live,
  unexpired session is unchanged, and no session changes. Every device it leaves signed in had a
  sign of life.\<close>

theorem retire_spares_live_devices:
  assumes "d \<in> set (auth_devices db)"
    and "s \<in> set (sessions db)" "s_device s = Some (d_id d)" "live s" "now < expires_at s"
  shows "d \<in> set (auth_devices (snd (retire_dead_devices db now))) \<and>
    sessions (snd (retire_dead_devices db now)) = sessions db \<and>
    (\<forall>x \<in> set (auth_devices (snd (retire_dead_devices db now))). d_deleted_at x = None \<longrightarrow> x \<in> set (auth_devices db) \<and> \<not> dead_device db now x)"
proof -
  have nd: "\<not> dead_device db now d" using assms by (auto simp: dead_device_def)
  have "auth_devices (snd (retire_dead_devices db now)) =
      update_where (dead_device db now) (\<lambda>d. d\<lparr>d_deleted_at := Some now\<rparr>) (auth_devices db)"
  proof (cases "filter (dead_device db now) (auth_devices db) = []")
    case True
    then have "update_where (dead_device db now) (\<lambda>d. d\<lparr>d_deleted_at := Some now\<rparr>) (auth_devices db) = auth_devices db"
      by (auto simp: update_where_def filter_empty_conv intro: map_idI)
    then show ?thesis using True by (simp add: retire_dead_devices_def)
  qed (simp add: retire_dead_devices_def invalidate_tokens_def Let_def)
  moreover have "sessions (snd (retire_dead_devices db now)) = sessions db"
    by (simp add: retire_dead_devices_def invalidate_tokens_def Let_def)
  ultimately show ?thesis using assms(1) nd by (auto simp: set_update_where)
qed

definition run_device :: auth_device where
  "run_device = \<lparr>d_id = 9, d_user = 5, client_device_id = ''phone'', platform = ''ios'', device_model = None, app_version = None,
     os_version = None, d_last_seen_at = None, d_last_login_at = None, d_deleted_at = None\<rparr>"

theorem retire_spares_live_devices_witness:
  "run_device \<in> set (auth_devices (snd (retire_dead_devices (run1\<lparr>auth_devices := [run_device]\<rparr>) (days 20))))"
proof -
  let ?db = "run1\<lparr>auth_devices := [run_device]\<rparr>"
  let ?s = "new_session 1 5 (Some 9) ''hA'' (days 60) 0"
  have "sessions ?db = [?s]" by (simp add: run1_def run0_def insert_session_def)
  moreover have "s_device ?s = Some (d_id run_device)" "live ?s" "days 20 < expires_at ?s"
    by (simp_all add: run_device_def days_def)
  ultimately show ?thesis using retire_spares_live_devices [of run_device ?db ?s "days 20"] by simp
qed

end
