(* ===== verification/MoodleMirror.thy ===== *)
theory MoodleMirror
  imports CourseUpload
begin

text \<open>
  What the sync worker stores of a Moodle answer: the assignment list (\<^verbatim>\<open>server/syncjobs/assignments.py\<close>), the
  course list (\<^verbatim>\<open>server/syncjobs/courses.py\<close>) and the extensions of the submission probe
  (\<^verbatim>\<open>server/syncjobs/submissions.py\<close>; its submission flips are in the theory \<open>Presend\<close>).

  The mirror works on \<open>course_db\<close>: the courses, and the assignments and the change log of \<open>queue\<close>. A Python
  dict over the rows is an association list in insertion order from keys to row ids. What the regular expression for
  words, \<^verbatim>\<open>str.isnumeric\<close>, \<^verbatim>\<open>str.isalpha\<close> and \<^verbatim>\<open>str.upper\<close> say of a text rests on Python's Unicode tables, which
  are the parameter \<open>unicode\<close>.
\<close>

section \<open>Answers\<close>

record fetched_assignment =
  fa_course :: int
  fa_id :: int
  fa_course_name :: "string option"
  fa_title :: string
  fa_due_at :: "datetime option"
  fa_cutoff_at :: "datetime option"
  fa_allow_from_at :: "datetime option"
  fa_moodle_url :: "string option"
  fa_intro_html :: "string option"

record fetched_course =
  fc_id :: int
  fc_short_name :: "string option"
  fc_full_name :: string
  fc_idnumber :: string
  fc_start_at :: "datetime option"

record unicode =
  isnumeric :: "string \<Rightarrow> bool"
  isalpha :: "string \<Rightarrow> bool"
  upper :: "string \<Rightarrow> string"
  find_words :: "string \<Rightarrow> string list"

section \<open>Extensions\<close>

definition with_extension :: "fetched_assignment \<Rightarrow> datetime option \<Rightarrow> fetched_assignment" where
  "with_extension item ext = (case ext of
     None \<Rightarrow> item
   | Some e \<Rightarrow> item\<lparr>fa_due_at := Some (case fa_due_at item of Some d \<Rightarrow> max d e | None \<Rightarrow> e),
                   fa_cutoff_at := map_option (\<lambda>c. max c e) (fa_cutoff_at item)\<rparr>)"

definition kept_extension :: "fetched_assignment \<Rightarrow> datetime option \<Rightarrow> datetime option" where
  "kept_extension item ext = (case ext of
     None \<Rightarrow> None
   | Some e \<Rightarrow> (case fa_due_at item of Some d \<Rightarrow> if e \<le> d then None else Some e | None \<Rightarrow> Some e))"

section \<open>Which courses an answer belongs to\<close>

definition is_upper :: "char \<Rightarrow> bool" where
  "is_upper ch \<longleftrightarrow> CHR ''A'' \<le> ch \<and> ch \<le> CHR ''Z''"

text \<open>The regular expression \<^verbatim>\<open>(?:3?[A-Z]{2,3}|3[A-Z])[0-9][A-Z0-9]{5,6}\<close> on a whole word.\<close>

definition course_no_tail :: "string \<Rightarrow> bool" where
  "course_no_tail s = (case s of [] \<Rightarrow> False | d # rest \<Rightarrow>
     is_digit d \<and> length rest \<in> {5, 6} \<and> list_all (\<lambda>ch. is_upper ch \<or> is_digit ch) rest)"

definition is_course_no :: "string \<Rightarrow> bool" where
  "is_course_no w \<longleftrightarrow>
    (\<exists>n \<in> {2, 3}. length w > n \<and> list_all is_upper (take n w) \<and> course_no_tail (drop n w)) \<or>
    (case w of [] \<Rightarrow> False | ch # v \<Rightarrow> ch = CHR ''3'' \<and>
      (\<exists>n \<in> {1, 2, 3}. length v > n \<and> list_all is_upper (take n v) \<and> course_no_tail (drop n v)))"

definition moodle_semester :: "unicode \<Rightarrow> string \<Rightarrow> string option" where
  "moodle_semester uni idnumber =
    (let prefix = take 4 idnumber in
     if length idnumber \<le> 4 \<or> \<not> isnumeric uni (take 3 prefix) then None
     else if isnumeric uni [prefix ! 3] \<or> isalpha uni [prefix ! 3] then Some (upper uni prefix) else None)"

definition course_nos :: "unicode \<Rightarrow> fetched_course \<Rightarrow> string list" where
  "course_nos uni c =
    (if moodle_semester uni (fc_idnumber c) = None then []
     else fold (\<lambda>w nos. if is_course_no w \<and> w \<notin> set nos then nos @ [w] else nos) (find_words uni (fc_full_name c)) [drop 4 (fc_idnumber c)])"

definition NEVER :: datetime where
  "NEVER = - seconds 62135596800"

definition course_rank :: "fetched_course \<Rightarrow> datetime \<times> int" where
  "course_rank c = ((case fc_start_at c of Some t \<Rightarrow> t | None \<Rightarrow> NEVER), fc_id c)"

text \<open>\<^verbatim>\<open>max(..., key=...)\<close>: the first of the highest.\<close>

definition latest_course :: "fetched_course list \<Rightarrow> fetched_course" where
  "latest_course cs = fold (\<lambda>c b. let (t, i) = course_rank c; (t', i') = course_rank b in if t' < t \<or> t = t' \<and> i' < i then c else b) (tl cs) (hd cs)"

definition primary :: "unicode \<Rightarrow> fetched_course list \<Rightarrow> fetched_course \<Rightarrow> string" where
  "primary uni enrolled c = (case the (map_of (map (\<lambda>c. (fc_id c, course_nos uni c)) (rev enrolled)) (fc_id c)) of no # _ \<Rightarrow> no | [] \<Rightarrow> [])"

definition listed_courses :: "unicode \<Rightarrow> fetched_course list \<Rightarrow> string list \<Rightarrow> string \<Rightarrow> (int \<times> string) list" where
  "listed_courses uni enrolled class_nos term =
    (let nos = map_of (map (\<lambda>c. (fc_id c, course_nos uni c)) (rev enrolled));
         prim = primary uni enrolled;
         in_term = (\<lambda>c. moodle_semester uni (fc_idnumber c) = Some term);
         wanted = class_nos @ map prim (filter in_term enrolled);
         candidates = filter (\<lambda>c. prim c \<noteq> [] \<and> prim c \<in> set wanted) enrolled;
         step = (\<lambda>c acc.
           let same = filter (\<lambda>x. prim x = prim c) candidates; this_term = filter in_term same in
           if c \<in> set (if this_term = [] then [latest_course same] else this_term)
           then AList.update (fc_id c) (case find (\<lambda>no. no \<in> set class_nos) (the (nos (fc_id c))) of Some no \<Rightarrow> no | None \<Rightarrow> prim c) acc
           else acc)
     in fold step candidates [])"

section \<open>The assignment list\<close>

record mirror_state =
  ms_db :: course_db
  ms_existing :: "((int \<times> int) \<times> nat) list"
  ms_changed :: nat
  ms_seen :: "(int \<times> int) list"
  ms_recheck :: "int list"

record sync_stats =
  fetched_count :: nat
  changed_count :: nat
  recheck_ids :: "int list"

text \<open>How the answer files a row: the course number it is listed under, the class table's course of that number and the
  term of its Moodle course; \<open>None\<close> when no course list was read.\<close>

record filing =
  fl_listed :: "(int \<times> string) list"
  fl_class_table :: "(string \<times> nat) list"
  fl_semesters :: "(int \<times> string) list"

definition assignment_of :: "course_db \<Rightarrow> nat \<Rightarrow> user_assignment option" where
  "assignment_of db i = row_get ua_id i (assignments (queue db))"

definition put_assignment :: "user_assignment \<Rightarrow> course_db \<Rightarrow> course_db" where
  "put_assignment a db = db\<lparr>queue := (queue db)\<lparr>assignments := row_update ua_id (ua_id a) (\<lambda>_. a) (assignments (queue db))\<rparr>\<rparr>"

definition log_assignment :: "uuid \<Rightarrow> datetime \<Rightarrow> nat \<Rightarrow> string \<Rightarrow> string list option \<Rightarrow> course_db \<Rightarrow> course_db" where
  "log_assignment u now i operation names db =
    db\<lparr>queue := (queue db)\<lparr>sync_log := snd (append_change (sync_log (queue db)) u
      \<lparr>cd_entity_type = ''assignment'', cd_entity_id = nat_str i, cd_operation = operation,
       cd_payload = map_option (\<lambda>fs. JObj [(''fields'', JList (map JStr fs))]) names, cd_device = None, cd_created_at = now\<rparr>)\<rparr>\<rparr>"

definition PROVIDER_FIELDS :: "string list" where
  "PROVIDER_FIELDS = [''course_name'', ''title'', ''due_at'', ''cutoff_at'', ''allow_from_at'', ''moodle_url'', ''intro_html'']"

definition course_no_of :: "filing option \<Rightarrow> fetched_assignment \<Rightarrow> string option" where
  "course_no_of f item = (case f of None \<Rightarrow> None | Some x \<Rightarrow> map_of (fl_listed x) (fa_course item))"

definition linked_course :: "filing option \<Rightarrow> fetched_assignment \<Rightarrow> nat option" where
  "linked_course f item = (case f of None \<Rightarrow> None | Some x \<Rightarrow>
     (case course_no_of f item of None \<Rightarrow> None | Some no \<Rightarrow> if no = [] then None else map_of (fl_class_table x) no))"

definition semester_filed :: "filing \<Rightarrow> fetched_assignment \<Rightarrow> string" where
  "semester_filed x item = (case map_of (fl_semesters x) (fa_course item) of Some s \<Rightarrow> s | None \<Rightarrow> [])"

definition new_assignment :: "uuid \<Rightarrow> filing option \<Rightarrow> datetime \<Rightarrow> fetched_assignment \<Rightarrow> nat \<Rightarrow> user_assignment" where
  "new_assignment u f now item i = \<lparr>ua_id = i, ua_user = u, ua_user_course = linked_course f item, ua_moodle_course = fa_course item,
     ua_moodle_assignment = fa_id item, ua_moodle_semester = map_option (\<lambda>x. semester_filed x item) f,
     ua_course_no = course_no_of f item, ua_course_name = fa_course_name item, ua_title = fa_title item, ua_due_at = fa_due_at item,
     ua_cutoff_at = fa_cutoff_at item, ua_extension_due_at = None, ua_allow_from_at = fa_allow_from_at item,
     ua_moodle_url = fa_moodle_url item, ua_intro_html = fa_intro_html item, ua_is_submitted = False, ua_submitted_at = None, ua_grade = None,
     ua_fetched_at = now, ua_last_seen_at = now, ua_deleted_at = None\<rparr>"

definition later_than :: "datetime option \<Rightarrow> datetime option \<Rightarrow> bool" where
  "later_than a b = (case (a, b) of (Some x, Some y) \<Rightarrow> x > y | _ \<Rightarrow> False)"

text \<open>An app's placeholder becomes the server's row: it takes the course, and a later date the app sent as an extension.\<close>

definition adopt_placeholder :: "fetched_assignment \<Rightarrow> user_assignment \<Rightarrow> user_assignment" where
  "adopt_placeholder item a = a\<lparr>ua_moodle_course := fa_course item,
     ua_extension_due_at := (if later_than (ua_due_at a) (fa_due_at item) then ua_due_at a else ua_extension_due_at a)\<rparr>"

text \<open>The fields the answer changes and the row with them.\<close>

definition changed_fields :: "filing option \<Rightarrow> fetched_assignment \<Rightarrow> user_assignment \<Rightarrow> string list" where
  "changed_fields f item a =
    map fst (filter snd [(''course_name'', ua_course_name a \<noteq> fa_course_name item), (''title'', ua_title a \<noteq> fa_title item),
      (''due_at'', ua_due_at a \<noteq> fa_due_at item), (''cutoff_at'', ua_cutoff_at a \<noteq> fa_cutoff_at item),
      (''allow_from_at'', ua_allow_from_at a \<noteq> fa_allow_from_at item), (''moodle_url'', ua_moodle_url a \<noteq> fa_moodle_url item),
      (''intro_html'', ua_intro_html a \<noteq> fa_intro_html item),
      (''user_course_id'', f \<noteq> None \<and> ua_user_course a \<noteq> linked_course f item),
      (''course_no'', f \<noteq> None \<and> course_no_of f item \<noteq> None \<and> ua_course_no a \<noteq> course_no_of f item),
      (''deleted_at'', ua_deleted_at a \<noteq> None)])"

definition mirror_row :: "filing option \<Rightarrow> datetime \<Rightarrow> fetched_assignment \<Rightarrow> user_assignment \<Rightarrow> user_assignment" where
  "mirror_row f now item a = a\<lparr>ua_course_name := fa_course_name item, ua_title := fa_title item, ua_due_at := fa_due_at item,
     ua_cutoff_at := fa_cutoff_at item, ua_allow_from_at := fa_allow_from_at item, ua_moodle_url := fa_moodle_url item,
     ua_intro_html := fa_intro_html item,
     ua_user_course := (if f = None then ua_user_course a else linked_course f item),
     ua_course_no := (if f = None \<or> course_no_of f item = None then ua_course_no a else course_no_of f item),
     ua_moodle_semester := (case f of None \<Rightarrow> ua_moodle_semester a | Some x \<Rightarrow> Some (semester_filed x item)),
     ua_deleted_at := None, ua_fetched_at := now, ua_last_seen_at := now\<rparr>"

definition mirror_item :: "uuid \<Rightarrow> filing option \<Rightarrow> datetime \<Rightarrow> fetched_assignment \<Rightarrow> mirror_state \<Rightarrow> mirror_state" where
  "mirror_item u f now item st =
    (let key = (fa_course item, fa_id item); blank = (0, fa_id item); ex = ms_existing st; db = ms_db st; st1 = st\<lparr>ms_seen := key # ms_seen st\<rparr> in
     case (case map_of ex key of Some i \<Rightarrow> Some (i, False) | None \<Rightarrow> map_option (\<lambda>i. (i, True)) (map_of ex blank)) of
       None \<Rightarrow>
         let i = assignment_seq (queue db);
             db1 = db\<lparr>queue := (queue db)\<lparr>assignments := assignments (queue db) @ [new_assignment u f now item i], assignment_seq := Suc i\<rparr>\<rparr>
         in st1\<lparr>ms_db := log_assignment u now i ''upsert'' (Some PROVIDER_FIELDS) db1, ms_existing := AList.update key i ex, ms_changed := ms_changed st + 1\<rparr>
     | Some (i, placeholder) \<Rightarrow>
         let a0 = the (assignment_of db i); a1 = (if placeholder then adopt_placeholder item a0 else a0);
             ext = kept_extension item (ua_extension_due_at a1); a2 = a1\<lparr>ua_extension_due_at := ext\<rparr>; dated = with_extension item ext;
             names = (if placeholder then [''moodle_course_id''] else []) @ changed_fields f dated a2;
             db1 = put_assignment (mirror_row f now dated a2) db
         in st1\<lparr>ms_db := (if names = [] then db1 else log_assignment u now i ''upsert'' (Some names) db1),
               ms_existing := (if placeholder then AList.update key i (AList.delete blank ex) else ex),
               ms_changed := ms_changed st + (if names = [] then 0 else 1),
               ms_recheck := (if later_than (ua_due_at a2) (fa_due_at dated) then fa_id item # ms_recheck st else ms_recheck st)\<rparr>)"

text \<open>The rows the answer leaves out go, unless their course was refused.\<close>

definition mirror_left_out :: "uuid \<Rightarrow> datetime \<Rightarrow> int list \<Rightarrow> (int \<times> int) list \<Rightarrow> (int \<times> int) \<times> nat \<Rightarrow> nat \<times> course_db \<Rightarrow> nat \<times> course_db" where
  "mirror_left_out u now refused seen entry n_db =
    (let (key, i) = entry; (n, db) = n_db; a = the (assignment_of db i) in
     if key \<in> set seen \<or> ua_deleted_at a \<noteq> None \<or> refused \<noteq> [] \<and> (ua_moodle_course a = 0 \<or> ua_moodle_course a \<in> set refused) then (n, db)
     else (n + 1, log_assignment u now i ''delete'' None (put_assignment (a\<lparr>ua_deleted_at := Some now\<rparr>) db)))"

definition file_courses :: "unicode \<Rightarrow> uuid \<Rightarrow> datetime \<Rightarrow> fetched_course list option \<Rightarrow> course_db \<Rightarrow> filing option" where
  "file_courses uni u now enrolled db = (case enrolled of
     None \<Rightarrow> None
   | Some [] \<Rightarrow> None
   | Some cs \<Rightarrow>
      let semesters = map (\<lambda>c. (fc_id c, case moodle_semester uni (fc_idnumber c) of Some s \<Rightarrow> s | None \<Rightarrow> [])) (rev cs) in
      (case current_term_code (terms (queue db)) now of
         None \<Rightarrow> Some \<lparr>fl_listed = [], fl_class_table = [], fl_semesters = semesters\<rparr>
       | Some term \<Rightarrow>
          let table = [(the (cr_no c), cr_id c). c \<leftarrow> rev (courses db), cr_user c = u \<and> cr_semester c = term \<and> cr_enrollment c = Enrolled \<and>
                         (case cr_no c of Some no \<Rightarrow> no \<noteq> [] | None \<Rightarrow> False)]
          in Some \<lparr>fl_listed = listed_courses uni cs (map fst table) term, fl_class_table = table, fl_semesters = semesters\<rparr>))"

definition apply_fetched_assignments ::
  "unicode \<Rightarrow> uuid \<Rightarrow> fetched_assignment list \<Rightarrow> datetime \<Rightarrow> fetched_course list option \<Rightarrow> int list \<Rightarrow> course_db \<Rightarrow> sync_stats \<times> course_db" where
  "apply_fetched_assignments uni u fetched now enrolled refused db0 =
    (let db = lock_user u db0; f = file_courses uni u now enrolled db;
         existing = fold (\<lambda>a. AList.update (ua_moodle_course a, ua_moodle_assignment a) (ua_id a)) (filter (\<lambda>a. ua_user a = u) (assignments (queue db))) [];
         st = fold (mirror_item u f now) fetched \<lparr>ms_db = db, ms_existing = existing, ms_changed = 0, ms_seen = [], ms_recheck = []\<rparr>;
         (n, db1) = fold (mirror_left_out u now refused (ms_seen st)) (ms_existing st) (ms_changed st, ms_db st)
     in (\<lparr>fetched_count = length fetched, changed_count = n, recheck_ids = remdups (ms_recheck st)\<rparr>, db1))"

section \<open>The course list\<close>

definition moodle_key :: "int \<Rightarrow> string" where
  "moodle_key i = ''moodle:'' @ int_str i"

definition log_mirrored :: "uuid \<Rightarrow> datetime \<Rightarrow> nat \<Rightarrow> string \<Rightarrow> string list option \<Rightarrow> course_db \<Rightarrow> course_db" where
  "log_mirrored u now i operation names db =
    db\<lparr>queue := (queue db)\<lparr>sync_log := snd (append_change (sync_log (queue db)) u
      \<lparr>cd_entity_type = ''course'', cd_entity_id = nat_str i, cd_operation = operation,
       cd_payload = map_option (\<lambda>fs. JObj [(''fields'', JList (map JStr fs))]) names, cd_device = None, cd_created_at = now\<rparr>)\<rparr>\<rparr>"

definition new_moodle_course :: "uuid \<Rightarrow> datetime \<Rightarrow> fetched_course \<Rightarrow> nat \<Rightarrow> course_row" where
  "new_moodle_course u now c i = \<lparr>cr_id = i, cr_user = u, cr_semester = [], cr_key = moodle_key (fc_id c),
     cr_no = Some (take 64 (case fc_short_name c of Some s \<Rightarrow> if s = [] then int_str (fc_id c) else s | None \<Rightarrow> int_str (fc_id c))),
     cr_source = NtustPortal,
     cr_info = \<lparr>course_name = fc_full_name c, course_name_en = None, moodle_id = Some (int_str (fc_id c)), credits = JNull, classroom = None,
       instructors = [], schedule_json = JList [], classroom_map = JObj []\<rparr>,
     cr_enrollment = Enrolled, cr_added_at = None, cr_fetched_at = Some now, cr_last_seen_at = Some now, cr_version = 1, cr_updated_by = None\<rparr>"

definition mirror_course :: "uuid \<Rightarrow> datetime \<Rightarrow> fetched_course \<Rightarrow> nat \<times> (string \<times> nat) list \<times> course_db \<Rightarrow> nat \<times> (string \<times> nat) list \<times> course_db" where
  "mirror_course u now c st =
    (let (n, ex, db) = st; key = moodle_key (fc_id c) in
     case map_of ex key of
       None \<Rightarrow>
         let i = course_seq db; db1 = db\<lparr>courses := courses db @ [new_moodle_course u now c i], course_seq := Suc i\<rparr>
         in (n + 1, AList.update key i ex, log_mirrored u now i ''upsert'' (Some [''course_name'', ''moodle_id'']) db1)
     | Some i \<Rightarrow>
         let renamed = (case row_get cr_id i (courses db) of Some r \<Rightarrow> course_name (cr_info r) \<noteq> fc_full_name c | None \<Rightarrow> False);
             db1 = db\<lparr>courses := row_update cr_id i (\<lambda>r. r\<lparr>cr_info := (cr_info r)\<lparr>course_name := fc_full_name c\<rparr>,
                     cr_fetched_at := Some now, cr_last_seen_at := Some now\<rparr>) (courses db)\<rparr>
         in if renamed then (n + 1, ex, log_mirrored u now i ''upsert'' (Some [''course_name'']) db1) else (n, ex, db1))"

definition apply_fetched_courses :: "uuid \<Rightarrow> fetched_course list \<Rightarrow> datetime \<Rightarrow> course_db \<Rightarrow> sync_stats \<times> course_db" where
  "apply_fetched_courses u fetched now db0 =
    (let db = lock_user u db0;
         existing = fold (\<lambda>r. AList.update (cr_key r) (cr_id r)) (filter (\<lambda>r. cr_user r = u \<and> starts_with ''moodle:'' (cr_key r)) (courses db)) [];
         (n, ex, db1) = fold (mirror_course u now) fetched (0, existing, db);
         seen = map (\<lambda>c. moodle_key (fc_id c)) fetched;
         left_out = filter (\<lambda>(k, i). k \<notin> set seen) ex;
         db2 = fold (\<lambda>(k, i) d. log_mirrored u now i ''delete'' None (delete_courses (\<lambda>r. cr_id r = i) d)) left_out db1
     in (\<lparr>fetched_count = length fetched, changed_count = n + length left_out, recheck_ids = []\<rparr>, db2))"

section \<open>The submission probe\<close>

definition select_assignment_ids :: "push_db \<Rightarrow> uuid \<Rightarrow> datetime \<Rightarrow> int \<Rightarrow> int list \<Rightarrow> int list" where
  "select_assignment_ids db u now window_hours also =
    sort (map ua_moodle_assignment (filter (\<lambda>a. ua_user a = u \<and> ua_deleted_at a = None \<and> \<not> ua_is_submitted a \<and>
      (case ua_due_at a of None \<Rightarrow> False | Some due \<Rightarrow>
         now - hours window_hours < due \<and> (due \<le> now + hours window_hours \<or> ua_extension_due_at a \<noteq> None) \<or>
         ua_moodle_assignment a \<in> set also)) (assignments db)))"

definition extend_row :: "(int \<times> fetched_submission) list \<Rightarrow> (int \<times> fetched_assignment) list \<Rightarrow> user_assignment \<Rightarrow> string list \<times> user_assignment" where
  "extend_row fetched listed a =
    (let item = the (map_of listed (ua_moodle_assignment a));
         ext = kept_extension item (extension_due_at (the (map_of fetched (ua_moodle_assignment a))));
         dated = with_extension item ext
     in (map fst (filter snd [(''due_at'', ua_due_at a \<noteq> fa_due_at dated), (''cutoff_at'', ua_cutoff_at a \<noteq> fa_cutoff_at dated)]),
         a\<lparr>ua_extension_due_at := ext, ua_due_at := fa_due_at dated, ua_cutoff_at := fa_cutoff_at dated\<rparr>))"

definition apply_extensions ::
  "uuid \<Rightarrow> (int \<times> fetched_submission) list \<Rightarrow> (int \<times> fetched_assignment) list \<Rightarrow> datetime \<Rightarrow> push_db \<Rightarrow> nat \<times> push_db" where
  "apply_extensions u fetched listed now db =
    (let ids = filter (\<lambda>i. i \<in> fst ` set listed) (map fst fetched) in
     if ids = [] then (0, db)
     else
       let rows = (\<lambda>a. ua_user a = u \<and> ua_deleted_at a = None \<and> ua_moodle_assignment a \<in> set ids);
           moved = filter (\<lambda>a. rows a \<and> fst (extend_row fetched listed a) \<noteq> []) (assignments db);
           entry = (\<lambda>a. \<lparr>cd_entity_type = ''assignment'', cd_entity_id = nat_str (ua_id a), cd_operation = ''upsert'',
              cd_payload = Some (JObj [(''fields'', JList (map JStr (fst (extend_row fetched listed a))))]), cd_device = None, cd_created_at = now\<rparr>)
       in (length moved,
           db\<lparr>assignments := update_where rows (\<lambda>a. snd (extend_row fetched listed a)) (assignments db),
              sync_log := fold (\<lambda>a lg. snd (append_change lg u (entry a))) moved (lock_sync_state (sync_log db) u)\<rparr>))"

end
