(* ===== verification/SyncWorker.thy ===== *)
theory SyncWorker
  imports Login MoodleMirror
begin

text \<open>
  The server's own Moodle sync, \<^verbatim>\<open>server/syncjobs/executor.py\<close>, with the pace of its requests
  (\<^verbatim>\<open>budget.py\<close>), the availability of Moodle (\<^verbatim>\<open>availability.py\<close>), the stored credentials
  (\<^verbatim>\<open>credentials.py\<close>) and \<^verbatim>\<open>POST /sync-jobs/run-now\<close> (\<^verbatim>\<open>routes/sync_jobs.py\<close>).

  \<open>sync_db\<close> is everything the worker reads and writes: the accounts, credentials, users, jobs and policies of
  \<open>auth\<close>, the runs, the tables the mirror writes, the operator's setting, and the worker's in-memory budget. A
  database transaction is one definition. Between two transactions of a run other workers and requests may commit anything:
  \<open>run_env\<close> gives what they do before the \<open>k\<close>-th one (\<open>gap\<close>), the clock there, whether that transaction
  fails, and what Moodle answers. Logging is left out, and so are columns nothing reads (\<^verbatim>\<open>last_used_at\<close> of a
  credential, \<^verbatim>\<open>last_auth_failure_at\<close> of an account).
\<close>

section \<open>Data\<close>

datatype sync_run_status = RunRunning | RunSucceeded | RunFailed | RunCancelled

record sync_run =
  rn_id :: nat
  rn_job :: nat
  rn_user :: uuid
  rn_status :: sync_run_status
  rn_finished_at :: "datetime option"
  rn_fetched :: "nat option"
  rn_changed :: "nat option"
  rn_error :: "string option"

text \<open>The budget: the last request and the end of the pause, \<open>None\<close> for minus infinity.\<close>

record request_budget =
  last_at :: "datetime option"
  resume_at :: "datetime option"

record sync_db =
  auth :: auth_db
  tables :: course_db
  sync_runs :: "sync_run list"
  run_seq :: nat
  suspended_setting :: "(string \<times> json) list option"
  budget :: request_budget

text \<open>A time of day is in microseconds since midnight; the maintenance times are as \<^verbatim>\<open>time.fromisoformat\<close> reads
  them, \<open>None\<close> where it raises.\<close>

record sync_settings =
  sync_job_stale_lock_minutes :: int
  sync_job_global_concurrency :: nat
  sync_job_batch_size :: nat
  sync_job_backoff_base_seconds :: int
  sync_job_backoff_cap_seconds :: int
  sync_job_device_active_days :: int
  sync_job_device_push_days :: int
  sync_job_manual_cooldown_seconds :: int
  submission_status_window_hours :: int
  sync_maintenance_window :: string
  moodle_maintenance_start :: "int option"
  moodle_maintenance_end :: "int option"

record sync_worker =
  worker_id :: string
  settings :: sync_settings
  decrypt :: "credential \<Rightarrow> json option"
  to_iso :: "datetime \<Rightarrow> string"
  from_iso :: "string \<Rightarrow> datetime option"
  text_tables :: unicode

definition ERROR_CREDENTIAL_INVALID :: string where "ERROR_CREDENTIAL_INVALID = ''credential_invalid''"
definition ERROR_SCHOOL_RATE_LIMITED :: string where "ERROR_SCHOOL_RATE_LIMITED = ''school_rate_limited''"
definition ERROR_SYNC_FAILED :: string where "ERROR_SYNC_FAILED = ''sync_failed''"
definition DEFAULT_INTERVAL_SECONDS :: int where "DEFAULT_INTERVAL_SECONDS = 28800"
definition DEFAULT_PRIORITY :: int where "DEFAULT_PRIORITY = 100"

definition get_sync_job :: "sync_db \<Rightarrow> nat \<Rightarrow> sync_job option" where
  "get_sync_job db i = row_get sj_id i (sync_jobs (auth db))"

definition set_jobs :: "(sync_job list \<Rightarrow> sync_job list) \<Rightarrow> sync_db \<Rightarrow> sync_db" where
  "set_jobs f db = db\<lparr>auth := (auth db)\<lparr>sync_jobs := f (sync_jobs (auth db))\<rparr>\<rparr>"

definition modify_sync_job :: "nat \<Rightarrow> (sync_job \<Rightarrow> sync_job) \<Rightarrow> sync_db \<Rightarrow> sync_db" where
  "modify_sync_job i f = set_jobs (row_update sj_id i f)"

definition modify_run :: "nat \<Rightarrow> (sync_run \<Rightarrow> sync_run) \<Rightarrow> sync_db \<Rightarrow> sync_db" where
  "modify_run i f db = db\<lparr>sync_runs := row_update rn_id i f (sync_runs db)\<rparr>"

definition policy_of :: "sync_db \<Rightarrow> sync_job_type \<Rightarrow> sync_policy option" where
  "policy_of db ty = row_get sp_job_type ty (sync_policies (auth db))"

section \<open>The pace toward Moodle\<close>

definition paused :: "datetime \<Rightarrow> request_budget \<Rightarrow> bool" where
  "paused tick b = (case resume_at b of None \<Rightarrow> False | Some t \<Rightarrow> tick < t)"

definition pause :: "int \<Rightarrow> datetime \<Rightarrow> request_budget \<Rightarrow> request_budget" where
  "pause secs tick b = b\<lparr>resume_at := Some (case resume_at b of None \<Rightarrow> tick + seconds secs | Some t \<Rightarrow> max t (tick + seconds secs))\<rparr>"

text \<open>One turn of the loop in \<open>acquire\<close>: the request goes, or waits and looks again.\<close>

definition ready_at :: "int \<Rightarrow> request_budget \<Rightarrow> datetime option" where
  "ready_at spacing b = (case (resume_at b, map_option (\<lambda>t. t + spacing) (last_at b)) of
     (None, y) \<Rightarrow> y | (x, None) \<Rightarrow> x | (Some x, Some y) \<Rightarrow> Some (max x y))"

definition try_acquire :: "int \<Rightarrow> datetime \<Rightarrow> request_budget \<Rightarrow> bool \<times> request_budget" where
  "try_acquire spacing tick b =
    (if (case ready_at spacing b of None \<Rightarrow> True | Some t \<Rightarrow> t \<le> tick) then (True, b\<lparr>last_at := Some tick\<rparr>) else (False, b))"

section \<open>Whether Moodle is expected to answer\<close>

definition manual_suspend_until :: "sync_worker \<Rightarrow> datetime \<Rightarrow> sync_db \<Rightarrow> datetime option" where
  "manual_suspend_until w now db = (case suspended_setting db of
     None \<Rightarrow> None
   | Some kv \<Rightarrow> (case map_of kv ''until'' of
       Some (JStr s) \<Rightarrow> (case from_iso w s of None \<Rightarrow> None | Some t \<Rightarrow> if now < t then Some t else None)
     | _ \<Rightarrow> None))"

text \<open>The window is in Taipei's time; its end is cut to the minute.\<close>

definition check_maintenance_window :: "sync_settings \<Rightarrow> datetime \<Rightarrow> datetime option" where
  "check_maintenance_window st now = (case (moodle_maintenance_start st, moodle_maintenance_end st) of
     (Some start, Some fin) \<Rightarrow>
       let local_now = now + hours 8; local_time = local_now mod days 1;
           in_window = (if start \<le> fin then start \<le> local_time \<and> local_time < fin else start \<le> local_time \<or> local_time < fin);
           end_dt = local_now - local_time + (fin - fin mod minutes 1)
       in if \<not> in_window then None else Some ((if end_dt \<le> local_now then end_dt + days 1 else end_dt) - hours 8)
   | _ \<Rightarrow> None)"

definition is_moodle_available :: "sync_worker \<Rightarrow> datetime \<Rightarrow> sync_db \<Rightarrow> bool \<times> datetime option" where
  "is_moodle_available w now db = (case manual_suspend_until w now db of
     Some t \<Rightarrow> (False, Some t)
   | None \<Rightarrow> (case check_maintenance_window (settings w) now of Some t \<Rightarrow> (False, Some t) | None \<Rightarrow> (True, None)))"

text \<open>The worker's own window, \<^verbatim>\<open>"HH:MM-HH:MM"\<close> in UTC; \<^verbatim>\<open>int\<close> of a text takes a sign, spaces around it and single
  underscores between digits.\<close>

definition hour_minute :: "string \<Rightarrow> int option" where
  "hour_minute s = (case map py_int (split_on CHR '':'' (py_strip s)) of [Some h, Some m] \<Rightarrow> Some (h * 60 + m) | _ \<Rightarrow> None)"

definition in_maintenance_window :: "string \<Rightarrow> datetime \<Rightarrow> bool" where
  "in_maintenance_window hhmm now =
    (if CHR ''-'' \<notin> set hhmm then False
     else case (hour_minute (takeWhile (\<lambda>ch. ch \<noteq> CHR ''-'') hhmm), hour_minute (drop 1 (dropWhile (\<lambda>ch. ch \<noteq> CHR ''-'') hhmm))) of
       (Some start, Some fin) \<Rightarrow>
         let m = (now mod days 1) div minutes 1 in
         if start \<le> fin then start \<le> m \<and> m < fin else start \<le> m \<or> m < fin
     | _ \<Rightarrow> False)"

section \<open>Claiming\<close>

definition lock_token :: "sync_worker \<Rightarrow> nat \<Rightarrow> string" where
  "lock_token w run = worker_id w @ ''#'' @ nat_str run"

definition stale_job :: "sync_settings \<Rightarrow> datetime \<Rightarrow> sync_job \<Rightarrow> bool" where
  "stale_job st now j \<longleftrightarrow> sj_status j = JobRunning \<and>
     (case sj_locked_at j of Some t \<Rightarrow> t < now - minutes (sync_job_stale_lock_minutes st) | None \<Rightarrow> False)"

definition recover_sync_job :: "datetime \<Rightarrow> sync_job \<Rightarrow> sync_job" where
  "recover_sync_job now j = j\<lparr>sj_locked_by := None, sj_locked_at := None, sj_attempts := sj_attempts j + 1, sj_last_failure_at := Some now,
     sj_last_error := Some (ERROR_SYNC_FAILED @ '':stale_lock''),
     sj_status := (if sj_max_attempts j \<le> sj_attempts j + 1 then JobFailed else JobPending)\<rparr>"

definition close_run :: "sync_run_status \<Rightarrow> datetime \<Rightarrow> string \<Rightarrow> sync_run \<Rightarrow> sync_run" where
  "close_run status now err r = (if rn_status r = RunRunning then r\<lparr>rn_status := status, rn_finished_at := Some now, rn_error := Some err\<rparr> else r)"

definition recover_stale_sync_jobs :: "sync_worker \<Rightarrow> datetime \<Rightarrow> sync_db \<Rightarrow> sync_db" where
  "recover_stale_sync_jobs w now db =
    (let ids = map sj_id (filter (stale_job (settings w) now) (sync_jobs (auth db))) in
     set_jobs (update_where (stale_job (settings w) now) (recover_sync_job now))
       (db\<lparr>sync_runs := update_where (\<lambda>r. rn_job r \<in> set ids) (close_run RunFailed now ''stale_lock_recovered'') (sync_runs db)\<rparr>))"

definition has_syncing_device :: "sync_settings \<Rightarrow> datetime \<Rightarrow> sync_db \<Rightarrow> uuid \<Rightarrow> bool" where
  "has_syncing_device st now db u \<longleftrightarrow> (\<exists>d \<in> set (devices (queue (tables db))).
     pv_user d = u \<and> pv_deleted_at d = None \<and> cloud_sync_enabled d \<and>
     ((case device_seen (tables db) (pv_id d) of Some t \<Rightarrow> now - days (sync_job_device_active_days st) < t | None \<Rightarrow> False) \<or>
      (\<exists>t \<in> set (tokens (queue (tables db))). tk_device t = pv_id d \<and> tk_kind t = ''standard'' \<and> tk_status t = ''active'' \<and>
        (case tk_last_success_at t of Some x \<Rightarrow> now - days (sync_job_device_push_days st) < x | None \<Rightarrow> False))))"

definition policy_active :: "datetime \<Rightarrow> sync_policy \<Rightarrow> bool" where
  "policy_active now p \<longleftrightarrow> sp_enabled p \<and> (case sp_active_from p of None \<Rightarrow> True | Some t \<Rightarrow> t \<le> now) \<and>
     (case sp_active_until p of None \<Rightarrow> True | Some t \<Rightarrow> now < t)"

definition claimable :: "sync_worker \<Rightarrow> datetime \<Rightarrow> sync_db \<Rightarrow> sync_job \<Rightarrow> bool" where
  "claimable w now db j \<longleftrightarrow> sj_status j = JobPending \<and> sj_run_after j \<le> now \<and> has_syncing_device (settings w) now db (sj_user j) \<and>
     \<not> (\<exists>b \<in> set (sync_jobs (auth db)). sj_user b = sj_user j \<and> sj_status b = JobRunning) \<and>
     (\<exists>p \<in> set (sync_policies (auth db)). sp_job_type p = sj_type j \<and> policy_active now p)"

definition sooner :: "sync_job \<Rightarrow> sync_job \<Rightarrow> bool" where
  "sooner a b \<longleftrightarrow> sj_priority a < sj_priority b \<or> sj_priority a = sj_priority b \<and> sj_run_after a < sj_run_after b"

definition running_jobs :: "sync_db \<Rightarrow> sync_job list" where
  "running_jobs db = filter (\<lambda>j. sj_status j = JobRunning) (sync_jobs (auth db))"

definition new_run :: "sync_job \<Rightarrow> nat \<Rightarrow> sync_run" where
  "new_run j i = \<lparr>rn_id = i, rn_job = sj_id j, rn_user = sj_user j, rn_status = RunRunning, rn_finished_at = None, rn_fetched = None,
     rn_changed = None, rn_error = None\<rparr>"

definition take_job :: "sync_worker \<Rightarrow> nat \<Rightarrow> datetime \<Rightarrow> sync_job \<Rightarrow> sync_job" where
  "take_job w run now j = j\<lparr>sj_status := JobRunning, sj_locked_at := Some now, sj_locked_by := Some (lock_token w run)\<rparr>"

definition claim_due_job :: "sync_worker \<Rightarrow> datetime \<Rightarrow> sync_db \<Rightarrow> (nat \<times> nat) option \<times> sync_db" where
  "claim_due_job w now db =
    (if sync_job_global_concurrency (settings w) \<le> length (running_jobs db) then (None, db)
     else case first_by sooner (filter (claimable w now db) (sync_jobs (auth db))) of
       None \<Rightarrow> (None, db)
     | Some j \<Rightarrow> let run = run_seq db in
         (Some (sj_id j, run),
          modify_sync_job (sj_id j) (take_job w run now) (db\<lparr>sync_runs := sync_runs db @ [new_run j run], run_seq := Suc run\<rparr>)))"

definition claim_next :: "sync_worker \<Rightarrow> datetime \<Rightarrow> sync_db \<Rightarrow> (nat \<times> nat) option \<times> sync_db" where
  "claim_next w now db =
    (if paused now (budget db) \<or> manual_suspend_until w now db \<noteq> None then (None, db) else claim_due_job w now db)"

text \<open>The tick: stale locks, then one claim as each slot frees; \<open>between n\<close> is what was committed before the claim with
  \<open>n\<close> still to make. The claimed jobs run as tasks of their own (\<open>execute_job\<close>).\<close>

fun claim_loop :: "sync_worker \<Rightarrow> (nat \<Rightarrow> sync_db \<Rightarrow> sync_db) \<Rightarrow> (nat \<Rightarrow> datetime) \<Rightarrow> nat \<Rightarrow> sync_db \<Rightarrow> (nat \<times> nat) list \<times> sync_db" where
  "claim_loop w between clock 0 db = ([], db)"
| "claim_loop w between clock (Suc n) db =
    (case claim_next w (clock n) (between n db) of
       (None, db1) \<Rightarrow> ([], db1)
     | (Some c, db1) \<Rightarrow> apfst ((#) c) (claim_loop w between clock n db1))"

definition run_sync_tick :: "sync_worker \<Rightarrow> (nat \<Rightarrow> sync_db \<Rightarrow> sync_db) \<Rightarrow> (nat \<Rightarrow> datetime) \<Rightarrow> datetime \<Rightarrow> sync_db \<Rightarrow> (nat \<times> nat) list \<times> sync_db" where
  "run_sync_tick w between clock now db =
    (if in_maintenance_window (sync_maintenance_window (settings w)) now then ([], db)
     else claim_loop w between clock (sync_job_batch_size (settings w)) (recover_stale_sync_jobs w now db))"

section \<open>Owning a run\<close>

definition owned :: "sync_worker \<Rightarrow> nat \<Rightarrow> sync_job option \<Rightarrow> bool" where
  "owned w run job = (case job of None \<Rightarrow> False | Some j \<Rightarrow> sj_status j = JobRunning \<and> sj_locked_by j = Some (lock_token w run))"

definition keep_lock_fresh :: "sync_worker \<Rightarrow> nat \<Rightarrow> nat \<Rightarrow> datetime \<Rightarrow> sync_db \<Rightarrow> sync_db" where
  "keep_lock_fresh w job run now =
    set_jobs (update_where (\<lambda>j. sj_id j = job \<and> sj_status j = JobRunning \<and> sj_locked_by j = Some (lock_token w run)) (\<lambda>j. j\<lparr>sj_locked_at := Some now\<rparr>))"

text \<open>A run that lost its job is closed as cancelled.\<close>

definition lock_owned_job :: "sync_worker \<Rightarrow> nat \<Rightarrow> nat \<Rightarrow> datetime \<Rightarrow> sync_db \<Rightarrow> sync_job option \<times> sync_db" where
  "lock_owned_job w job run now db =
    (if owned w run (get_sync_job db job) then (get_sync_job db job, db)
     else (None, modify_run run (close_run RunCancelled now ''reclaimed_before_execution'') db))"

section \<open>Credentials\<close>

datatype start_result = NotOwned | Started sync_job_type uuid string string

definition status_text :: "credential_status \<Rightarrow> string" where
  "status_text c = (case c of CredActive \<Rightarrow> ''active'' | CredExpired \<Rightarrow> ''expired'' | CredInvalid \<Rightarrow> ''invalid'' | CredRevoked \<Rightarrow> ''revoked'')"

definition load_credential :: "sync_worker \<Rightarrow> nat \<Rightarrow> sync_db \<Rightarrow> string + credential \<times> json" where
  "load_credential w acct db = (case row_get a_id acct (accounts (auth db)) of
     None \<Rightarrow> Inl ''account_missing''
   | Some a \<Rightarrow> if credential_status a \<noteq> CredActive then Inl (''credential_status_'' @ status_text (credential_status a))
     else (case row_get cr_account acct (credentials (auth db)) of
        None \<Rightarrow> Inl ''credential_missing''
      | Some c \<Rightarrow> (case decrypt w c of None \<Rightarrow> Inl ''decrypt_failed'' | Some blob \<Rightarrow> Inr (c, blob))))"

text \<open>\<^verbatim>\<open>(blob.get("token_cache") or {}).get("moodle_token")\<close>, when it is a text that is not empty. The blob is the
  object \<open>token_payload\<close> builds.\<close>

definition blob_token :: "json \<Rightarrow> string option" where
  "blob_token blob = (case blob of
     JObj kv \<Rightarrow> (case json_field ''token_cache'' kv of
        Some (JObj cache) \<Rightarrow> (case json_field ''moodle_token'' cache of Some (JStr t) \<Rightarrow> if t = [] then None else Some t | _ \<Rightarrow> None)
      | _ \<Rightarrow> None)
   | _ \<Rightarrow> None)"

definition start_run :: "sync_worker \<Rightarrow> nat \<Rightarrow> nat \<Rightarrow> datetime \<Rightarrow> sync_db \<Rightarrow> (string + start_result) \<times> sync_db" where
  "start_run w job run now db =
    (case lock_owned_job w job run now db of
       (None, db1) \<Rightarrow> (Inr NotOwned, db1)
     | (Some j, db1) \<Rightarrow> (case load_credential w (sj_account j) db1 of
          Inl reason \<Rightarrow> (Inl reason, db)
        | Inr (c, blob) \<Rightarrow> (case blob_token blob of
             None \<Rightarrow> (Inl ''moodle_token_missing'', db)
           | Some t \<Rightarrow> (Inr (Started (sj_type j) (sj_user j) t (nonce c)), db1))))"

definition REAUTH_CAPABLE_PLATFORMS :: "string list" where
  "REAUTH_CAPABLE_PLATFORMS = APPLE_HANDHELD_PLATFORMS"

definition reauth_key :: "sync_worker \<Rightarrow> external_account \<Rightarrow> string" where
  "reauth_key w a = ''system:account:'' @ nat_str (a_id a) @ '':'' @ REAUTH_SCENARIO @
     (case last_auth_success_at a of None \<Rightarrow> [] | Some t \<Rightarrow> '':'' @ to_iso w t)"

definition queue_reauth :: "sync_worker \<Rightarrow> external_account \<Rightarrow> uuid \<Rightarrow> datetime \<Rightarrow> push_db \<Rightarrow> push_db" where
  "queue_reauth w a u now db =
    (if \<exists>d \<in> set (devices db). pv_user d = u \<and> pv_deleted_at d = None \<and> cloud_sync_enabled d \<and> pv_platform d \<in> set REAUTH_CAPABLE_PLATFORMS
     then (if conflicting_job db u (reauth_key w a) \<noteq> None then db
           else insert_job (new_job u None (reauth_key w a) ''system'' REAUTH_SCENARIO now 100
             [(''kind'', JStr REAUTH_SCENARIO), (''provider'', JStr (a_provider a))] now) db)
     else db)"

definition disable_job :: "datetime \<Rightarrow> string \<Rightarrow> sync_job \<Rightarrow> sync_job" where
  "disable_job now err j = j\<lparr>sj_status := JobDisabled, sj_locked_by := None, sj_locked_at := None, sj_last_failure_at := Some now,
     sj_last_error := Some err\<rparr>"

definition mark_credentials_invalid :: "sync_worker \<Rightarrow> external_account \<Rightarrow> uuid \<Rightarrow> string \<Rightarrow> datetime \<Rightarrow> sync_db \<Rightarrow> sync_db" where
  "mark_credentials_invalid w a u err now db =
    (let db1 = db\<lparr>auth := (auth db)\<lparr>accounts := row_update a_id (a_id a)
           (\<lambda>x. x\<lparr>credential_status := CredInvalid, last_auth_error := Some err\<rparr>) (accounts (auth db))\<rparr>\<rparr>;
         db2 = set_jobs (update_where (\<lambda>j. sj_user j = u) (disable_job now err)) db1
     in db2\<lparr>tables := (tables db2)\<lparr>queue := queue_reauth w a u now (queue (tables db2))\<rparr>\<rparr>)"

section \<open>How a run ends\<close>

definition succeed_job :: "sync_policy option \<Rightarrow> datetime \<Rightarrow> sync_job \<Rightarrow> sync_job" where
  "succeed_job policy now j = j\<lparr>sj_status := JobPending,
     sj_run_after := now + seconds (case policy of Some p \<Rightarrow> sp_default_interval_seconds p | None \<Rightarrow> DEFAULT_INTERVAL_SECONDS),
     sj_attempts := 0, sj_priority := (case policy of Some p \<Rightarrow> sp_priority p | None \<Rightarrow> DEFAULT_PRIORITY),
     sj_locked_by := None, sj_locked_at := None, sj_last_success_at := Some now, sj_last_error := None\<rparr>"

definition mark_succeeded :: "nat \<Rightarrow> nat \<Rightarrow> datetime \<Rightarrow> sync_db \<Rightarrow> sync_db" where
  "mark_succeeded job run now db =
    (case get_sync_job db job of
       None \<Rightarrow> db
     | Some j \<Rightarrow> modify_sync_job job (succeed_job (policy_of db (sj_type j)) now)
         (modify_run run (\<lambda>r. r\<lparr>rn_status := RunSucceeded, rn_finished_at := Some now\<rparr>) db))"

definition rejected_token_still_stored :: "nat \<Rightarrow> string option \<Rightarrow> sync_db \<Rightarrow> bool" where
  "rejected_token_still_stored acct credential_nonce db = (case credential_nonce of
     None \<Rightarrow> True
   | Some n \<Rightarrow> (case row_get cr_account acct (credentials (auth db)) of Some c \<Rightarrow> nonce c = n | None \<Rightarrow> False))"

definition backoff :: "sync_settings \<Rightarrow> int \<Rightarrow> int" where
  "backoff st n = min (sync_job_backoff_base_seconds st * 2 ^ nat (n - 1)) (sync_job_backoff_cap_seconds st)"

text \<open>The job after a failure that does not disable it.\<close>

definition retry_job :: "sync_settings \<Rightarrow> sync_policy option \<Rightarrow> bool \<Rightarrow> datetime \<Rightarrow> sync_job \<Rightarrow> sync_job" where
  "retry_job st policy keep_retrying now j =
    (let n = sj_attempts j + 1 in
     if sj_max_attempts j \<le> n \<and> keep_retrying then
       j\<lparr>sj_status := JobPending,
         sj_run_after := now + seconds (case policy of Some p \<Rightarrow> sp_default_interval_seconds p | None \<Rightarrow> DEFAULT_INTERVAL_SECONDS),
         sj_attempts := 0, sj_priority := (case policy of Some p \<Rightarrow> sp_priority p | None \<Rightarrow> DEFAULT_PRIORITY)\<rparr>
     else if sj_max_attempts j \<le> n then j\<lparr>sj_attempts := n, sj_status := JobFailed\<rparr>
     else j\<lparr>sj_attempts := n, sj_status := JobPending, sj_run_after := now + seconds (backoff st n)\<rparr>)"

definition unlock_failed :: "datetime \<Rightarrow> string \<Rightarrow> sync_job \<Rightarrow> sync_job" where
  "unlock_failed now err j = j\<lparr>sj_locked_by := None, sj_locked_at := None, sj_last_failure_at := Some now, sj_last_error := Some err\<rparr>"

record failure =
  fl_error :: string
  fl_disable :: bool
  fl_detail :: "string option"
  fl_keep_retrying :: bool
  fl_nonce :: "string option"

definition record_failure :: "sync_worker \<Rightarrow> nat \<Rightarrow> nat \<Rightarrow> failure \<Rightarrow> datetime \<Rightarrow> sync_db \<Rightarrow> sync_db" where
  "record_failure w job run f now db =
    (case get_sync_job db job of
       None \<Rightarrow> db
     | Some j \<Rightarrow> if \<not> owned w run (Some j) then db
       else
         let err = fl_error f;
             db1 = modify_run run (close_run RunFailed now (case fl_detail f of None \<Rightarrow> err | Some d \<Rightarrow> err @ '':'' @ d)) db;
             db2 = modify_sync_job job (unlock_failed now err) db1
         in if fl_disable f \<and> rejected_token_still_stored (sj_account j) (fl_nonce f) db2
            then let db3 = modify_sync_job job (\<lambda>j. j\<lparr>sj_status := JobDisabled\<rparr>) db2 in
              (case row_get a_id (sj_account j) (accounts (auth db3)) of
                 None \<Rightarrow> db3
               | Some a \<Rightarrow> mark_credentials_invalid w a (sj_user j) err now db3)
            else modify_sync_job job (retry_job (settings w) (policy_of db2 (sj_type j)) (fl_keep_retrying f \<or> fl_disable f) now) db2)"

definition reschedule_for_maintenance :: "sync_worker \<Rightarrow> nat \<Rightarrow> nat \<Rightarrow> string \<Rightarrow> datetime \<Rightarrow> datetime \<Rightarrow> sync_db \<Rightarrow> sync_db" where
  "reschedule_for_maintenance w job run err resume now db =
    (if \<not> owned w run (get_sync_job db job) then db
     else modify_sync_job job (\<lambda>j. j\<lparr>sj_status := JobPending, sj_run_after := resume, sj_locked_by := None, sj_locked_at := None,
            sj_last_error := Some (''moodle_maintenance:'' @ err)\<rparr>)
       (modify_run run (close_run RunFailed now (''moodle_maintenance:'' @ err)) db))"

section \<open>Running a job\<close>

text \<open>What the Moodle client raises, and how a run fails. \<open>MoodleNoCourseAccess\<close> is a \<open>MoodleUnreachable\<close>; any other
  exception carries its type's name.\<close>

datatype moodle_error =
  MoodleTokenInvalid | MoodleRateLimited | MoodleUnreachable string | MoodleNoCourseAccess "int list" | SsoUnavailable string
| MoodleClientError string | OtherException string

datatype run_error = CredentialInvalid string | RateLimitedError | UnreachableError string | SubmissionStatusDbError | Unexpected string

definition raised :: "moodle_error \<Rightarrow> run_error" where
  "raised e = (case e of
     MoodleTokenInvalid \<Rightarrow> CredentialInvalid ''moodle_token_invalid''
   | MoodleRateLimited \<Rightarrow> RateLimitedError
   | MoodleUnreachable m \<Rightarrow> UnreachableError m
   | MoodleNoCourseAccess ids \<Rightarrow> UnreachableError ''no_course_access''
   | SsoUnavailable m \<Rightarrow> UnreachableError m
   | MoodleClientError t \<Rightarrow> Unexpected t
   | OtherException t \<Rightarrow> Unexpected t)"

record run_env =
  gap :: "nat \<Rightarrow> sync_db \<Rightarrow> sync_db"
  clock :: "nat \<Rightarrow> datetime"
  db_crash :: "nat \<Rightarrow> string option"
  fetch_assignments :: "string \<Rightarrow> moodle_error + fetched_assignment list"
  fetch_courses :: "string \<Rightarrow> string list \<times> int list \<times> (moodle_error + fetched_course list)"
  fetch_submission_status :: "string \<Rightarrow> int list \<Rightarrow> int option \<Rightarrow> string list \<times> (moodle_error + (int \<times> fetched_submission) list)"

text \<open>The \<open>k\<close>-th transaction of a run: what others committed before it, then its body, or nothing of it when it fails.\<close>

definition txn :: "run_env \<Rightarrow> nat \<Rightarrow> (sync_db \<Rightarrow> 'a \<times> sync_db) \<Rightarrow> sync_db \<Rightarrow> (string + 'a) \<times> sync_db" where
  "txn env k body db = (case db_crash env k of Some t \<Rightarrow> (Inl t, gap env k db) | None \<Rightarrow> apfst Inr (body (gap env k db)))"

definition count_run :: "nat \<Rightarrow> sync_stats \<Rightarrow> sync_db \<Rightarrow> sync_db" where
  "count_run run stats = modify_run run (\<lambda>r. r\<lparr>rn_fetched := Some (fetched_count stats), rn_changed := Some (changed_count stats)\<rparr>)"

definition trigger_sync :: "uuid \<Rightarrow> datetime \<Rightarrow> bool \<Rightarrow> sync_db \<Rightarrow> sync_db" where
  "trigger_sync u now changed db =
    (if changed then db\<lparr>tables := (tables db)\<lparr>queue := snd (enqueue_sync_trigger (queue (tables db)) u None now)\<rparr>\<rparr> else db)"

text \<open>The three transactions that write what Moodle answered, each under the job's lock: \<open>None\<close> when the run lost its job.\<close>

definition store_answer ::
  "sync_worker \<Rightarrow> nat \<Rightarrow> nat \<Rightarrow> uuid \<Rightarrow> datetime \<Rightarrow> (course_db \<Rightarrow> sync_stats \<times> course_db) \<Rightarrow> sync_db \<Rightarrow> sync_stats option \<times> sync_db" where
  "store_answer w job run u now apply_answer db =
    (case lock_owned_job w job run now db of
       (None, db1) \<Rightarrow> (None, db1)
     | (Some j, db1) \<Rightarrow>
         let (stats, t) = apply_answer (tables db1)
         in (Some stats, trigger_sync u now (0 < changed_count stats) (count_run run stats (db1\<lparr>tables := t\<rparr>))))"

definition drop_courses_left_out :: "sync_worker \<Rightarrow> nat \<Rightarrow> nat \<Rightarrow> uuid \<Rightarrow> int list \<Rightarrow> datetime \<Rightarrow> datetime \<Rightarrow> sync_db \<Rightarrow> sync_stats option \<times> sync_db" where
  "drop_courses_left_out w job run u refused started now =
    store_answer w job run u now (apply_fetched_assignments (text_tables w) u [] started None refused)"

definition store_assignments ::
  "sync_worker \<Rightarrow> nat \<Rightarrow> nat \<Rightarrow> uuid \<Rightarrow> fetched_assignment list \<Rightarrow> fetched_course list option \<Rightarrow> datetime \<Rightarrow> datetime \<Rightarrow> sync_db \<Rightarrow> sync_stats option \<times> sync_db" where
  "store_assignments w job run u fetched enrolled started now =
    store_answer w job run u now (apply_fetched_assignments (text_tables w) u fetched started enrolled [])"

definition store_courses ::
  "sync_worker \<Rightarrow> nat \<Rightarrow> nat \<Rightarrow> uuid \<Rightarrow> fetched_course list \<Rightarrow> datetime \<Rightarrow> datetime \<Rightarrow> sync_db \<Rightarrow> sync_stats option \<times> sync_db" where
  "store_courses w job run u fetched started now db =
    (case store_answer w job run u now (apply_fetched_courses u fetched started) db of
       (None, db1) \<Rightarrow> (None, db1)
     | (Some stats, db1) \<Rightarrow> (Some stats, mark_succeeded job run started db1))"

definition finish_after_probe :: "sync_worker \<Rightarrow> nat \<Rightarrow> nat \<Rightarrow> datetime \<Rightarrow> sync_db \<Rightarrow> unit \<times> sync_db" where
  "finish_after_probe w job run started db =
    ((), if owned w run (get_sync_job db job) then mark_succeeded job run started db else db)"

text \<open>The probe's second transaction: the flips with their reminders cancelled, the extensions, and a sync trigger when
  something changed.\<close>

definition store_submissions ::
  "sync_worker \<Rightarrow> uuid \<Rightarrow> (int \<times> fetched_submission) list \<Rightarrow> (int \<times> fetched_assignment) list \<Rightarrow> datetime \<Rightarrow> datetime \<Rightarrow> sync_db \<Rightarrow> unit \<times> sync_db" where
  "store_submissions w u fetched listed started now db =
    (let (changed_ids, q1) = apply_submission_status (queue (tables db)) u fetched started;
         q2 = (if changed_ids = [] then q1 else cancel_for_submitted (to_iso w) q1 u changed_ids started);
         (moved, q3) = apply_extensions u fetched listed started q2
     in ((), trigger_sync u now (changed_ids \<noteq> [] \<or> moved \<noteq> 0) (db\<lparr>tables := (tables db)\<lparr>queue := q3\<rparr>\<rparr>)))"

definition select_probe :: "sync_worker \<Rightarrow> uuid \<Rightarrow> datetime \<Rightarrow> int list \<Rightarrow> sync_db \<Rightarrow> int list \<times> sync_db" where
  "select_probe w u started also db =
    (select_assignment_ids (queue (tables db)) u started (submission_status_window_hours (settings w)) also, db)"

definition refresh_submission_status ::
  "sync_worker \<Rightarrow> run_env \<Rightarrow> uuid \<Rightarrow> string \<Rightarrow> datetime \<Rightarrow> (int \<times> fetched_assignment) list \<Rightarrow> int list \<Rightarrow> int option \<Rightarrow> sync_db \<Rightarrow>
   (run_error + unit) \<times> string list \<times> sync_db" where
  "refresh_submission_status w env u token started listed recheck userid db =
    (case txn env 3 (select_probe w u started recheck) db of
       (Inl t, db1) \<Rightarrow> (Inl SubmissionStatusDbError, [], db1)
     | (Inr ids, db1) \<Rightarrow> if ids = [] then (Inr (), [], db1) else
         (case fetch_submission_status env token ids userid of
            (names, Inl e) \<Rightarrow>
              ((case e of MoodleTokenInvalid \<Rightarrow> Inl (raised e) | MoodleRateLimited \<Rightarrow> Inl (raised e) | MoodleUnreachable _ \<Rightarrow> Inl (raised e)
                | MoodleNoCourseAccess _ \<Rightarrow> Inl (raised e) | _ \<Rightarrow> Inr ()), names, db1)
          | (names, Inr fetched) \<Rightarrow>
              (case txn env 4 (store_submissions w u fetched listed started (clock env 4)) db1 of
                 (Inl t, db2) \<Rightarrow> (Inl SubmissionStatusDbError, names, db2)
               | (Inr _, db2) \<Rightarrow> (Inr (), names, db2))))"

definition pause_worker :: "sync_worker \<Rightarrow> datetime \<Rightarrow> sync_db \<Rightarrow> sync_db" where
  "pause_worker w tick db = db\<lparr>budget := pause (sync_job_backoff_base_seconds (settings w)) tick (budget db)\<rparr>"

definition store_name :: "run_env \<Rightarrow> uuid \<Rightarrow> string list \<Rightarrow> sync_db \<Rightarrow> sync_db" where
  "store_name env u names db = snd (txn env 6 (\<lambda>d. ((), d\<lparr>auth := store_display_name u (if names = [] then None else Some (last names)) (auth d)\<rparr>)) db)"

text \<open>\<open>_execute_job\<close> up to its exception handlers, for a courses job and for any other. The answer is the error it ends
  with, if any.\<close>

definition run_courses :: "sync_worker \<Rightarrow> run_env \<Rightarrow> nat \<Rightarrow> nat \<Rightarrow> uuid \<Rightarrow> string \<Rightarrow> sync_db \<Rightarrow> run_error option \<times> sync_db" where
  "run_courses w env job run u token db =
    (case fetch_courses env token of
       (names, userids, Inl e) \<Rightarrow> (Some (raised e), db)
     | (names, userids, Inr fetched) \<Rightarrow>
         (case txn env 2 (store_courses w job run u fetched (clock env 1) (clock env 2)) db of
            (Inl t, db1) \<Rightarrow> (Some (Unexpected t), db1)
          | (Inr None, db1) \<Rightarrow> (None, db1)
          | (Inr (Some stats), db1) \<Rightarrow> (None, store_name env u names db1)))"

text \<open>The end of an assignments run whose answer is stored: the probe, unless the school just answered 429, and the
  course list's own error last.\<close>

definition finish_assignments ::
  "sync_worker \<Rightarrow> run_env \<Rightarrow> nat \<Rightarrow> nat \<Rightarrow> uuid \<Rightarrow> string \<Rightarrow> fetched_assignment list \<Rightarrow> moodle_error option \<Rightarrow> string list \<Rightarrow> int list \<Rightarrow> sync_stats \<Rightarrow> sync_db \<Rightarrow>
   run_error option \<times> sync_db" where
  "finish_assignments w env job run u token fetched course_error names userids stats db =
    (let done = (\<lambda>names db. (map_option raised course_error, store_name env u names db)) in
     if course_error = Some MoodleRateLimited then done names db
     else case refresh_submission_status w env u token (clock env 1) (map (\<lambda>a. (fa_id a, a)) (rev fetched)) (recheck_ids stats)
            (if userids = [] then None else Some (last userids)) db of
       (Inl e, extra, db1) \<Rightarrow> (Some e, db1)
     | (Inr _, extra, db1) \<Rightarrow>
         if course_error \<noteq> None then done (names @ extra) db1
         else (case txn env 5 (finish_after_probe w job run (clock env 1)) db1 of
            (Inl t, db2) \<Rightarrow> (Some (Unexpected t), db2)
          | (Inr _, db2) \<Rightarrow> done (names @ extra) db2))"

definition run_assignments :: "sync_worker \<Rightarrow> run_env \<Rightarrow> nat \<Rightarrow> nat \<Rightarrow> uuid \<Rightarrow> string \<Rightarrow> sync_db \<Rightarrow> run_error option \<times> sync_db" where
  "run_assignments w env job run u token db =
    (case fetch_assignments env token of
       Inl (MoodleNoCourseAccess refused) \<Rightarrow>
         (case txn env 1 (drop_courses_left_out w job run u refused (clock env 1) (clock env 1)) db of
            (Inl t, db1) \<Rightarrow> (Some (Unexpected t), db1)
          | (Inr None, db1) \<Rightarrow> (None, db1)
          | (Inr (Some _), db1) \<Rightarrow> (Some (raised (MoodleNoCourseAccess refused)), db1))
     | Inl e \<Rightarrow> (Some (raised e), db)
     | Inr fetched \<Rightarrow>
         (let store = (\<lambda>enrolled course_error names userids db.
            case txn env 2 (store_assignments w job run u fetched enrolled (clock env 1) (clock env 2)) db of
              (Inl t, db1) \<Rightarrow> (Some (Unexpected t), db1)
            | (Inr None, db1) \<Rightarrow> (None, db1)
            | (Inr (Some stats), db1) \<Rightarrow> finish_assignments w env job run u token fetched course_error names userids stats db1)
          in case fetch_courses env token of
            (names, userids, Inr enrolled) \<Rightarrow> store (Some enrolled) None names userids db
          | (names, userids, Inl MoodleRateLimited) \<Rightarrow> store None (Some MoodleRateLimited) names userids (pause_worker w (clock env 1) db)
          | (names, userids, Inl (MoodleUnreachable m)) \<Rightarrow> store None (Some (MoodleUnreachable m)) names userids db
          | (names, userids, Inl (MoodleNoCourseAccess ids)) \<Rightarrow> store None (Some (MoodleNoCourseAccess ids)) names userids db
          | (names, userids, Inl e) \<Rightarrow> (Some (raised e), db)))"

text \<open>The handlers: a rejected token disables the account's jobs, the school's errors are retried for good, ours until the
  attempts are spent; while Moodle is known to be down the first two wait for its return.\<close>

definition handle_moodle_failure :: "sync_worker \<Rightarrow> run_env \<Rightarrow> nat \<Rightarrow> nat \<Rightarrow> failure \<Rightarrow> sync_db \<Rightarrow> sync_db" where
  "handle_moodle_failure w env job run f db =
    (let db7 = gap env 7 db in
     if db_crash env 7 \<noteq> None then db7
     else case is_moodle_available w (clock env 7) db7 of
       (False, Some resume) \<Rightarrow> snd (txn env 8 (\<lambda>d. ((), reschedule_for_maintenance w job run (fl_error f) resume (clock env 8) d)) db7)
     | _ \<Rightarrow> snd (txn env 8 (\<lambda>d. ((), record_failure w job run f (clock env 8) d)) db7))"

definition handle_error :: "sync_worker \<Rightarrow> run_env \<Rightarrow> nat \<Rightarrow> nat \<Rightarrow> string option \<Rightarrow> run_error \<Rightarrow> sync_db \<Rightarrow> sync_db" where
  "handle_error w env job run credential_nonce e db =
    (let plain = (\<lambda>err keep. \<lparr>fl_error = err, fl_disable = False, fl_detail = None, fl_keep_retrying = keep, fl_nonce = None\<rparr>);
         note_failure = (\<lambda>f db. snd (txn env 8 (\<lambda>d. ((), record_failure w job run f (clock env 8) d)) db)) in
     case e of
       CredentialInvalid reason \<Rightarrow> handle_moodle_failure w env job run
         \<lparr>fl_error = ERROR_CREDENTIAL_INVALID, fl_disable = True, fl_detail = Some reason, fl_keep_retrying = False, fl_nonce = credential_nonce\<rparr> db
     | RateLimitedError \<Rightarrow> note_failure (plain ERROR_SCHOOL_RATE_LIMITED True) (pause_worker w (clock env 7) db)
     | UnreachableError m \<Rightarrow> handle_moodle_failure w env job run (plain (ERROR_SYNC_FAILED @ '':'' @ take 120 m) True) db
     | SubmissionStatusDbError \<Rightarrow> note_failure (plain (ERROR_SYNC_FAILED @ '':submission_status'') False) db
     | Unexpected t \<Rightarrow> note_failure (plain (ERROR_SYNC_FAILED @ '':'' @ t) False) db)"

definition execute_job :: "sync_worker \<Rightarrow> run_env \<Rightarrow> nat \<Rightarrow> nat \<Rightarrow> sync_db \<Rightarrow> sync_db" where
  "execute_job w env job run db =
    (case txn env 0 (start_run w job run (clock env 0)) db of
       (Inl t, db1) \<Rightarrow> handle_error w env job run None (Unexpected t) db1
     | (Inr (Inl reason), db1) \<Rightarrow> handle_error w env job run None (CredentialInvalid reason) db1
     | (Inr (Inr NotOwned), db1) \<Rightarrow> db1
     | (Inr (Inr (Started ty u token n)), db1) \<Rightarrow>
         (case (if ty = NtustCourses then run_courses w env job run u token db1 else run_assignments w env job run u token db1) of
            (None, db2) \<Rightarrow> db2
          | (Some e, db2) \<Rightarrow> handle_error w env job run (Some n) e db2))"

section \<open>Run now\<close>

text \<open>\<^verbatim>\<open>POST /sync-jobs/run-now\<close> for the user's assignments job: whether it was queued. The provisioning it may do commits
  first; a refusal after it rolls the rest back.\<close>

definition cursor_items :: "json \<Rightarrow> (string \<times> json) list" where
  "cursor_items c = (case c of JObj kv \<Rightarrow> kv | _ \<Rightarrow> [])"

definition cooling_down :: "sync_worker \<Rightarrow> datetime \<Rightarrow> sync_job \<Rightarrow> bool" where
  "cooling_down w now j = (case map_of (cursor_items (sj_cursor j)) ''manual_requested_at'' of
     Some (JStr s) \<Rightarrow> (case from_iso w s of None \<Rightarrow> False | Some t \<Rightarrow> now - t < seconds (sync_job_manual_cooldown_seconds (settings w)))
   | _ \<Rightarrow> False)"

definition run_soon :: "sync_worker \<Rightarrow> datetime \<Rightarrow> sync_job \<Rightarrow> sync_job" where
  "run_soon w now j = j\<lparr>sj_attempts := (if sj_status j = JobFailed then 0 else sj_attempts j), sj_status := JobPending, sj_priority := 1,
     sj_run_after := now, sj_cursor := JObj (AList.update ''manual_requested_at'' (JStr (to_iso w now)) (cursor_items (sj_cursor j)))\<rparr>"

definition provision_job :: "uuid \<Rightarrow> datetime \<Rightarrow> sync_db \<Rightarrow> http_error + sync_db" where
  "provision_job u now db =
    (if \<exists>j \<in> set (sync_jobs (auth db)). sj_user j = u \<and> sj_type j = MoodleAssignments then Inr db
     else case find (\<lambda>a. a_user a = u \<and> a_provider a = PROVIDER_NTUST_SSO) (accounts (auth db)) of
       None \<Rightarrow> Inl (HTTPException 404 ''sync_not_provisioned'')
     | Some a \<Rightarrow> if credential_status a \<noteq> CredActive then Inl (HTTPException 409 ''credential_invalid'')
         else Inr (db\<lparr>auth := ensure_sync_jobs u (a_id a) now (auth db)\<rparr>))"

definition run_now :: "sync_worker \<Rightarrow> uuid \<Rightarrow> uuid option \<Rightarrow> datetime \<Rightarrow> sync_db \<Rightarrow> (http_error + bool) \<times> sync_db" where
  "run_now w u dev now db =
    (if \<not> (case policy_of db MoodleAssignments of None \<Rightarrow> False | Some p \<Rightarrow> policy_active now p)
     then (Inl (HTTPException 409 ''policy_disabled''), db)
     else case provision_job u now db of Inl e \<Rightarrow> (Inl e, db) | Inr db1 \<Rightarrow>
       (case find (\<lambda>j. sj_user j = u \<and> sj_type j = MoodleAssignments) (sync_jobs (auth db1)) of
          None \<Rightarrow> (Inl (HTTPException 500 ''no_job''), db1)
        | Some j \<Rightarrow>
           let db2 = (case dev of None \<Rightarrow> db1 | Some d \<Rightarrow>
                 if \<exists>x \<in> set (devices (queue (tables db1))). pv_id x = d \<and> pv_user x = u
                 then db1\<lparr>tables := (tables db1)\<lparr>device_seen := (device_seen (tables db1))(d := Some now)\<rparr>\<rparr> else db1)
           in if sj_status j = JobDisabled then (Inl (HTTPException 409 ''credential_invalid''), db1)
              else if sj_status j = JobRunning \<or> sj_status j = JobPending \<and> sj_priority j \<le> 1 \<and> sj_run_after j \<le> now then (Inr False, db2)
              else if cooling_down w now j then (Inl (HTTPException 429 ''cooldown''), db1)
              else (Inr True, modify_sync_job (sj_id j) (run_soon w now) db2)))"

text \<open>What the answer says of the job.\<close>

definition ERROR_CODES :: "string list" where
  "ERROR_CODES = [''credential_invalid'', ''school_rate_limited'', ''sync_failed'']"

definition last_error_code :: "sync_job \<Rightarrow> string option" where
  "last_error_code j =
    (if sj_status j = JobDisabled then Some ''credential_invalid''
     else case sj_last_error j of
       None \<Rightarrow> None
     | Some e \<Rightarrow> (case find (\<lambda>code. starts_with code e) ERROR_CODES of Some code \<Rightarrow> Some code | None \<Rightarrow> Some ''sync_failed''))"

section \<open>The policies\<close>

text \<open>\<^verbatim>\<open>PATCH /admin/sync-policies/{job_type}\<close>: a field that was not sent is \<open>None\<close>, a null that was sent is
  \<open>Some None\<close>. A null for a column that takes none is refused by the database when the session commits, and so is a value
  that breaks a check; the request validation lets neither an interval nor a number of attempts below 1 through.\<close>

record policy_patch =
  pp_enabled :: "bool option option"
  pp_default_interval_seconds :: "int option option"
  pp_active_from :: "datetime option option"
  pp_active_until :: "datetime option option"
  pp_priority :: "int option option"
  pp_max_attempts :: "int option option"

definition valid_patch :: "policy_patch \<Rightarrow> bool" where
  "valid_patch p \<longleftrightarrow> (case pp_default_interval_seconds p of Some (Some n) \<Rightarrow> 0 < n | _ \<Rightarrow> True) \<and>
     (case pp_max_attempts p of Some (Some n) \<Rightarrow> 0 < n | _ \<Rightarrow> True)"

definition null_sent :: "policy_patch \<Rightarrow> bool" where
  "null_sent p \<longleftrightarrow> pp_enabled p = Some None \<or> pp_default_interval_seconds p = Some None \<or> pp_priority p = Some None \<or> pp_max_attempts p = Some None"

definition sent :: "'a option option \<Rightarrow> 'a \<Rightarrow> 'a" where
  "sent f old = (case f of Some (Some v) \<Rightarrow> v | _ \<Rightarrow> old)"

definition patched :: "policy_patch \<Rightarrow> sync_policy \<Rightarrow> sync_policy" where
  "patched p pol = pol\<lparr>sp_enabled := sent (pp_enabled p) (sp_enabled pol),
     sp_default_interval_seconds := sent (pp_default_interval_seconds p) (sp_default_interval_seconds pol),
     sp_active_from := (case pp_active_from p of None \<Rightarrow> sp_active_from pol | Some t \<Rightarrow> t),
     sp_active_until := (case pp_active_until p of None \<Rightarrow> sp_active_until pol | Some t \<Rightarrow> t),
     sp_priority := sent (pp_priority p) (sp_priority pol), sp_max_attempts := sent (pp_max_attempts p) (sp_max_attempts pol)\<rparr>"

definition patch_policy :: "sync_job_type \<Rightarrow> policy_patch \<Rightarrow> sync_db \<Rightarrow> (http_error + sync_policy) \<times> sync_db" where
  "patch_policy ty p db =
    (if \<not> valid_patch p then (Inl (HTTPException 422 ''validation_error''), db)
     else case policy_of db ty of
       None \<Rightarrow> (Inl (HTTPException 404 ''unknown_job_type''), db)
     | Some pol \<Rightarrow> if null_sent p then (Inl (HTTPException 500 ''integrity_error''), db)
         else (Inr (patched p pol),
               db\<lparr>auth := (auth db)\<lparr>sync_policies := row_update sp_job_type ty (patched p) (sync_policies (auth db))\<rparr>\<rparr>))"

end
