(* ===== verification/WorkerSafety.thy ===== *)
theory WorkerSafety
  imports SyncWorker
begin

text \<open>
  The sync worker's jobs under any interleaving: the transactions of every run, of every worker process, of stale-lock
  recovery and of the requests that touch the jobs (signing in, run-now, a course upload) as a transition system. \<open>tasks\<close>
  are the runs that were started, with the worker that started them; a run's transactions are steps of its task, in any order and
  any number, so the order \<open>execute_job\<close> gives them is one of many.
\<close>

section \<open>Lock tokens\<close>

lemma lock_token_inj: "a @ ''#'' @ nat_str m = b @ ''#'' @ nat_str n \<Longrightarrow> a = b \<and> m = n"
proof -
  assume e: "a @ ''#'' @ nat_str m = b @ ''#'' @ nat_str n"
  have t: "takeWhile is_digit (rev (c @ ''#'' @ nat_str k)) = rev (nat_str k)" for c k
  proof -
    have "\<not> is_digit (CHR ''#'')" by code_simp
    then show ?thesis using takeWhile_append2 [of "rev (nat_str k)" is_digit "CHR ''#'' # rev c"] nat_str_digits [of _ k] by simp
  qed
  have "nat_str m = nat_str n" using arg_cong [OF e, of "\<lambda>x. takeWhile is_digit (rev x)"] by (simp only: t rev_is_rev_conv)
  then show ?thesis using e nat_str_inj by auto
qed

section \<open>The system\<close>

record worker_system =
  sys_db :: sync_db
  tasks :: "(string \<times> nat \<times> nat) set"

definition sys_init :: "worker_system \<Rightarrow> bool" where
  "sys_init S \<longleftrightarrow> sync_jobs (auth (sys_db S)) = [] \<and> sync_runs (sys_db S) = [] \<and> tasks S = {} \<and>
     (\<forall>p \<in> set (sync_policies (auth (sys_db S))). 0 < sp_max_attempts p)"

text \<open>A task of the worker \<open>w\<close>.\<close>

definition task :: "worker_system \<Rightarrow> sync_worker \<Rightarrow> nat \<Rightarrow> nat \<Rightarrow> bool" where
  "task S w job run \<longleftrightarrow> (worker_id w, job, run) \<in> tasks S"

inductive worker_step :: "nat \<Rightarrow> worker_system \<Rightarrow> worker_system \<Rightarrow> bool" for cap where
  step_recover: "worker_step cap S (S\<lparr>sys_db := recover_stale_sync_jobs w now (sys_db S)\<rparr>)"
| step_claim: "sync_job_global_concurrency (settings w) = cap \<Longrightarrow> claim_next w now (sys_db S) = (Some (job, run), db') \<Longrightarrow>
    worker_step cap S \<lparr>sys_db = db', tasks = insert (worker_id w, job, run) (tasks S)\<rparr>"
| step_refresh: "task S w job run \<Longrightarrow> worker_step cap S (S\<lparr>sys_db := keep_lock_fresh w job run now (sys_db S)\<rparr>)"
| step_start: "task S w job run \<Longrightarrow> worker_step cap S (S\<lparr>sys_db := snd (start_run w job run now (sys_db S))\<rparr>)"
| step_store: "task S w job run \<Longrightarrow> worker_step cap S (S\<lparr>sys_db := snd (store_answer w job run u now f (sys_db S))\<rparr>)"
| step_store_courses: "task S w job run \<Longrightarrow> worker_step cap S (S\<lparr>sys_db := snd (store_courses w job run u fetched started now (sys_db S))\<rparr>)"
| step_finish: "task S w job run \<Longrightarrow> worker_step cap S (S\<lparr>sys_db := snd (finish_after_probe w job run started (sys_db S))\<rparr>)"
| step_fail: "task S w job run \<Longrightarrow> worker_step cap S (S\<lparr>sys_db := record_failure w job run f now (sys_db S)\<rparr>)"
| step_wait: "task S w job run \<Longrightarrow> worker_step cap S (S\<lparr>sys_db := reschedule_for_maintenance w job run err resume now (sys_db S)\<rparr>)"
| step_sign_in: "worker_step cap S (S\<lparr>sys_db := (sys_db S)\<lparr>auth := ensure_sync_jobs u acct now (auth (sys_db S))\<rparr>\<rparr>)"
| step_run_now: "worker_step cap S (S\<lparr>sys_db := snd (run_now w u dev now (sys_db S))\<rparr>)"
| step_upload: "worker_step cap S (S\<lparr>sys_db := set_jobs (\<lambda>js. worker_jobs (push_back_sync_jobs u ty secs now (t\<lparr>worker_jobs := js\<rparr>))) (sys_db S)\<rparr>)"
| step_patch: "worker_step cap S (S\<lparr>sys_db := snd (patch_policy ty p (sys_db S))\<rparr>)"
| step_other: "sync_jobs (auth db') = sync_jobs (auth (sys_db S)) \<Longrightarrow> job_seq (auth db') = job_seq (auth (sys_db S)) \<Longrightarrow>
    sync_runs db' = sync_runs (sys_db S) \<Longrightarrow> run_seq db' = run_seq (sys_db S) \<Longrightarrow>
    (\<forall>p \<in> set (sync_policies (auth db')). 0 < sp_max_attempts p) \<Longrightarrow> worker_step cap S (S\<lparr>sys_db := db'\<rparr>)"

section \<open>The invariant\<close>

text \<open>A running job is locked by a task whose run is open; a job that is not running has no lock, and one that may still run has an
  attempt left.\<close>

definition running :: "sync_job \<Rightarrow> bool" where
  "running j \<longleftrightarrow> sj_status j = JobRunning"

definition held :: "(string \<times> nat \<times> nat) set \<Rightarrow> sync_run list \<Rightarrow> sync_job \<Rightarrow> bool" where
  "held T rs j \<longleftrightarrow> (\<exists>wid r. (wid, sj_id j, rn_id r) \<in> T \<and> sj_locked_by j = Some (wid @ ''#'' @ nat_str (rn_id r)) \<and> r \<in> set rs \<and>
     rn_job r = sj_id j \<and> rn_status r = RunRunning)"

definition job_ok :: "(string \<times> nat \<times> nat) set \<Rightarrow> sync_run list \<Rightarrow> sync_job \<Rightarrow> bool" where
  "job_ok T rs j \<longleftrightarrow> 0 \<le> sj_attempts j \<and> 0 < sj_max_attempts j \<and>
     (if running j then sj_attempts j < sj_max_attempts j \<and> held T rs j
      else sj_locked_by j = None \<and> (sj_status j = JobPending \<longrightarrow> sj_attempts j < sj_max_attempts j))"

definition tasks_ok :: "(string \<times> nat \<times> nat) set \<Rightarrow> sync_run list \<Rightarrow> bool" where
  "tasks_ok T rs \<longleftrightarrow> (\<forall>(wid, job, run) \<in> T. \<exists>r \<in> set rs. rn_id r = run \<and> rn_job r = job) \<and>
     (\<forall>(wid, job, run) \<in> T. \<forall>(wid', job', run') \<in> T. run = run' \<longrightarrow> wid = wid' \<and> job = job')"

definition jobs_ok :: "nat \<Rightarrow> (string \<times> nat \<times> nat) set \<Rightarrow> sync_run list \<Rightarrow> sync_job list \<Rightarrow> bool" where
  "jobs_ok cap T rs js \<longleftrightarrow> distinct (map sj_id js) \<and> (\<forall>j \<in> set js. job_ok T rs j) \<and>
     distinct (map sj_user (filter running js)) \<and> length (filter running js) \<le> cap"

definition worker_inv :: "nat \<Rightarrow> worker_system \<Rightarrow> bool" where
  "worker_inv cap S \<longleftrightarrow>
    (let db = sys_db S; js = sync_jobs (auth db); rs = sync_runs db in
     jobs_ok cap (tasks S) rs js \<and> (\<forall>j \<in> set js. sj_id j < job_seq (auth db)) \<and>
     distinct (map rn_id rs) \<and> (\<forall>r \<in> set rs. rn_id r < run_seq db) \<and> tasks_ok (tasks S) rs \<and>
     (\<forall>p \<in> set (sync_policies (auth db)). 0 < sp_max_attempts p))"

text \<open>Steps that rewrite rows in place and start nothing.\<close>

lemma filter_running_map:
  assumes "\<And>j. j \<in> set js \<Longrightarrow> running (f j) \<Longrightarrow> running j" "\<And>j. sj_user (f j) = sj_user j"
  shows "length (filter running (map f js)) \<le> length (filter running js)"
    and "distinct (map sj_user (filter running js)) \<Longrightarrow> distinct (map sj_user (filter running (map f js)))"
    and "sj_user ` set (filter running (map f js)) \<subseteq> sj_user ` set (filter running js)"
  using assms(1)
proof (induction js)
  case (Cons j js)
  {
    case 1
    then show ?case using Cons(1) by (cases "running (f j)") auto
  next
    case 2
    then show ?case using Cons(2,3) assms(2) by (cases "running j"; cases "running (f j)") (auto simp: image_subset_iff)
  next
    case 3
    then show ?case using Cons(3) assms(2) by (cases "running (f j)") (auto simp: image_subset_iff)
  }
qed auto

lemma jobs_ok_map:
  assumes "jobs_ok cap T rs js" "\<And>j. sj_id (f j) = sj_id j \<and> sj_user (f j) = sj_user j"
    and "\<And>j. j \<in> set js \<Longrightarrow> running (f j) \<Longrightarrow> running j" "\<And>j. j \<in> set js \<Longrightarrow> job_ok T rs' (f j)"
  shows "jobs_ok cap T rs' (map f js)"
proof -
  have u: "sj_user (f j) = sj_user j" "sj_id (f j) = sj_id j" for j using assms(2) by auto
  have m: "map sj_id (map f js) = map sj_id js" by (simp add: u)
  show ?thesis using assms(1,4) filter_running_map [of js f, OF assms(3) u(1)] order_trans m
    unfolding jobs_ok_def by (auto simp del: map_map)
qed

lemma worker_inv_map:
  assumes inv: "worker_inv cap S"
    and f: "\<And>j. sj_id (f j) = sj_id j \<and> sj_user (f j) = sj_user j"
    and g: "\<And>r. rn_id (g r) = rn_id r \<and> rn_job (g r) = rn_job r"
    and nr: "\<And>j. j \<in> set (sync_jobs (auth (sys_db S))) \<Longrightarrow> running (f j) \<Longrightarrow> running j"
    and ok: "\<And>j. j \<in> set (sync_jobs (auth (sys_db S))) \<Longrightarrow> job_ok (tasks S) (sync_runs (sys_db S)) j \<Longrightarrow> job_ok (tasks S) (map g (sync_runs (sys_db S))) (f j)"
    and db': "sync_jobs (auth db') = map f (sync_jobs (auth (sys_db S)))" "sync_runs db' = map g (sync_runs (sys_db S))"
      "job_seq (auth db') = job_seq (auth (sys_db S))" "run_seq db' = run_seq (sys_db S)" "\<forall>p \<in> set (sync_policies (auth db')). 0 < sp_max_attempts p"
  shows "worker_inv cap (S\<lparr>sys_db := db'\<rparr>)"
proof -
  let ?js = "sync_jobs (auth (sys_db S))" and ?rs = "sync_runs (sys_db S)"
  have i: "jobs_ok cap (tasks S) ?rs ?js" "tasks_ok (tasks S) ?rs" using inv by (simp_all add: worker_inv_def Let_def)
  have "jobs_ok cap (tasks S) (map g ?rs) (map f ?js)"
    by (rule jobs_ok_map [OF i(1) f nr]) (use i(1) ok in \<open>auto simp: jobs_ok_def\<close>)
  moreover have "tasks_ok (tasks S) (map g ?rs)" 
  proof -
    have "(\<exists>r \<in> set (map g ?rs). rn_id r = a \<and> rn_job r = b) \<longleftrightarrow> (\<exists>r \<in> set ?rs. rn_id r = a \<and> rn_job r = b)" for a b by (auto simp: g)
    then show ?thesis using i(2) unfolding tasks_ok_def by (simp only:)
  qed
  moreover have "distinct (map rn_id (map g ?rs))" using inv g by (simp add: worker_inv_def Let_def comp_def)
  moreover have "\<forall>j \<in> set (map f ?js). sj_id j < job_seq (auth (sys_db S))" "\<forall>r \<in> set (map g ?rs). rn_id r < run_seq (sys_db S)"
    using inv f g by (simp_all add: worker_inv_def Let_def)
  ultimately show ?thesis using db' by (simp add: worker_inv_def Let_def del: map_map set_map)
qed

definition idle :: "sync_job \<Rightarrow> bool" where
  "idle j \<longleftrightarrow> \<not> running j \<and> 0 \<le> sj_attempts j \<and> 0 < sj_max_attempts j \<and> sj_locked_by j = None \<and>
     (sj_status j = JobPending \<longrightarrow> sj_attempts j < sj_max_attempts j)"

lemma job_ok_idle: "idle j \<Longrightarrow> job_ok T rs j" "\<not> running j \<Longrightarrow> job_ok T rs j \<Longrightarrow> idle j"
  by (auto simp: idle_def job_ok_def)

lemma job_ok_same_runs:
  assumes "job_ok T rs j" "\<And>r. rn_id (g r) = rn_id r \<and> rn_job (g r) = rn_job r"
    and "\<And>wid r. running j \<Longrightarrow> (wid, sj_id j, rn_id r) \<in> T \<Longrightarrow> sj_locked_by j = Some (wid @ ''#'' @ nat_str (rn_id r)) \<Longrightarrow> r \<in> set rs \<Longrightarrow>
      rn_job r = sj_id j \<Longrightarrow> rn_status r = RunRunning \<Longrightarrow> rn_status (g r) = RunRunning"
  shows "job_ok T (map g rs) j"
proof (cases "running j")
  case True
  then obtain wid r where r: "(wid, sj_id j, rn_id r) \<in> T" "sj_locked_by j = Some (wid @ ''#'' @ nat_str (rn_id r))" "r \<in> set rs"
      "rn_job r = sj_id j" "rn_status r = RunRunning"
    using assms(1) by (auto simp: job_ok_def held_def)
  have "held T (map g rs) j" unfolding held_def
    by (rule exI [of _ wid], rule exI [of _ "g r"]) (use assms(2) assms(3) [OF True r] r in simp)
  then show ?thesis using True assms(1) by (simp add: job_ok_def)
next
  case False
  then show ?thesis using assms(1) by (simp add: job_ok_def)
qed

text \<open>A task's transaction may close its own run: no other job is held by it.\<close>

definition holds :: "sync_worker \<Rightarrow> nat \<Rightarrow> nat \<Rightarrow> sync_job \<Rightarrow> bool" where
  "holds w job run j \<longleftrightarrow> running j \<and> sj_id j = job \<and> sj_locked_by j = Some (lock_token w run)"

lemma job_ok_close:
  assumes "job_ok T rs j" "tasks_ok T rs" "(worker_id w, job, run) \<in> T" "\<not> holds w job run j"
    and g: "\<And>r. rn_id (g r) = rn_id r \<and> rn_job (g r) = rn_job r"
  shows "job_ok T (row_update rn_id run g rs) j"
  unfolding row_update_def
proof (rule job_ok_same_runs [OF assms(1)])
  fix wid and r :: sync_run
  assume r: "running j" "(wid, sj_id j, rn_id r) \<in> T" "sj_locked_by j = Some (wid @ ''#'' @ nat_str (rn_id r))" "rn_status r = RunRunning"
  have "rn_id r \<noteq> run"
  proof
    assume e: "rn_id r = run"
    then have "wid = worker_id w \<and> sj_id j = job" using assms(2,3) r(2) by (fastforce simp: tasks_ok_def)
    then show False using assms(4) r(1,3) e by (simp add: holds_def lock_token_def)
  qed
  then show "rn_status (if rn_id r = run then g r else r) = RunRunning" using r(4) by simp
qed (simp add: g)

lemma inv_release:
  assumes inv: "worker_inv cap S" and t: "task S w job run"
    and f: "\<And>j. sj_id (f j) = sj_id j \<and> sj_user (f j) = sj_user j"
    and g: "\<And>r. rn_id (g r) = rn_id r \<and> rn_job (g r) = rn_job r"
    and ok: "\<And>j. j \<in> set (sync_jobs (auth (sys_db S))) \<Longrightarrow> job_ok (tasks S) (sync_runs (sys_db S)) j \<Longrightarrow> idle (f j) \<or> f j = j \<and> \<not> holds w job run j"
    and db': "sync_jobs (auth db') = map f (sync_jobs (auth (sys_db S)))" "sync_runs db' = row_update rn_id run g (sync_runs (sys_db S))"
      "job_seq (auth db') = job_seq (auth (sys_db S))" "run_seq db' = run_seq (sys_db S)" "sync_policies (auth db') = sync_policies (auth (sys_db S))"
  shows "worker_inv cap (S\<lparr>sys_db := db'\<rparr>)"
proof (rule worker_inv_map [OF inv f])
  let ?G = "\<lambda>r :: sync_run. if rn_id r = run then g r else r"
  have i: "tasks_ok (tasks S) (sync_runs (sys_db S))" "\<forall>j \<in> set (sync_jobs (auth (sys_db S))). job_ok (tasks S) (sync_runs (sys_db S)) j"
    using inv by (simp_all add: worker_inv_def jobs_ok_def Let_def)
  show "rn_id (?G r) = rn_id r \<and> rn_job (?G r) = rn_job r" for r :: sync_run using g by simp
  show "sync_runs db' = map ?G (sync_runs (sys_db S))" using db'(2) by (simp add: row_update_def)
  show "running j" if "j \<in> set (sync_jobs (auth (sys_db S)))" "running (f j)" for j
    using ok [OF that(1)] i(2) that by (auto simp: idle_def)
  show "job_ok (tasks S) (map ?G (sync_runs (sys_db S))) (f j)"
    if "j \<in> set (sync_jobs (auth (sys_db S)))" "job_ok (tasks S) (sync_runs (sys_db S)) j" for j
    using ok [OF that] job_ok_idle(1) job_ok_close [OF that(2) i(1) _ _ g, of w job run] t by (auto simp: task_def row_update_def)
  show "\<forall>p \<in> set (sync_policies (auth db')). 0 < sp_max_attempts p" using inv db'(5) by (simp add: worker_inv_def Let_def)
qed (use db' in simp_all)

section \<open>Every step keeps it\<close>

lemma set_jobs_simps [simp]:
  "sync_jobs (auth (set_jobs f db)) = f (sync_jobs (auth db))" "job_seq (auth (set_jobs f db)) = job_seq (auth db)"
  "sync_policies (auth (set_jobs f db)) = sync_policies (auth db)" "sync_runs (set_jobs f db) = sync_runs db" "run_seq (set_jobs f db) = run_seq db"
  "tables (set_jobs f db) = tables db" "accounts (auth (set_jobs f db)) = accounts (auth db)" "credentials (auth (set_jobs f db)) = credentials (auth db)"
  by (simp_all add: set_jobs_def)

lemma modify_run_simps [simp]:
  "auth (modify_run i g db) = auth db" "sync_runs (modify_run i g db) = row_update rn_id i g (sync_runs db)" "run_seq (modify_run i g db) = run_seq db"
  "tables (modify_run i g db) = tables db"
  by (simp_all add: modify_run_def)

lemma close_run_frame [simp]: "rn_id (close_run st now e r) = rn_id r" "rn_job (close_run st now e r) = rn_job r"
  by (simp_all add: close_run_def)

lemma inv_sync_job:
  "worker_inv cap S \<Longrightarrow> get_sync_job (sys_db S) i = Some j \<longleftrightarrow> j \<in> set (sync_jobs (auth (sys_db S))) \<and> sj_id j = i"
  by (simp add: get_sync_job_def row_get_eq_iff worker_inv_def jobs_ok_def Let_def)

lemma owned_holds:
  "worker_inv cap S \<Longrightarrow> owned w run (get_sync_job (sys_db S) job) \<longleftrightarrow> (\<exists>j \<in> set (sync_jobs (auth (sys_db S))). holds w job run j)"
  using inv_sync_job [of cap S job] by (cases "get_sync_job (sys_db S) job") (simp_all add: owned_def holds_def running_def, metis+)

lemma step_recover_inv: "worker_inv cap S \<Longrightarrow> worker_inv cap (S\<lparr>sys_db := recover_stale_sync_jobs w now (sys_db S)\<rparr>)"
proof -
  assume inv: "worker_inv cap S"
  let ?js = "sync_jobs (auth (sys_db S))" and ?st = "stale_job (settings w) now"
  let ?ids = "map sj_id (filter ?st ?js)"
  let ?f = "\<lambda>j. if ?st j then recover_sync_job now j else j"
  let ?g = "\<lambda>r. if rn_job r \<in> set ?ids then close_run RunFailed now ''stale_lock_recovered'' r else r"
  have d: "distinct (map sj_id ?js)" using inv by (simp add: worker_inv_def jobs_ok_def Let_def)
  show ?thesis
  proof (rule worker_inv_map [OF inv, where f = ?f and g = ?g])
    show "job_ok (tasks S) (map ?g (sync_runs (sys_db S))) (?f j)" if "j \<in> set ?js" "job_ok (tasks S) (sync_runs (sys_db S)) j" for j
    proof (cases "?st j")
      case True
      then have "idle (?f j)" using that(2) by (auto simp: idle_def job_ok_def recover_sync_job_def running_def stale_job_def)
      then show ?thesis by (rule job_ok_idle)
    next
      case False
      have "sj_id j \<notin> set ?ids" using False that(1) d by (auto simp: distinct_map inj_on_def)
      then have "job_ok (tasks S) (map ?g (sync_runs (sys_db S))) j" by (intro job_ok_same_runs [OF that(2)]) auto
      then show ?thesis using False by simp
    qed
    show "\<forall>p \<in> set (sync_policies (auth (recover_stale_sync_jobs w now (sys_db S)))). 0 < sp_max_attempts p"
      using inv by (simp add: worker_inv_def Let_def recover_stale_sync_jobs_def)
  qed (auto simp: recover_stale_sync_jobs_def Let_def update_where_def recover_sync_job_def running_def stale_job_def split: if_splits)
qed

lemma inv_same:
  assumes "worker_inv cap S" "sync_jobs (auth db') = sync_jobs (auth (sys_db S))" "job_seq (auth db') = job_seq (auth (sys_db S))"
    "sync_runs db' = sync_runs (sys_db S)" "run_seq db' = run_seq (sys_db S)" "\<forall>p \<in> set (sync_policies (auth db')). 0 < sp_max_attempts p"
  shows "worker_inv cap (S\<lparr>sys_db := db'\<rparr>)"
  using assms by (simp add: worker_inv_def Let_def)

lemma inv_same_policies:
  "worker_inv cap S \<Longrightarrow> sync_jobs (auth db') = sync_jobs (auth (sys_db S)) \<Longrightarrow> job_seq (auth db') = job_seq (auth (sys_db S)) \<Longrightarrow>
   sync_runs db' = sync_runs (sys_db S) \<Longrightarrow> run_seq db' = run_seq (sys_db S) \<Longrightarrow> sync_policies (auth db') = sync_policies (auth (sys_db S)) \<Longrightarrow>
   worker_inv cap (S\<lparr>sys_db := db'\<rparr>)"
  by (rule inv_same) (simp_all add: worker_inv_def Let_def)

text \<open>Rewriting jobs in place with the runs as they are.\<close>

lemma inv_jobs:
  assumes inv: "worker_inv cap S"
    and f: "\<And>j. sj_id (f j) = sj_id j \<and> sj_user (f j) = sj_user j"
    and ok: "\<And>j. j \<in> set (sync_jobs (auth (sys_db S))) \<Longrightarrow> job_ok (tasks S) (sync_runs (sys_db S)) j \<Longrightarrow>
      job_ok (tasks S) (sync_runs (sys_db S)) (f j) \<and> (running (f j) \<longrightarrow> running j)"
    and db': "sync_jobs (auth db') = map f (sync_jobs (auth (sys_db S)))" "sync_runs db' = sync_runs (sys_db S)"
      "job_seq (auth db') = job_seq (auth (sys_db S))" "run_seq db' = run_seq (sys_db S)" "sync_policies (auth db') = sync_policies (auth (sys_db S))"
  shows "worker_inv cap (S\<lparr>sys_db := db'\<rparr>)"
proof (rule worker_inv_map [OF inv f, where g = "\<lambda>r. r"])
  have "\<forall>j \<in> set (sync_jobs (auth (sys_db S))). job_ok (tasks S) (sync_runs (sys_db S)) j"
    using inv by (simp add: worker_inv_def jobs_ok_def Let_def)
  then show "j \<in> set (sync_jobs (auth (sys_db S))) \<Longrightarrow> running (f j) \<Longrightarrow> running j" for j using ok by blast
  show "\<forall>p \<in> set (sync_policies (auth db')). 0 < sp_max_attempts p" using inv db'(5) by (simp add: worker_inv_def Let_def)
qed (use ok db' in simp_all)

lemma step_refresh_inv: "worker_inv cap S \<Longrightarrow> worker_inv cap (S\<lparr>sys_db := keep_lock_fresh w job run now (sys_db S)\<rparr>)"
  by (rule inv_jobs [where f = "\<lambda>j. if sj_id j = job \<and> sj_status j = JobRunning \<and> sj_locked_by j = Some (lock_token w run) then j\<lparr>sj_locked_at := Some now\<rparr> else j"])
    (auto simp: keep_lock_fresh_def update_where_def job_ok_def held_def running_def)

lemma lock_owned_inv:
  assumes inv: "worker_inv cap S" and t: "task S w job run"
  shows "worker_inv cap (S\<lparr>sys_db := snd (lock_owned_job w job run now (sys_db S))\<rparr>)"
proof (cases "owned w run (get_sync_job (sys_db S) job)")
  case True
  then show ?thesis using inv by (simp add: lock_owned_job_def)
next
  case False
  show ?thesis
  proof (rule inv_release [OF inv t, where f = "\<lambda>j. j" and g = "close_run RunCancelled now ''reclaimed_before_execution''"])
    show "idle j \<or> j = j \<and> \<not> holds w job run j" if "j \<in> set (sync_jobs (auth (sys_db S)))" for j
      using False that owned_holds [OF inv] by blast
  qed (use False in \<open>simp_all add: lock_owned_job_def\<close>)
qed

lemma step_start_inv: "worker_inv cap S \<Longrightarrow> task S w job run \<Longrightarrow> worker_inv cap (S\<lparr>sys_db := snd (start_run w job run now (sys_db S))\<rparr>)"
  using lock_owned_inv [of cap S w job run now] by (auto simp: start_run_def split: prod.splits option.splits sum.splits)

lemma count_run_frame [simp]: "auth (count_run run stats db) = auth db" "run_seq (count_run run stats db) = run_seq db"
  by (simp_all add: count_run_def)

lemma trigger_sync_frame [simp]:
  "auth (trigger_sync u now c db) = auth db" "run_seq (trigger_sync u now c db) = run_seq db" "sync_runs (trigger_sync u now c db) = sync_runs db"
  by (simp_all add: trigger_sync_def)

lemma inv_count:
  assumes inv: "worker_inv cap S" and db': "auth db' = auth (sys_db S)" "run_seq db' = run_seq (sys_db S)"
    "sync_runs db' = row_update rn_id run (\<lambda>r. r\<lparr>rn_fetched := x, rn_changed := y\<rparr>) (sync_runs (sys_db S))"
  shows "worker_inv cap (S\<lparr>sys_db := db'\<rparr>)"
proof (rule worker_inv_map [OF inv, where f = "\<lambda>j. j" and g = "\<lambda>r. if rn_id r = run then r\<lparr>rn_fetched := x, rn_changed := y\<rparr> else r"])
  show "job_ok (tasks S) (map (\<lambda>r. if rn_id r = run then r\<lparr>rn_fetched := x, rn_changed := y\<rparr> else r) (sync_runs (sys_db S))) j"
    if "job_ok (tasks S) (sync_runs (sys_db S)) j" for j
    by (rule job_ok_same_runs [OF that]) simp_all
  show "\<forall>p \<in> set (sync_policies (auth db')). 0 < sp_max_attempts p" using inv db' by (simp add: worker_inv_def Let_def)
qed (use db' in \<open>simp_all add: row_update_def\<close>)

text \<open>Storing an answer: the run lost its job, or its counts change beside the tables.\<close>

lemma store_answer_cases:
  "snd (store_answer w job run u now f db) = snd (lock_owned_job w job run now db) \<and> fst (store_answer w job run u now f db) = None \<and>
     \<not> owned w run (get_sync_job db job) \<or>
   owned w run (get_sync_job db job) \<and> (\<exists>t stats. f (tables db) = (stats, t) \<and> fst (store_answer w job run u now f db) = Some stats \<and>
     snd (store_answer w job run u now f db) = trigger_sync u now (0 < changed_count stats) (count_run run stats (db\<lparr>tables := t\<rparr>)))"
  by (auto simp: store_answer_def lock_owned_job_def owned_def Let_def split: prod.splits option.splits)

lemma step_store_inv:
  assumes inv: "worker_inv cap S" and t: "task S w job run"
  shows "worker_inv cap (S\<lparr>sys_db := snd (store_answer w job run u now f (sys_db S))\<rparr>)"
  using store_answer_cases [of w job run u now f "sys_db S"]
proof
  assume "snd (store_answer w job run u now f (sys_db S)) = snd (lock_owned_job w job run now (sys_db S)) \<and>
    fst (store_answer w job run u now f (sys_db S)) = None \<and> \<not> owned w run (get_sync_job (sys_db S) job)"
  then show ?thesis using lock_owned_inv [OF inv t] by simp
next
  assume "owned w run (get_sync_job (sys_db S) job) \<and> (\<exists>t stats. f (tables (sys_db S)) = (stats, t) \<and> fst (store_answer w job run u now f (sys_db S)) = Some stats \<and>
     snd (store_answer w job run u now f (sys_db S)) = trigger_sync u now (0 < changed_count stats) (count_run run stats ((sys_db S)\<lparr>tables := t\<rparr>)))"
  then obtain t stats where "snd (store_answer w job run u now f (sys_db S)) = trigger_sync u now (0 < changed_count stats) (count_run run stats ((sys_db S)\<lparr>tables := t\<rparr>))"
    by blast
  then show ?thesis by (intro inv_count [OF inv, where run = run]) (simp_all add: count_run_def)
qed

lemma modify_sync_job_simps [simp]:
  "sync_jobs (auth (modify_sync_job i f db)) = row_update sj_id i f (sync_jobs (auth db))" "job_seq (auth (modify_sync_job i f db)) = job_seq (auth db)"
  "sync_policies (auth (modify_sync_job i f db)) = sync_policies (auth db)" "sync_runs (modify_sync_job i f db) = sync_runs db"
  "run_seq (modify_sync_job i f db) = run_seq db" "tables (modify_sync_job i f db) = tables db"
  "accounts (auth (modify_sync_job i f db)) = accounts (auth db)" "credentials (auth (modify_sync_job i f db)) = credentials (auth db)"
  by (simp_all add: modify_sync_job_def)

text \<open>Releasing the job of a task: the job becomes idle, its run may be closed.\<close>

lemma inv_release_one:
  assumes inv: "worker_inv cap S" and t: "task S w job run"
    and f: "\<And>j. sj_id (f j) = sj_id j \<and> sj_user (f j) = sj_user j"
    and g: "\<And>r. rn_id (g r) = rn_id r \<and> rn_job (g r) = rn_job r"
    and ok: "\<And>j. j \<in> set (sync_jobs (auth (sys_db S))) \<Longrightarrow> sj_id j = job \<Longrightarrow> job_ok (tasks S) (sync_runs (sys_db S)) j \<Longrightarrow> idle (f j)"
    and db': "sync_jobs (auth db') = row_update sj_id job f (sync_jobs (auth (sys_db S)))" "sync_runs db' = row_update rn_id run g (sync_runs (sys_db S))"
      "job_seq (auth db') = job_seq (auth (sys_db S))" "run_seq db' = run_seq (sys_db S)" "sync_policies (auth db') = sync_policies (auth (sys_db S))"
  shows "worker_inv cap (S\<lparr>sys_db := db'\<rparr>)"
proof (rule inv_release [OF inv t, where f = "\<lambda>j. if sj_id j = job then f j else j" and g = g])
  show "idle (if sj_id j = job then f j else j) \<or> (if sj_id j = job then f j else j) = j \<and> \<not> holds w job run j"
    if "j \<in> set (sync_jobs (auth (sys_db S)))" "job_ok (tasks S) (sync_runs (sys_db S)) j" for j
    using ok [OF that(1) _ that(2)] by (auto simp: holds_def)
qed (use f g db' in \<open>simp_all add: row_update_def\<close>)

lemma succeed_inv:
  assumes inv: "worker_inv cap S" and t: "task S w job run"
  shows "worker_inv cap (S\<lparr>sys_db := mark_succeeded job run now (sys_db S)\<rparr>)"
proof (cases "get_sync_job (sys_db S) job")
  case None
  then show ?thesis using inv by (simp add: mark_succeeded_def)
next
  case (Some j)
  show ?thesis
    by (rule inv_release_one [OF inv t, where f = "succeed_job (policy_of (sys_db S) (sj_type j)) now"
          and g = "\<lambda>r. r\<lparr>rn_status := RunSucceeded, rn_finished_at := Some now\<rparr>"])
      (simp_all add: mark_succeeded_def Some succeed_job_def idle_def job_ok_def running_def)
qed

lemma task_same [simp]: "task (S\<lparr>sys_db := db\<rparr>) w job run = task S w job run"
  by (simp add: task_def)

lemma step_store_courses_inv:
  assumes inv: "worker_inv cap S" and t: "task S w job run"
  shows "worker_inv cap (S\<lparr>sys_db := snd (store_courses w job run u fetched started now (sys_db S))\<rparr>)"
proof (cases "store_answer w job run u now (apply_fetched_courses u fetched started) (sys_db S)")
  case (Pair a d)
  have d: "worker_inv cap (S\<lparr>sys_db := d\<rparr>)" using step_store_inv [OF inv t, of u now "apply_fetched_courses u fetched started"] Pair by simp
  then show ?thesis using succeed_inv [OF d, of w job run started] t by (cases a) (simp_all add: store_courses_def Pair)
qed

lemma step_finish_inv:
  "worker_inv cap S \<Longrightarrow> task S w job run \<Longrightarrow> worker_inv cap (S\<lparr>sys_db := snd (finish_after_probe w job run started (sys_db S))\<rparr>)"
  by (simp add: finish_after_probe_def succeed_inv)

lemma step_wait_inv:
  assumes inv: "worker_inv cap S" and t: "task S w job run"
  shows "worker_inv cap (S\<lparr>sys_db := reschedule_for_maintenance w job run err resume now (sys_db S)\<rparr>)"
proof (cases "owned w run (get_sync_job (sys_db S) job)")
  case False
  then show ?thesis using inv by (simp add: reschedule_for_maintenance_def)
next
  case True
  then obtain j where j: "get_sync_job (sys_db S) job = Some j" "sj_status j = JobRunning" by (auto simp: owned_def split: option.splits)
  then have one: "x = j" if "x \<in> set (sync_jobs (auth (sys_db S)))" "sj_id x = job" for x
    using inv_sync_job [OF inv, of job x] that by simp
  show ?thesis
    by (rule inv_release_one [OF inv t, where f = "\<lambda>j. j\<lparr>sj_status := JobPending, sj_run_after := resume, sj_locked_by := None, sj_locked_at := None,
            sj_last_error := Some (''moodle_maintenance:'' @ err)\<rparr>" and g = "close_run RunFailed now (''moodle_maintenance:'' @ err)"])
      (use True j(2) one in \<open>auto simp: reschedule_for_maintenance_def idle_def job_ok_def running_def\<close>)
qed

text \<open>A failure: retried, failed for good, or all the user's jobs disabled.\<close>

lemma retry_idle:
  "job_ok T rs j \<Longrightarrow> running j \<Longrightarrow> idle (retry_job st p keep now (unlock_failed now' err j))"
  by (auto simp: retry_job_def unlock_failed_def idle_def job_ok_def running_def Let_def)

lemma mark_credentials_invalid_simps [simp]:
  "sync_jobs (auth (mark_credentials_invalid w a u err now db)) = update_where (\<lambda>j. sj_user j = u) (disable_job now err) (sync_jobs (auth db))"
  "job_seq (auth (mark_credentials_invalid w a u err now db)) = job_seq (auth db)" "sync_runs (mark_credentials_invalid w a u err now db) = sync_runs db"
  "run_seq (mark_credentials_invalid w a u err now db) = run_seq db" "sync_policies (auth (mark_credentials_invalid w a u err now db)) = sync_policies (auth db)"
  by (simp_all add: mark_credentials_invalid_def Let_def set_jobs_def)

lemma step_fail_inv:
  assumes inv: "worker_inv cap S" and t: "task S w job run"
  shows "worker_inv cap (S\<lparr>sys_db := record_failure w job run f now (sys_db S)\<rparr>)"
proof (cases "owned w run (get_sync_job (sys_db S) job)")
  case False
  then show ?thesis using inv by (auto simp: record_failure_def split: option.splits)
next
  case True
  let ?db = "sys_db S" and ?err = "fl_error f"
  obtain j where j: "get_sync_job ?db job = Some j" "sj_status j = JobRunning" using True by (auto simp: owned_def split: option.splits)
  then have jj: "j \<in> set (sync_jobs (auth ?db))" "sj_id j = job" using inv_sync_job [OF inv] by auto
  have one: "x = j" if "x \<in> set (sync_jobs (auth ?db))" "sj_id x = job" for x using inv_sync_job [OF inv, of job x] that j(1) by simp
  define g where "g = close_run RunFailed now (case fl_detail f of None \<Rightarrow> ?err | Some d \<Rightarrow> ?err @ '':'' @ d)"
  define db2 where "db2 = modify_sync_job job (unlock_failed now ?err) (modify_run run g ?db)"
  have gk: "rn_id (g r) = rn_id r \<and> rn_job (g r) = rn_job r" for r by (simp add: g_def)
  show ?thesis
  proof (cases "fl_disable f \<and> rejected_token_still_stored (sj_account j) (fl_nonce f) db2")
    case False
    then have e: "record_failure w job run f now ?db =
        modify_sync_job job (retry_job (settings w) (policy_of db2 (sj_type j)) (fl_keep_retrying f \<or> fl_disable f) now) db2"
      using True j(1) by (auto simp: record_failure_def Let_def db2_def g_def)
    show ?thesis unfolding e
      by (rule inv_release_one [OF inv t, where f = "\<lambda>j'. retry_job (settings w) (policy_of db2 (sj_type j)) (fl_keep_retrying f \<or> fl_disable f) now
            (unlock_failed now ?err j')" and g = g])
        (use j(2) one retry_idle in \<open>auto simp: db2_def gk row_update_def retry_job_def unlock_failed_def Let_def running_def\<close>)
  next
    case True
    note D = True
    define h where "h x = (if sj_id x = job then (unlock_failed now ?err x)\<lparr>sj_status := JobDisabled\<rparr> else x)" for x
    have ih: "idle (h x)" if "job_ok (tasks S) (sync_runs ?db) x" "sj_id x = job" for x
      using that by (auto simp: h_def idle_def job_ok_def unlock_failed_def running_def)
    have db3: "sync_jobs (auth (modify_sync_job job (\<lambda>j. j\<lparr>sj_status := JobDisabled\<rparr>) db2)) = map h (sync_jobs (auth ?db))"
      by (auto simp: db2_def row_update_def h_def unlock_failed_def)
    show ?thesis
    proof (cases "row_get a_id (sj_account j) (accounts (auth ?db))")
      case None
      then have e: "record_failure w job run f now ?db = modify_sync_job job (\<lambda>j. j\<lparr>sj_status := JobDisabled\<rparr>) db2"
        using D \<open>owned w run (get_sync_job ?db job)\<close> j(1) by (simp add: record_failure_def Let_def db2_def g_def)
      show ?thesis unfolding e
        by (rule inv_release [OF inv t, where f = h and g = g])
          (use ih gk db3 in \<open>auto simp: holds_def db2_def h_def unlock_failed_def\<close>)
    next
      case (Some a)
      let ?F = "\<lambda>x. if sj_user (h x) = sj_user j then disable_job now ?err (h x) else h x"
      have e: "record_failure w job run f now ?db = mark_credentials_invalid w a (sj_user j) ?err now (modify_sync_job job (\<lambda>j. j\<lparr>sj_status := JobDisabled\<rparr>) db2)"
        using D Some \<open>owned w run (get_sync_job ?db job)\<close> j(1) by (simp add: record_failure_def Let_def db2_def g_def)
      have js: "sync_jobs (auth (record_failure w job run f now ?db)) = map ?F (sync_jobs (auth ?db))"
        unfolding e mark_credentials_invalid_simps(1) db3 by (simp add: update_where_def)
      have F: "idle (?F x) \<or> ?F x = x \<and> \<not> holds w job run x" if "x \<in> set (sync_jobs (auth ?db))" "job_ok (tasks S) (sync_runs ?db) x" for x
        using that one [OF that(1)] by (cases "sj_id x = job") (auto simp: h_def idle_def job_ok_def disable_job_def running_def holds_def unlock_failed_def)
      show ?thesis
        by (rule inv_release [OF inv t _ gk F js])
          (simp_all add: e db2_def h_def disable_job_def unlock_failed_def)
    qed
  qed
qed

lemma held_mono: "held T rs j \<Longrightarrow> T \<subseteq> T' \<Longrightarrow> set rs \<subseteq> set rs' \<Longrightarrow> held T' rs' j"
  unfolding held_def by blast

lemma job_ok_mono: "job_ok T rs j \<Longrightarrow> T \<subseteq> T' \<Longrightarrow> set rs \<subseteq> set rs' \<Longrightarrow> job_ok T' rs' j"
  using held_mono by (auto simp: job_ok_def)

lemma row_update_split:
  "distinct (map key (xs @ j # ys)) \<Longrightarrow> row_update key (key j) f (xs @ j # ys) = xs @ f j # ys"
  by (auto simp: row_update_def intro!: map_idI) (metis image_eqI)+

lemma claim_due_job_cases:
  assumes "claim_due_job w now db = (Some (job, run), db')"
  obtains j where "j \<in> set (sync_jobs (auth db))" "claimable w now db j" "job = sj_id j" "run = run_seq db"
    "length (running_jobs db) < sync_job_global_concurrency (settings w)"
    "db' = modify_sync_job job (take_job w run now) (db\<lparr>sync_runs := sync_runs db @ [new_run j run], run_seq := Suc run\<rparr>)"
proof -
  have n: "length (running_jobs db) < sync_job_global_concurrency (settings w)" using assms by (auto simp: claim_due_job_def split: if_splits)
  then obtain j where j: "first_by sooner (filter (claimable w now db) (sync_jobs (auth db))) = Some j"
    using assms by (cases "first_by sooner (filter (claimable w now db) (sync_jobs (auth db)))") (auto simp: claim_due_job_def)
  then have m: "j \<in> set (sync_jobs (auth db))" "claimable w now db j" using first_by_SomeD [OF j] by auto
  show ?thesis by (rule that [OF m]) (use assms n j in \<open>auto simp: claim_due_job_def Let_def\<close>)
qed

lemma step_claim_inv:
  assumes inv: "worker_inv cap S" and cap: "sync_job_global_concurrency (settings w) = cap"
    and c: "claim_next w now (sys_db S) = (Some (job, run), db')"
  shows "worker_inv cap \<lparr>sys_db = db', tasks = insert (worker_id w, job, run) (tasks S)\<rparr>"
proof -
  let ?db = "sys_db S" and ?T = "insert (worker_id w, job, run) (tasks S)"
  have "claim_due_job w now ?db = (Some (job, run), db')" using c by (auto simp: claim_next_def split: if_splits)
  then obtain j where j: "j \<in> set (sync_jobs (auth ?db))" "claimable w now ?db j" "job = sj_id j" "run = run_seq ?db"
    "length (running_jobs ?db) < cap"
    and db': "db' = modify_sync_job job (take_job w run now) (?db\<lparr>sync_runs := sync_runs ?db @ [new_run j run], run_seq := Suc run\<rparr>)"
    using cap by (auto elim: claim_due_job_cases)
  obtain xs ys where js: "sync_jobs (auth ?db) = xs @ j # ys" using split_list [OF j(1)] by blast
  have i: "jobs_ok cap (tasks S) (sync_runs ?db) (xs @ j # ys)" "distinct (map rn_id (sync_runs ?db))" "\<forall>r \<in> set (sync_runs ?db). rn_id r < run_seq ?db"
    "tasks_ok (tasks S) (sync_runs ?db)" "\<forall>p \<in> set (sync_policies (auth ?db)). 0 < sp_max_attempts p" "\<forall>j \<in> set (xs @ j # ys). sj_id j < job_seq (auth ?db)"
    using inv unfolding js [symmetric] by (simp_all add: worker_inv_def Let_def)
  let ?j = "take_job w run now j" and ?rs = "sync_runs ?db @ [new_run j run]"
  have js': "sync_jobs (auth db') = xs @ ?j # ys"
    using i(1) row_update_split [of sj_id xs j ys "take_job w run now"] by (simp add: db' js j(3) jobs_ok_def)
  have pend: "sj_status j = JobPending" "\<forall>b \<in> set (xs @ j # ys). sj_user b = sj_user j \<longrightarrow> \<not> running b"
    using j(2) by (auto simp: claimable_def js running_def)
  have frame: "sj_id ?j = sj_id j" "sj_user ?j = sj_user j" "running ?j" by (simp_all add: take_job_def running_def)
  have "job_ok ?T ?rs x" if "x \<in> set (xs @ ys)" for x
    by (rule job_ok_mono [of "tasks S" "sync_runs ?db"]) (use i(1) that in \<open>auto simp: jobs_ok_def\<close>)
  moreover have "job_ok ?T ?rs ?j"
  proof -
    have "held ?T ?rs ?j" unfolding held_def
      by (rule exI [of _ "worker_id w"], rule exI [of _ "new_run j run"]) (simp add: j(3) take_job_def new_run_def lock_token_def)
    then show ?thesis using i(1) pend(1) frame(3) by (auto simp: job_ok_def jobs_ok_def take_job_def running_def)
  qed
  moreover have "distinct (map sj_user (filter running (xs @ ?j # ys)))" using i(1) pend frame by (auto simp: jobs_ok_def running_def)
  moreover have "length (filter running (xs @ ?j # ys)) \<le> cap" using j(5) pend(1) frame by (simp add: running_jobs_def js running_def [abs_def])
  moreover have "distinct (map sj_id (xs @ ?j # ys))" using i(1) frame by (simp add: jobs_ok_def)
  ultimately have "jobs_ok cap ?T ?rs (xs @ ?j # ys)" unfolding jobs_ok_def by auto
  moreover have "tasks_ok ?T ?rs"
  proof -
    have "run' \<noteq> run" if "(wid, job', run') \<in> tasks S" for wid job' run' using i(3,4) that j(4) by (fastforce simp: tasks_ok_def)
    then show ?thesis using i(4) unfolding tasks_ok_def by (fastforce simp: new_run_def j(3))
  qed
  moreover have "distinct (map rn_id ?rs)" "\<forall>r \<in> set ?rs. rn_id r < Suc (run_seq ?db)" using i(2,3) j(4) by (auto simp: new_run_def)
  moreover have "sync_runs db' = ?rs" "run_seq db' = Suc (run_seq ?db)" "job_seq (auth db') = job_seq (auth ?db)" "sync_policies (auth db') = sync_policies (auth ?db)"
    by (simp_all add: db' j(4))
  moreover have "\<forall>x \<in> set (xs @ ?j # ys). sj_id x < job_seq (auth ?db)" using i(6) frame by auto
  ultimately show ?thesis using i(5) unfolding worker_inv_def Let_def by (simp only: js' worker_system.simps)
qed

lemma append_job_inv:
  assumes inv: "worker_inv cap S" and j: "idle j" "sj_id j = job_seq (auth (sys_db S))"
    and db': "sync_jobs (auth db') = sync_jobs (auth (sys_db S)) @ [j]" "job_seq (auth db') = Suc (job_seq (auth (sys_db S)))"
      "sync_runs db' = sync_runs (sys_db S)" "run_seq db' = run_seq (sys_db S)" "sync_policies (auth db') = sync_policies (auth (sys_db S))"
  shows "worker_inv cap (S\<lparr>sys_db := db'\<rparr>)"
proof -
  let ?js = "sync_jobs (auth (sys_db S))"
  have i: "jobs_ok cap (tasks S) (sync_runs (sys_db S)) ?js" "\<forall>x \<in> set ?js. sj_id x < job_seq (auth (sys_db S))"
    using inv by (simp_all add: worker_inv_def Let_def)
  have "jobs_ok cap (tasks S) (sync_runs (sys_db S)) (?js @ [j])"
    using i j job_ok_idle(1) [OF j(1)] by (auto simp: jobs_ok_def idle_def)
  then show ?thesis using inv i(2) j(2) by (auto simp: worker_inv_def Let_def db')
qed

lemma ensure_job_inv:
  assumes inv: "worker_inv cap S"
  shows "worker_inv cap (S\<lparr>sys_db := (sys_db S)\<lparr>auth := ensure_sync_job u acct now ty (auth (sys_db S))\<rparr>\<rparr>)"
proof (cases "\<exists>j \<in> set (sync_jobs (auth (sys_db S))). sj_user j = u \<and> sj_type j = ty")
  case True
  show ?thesis
    by (rule inv_jobs [OF inv, where f = "\<lambda>j. if sj_user j = u \<and> sj_type j = ty \<and> sj_status j = JobDisabled then revive_job acct now j else j"])
      (use True in \<open>auto simp: ensure_sync_job_def update_where_def revive_job_def job_ok_def running_def\<close>)
next
  case False
  have "\<forall>p \<in> set (sync_policies (auth (sys_db S))). 0 < sp_max_attempts p" using inv by (simp add: worker_inv_def Let_def)
  then have mx: "0 < (case row_get sp_job_type ty (sync_policies (auth (sys_db S))) of Some p \<Rightarrow> sp_max_attempts p | None \<Rightarrow> 3)"
    by (auto split: option.splits dest: row_get_SomeD)
  show ?thesis
    by (rule append_job_inv [OF inv, of "\<lparr>sj_id = job_seq (auth (sys_db S)), sj_user = u, sj_account = acct, sj_type = ty,
            sj_priority = (case row_get sp_job_type ty (sync_policies (auth (sys_db S))) of Some p \<Rightarrow> sp_priority p | None \<Rightarrow> 100), sj_status = JobPending,
            sj_run_after = now, sj_locked_by = None, sj_locked_at = None, sj_attempts = 0,
            sj_max_attempts = (case row_get sp_job_type ty (sync_policies (auth (sys_db S))) of Some p \<Rightarrow> sp_max_attempts p | None \<Rightarrow> 3),
            sj_last_success_at = None, sj_last_failure_at = None, sj_last_error = None, sj_cursor = JObj []\<rparr>"])
      (use False mx in \<open>auto simp: ensure_sync_job_def idle_def running_def Let_def\<close>)
qed

lemma step_sign_in_inv:
  "worker_inv cap S \<Longrightarrow> worker_inv cap (S\<lparr>sys_db := (sys_db S)\<lparr>auth := ensure_sync_jobs u acct now (auth (sys_db S))\<rparr>\<rparr>)"
  using ensure_job_inv [OF ensure_job_inv, of cap S u acct now NtustCourses u acct now MoodleAssignments]
  by (simp add: ensure_sync_jobs_def HANDLED_JOB_TYPES_def)

lemma provision_inv: "worker_inv cap S \<Longrightarrow> provision_job u now (sys_db S) = Inr db \<Longrightarrow> worker_inv cap (S\<lparr>sys_db := db\<rparr>)"
  using step_sign_in_inv [of cap S u] by (auto simp: provision_job_def split: if_splits option.splits)

lemma run_soon_inv:
  assumes inv: "worker_inv cap S" and j: "j \<in> set (sync_jobs (auth (sys_db S)))" "sj_status j = JobPending \<or> sj_status j = JobFailed"
    and db': "auth db' = auth (sys_db S)" "sync_runs db' = sync_runs (sys_db S)" "run_seq db' = run_seq (sys_db S)"
  shows "worker_inv cap (S\<lparr>sys_db := modify_sync_job (sj_id j) (run_soon w now) db'\<rparr>)"
proof (rule inv_jobs [OF inv, where f = "\<lambda>x. if sj_id x = sj_id j then run_soon w now x else x"])
  have "distinct (map sj_id (sync_jobs (auth (sys_db S))))" using inv by (simp add: worker_inv_def jobs_ok_def Let_def)
  then have one: "x = j" if "x \<in> set (sync_jobs (auth (sys_db S)))" "sj_id x = sj_id j" for x
    using that j(1) by (auto simp: distinct_map inj_on_def)
  show "job_ok (tasks S) (sync_runs (sys_db S)) (if sj_id x = sj_id j then run_soon w now x else x) \<and>
      (running (if sj_id x = sj_id j then run_soon w now x else x) \<longrightarrow> running x)"
    if "x \<in> set (sync_jobs (auth (sys_db S)))" "job_ok (tasks S) (sync_runs (sys_db S)) x" for x
    using that one [OF that(1)] j(2) by (auto simp: run_soon_def job_ok_def running_def)
qed (use db' in \<open>simp_all add: run_soon_def row_update_def\<close>)

lemma run_now_cases:
  "snd (run_now w u dev now db) = db \<or> (\<exists>db1 db2. provision_job u now db = Inr db1 \<and>
     auth db2 = auth db1 \<and> sync_runs db2 = sync_runs db1 \<and> run_seq db2 = run_seq db1 \<and>
     (snd (run_now w u dev now db) = db2 \<or>
      (\<exists>j. j \<in> set (sync_jobs (auth db1)) \<and> (sj_status j = JobPending \<or> sj_status j = JobFailed) \<and>
        snd (run_now w u dev now db) = modify_sync_job (sj_id j) (run_soon w now) db2)))"
proof (cases "provision_job u now db")
  case (Inl e)
  then show ?thesis by (simp add: run_now_def)
next
  case (Inr db1)
  define db2 where "db2 = (case dev of None \<Rightarrow> db1 | Some d \<Rightarrow>
      if \<exists>x \<in> set (devices (queue (tables db1))). pv_id x = d \<and> pv_user x = u
      then db1\<lparr>tables := (tables db1)\<lparr>device_seen := (device_seen (tables db1))(d := Some now)\<rparr>\<rparr> else db1)"
  have d2: "auth db2 = auth db1 \<and> sync_runs db2 = sync_runs db1 \<and> run_seq db2 = run_seq db1" by (simp add: db2_def split: option.split)
  have "snd (run_now w u dev now db) \<in> {db, db1, db2} \<or>
    (\<exists>j. j \<in> set (sync_jobs (auth db1)) \<and> (sj_status j = JobPending \<or> sj_status j = JobFailed) \<and>
      snd (run_now w u dev now db) = modify_sync_job (sj_id j) (run_soon w now) db2)"
  proof (cases "find (\<lambda>j. sj_user j = u \<and> sj_type j = MoodleAssignments) (sync_jobs (auth db1))")
    case None
    then show ?thesis by (simp add: run_now_def Inr)
  next
    case (Some j)
    then have j: "j \<in> set (sync_jobs (auth db1))" by (auto simp: find_Some_iff)
    show ?thesis using j sync_job_status.exhaust [of "sj_status j"]
      by (auto simp: run_now_def Inr Some Let_def db2_def [symmetric])
  qed
  then show ?thesis using Inr d2 by blast
qed

lemma step_run_now_inv:
  assumes inv: "worker_inv cap S"
  shows "worker_inv cap (S\<lparr>sys_db := snd (run_now w u dev now (sys_db S))\<rparr>)"
proof (cases "snd (run_now w u dev now (sys_db S)) = sys_db S")
  case True
  then show ?thesis using inv by simp
next
  case False
  then obtain db1 db2 where p: "provision_job u now (sys_db S) = Inr db1"
    and d2: "auth db2 = auth db1" "sync_runs db2 = sync_runs db1" "run_seq db2 = run_seq db1"
    and r: "snd (run_now w u dev now (sys_db S)) = db2 \<or>
      (\<exists>j. j \<in> set (sync_jobs (auth db1)) \<and> (sj_status j = JobPending \<or> sj_status j = JobFailed) \<and>
        snd (run_now w u dev now (sys_db S)) = modify_sync_job (sj_id j) (run_soon w now) db2)"
    using run_now_cases [of w u dev now "sys_db S"] by blast
  have i1: "worker_inv cap (S\<lparr>sys_db := db1\<rparr>)" by (rule provision_inv [OF inv p])
  have "worker_inv cap (S\<lparr>sys_db := db2\<rparr>)" using inv_same_policies [OF i1, of db2] by (simp add: d2)
  then show ?thesis using r run_soon_inv [OF i1, of _ db2 w now] by (auto simp: d2)
qed

lemma step_upload_inv:
  assumes inv: "worker_inv cap S"
  shows "worker_inv cap (S\<lparr>sys_db := set_jobs (\<lambda>js. worker_jobs (push_back_sync_jobs u ty secs now (t\<lparr>worker_jobs := js\<rparr>))) (sys_db S)\<rparr>)"
proof -
  let ?P = "\<lambda>j. sj_user j = u \<and> sj_type j = ty \<and> sj_status j = JobPending \<and>
      (\<exists>p \<in> set (worker_policies t). sp_job_type p = sj_type j \<and>
        (case sj_last_success_at j of None \<Rightarrow> False | Some x \<Rightarrow> now < x + seconds (sp_default_interval_seconds p)))"
  show ?thesis
    by (rule inv_jobs [OF inv, where f = "\<lambda>j. if ?P j then j\<lparr>sj_run_after := max (sj_run_after j) (now + seconds secs)\<rparr> else j"])
      (auto simp: push_back_sync_jobs_def update_where_def job_ok_def held_def running_def)
qed

lemma patch_frame:
  "sync_jobs (auth (snd (patch_policy ty p db))) = sync_jobs (auth db)" "job_seq (auth (snd (patch_policy ty p db))) = job_seq (auth db)"
  "sync_runs (snd (patch_policy ty p db)) = sync_runs db" "run_seq (snd (patch_policy ty p db)) = run_seq db"
  by (simp_all add: patch_policy_def split: option.split)

lemma patched_attempts: "valid_patch p \<Longrightarrow> 0 < sp_max_attempts q \<Longrightarrow> 0 < sp_max_attempts (patched p q)"
  by (simp add: patched_def sent_def valid_patch_def split: option.splits)

lemma patch_policies:
  "sync_policies (auth (snd (patch_policy ty p db))) = sync_policies (auth db) \<or>
   valid_patch p \<and> sync_policies (auth (snd (patch_policy ty p db))) = row_update sp_job_type ty (patched p) (sync_policies (auth db))"
  by (simp add: patch_policy_def split: option.split)

lemma step_patch_inv: "worker_inv cap S \<Longrightarrow> worker_inv cap (S\<lparr>sys_db := snd (patch_policy ty p (sys_db S))\<rparr>)"
proof (rule inv_same)
  assume "worker_inv cap S"
  then have "\<forall>p \<in> set (sync_policies (auth (sys_db S))). 0 < sp_max_attempts p" by (simp add: worker_inv_def Let_def)
  then show "\<forall>q \<in> set (sync_policies (auth (snd (patch_policy ty p (sys_db S))))). 0 < sp_max_attempts q"
    using patch_policies [of ty p "sys_db S"] patched_attempts [of p] by (auto simp: row_update_def)
qed (simp_all add: patch_frame)

interpretation worker_system: invariant_system sys_init "worker_step cap" "worker_inv cap"
proof
  show "worker_inv cap S" if "sys_init S" for S
    using that by (simp add: sys_init_def worker_inv_def jobs_ok_def tasks_ok_def Let_def)
  show "worker_inv cap S'" if "worker_inv cap S" "worker_step cap S S'" for S S'
    using that(2,1)
  proof cases
    case step_other
    then show ?thesis using that(1) by (simp add: inv_same)
  qed (simp_all add: step_recover_inv step_claim_inv step_refresh_inv step_start_inv step_store_inv step_store_courses_inv step_finish_inv
      step_fail_inv step_wait_inv step_sign_in_inv step_run_now_inv step_upload_inv step_patch_inv)
qed

section \<open>One run per job, one job per user\<close>

definition holder :: "worker_system \<Rightarrow> sync_job \<Rightarrow> string \<times> nat \<times> nat \<Rightarrow> bool" where
  "holder S j t \<longleftrightarrow> t \<in> tasks S \<and> (case t of (wid, job, run) \<Rightarrow> job = sj_id j \<and> sj_locked_by j = Some (wid @ ''#'' @ nat_str run))"

lemma holder_unique: "holder S j t \<Longrightarrow> holder S j t' \<Longrightarrow> t = t'"
proof -
  assume t: "holder S j t" "holder S j t'"
  obtain a b c a' b' c' where e: "t = (a, b, c)" "t' = (a', b', c')" by (metis prod_cases3)
  have "a @ ''#'' @ nat_str c = a' @ ''#'' @ nat_str c'" "b = b'" using t by (simp_all add: holder_def e)
  then show ?thesis using lock_token_inj [of a c a' c'] by (simp add: e)
qed

lemma running_jobs_filter: "running_jobs db = filter running (sync_jobs (auth db))"
  by (simp add: running_jobs_def running_def [abs_def])

text \<open>
  C4. Whatever the workers, requests and stale-lock recovery do, in any order: at most the configured number of sync jobs run at
  once over all workers, at most one of a user, each with an attempt left and held by exactly one task, the run that started it.
\<close>

theorem sync_jobs_exclusive:
  assumes "reaches sys_init (worker_step cap) S"
  shows "length (running_jobs (sys_db S)) \<le> cap \<and> distinct (map sj_user (running_jobs (sys_db S))) \<and>
    (\<forall>j \<in> set (running_jobs (sys_db S)). sj_attempts j < sj_max_attempts j \<and> (\<exists>!t. holder S j t))"
proof -
  have inv: "worker_inv cap S" by (rule worker_system.reaches_inv [OF assms])
  have "sj_attempts j < sj_max_attempts j \<and> (\<exists>!t. holder S j t)" if "j \<in> set (running_jobs (sys_db S))" for j
  proof -
    have ok: "job_ok (tasks S) (sync_runs (sys_db S)) j" "running j"
      using inv that by (auto simp: worker_inv_def jobs_ok_def Let_def running_jobs_filter)
    then obtain t where "holder S j t" by (auto simp: job_ok_def held_def holder_def)
    then have "\<exists>!t. holder S j t" using holder_unique [of S j] by blast
    then show ?thesis using ok by (simp add: job_ok_def)
  qed
  then show ?thesis using inv by (simp add: worker_inv_def jobs_ok_def Let_def running_jobs_filter)
qed

text \<open>A closed run stays closed.\<close>

definition run_closed :: "worker_system \<Rightarrow> nat \<Rightarrow> bool" where
  "run_closed S run \<longleftrightarrow> run < run_seq (sys_db S) \<and> (\<forall>r \<in> set (sync_runs (sys_db S)). rn_id r = run \<longrightarrow> rn_status r \<noteq> RunRunning)"

lemma run_closed_map:
  assumes "run_closed S run" "sync_runs db' = map g (sync_runs (sys_db S))" "run_seq db' = run_seq (sys_db S)"
    "\<And>r. rn_id (g r) = rn_id r \<and> (rn_status r \<noteq> RunRunning \<longrightarrow> rn_status (g r) \<noteq> RunRunning)"
  shows "run_closed (S\<lparr>sys_db := db'\<rparr>) run"
  using assms by (auto simp: run_closed_def)

lemma close_run_keeps: "rn_status r \<noteq> RunRunning \<Longrightarrow> rn_status (close_run st now e r) \<noteq> RunRunning"
  by (simp add: close_run_def)

lemma run_closed_update:
  assumes "run_closed S run" "sync_runs db' = row_update rn_id i g (sync_runs (sys_db S))" "run_seq db' = run_seq (sys_db S)"
    "\<And>r. rn_id (g r) = rn_id r \<and> (rn_status r \<noteq> RunRunning \<longrightarrow> rn_status (g r) \<noteq> RunRunning)"
  shows "run_closed (S\<lparr>sys_db := db'\<rparr>) run"
  by (rule run_closed_map [OF assms(1), where g = "\<lambda>r. if rn_id r = i then g r else r"]) (use assms(2-4) in \<open>simp_all add: row_update_def\<close>)

lemma lock_owned_runs:
  "sync_runs (snd (lock_owned_job w job run now db)) = (if owned w run (get_sync_job db job) then sync_runs db
     else row_update rn_id run (close_run RunCancelled now ''reclaimed_before_execution'') (sync_runs db))"
  "run_seq (snd (lock_owned_job w job run now db)) = run_seq db"
  by (simp_all add: lock_owned_job_def)

lemma lock_owned_closed: "run_closed S x \<Longrightarrow> run_closed (S\<lparr>sys_db := snd (lock_owned_job w job run now (sys_db S))\<rparr>) x"
proof (cases "owned w run (get_sync_job (sys_db S) job)")
  case False
  assume "run_closed S x"
  then show ?thesis
    by (rule run_closed_update [where i = run and g = "close_run RunCancelled now ''reclaimed_before_execution''"])
      (use False close_run_keeps in \<open>simp_all add: lock_owned_runs\<close>)
qed (simp add: lock_owned_job_def)

lemma store_answer_closed:
  assumes "run_closed S x"
  shows "run_closed (S\<lparr>sys_db := snd (store_answer w job run u now f (sys_db S))\<rparr>) x"
  using store_answer_cases [of w job run u now f "sys_db S"]
proof
  assume "snd (store_answer w job run u now f (sys_db S)) = snd (lock_owned_job w job run now (sys_db S)) \<and>
    fst (store_answer w job run u now f (sys_db S)) = None \<and> \<not> owned w run (get_sync_job (sys_db S) job)"
  then show ?thesis using lock_owned_closed [OF assms] by simp
next
  assume "owned w run (get_sync_job (sys_db S) job) \<and> (\<exists>t stats. f (tables (sys_db S)) = (stats, t) \<and> fst (store_answer w job run u now f (sys_db S)) = Some stats \<and>
     snd (store_answer w job run u now f (sys_db S)) = trigger_sync u now (0 < changed_count stats) (count_run run stats ((sys_db S)\<lparr>tables := t\<rparr>)))"
  then obtain t stats where "snd (store_answer w job run u now f (sys_db S)) = trigger_sync u now (0 < changed_count stats) (count_run run stats ((sys_db S)\<lparr>tables := t\<rparr>))"
    by blast
  then show ?thesis
    by (intro run_closed_update [OF assms, where i = run and g = "\<lambda>r. r\<lparr>rn_fetched := Some (fetched_count stats), rn_changed := Some (changed_count stats)\<rparr>"])
      (simp_all add: count_run_def)
qed

lemma succeed_closed: "run_closed S x \<Longrightarrow> run_closed (S\<lparr>sys_db := mark_succeeded job run now (sys_db S)\<rparr>) x"
proof (cases "get_sync_job (sys_db S) job")
  case (Some j)
  assume "run_closed S x"
  then show ?thesis
    by (rule run_closed_update [where i = run and g = "\<lambda>r. r\<lparr>rn_status := RunSucceeded, rn_finished_at := Some now\<rparr>"])
      (simp_all add: mark_succeeded_def Some)
qed (simp add: mark_succeeded_def)

lemma record_failure_runs:
  "sync_runs (record_failure w job run f now db) = (if owned w run (get_sync_job db job)
     then row_update rn_id run (close_run RunFailed now (case fl_detail f of None \<Rightarrow> fl_error f | Some d \<Rightarrow> fl_error f @ '':'' @ d)) (sync_runs db) else sync_runs db)"
  "run_seq (record_failure w job run f now db) = run_seq db"
  by (auto simp: record_failure_def owned_def Let_def split: option.split)

lemma same_runs_closed: "run_closed S x \<Longrightarrow> sync_runs db' = sync_runs (sys_db S) \<Longrightarrow> run_seq db' = run_seq (sys_db S) \<Longrightarrow> run_closed (S\<lparr>sys_db := db'\<rparr>) x"
  by (simp add: run_closed_def)

lemma provision_runs: "provision_job u now db = Inr db1 \<Longrightarrow> sync_runs db1 = sync_runs db \<and> run_seq db1 = run_seq db"
  by (auto simp: provision_job_def split: if_splits option.splits)

lemma run_now_runs: "sync_runs (snd (run_now w u dev now db)) = sync_runs db" "run_seq (snd (run_now w u dev now db)) = run_seq db"
  using run_now_cases [of w u dev now db] provision_runs [of u now db] by (elim disjE exE conjE; simp)+

lemma step_closed:
  assumes "worker_step cap S S'" "run_closed S x"
  shows "run_closed S' x"
  using assms(1)
proof cases
  case (step_recover w now)
  let ?ids = "map sj_id (filter (stale_job (settings w) now) (sync_jobs (auth (sys_db S))))"
  show ?thesis unfolding step_recover
    by (rule run_closed_map [OF assms(2), where g = "\<lambda>r. if rn_job r \<in> set ?ids then close_run RunFailed now ''stale_lock_recovered'' r else r"])
      (auto simp: recover_stale_sync_jobs_def update_where_def Let_def close_run_keeps)
next
  case (step_claim w now job run db')
  then have "claim_due_job w now (sys_db S) = (Some (job, run), db')" by (auto simp: claim_next_def split: if_splits)
  then show ?thesis using assms(2) unfolding step_claim(1)
    by (elim claim_due_job_cases) (auto simp: run_closed_def new_run_def)
next
  case (step_start w job run now)
  then show ?thesis using assms(2) lock_owned_closed [OF assms(2), of w job run now]
    by (auto simp: start_run_def split: prod.splits option.splits sum.splits)
next
  case (step_store_courses w job run u fetched started now)
  obtain a d where d: "store_answer w job run u now (apply_fetched_courses u fetched started) (sys_db S) = (a, d)" by fastforce
  have "run_closed (S\<lparr>sys_db := d\<rparr>) x" using store_answer_closed [OF assms(2), of w job run u now "apply_fetched_courses u fetched started"] d by simp
  then show ?thesis unfolding step_store_courses(1) using succeed_closed [of "S\<lparr>sys_db := d\<rparr>" x job run started] by (cases a) (simp_all add: store_courses_def d)
next
  case (step_fail w job run f now)
  show ?thesis
  proof (cases "owned w run (get_sync_job (sys_db S) job)")
    case True
    show ?thesis unfolding step_fail(1)
      by (rule run_closed_update [OF assms(2), where i = run and
            g = "close_run RunFailed now (case fl_detail f of None \<Rightarrow> fl_error f | Some d \<Rightarrow> fl_error f @ '':'' @ d)"])
        (use True in \<open>simp_all add: record_failure_runs close_run_keeps\<close>)
  next
    case False
    show ?thesis unfolding step_fail(1) by (rule same_runs_closed [OF assms(2)]) (use False in \<open>simp_all add: record_failure_runs\<close>)
  qed
next
  case (step_wait w job run err resume now)
  show ?thesis
  proof (cases "owned w run (get_sync_job (sys_db S) job)")
    case True
    show ?thesis unfolding step_wait(1)
      by (rule run_closed_update [OF assms(2), where i = run and g = "close_run RunFailed now (''moodle_maintenance:'' @ err)"])
        (use True in \<open>simp_all add: reschedule_for_maintenance_def close_run_keeps\<close>)
  next
    case False
    then show ?thesis unfolding step_wait(1) using assms(2) by (simp add: reschedule_for_maintenance_def)
  qed
qed (use assms(2) in \<open>simp_all add: same_runs_closed store_answer_closed succeed_closed run_now_runs patch_frame keep_lock_fresh_def finish_after_probe_def\<close>)

section \<open>A run that lost its job\<close>

lemma closed_not_owned:
  assumes inv: "worker_inv cap S" and c: "run_closed S run"
  shows "\<not> owned w run (get_sync_job (sys_db S) job)"
proof
  assume "owned w run (get_sync_job (sys_db S) job)"
  then obtain j where j: "j \<in> set (sync_jobs (auth (sys_db S)))" "running j" "sj_locked_by j = Some (lock_token w run)"
    using owned_holds [OF inv] by (auto simp: holds_def)
  then have "job_ok (tasks S) (sync_runs (sys_db S)) j" using inv by (simp add: worker_inv_def jobs_ok_def Let_def)
  then obtain wid r where r: "lock_token w run = wid @ ''#'' @ nat_str (rn_id r)" "r \<in> set (sync_runs (sys_db S))" "rn_status r = RunRunning"
    using j(2,3) by (auto simp: job_ok_def held_def)
  have "rn_id r = run" using lock_token_inj [of wid "rn_id r" "worker_id w" run] r(1) by (simp add: lock_token_def)
  then show False using c r(2,3) by (auto simp: run_closed_def)
qed

definition inert :: "sync_db \<Rightarrow> sync_db \<Rightarrow> bool" where
  "inert db db' \<longleftrightarrow> auth db' = auth db \<and> tables db' = tables db"

lemma update_where_none: "(\<And>r. r \<in> set rows \<Longrightarrow> \<not> P r) \<Longrightarrow> update_where P f rows = rows"
  by (induction rows) simp_all

lemma lock_owned_inert: "\<not> owned w run (get_sync_job db job) \<Longrightarrow> fst (lock_owned_job w job run now db) = None \<and> inert db (snd (lock_owned_job w job run now db))"
  by (simp add: lock_owned_job_def inert_def)

lemma store_answer_inert: "\<not> owned w run (get_sync_job db job) \<Longrightarrow> fst (store_answer w job run u now f db) = None \<and> inert db (snd (store_answer w job run u now f db))"
  using store_answer_cases [of w job run u now f db] lock_owned_inert by metis

lemma start_run_inert: "\<not> owned w run (get_sync_job db job) \<Longrightarrow> inert db (snd (start_run w job run now db))"
  using lock_owned_inert [of w run db job now] by (auto simp: start_run_def split: prod.splits option.splits)

lemma steps_closed: "rtranclp (worker_step cap) S S' \<Longrightarrow> run_closed S x \<Longrightarrow> run_closed S' x"
  by (induction rule: rtranclp_induct) (auto intro: step_closed)

lemma steps_reach: "rtranclp (worker_step cap) S S' \<Longrightarrow> reaches sys_init (worker_step cap) S \<Longrightarrow> reaches sys_init (worker_step cap) S'"
  by (induction rule: rtranclp_induct) (auto intro: reaches_step)


section \<open>How failures end\<close>

definition quiet :: "run_env \<Rightarrow> bool" where
  "quiet env \<longleftrightarrow> (\<forall>k. gap env k = (\<lambda>db. db) \<and> db_crash env k = None)"

lemma txn_quiet: "quiet env \<Longrightarrow> txn env k body db = apfst Inr (body db)"
  by (simp add: quiet_def txn_def)

lemma job_after_update:
  "get_sync_job (modify_sync_job i f db) i = map_option f (get_sync_job db i)" if "\<And>j. sj_id (f j) = sj_id j"
  using that by (simp add: get_sync_job_def row_get_row_update)

lemma job_same [simp]: "get_sync_job (modify_run i g db) k = get_sync_job db k" "get_sync_job (pause_worker w t db) k = get_sync_job db k"
  by (simp_all add: get_sync_job_def pause_worker_def)

lemma record_failure_job:
  assumes j: "get_sync_job db job = Some j" "owned w run (Some j)"
  shows "get_sync_job (record_failure w job run f now db) job = Some
    (if fl_disable f \<and> rejected_token_still_stored (sj_account j) (fl_nonce f) db
     then (if row_get a_id (sj_account j) (accounts (auth db)) = None then (unlock_failed now (fl_error f) j)\<lparr>sj_status := JobDisabled\<rparr>
           else disable_job now (fl_error f) ((unlock_failed now (fl_error f) j)\<lparr>sj_status := JobDisabled\<rparr>))
     else retry_job (settings w) (policy_of db (sj_type j)) (fl_keep_retrying f \<or> fl_disable f) now (unlock_failed now (fl_error f) j))"
proof -
  define g where "g = close_run RunFailed now (case fl_detail f of None \<Rightarrow> fl_error f | Some d \<Rightarrow> fl_error f @ '':'' @ d)"
  define db2 where "db2 = modify_sync_job job (unlock_failed now (fl_error f)) (modify_run run g db)"
  have d2: "get_sync_job db2 job = Some (unlock_failed now (fl_error f) j)" using j(1) by (simp add: db2_def job_after_update unlock_failed_def)
  have st: "rejected_token_still_stored a n db2 = rejected_token_still_stored a n db" for a n
    by (simp add: rejected_token_still_stored_def db2_def split: option.split)
  have po: "policy_of db2 ty = policy_of db ty" for ty by (simp add: policy_of_def db2_def)
  have ac: "accounts (auth (modify_sync_job job h db2)) = accounts (auth db)" for h by (simp add: db2_def)
  have dis: "get_sync_job (mark_credentials_invalid w a u err now d) job = map_option (\<lambda>x. if sj_user x = u then disable_job now err x else x) (get_sync_job d job)" for a u err d
    by (simp add: get_sync_job_def row_get_update_where disable_job_def)
  show ?thesis
    unfolding record_failure_def j(1) option.case Let_def g_def [symmetric] db2_def [symmetric] ac st po
    using j(2) by (auto simp: job_after_update d2 dis retry_job_def Let_def unlock_failed_def disable_job_def split: option.split)
qed

lemma handle_moodle_failure_job:
  assumes q: "quiet env" and j: "get_sync_job db job = Some j" "owned w run (Some j)"
  shows "get_sync_job (handle_moodle_failure w env job run f db) job = Some (case is_moodle_available w (clock env 7) db of
      (False, Some resume) \<Rightarrow> j\<lparr>sj_status := JobPending, sj_run_after := resume, sj_locked_by := None, sj_locked_at := None,
            sj_last_error := Some (''moodle_maintenance:'' @ fl_error f)\<rparr>
    | _ \<Rightarrow> the (get_sync_job (record_failure w job run f (clock env 8) db) job))"
proof -
  have "gap env 7 db = db" "db_crash env 7 = None" using q by (simp_all add: quiet_def)
  then have e: "handle_moodle_failure w env job run f db = (case is_moodle_available w (clock env 7) db of
      (False, Some resume) \<Rightarrow> reschedule_for_maintenance w job run (fl_error f) resume (clock env 8) db
    | _ \<Rightarrow> record_failure w job run f (clock env 8) db)"
    by (auto simp: handle_moodle_failure_def txn_quiet [OF q] split: prod.split option.split bool.split)
  have "get_sync_job (reschedule_for_maintenance w job run err resume now db) job = Some (j\<lparr>sj_status := JobPending, sj_run_after := resume,
      sj_locked_by := None, sj_locked_at := None, sj_last_error := Some (''moodle_maintenance:'' @ err)\<rparr>)" for err resume now
    using j by (simp add: reschedule_for_maintenance_def job_after_update)
  then show ?thesis unfolding e using record_failure_job [OF j, of f "clock env 8"] by (auto split: prod.split option.split bool.split)
qed

lemma retry_status:
  "sj_status (retry_job st p keep now j) = (if sj_max_attempts j \<le> sj_attempts j + 1 \<and> \<not> keep then JobFailed else JobPending)"
  "sj_locked_by (retry_job st p keep now j) = sj_locked_by j"
  by (auto simp: retry_job_def Let_def)

lemma unlock_failed_frame [simp]:
  "sj_locked_by (unlock_failed now e j) = None" "sj_max_attempts (unlock_failed now e j) = sj_max_attempts j" "sj_attempts (unlock_failed now e j) = sj_attempts j"
  by (simp_all add: unlock_failed_def)

definition school_down :: "sync_worker \<Rightarrow> run_env \<Rightarrow> sync_db \<Rightarrow> bool" where
  "school_down w env db \<longleftrightarrow> \<not> fst (is_moodle_available w (clock env 7) db)"

lemma school_down_iff: "school_down w env db \<longleftrightarrow> (\<exists>t. is_moodle_available w (clock env 7) db = (False, Some t))"
  "\<not> school_down w env db \<Longrightarrow> is_moodle_available w (clock env 7) db = (True, None)"
  by (auto simp: school_down_def is_moodle_available_def split: option.splits)


section \<open>The pace\<close>

datatype budget_event = Request datetime | Pause int datetime

fun event_tick :: "budget_event \<Rightarrow> datetime" where
  "event_tick (Request t) = t"
| "event_tick (Pause s t) = t"

fun run_budget :: "int \<Rightarrow> budget_event list \<Rightarrow> request_budget \<Rightarrow> datetime list" where
  "run_budget spacing [] b = []"
| "run_budget spacing (Request t # es) b =
    (case try_acquire spacing t b of (True, b') \<Rightarrow> t # run_budget spacing es b' | (False, b') \<Rightarrow> run_budget spacing es b')"
| "run_budget spacing (Pause s t # es) b = run_budget spacing es (pause s t b)"

lemma try_acquire_ready:
  "fst (try_acquire spacing t b) \<longleftrightarrow> (\<forall>x. resume_at b = Some x \<longrightarrow> x \<le> t) \<and> (\<forall>x. last_at b = Some x \<longrightarrow> x + spacing \<le> t)"
  by (auto simp: try_acquire_def ready_at_def split: option.splits)

lemma try_acquire_state: "snd (try_acquire spacing t b) = (if fst (try_acquire spacing t b) then b\<lparr>last_at := Some t\<rparr> else b)"
  by (simp add: try_acquire_def)

text \<open>Nothing goes before the end of the pause or sooner than the spacing after the last request.\<close>

lemma run_budget_bounds:
  "g \<in> set (run_budget spacing es b) \<Longrightarrow> 0 \<le> spacing \<Longrightarrow> (\<forall>x. resume_at b = Some x \<longrightarrow> x \<le> g) \<and> (\<forall>x. last_at b = Some x \<longrightarrow> x + spacing \<le> g)"
proof (induction spacing es b rule: run_budget.induct)
  case (2 spacing t es b)
  then show ?case using try_acquire_ready [of spacing t b] try_acquire_state [of spacing t b]
    by (cases "try_acquire spacing t b") (force split: bool.splits if_splits)
next
  case (3 spacing s t es b)
  then show ?case by (auto simp: pause_def split: option.splits)
qed simp

lemma run_budget_spaced: "0 \<le> spacing \<Longrightarrow> sorted_wrt (\<lambda>a b. a + spacing \<le> b) (run_budget spacing es b)"
proof (induction spacing es b rule: run_budget.induct)
  case (2 spacing t es b)
  obtain ok b' where a: "try_acquire spacing t b = (ok, b')" by fastforce
  show ?case
  proof (cases ok)
    case True
    then have "last_at b' = Some t" using try_acquire_state [of spacing t b] a by simp
    then have "\<forall>g \<in> set (run_budget spacing es b'). t + spacing \<le> g" using run_budget_bounds [of _ spacing es b'] 2(3) by blast
    then show ?thesis using 2 a True by simp
  qed (use 2 a in simp)
qed simp_all

lemma spaced_count:
  "sorted_wrt (\<lambda>a b. a + d \<le> b) (x # xs) \<Longrightarrow> 0 \<le> d \<Longrightarrow> x + int (length xs) * d \<le> (last (x # xs) :: int)"
proof (induction xs arbitrary: x)
  case (Cons y ys)
  have "y + int (length ys) * d \<le> last (y # ys)" using Cons.IH [of y] Cons.prems by simp
  then show ?case using Cons.prems by (simp add: algebra_simps)
qed simp

lemma run_budget_append:
  "run_budget spacing (es @ es') b = run_budget spacing es b @ run_budget spacing es' (fold (\<lambda>e b. case e of Request t \<Rightarrow> snd (try_acquire spacing t b) | Pause s t \<Rightarrow> pause s t b) es b)"
  by (induction spacing es b rule: run_budget.induct) (auto split: prod.split bool.split)

text \<open>
  C40. The worker's pace: however many jobs ask and whenever a 429 pauses it, the requests that go are at least the spacing apart, so
  \<open>n\<close> of them take at least \<open>n - 1\<close> spacings, and none that asks after a pause began goes before the pause is over.
\<close>

theorem requests_paced:
  assumes "0 \<le> spacing"
  shows "sorted_wrt (\<lambda>x y. x + spacing \<le> y) (run_budget spacing es b) \<and>
    (case run_budget spacing es b of [] \<Rightarrow> True | x # xs \<Rightarrow> x + int (length xs) * spacing \<le> last (x # xs)) \<and>
    (\<exists>before. run_budget spacing (es @ Pause s t # es') b = run_budget spacing es b @ before \<and> list_all (\<lambda>g. t + seconds s \<le> g) before)"
proof -
  let ?b = "fold (\<lambda>e b. case e of Request t \<Rightarrow> snd (try_acquire spacing t b) | Pause s t \<Rightarrow> pause s t b) es b"
  have "\<exists>x. resume_at (pause s t ?b) = Some x \<and> t + seconds s \<le> x" by (auto simp: pause_def split: option.split)
  then obtain x where "resume_at (pause s t ?b) = Some x" "t + seconds s \<le> x" by blast
  then have "t + seconds s \<le> g" if "g \<in> set (run_budget spacing es' (pause s t ?b))" for g
    using run_budget_bounds [OF that assms] by auto
  then have "\<exists>before. run_budget spacing (es @ Pause s t # es') b = run_budget spacing es b @ before \<and> list_all (\<lambda>g. t + seconds s \<le> g) before"
    by (simp add: run_budget_append list_all_iff)
  moreover have "case run_budget spacing es b of [] \<Rightarrow> True | x # xs \<Rightarrow> x + int (length xs) * spacing \<le> last (x # xs)"
    using run_budget_spaced [OF assms, of es b] spaced_count [OF _ assms] by (cases "run_budget spacing es b") (simp_all only: list.case)
  ultimately show ?thesis using run_budget_spaced [OF assms, of es b] by blast
qed

theorem requests_paced_witness:
  "sorted_wrt (\<lambda>x y. x + seconds 2 \<le> y) (run_budget (seconds 2) [Request 0, Request 5, Pause 10 6, Request (seconds 3), Request (seconds 11)] \<lparr>last_at = None, resume_at = None\<rparr>) \<and>
   run_budget (seconds 2) [Request 0, Request 5, Pause 10 6, Request (seconds 3), Request (seconds 11)] \<lparr>last_at = None, resume_at = None\<rparr> = [0, seconds 11]"
proof -
  have "run_budget (seconds 2) [Request 0, Request 5, Pause 10 6, Request (seconds 3), Request (seconds 11)] \<lparr>last_at = None, resume_at = None\<rparr> = [0, seconds 11]"
    by code_simp
  moreover have "0 \<le> seconds 2" by code_simp
  ultimately show ?thesis using requests_paced by blast
qed

section \<open>The hypotheses hold\<close>

text \<open>A user signs in, a worker claims the assignments job, and another tick finds its lock stale.\<close>

definition sample_sync_db :: sync_db where
  "sample_sync_db = \<lparr>
     auth = \<lparr>users = [], auth_devices = [], sessions = [], session_seq = 0, accounts = [], account_seq = 0, credentials = [], push_tokens = [],
       sync_policies = [\<lparr>sp_job_type = MoodleAssignments, sp_enabled = True, sp_default_interval_seconds = 600, sp_active_from = None,
         sp_active_until = None, sp_priority = 50, sp_max_attempts = 3\<rparr>],
       sync_jobs = [], job_seq = 0, registrations = [], audit_log = []\<rparr>,
     tables = \<lparr>courses = [], course_seq = 0, overrides = [], tombstones = [], semester_resets = [], courses_reset_at = (\<lambda>u. None),
       rosters = (\<lambda>x. None),
       queue = \<lparr>jobs = [], push_job_seq = 0, deliveries = [], delivery_seq = 0, tokens = [], devices = [\<lparr>pv_id = 1, pv_user = 7, pv_platform = ''ios'', pv_app_version = None, pv_locale = None,
         bulletin_push_enabled = True, cloud_sync_enabled = True, sync_assignment_reminders = True, pv_deleted_at = None\<rparr>], terms = [], holidays = [],
         holiday_overrides = [], assignments = [], assignment_seq = 0, assignment_marks = [], user_courses = [], course_overrides = [],
         sync_log = empty_log\<rparr>,
       worker_jobs = [], worker_policies = [], device_seen = (\<lambda>d. Some 0)\<rparr>,
     sync_runs = [], run_seq = 0, suspended_setting = None, budget = \<lparr>last_at = None, resume_at = None\<rparr>\<rparr>"

definition sample_worker :: sync_worker where
  "sample_worker = \<lparr>worker_id = ''w'',
     settings = \<lparr>sync_job_stale_lock_minutes = 5, sync_job_global_concurrency = 1, sync_job_batch_size = 2, sync_job_backoff_base_seconds = 60,
       sync_job_backoff_cap_seconds = 3600, sync_job_device_active_days = 30, sync_job_device_push_days = 30,
       sync_job_manual_cooldown_seconds = 60, submission_status_window_hours = 24, sync_maintenance_window = [],
       moodle_maintenance_start = None, moodle_maintenance_end = None\<rparr>,
     decrypt = (\<lambda>c. None), to_iso = (\<lambda>t. ''t''), from_iso = (\<lambda>t. None),
     text_tables = \<lparr>isnumeric = (\<lambda>x. False), isalpha = (\<lambda>x. False), upper = (\<lambda>x. x), find_words = (\<lambda>x. [])\<rparr>\<rparr>"

definition sample_signed_in :: sync_db where
  "sample_signed_in = sample_sync_db\<lparr>auth := ensure_sync_jobs 7 0 0 (auth sample_sync_db)\<rparr>"

definition sample_claimed :: sync_db where
  "sample_claimed = snd (claim_next sample_worker 0 sample_signed_in)"

definition sample_system :: worker_system where
  "sample_system = \<lparr>sys_db = sample_claimed, tasks = {(''w'', 0, 0)}\<rparr>"

definition sample_recovered :: worker_system where
  "sample_recovered = sample_system\<lparr>sys_db := recover_stale_sync_jobs sample_worker (hours 1) sample_claimed\<rparr>"

lemma sample_reached: "reaches sys_init (worker_step 1) sample_system"
proof -
  let ?S = "\<lparr>sys_db = sample_sync_db, tasks = {}\<rparr>" and ?T = "\<lparr>sys_db = sample_signed_in, tasks = {}\<rparr>"
  have "sys_init ?S" by (simp add: sys_init_def sample_sync_db_def)
  then have "reaches sys_init (worker_step 1) ?S" by (rule reaches_init)
  moreover have "worker_step 1 ?S ?T" using step_sign_in [of 1 ?S 7 0 0] by (simp add: sample_signed_in_def)
  ultimately have T: "reaches sys_init (worker_step 1) ?T" by (rule reaches_step)
  have "fst (claim_next sample_worker 0 sample_signed_in) = Some (0, 0)" by code_simp
  then have c: "claim_next sample_worker 0 (sys_db ?T) = (Some (0, 0), sample_claimed)" by (simp add: sample_claimed_def prod_eq_iff)
  have g: "sync_job_global_concurrency (settings sample_worker) = 1" "worker_id sample_worker = ''w''" by (simp_all add: sample_worker_def)
  have "worker_step 1 ?T sample_system" using step_claim [OF g(1) c] g(2) by (simp add: sample_system_def)
  then show ?thesis by (rule reaches_step [OF T])
qed

theorem sync_jobs_exclusive_witness:
  "map sj_user (running_jobs (sys_db sample_system)) = [7] \<and> (\<exists>!t. holder sample_system (hd (running_jobs (sys_db sample_system))) t)"
proof -
  have "map sj_user (running_jobs (sys_db sample_system)) = [7]" unfolding sample_system_def worker_system.simps by code_simp
  then show ?thesis using sync_jobs_exclusive [OF sample_reached] by (cases "running_jobs (sys_db sample_system)") simp_all
qed


definition sample_run_env :: run_env where
  "sample_run_env = \<lparr>gap = (\<lambda>k db. db), clock = (\<lambda>k. 0), db_crash = (\<lambda>k. None), fetch_assignments = (\<lambda>t. Inl MoodleRateLimited),
     fetch_courses = (\<lambda>t. ([], [], Inl MoodleRateLimited)), fetch_submission_status = (\<lambda>t ids u. ([], Inr []))\<rparr>"


end
