(* ===== verification/MoodleClient.thy ===== *)
theory MoodleClient
  imports WorkerSafety
begin

text \<open>
  The Moodle client, \<^verbatim>\<open>server/syncjobs/moodle_client.py\<close>: what each webservice answer is read as, and which failure is
  raised for it. \<open>moodle_site\<close> holds what is outside: the transport (\<open>web\<close>: a reply with its status and its JSON body,
  \<open>None\<close> when the body is not JSON, or the \<^verbatim>\<open>httpx\<close> error), Python's \<^verbatim>\<open>str\<close> of a JSON value that is no text, the name of what
  \<^verbatim>\<open>datetime.fromtimestamp\<close> raises past the year 9999, and the hash a token is cached under. Numbers are integers; Moodle sends no
  fractions here. A text field that holds some other type, which Moodle does not send, is read as its \<^verbatim>\<open>str\<close>.

  The definitions \<open>fetch_assignments_http\<close>, \<open>fetch_courses_http\<close> and \<open>fetch_submission_status_http\<close> have the types of
  the fields of \<open>run_env\<close> they implement for the sync worker, \<open>check_submission_status_http\<close> that of \<open>presend_env\<close>.
\<close>

section \<open>The transport\<close>

datatype ws_call = SiteInfo string | GetAssignments string | GetUsersCourses string int | GetSubmissionStatus string int int

datatype ws_reply = NoReply string string | WsReply nat "json option"

record moodle_site =
  base_url :: string
  web :: "ws_call \<Rightarrow> ws_reply"
  str_of :: "json \<Rightarrow> string"
  timestamp_error :: "int \<Rightarrow> string"
  token_digest :: "string \<Rightarrow> string"

section \<open>Reading JSON\<close>

definition js_get :: "string \<Rightarrow> (string \<times> json) list \<Rightarrow> json" where
  "js_get k kv = (case map_of kv k of Some v \<Rightarrow> v | None \<Rightarrow> JNull)"

fun truthy :: "json \<Rightarrow> bool" where
  "truthy JNull = False"
| "truthy (JBool b) = b"
| "truthy (JInt n) = (n \<noteq> 0)"
| "truthy (JFloat r) = (r \<noteq> 0)"
| "truthy (JStr s) = (s \<noteq> [])"
| "truthy (JList xs) = (xs \<noteq> [])"
| "truthy (JObj kv) = (kv \<noteq> [])"

text \<open>\<^verbatim>\<open>isinstance(v, int)\<close> takes a bool; \<^verbatim>\<open>type(v) is int\<close> does not.\<close>

fun int_value :: "json \<Rightarrow> int option" where
  "int_value (JInt n) = Some n"
| "int_value (JBool b) = Some (of_bool b)"
| "int_value _ = None"

fun strict_int :: "json \<Rightarrow> int option" where
  "strict_int (JInt n) = Some n"
| "strict_int _ = None"

definition js_str :: "moodle_site \<Rightarrow> json \<Rightarrow> string" where
  "js_str site v = (case v of JStr s \<Rightarrow> s | _ \<Rightarrow> str_of site v)"

text \<open>\<^verbatim>\<open>str(v or "")\<close> and \<^verbatim>\<open>v or None\<close>.\<close>

definition str_or_empty :: "moodle_site \<Rightarrow> json \<Rightarrow> string" where
  "str_or_empty site v = (if truthy v then js_str site v else [])"

definition text_or_none :: "moodle_site \<Rightarrow> json \<Rightarrow> string option" where
  "text_or_none site v = (if truthy v then Some (js_str site v) else None)"

text \<open>Iterating a JSON value and reading a key of one, with the exception for the values that cannot.\<close>

fun py_iter :: "json \<Rightarrow> string + json list" where
  "py_iter (JList xs) = Inr xs"
| "py_iter (JObj kv) = Inr (map (\<lambda>e. JStr (fst e)) kv)"
| "py_iter (JStr s) = Inr (map (\<lambda>ch. JStr [ch]) s)"
| "py_iter _ = Inl ''TypeError''"

fun py_object :: "json \<Rightarrow> string + (string \<times> json) list" where
  "py_object (JObj kv) = Inr kv"
| "py_object _ = Inl ''AttributeError''"

definition MAX_TIMESTAMP :: int where "MAX_TIMESTAMP = 253402300799"

text \<open>\<open>_ts\<close>: unix seconds, 0 and below for unset; past the last date of \<^verbatim>\<open>datetime\<close> it raises.\<close>

definition float_time :: "rat \<Rightarrow> datetime" where
  "float_time r = (let w = whole_part r in seconds w + round_half_even (case nearest_double (1000000 * (r - of_int w)) of Some x \<Rightarrow> x | None \<Rightarrow> 0))"

definition ts :: "moodle_site \<Rightarrow> json \<Rightarrow> string + datetime option" where
  "ts site v = (case v of
     JFloat r \<Rightarrow> if r \<le> 0 then Inr None else if float_time r \<le> MAX_DATETIME then Inr (Some (float_time r)) else Inl (timestamp_error site (whole_part r))
   | _ \<Rightarrow> (case int_value v of
       None \<Rightarrow> Inr None
     | Some n \<Rightarrow> if n \<le> 0 then Inr None else if n \<le> MAX_TIMESTAMP then Inr (Some (seconds n)) else Inl (timestamp_error site n)))"

definition start_of :: "moodle_site \<Rightarrow> json \<Rightarrow> datetime option" where
  "start_of site v = (case ts site v of Inl e \<Rightarrow> None | Inr t \<Rightarrow> t)"

section \<open>The assignment list\<close>

definition raise_exception :: "moodle_site \<Rightarrow> (string \<times> json) list \<Rightarrow> moodle_error" where
  "raise_exception site kv =
    (let code = (case map_of kv ''errorcode'' of None \<Rightarrow> [] | Some v \<Rightarrow> js_str site v) in
     if code = ''invalidtoken'' then MoodleTokenInvalid else MoodleUnreachable (if code = [] then ''moodle_exception'' else code))"

definition refused_courses :: "json \<Rightarrow> json list" where
  "refused_courses warnings = (case warnings of
     JList ws \<Rightarrow> [js_get ''itemid'' kv. JObj kv \<leftarrow> ws, js_get ''item'' kv = JStr ''course'']
   | _ \<Rightarrow> [])"

definition read_assignment :: "moodle_site \<Rightarrow> int \<Rightarrow> string option \<Rightarrow> json \<Rightarrow> string + fetched_assignment option" where
  "read_assignment site course_id cname item = (case py_object item of
     Inl e \<Rightarrow> Inl e
   | Inr kv \<Rightarrow> (case int_value (js_get ''id'' kv) of
       None \<Rightarrow> Inr None
     | Some aid \<Rightarrow> (case ts site (js_get ''duedate'' kv) of Inl e \<Rightarrow> Inl e | Inr due \<Rightarrow>
         (case ts site (js_get ''cutoffdate'' kv) of Inl e \<Rightarrow> Inl e | Inr cutoff \<Rightarrow>
         (case ts site (js_get ''allowsubmissionsfromdate'' kv) of Inl e \<Rightarrow> Inl e | Inr opens \<Rightarrow>
           Inr (Some \<lparr>fa_course = course_id, fa_id = aid, fa_course_name = cname, fa_title = str_or_empty site (js_get ''name'' kv),
             fa_due_at = due, fa_cutoff_at = cutoff, fa_allow_from_at = opens,
             fa_moodle_url = (case js_get ''cmid'' kv of
                JInt n \<Rightarrow> Some (base_url site @ ''/mod/assign/view.php?id='' @ int_str n)
              | JBool b \<Rightarrow> Some (base_url site @ ''/mod/assign/view.php?id='' @ (if b then ''True'' else ''False''))
              | _ \<Rightarrow> None),
             fa_intro_html = text_or_none site (js_get ''intro'' kv)\<rparr>))))))"

definition read_course_assignments :: "moodle_site \<Rightarrow> json \<Rightarrow> string + fetched_assignment list" where
  "read_course_assignments site course = (case py_object course of
     Inl e \<Rightarrow> Inl e
   | Inr kv \<Rightarrow> (case int_value (js_get ''id'' kv) of
       None \<Rightarrow> Inr []
     | Some cid \<Rightarrow> (case py_iter (case map_of kv ''assignments'' of None \<Rightarrow> JList [] | Some v \<Rightarrow> v) of
         Inl e \<Rightarrow> Inl e
       | Inr items \<Rightarrow> map_sum id (List.map_filter id) (traverse (read_assignment site cid (text_or_none site (js_get ''fullname'' kv))) items))))"

definition fetch_assignments_http :: "moodle_site \<Rightarrow> string \<Rightarrow> moodle_error + fetched_assignment list" where
  "fetch_assignments_http site token = (case web site (GetAssignments token) of
     NoReply ty msg \<Rightarrow> Inl (MoodleUnreachable (take 200 msg))
   | WsReply code body \<Rightarrow>
     if code = 429 then Inl MoodleRateLimited
     else case body of
       None \<Rightarrow> Inl (MoodleUnreachable ''invalid_json'')
     | Some (JObj kv) \<Rightarrow>
         if 400 \<le> code then Inl (MoodleUnreachable (''http_'' @ nat_str code))
         else if map_of kv ''exception'' \<noteq> None then Inl (raise_exception site kv)
         else (case js_get ''courses'' kv of
           JList cs \<Rightarrow>
             let refused = refused_courses (js_get ''warnings'' kv) in
             if cs = [] \<and> refused \<noteq> []
             then Inl (if list_all (\<lambda>v. strict_int v \<noteq> None) refused then MoodleNoCourseAccess (map (the \<circ> strict_int) refused)
                       else MoodleUnreachable ''no_course_access'')
             else map_sum OtherException concat (traverse (read_course_assignments site) cs)
         | _ \<Rightarrow> Inl (MoodleUnreachable ''unexpected_shape''))
     | Some _ \<Rightarrow> Inl (MoodleUnreachable (''http_'' @ nat_str code)))"

section \<open>The course list\<close>

datatype userid_error = SiteHttpError string | SiteRaised moodle_error

definition get_moodle_userid :: "moodle_site \<Rightarrow> string \<Rightarrow> string list \<times> (userid_error + int)" where
  "get_moodle_userid site token = (case web site (SiteInfo token) of
     NoReply ty msg \<Rightarrow> ([], Inl (SiteHttpError msg))
   | WsReply code body \<Rightarrow>
     if code = 429 then ([], Inl (SiteRaised MoodleRateLimited))
     else case body of
       None \<Rightarrow> ([], Inl (SiteRaised (MoodleUnreachable ''invalid_json'')))
     | Some (JObj kv) \<Rightarrow>
         if map_of kv ''exception'' \<noteq> None then ([], Inl (SiteRaised (raise_exception site kv)))
         else (case js_get ''userid'' kv of
           JInt n \<Rightarrow> ((case js_get ''fullname'' kv of JStr s \<Rightarrow> [s] | _ \<Rightarrow> []), Inr n)
         | _ \<Rightarrow> ([], Inl (SiteRaised (MoodleUnreachable ''missing_userid_in_site_info''))))
     | Some _ \<Rightarrow> ([], Inl (SiteRaised (MoodleUnreachable ''missing_userid_in_site_info''))))"

fun type_name :: "json \<Rightarrow> string" where
  "type_name JNull = ''NoneType''"
| "type_name (JBool b) = ''bool''"
| "type_name (JInt n) = ''int''"
| "type_name (JFloat r) = ''float''"
| "type_name (JStr s) = ''str''"
| "type_name (JList xs) = ''list''"
| "type_name (JObj kv) = ''dict''"

definition read_course :: "moodle_site \<Rightarrow> json \<Rightarrow> fetched_course option" where
  "read_course site c = (case c of
     JObj kv \<Rightarrow> map_option (\<lambda>cid. \<lparr>fc_id = cid,
         fc_short_name = (case js_get ''shortname'' kv of JNull \<Rightarrow> None | v \<Rightarrow> Some (js_str site v)),
         fc_full_name = (if truthy (js_get ''fullname'' kv) then js_str site (js_get ''fullname'' kv) else str_or_empty site (js_get ''shortname'' kv)),
         fc_idnumber = str_or_empty site (js_get ''idnumber'' kv), fc_start_at = start_of site (js_get ''startdate'' kv)\<rparr>)
       (int_value (js_get ''id'' kv))
   | _ \<Rightarrow> None)"

definition fetch_courses_http :: "moodle_site \<Rightarrow> string \<Rightarrow> string list \<times> int list \<times> (moodle_error + fetched_course list)" where
  "fetch_courses_http site token = (case get_moodle_userid site token of
     (names, Inl (SiteHttpError msg)) \<Rightarrow> (names, [], Inl (MoodleUnreachable (take 200 msg)))
   | (names, Inl (SiteRaised e)) \<Rightarrow> (names, [], Inl e)
   | (names, Inr userid) \<Rightarrow> (names, [userid], (case web site (GetUsersCourses token userid) of
       NoReply ty msg \<Rightarrow> Inl (MoodleUnreachable (take 200 msg))
     | WsReply code body \<Rightarrow>
       if code = 429 then Inl MoodleRateLimited
       else case body of
         None \<Rightarrow> Inl (MoodleUnreachable ''invalid_json'')
       | Some (JList cs) \<Rightarrow> Inr (List.map_filter (read_course site) cs)
       | Some (JObj kv) \<Rightarrow> Inl (if map_of kv ''exception'' \<noteq> None then raise_exception site kv else MoodleUnreachable ''unexpected_shape_dict'')
       | Some v \<Rightarrow> Inl (MoodleUnreachable (''unexpected_shape_'' @ type_name v)))))"

section \<open>A submission's state\<close>

definition submitted_attempt :: "moodle_site \<Rightarrow> json \<Rightarrow> (string \<times> json) list option" where
  "submitted_attempt site v = (case v of
     JObj kv \<Rightarrow> if str_or_empty site (js_get ''status'' kv) = ''submitted'' then Some kv else None
   | _ \<Rightarrow> None)"

definition parse_submission_status :: "moodle_site \<Rightarrow> (string \<times> json) list \<Rightarrow> string + fetched_submission option" where
  "parse_submission_status site body = (case js_get ''lastattempt'' body of
     JObj la \<Rightarrow>
       let ext = js_get ''extensionduedate'' la in
       if ext \<noteq> JNull \<and> (case strict_int ext of None \<Rightarrow> True | Some n \<Rightarrow> n < 0) then Inr None
       else
         let attempt = (case submitted_attempt site (js_get ''submission'' la) of
               Some a \<Rightarrow> Some a | None \<Rightarrow> submitted_attempt site (js_get ''teamsubmission'' la))
         in (case (case attempt of None \<Rightarrow> Inr None | Some a \<Rightarrow> ts site (js_get ''timemodified'' a)) of
           Inl e \<Rightarrow> Inl e
         | Inr arr \<Rightarrow> (case ts site ext of
             Inl e \<Rightarrow> Inl e
           | Inr until \<Rightarrow> Inr (Some \<lparr>is_submitted = attempt \<noteq> None, submitted_at = arr,
               submissions_enabled = js_get ''submissionsenabled'' la \<noteq> JBool False, locked = js_get ''locked'' la = JBool True,
               extension_due_at = until\<rparr>)))
   | _ \<Rightarrow> Inr None)"

section \<open>The submission probe\<close>

text \<open>One probe either leaves its assignment out, answers, or raises one of the errors that stop the batch.\<close>

datatype probe_end = Skipped | Answered fetched_submission | Escalated moodle_error

definition probe :: "moodle_site \<Rightarrow> string \<Rightarrow> int \<Rightarrow> int \<Rightarrow> probe_end" where
  "probe site token userid aid = (case web site (GetSubmissionStatus token aid userid) of
     NoReply ty msg \<Rightarrow> Skipped
   | WsReply code body \<Rightarrow>
     if code = 429 then Escalated MoodleRateLimited
     else if 400 \<le> code then Skipped
     else case body of
       Some (JObj kv) \<Rightarrow>
         if map_of kv ''exception'' \<noteq> None
         then (if (case map_of kv ''errorcode'' of None \<Rightarrow> [] | Some v \<Rightarrow> js_str site v) = ''invalidtoken'' then Escalated MoodleTokenInvalid else Skipped)
         else (case parse_submission_status site kv of Inr (Some s) \<Rightarrow> Answered s | _ \<Rightarrow> Skipped)
     | _ \<Rightarrow> Skipped)"

text \<open>The task group: the probes end in some order; once one has raised, those still running are cancelled, unless they end
  before that reaches them (\<open>outruns\<close>).\<close>

record probe_group =
  answers :: "(int \<times> fetched_submission) list"
  raised_errors :: "moodle_error list"

definition end_probe :: "moodle_site \<Rightarrow> string \<Rightarrow> int \<Rightarrow> (int \<Rightarrow> bool) \<Rightarrow> int \<Rightarrow> probe_group \<Rightarrow> probe_group" where
  "end_probe site token userid outruns aid g =
    (if raised_errors g \<noteq> [] \<and> \<not> outruns aid then g
     else case probe site token userid aid of
       Skipped \<Rightarrow> g
     | Answered s \<Rightarrow> g\<lparr>answers := AList.update aid s (answers g)\<rparr>
     | Escalated e \<Rightarrow> g\<lparr>raised_errors := raised_errors g @ [e]\<rparr>)"

text \<open>The table of escalations, highest first: a dead token, a 429, then an unreachable Moodle.\<close>

definition route_escalation :: "moodle_error list \<Rightarrow> moodle_error" where
  "route_escalation es =
    (if MoodleTokenInvalid \<in> set es then MoodleTokenInvalid
     else if MoodleRateLimited \<in> set es then MoodleRateLimited
     else MoodleUnreachable ''submission_probe_unreachable'')"

definition run_probes :: "moodle_site \<Rightarrow> (int list \<Rightarrow> int list) \<Rightarrow> (int \<Rightarrow> bool) \<Rightarrow> string \<Rightarrow> int list \<Rightarrow> int \<Rightarrow> moodle_error + (int \<times> fetched_submission) list" where
  "run_probes site order outruns token ids userid =
    (let g = fold (end_probe site token userid outruns) (order ids) \<lparr>answers = [], raised_errors = []\<rparr>
     in if raised_errors g = [] then Inr (answers g) else Inl (route_escalation (raised_errors g)))"

definition fetch_submission_status_http ::
  "moodle_site \<Rightarrow> (int list \<Rightarrow> int list) \<Rightarrow> (int \<Rightarrow> bool) \<Rightarrow> string \<Rightarrow> int list \<Rightarrow> int option \<Rightarrow> string list \<times> (moodle_error + (int \<times> fetched_submission) list)" where
  "fetch_submission_status_http site order outruns token ids userid =
    (if ids = [] then ([], Inr [])
     else case userid of
       Some i \<Rightarrow> ([], run_probes site order outruns token ids i)
     | None \<Rightarrow> (case get_moodle_userid site token of
         (names, Inl (SiteHttpError msg)) \<Rightarrow> (names, Inr [])
       | (names, Inl (SiteRaised e)) \<Rightarrow> (names, Inl e)
       | (names, Inr i) \<Rightarrow> (names, run_probes site order outruns token ids i)))"

section \<open>The check before a push\<close>

definition checked_call :: "moodle_site \<Rightarrow> ws_call \<Rightarrow> moodle_outcome + (string \<times> json) list" where
  "checked_call site call = (case web site call of
     NoReply ty msg \<Rightarrow> Inl MUnavailable
   | WsReply code body \<Rightarrow>
     if code = 429 then Inl MRateLimited
     else if 500 \<le> code then Inl MUnavailable
     else case body of
       None \<Rightarrow> Inl MUnavailable
     | Some (JObj kv) \<Rightarrow>
         if map_of kv ''exception'' = None then Inr kv
         else if str_or_empty site (js_get ''errorcode'' kv) = ''invalidtoken'' then Inl MTokenInvalid
         else Inl MRefused
     | Some _ \<Rightarrow> Inl MRefused)"

definition USERID_CACHE_SIZE :: nat where "USERID_CACHE_SIZE = 4096"

definition remember_userid :: "string \<Rightarrow> int \<Rightarrow> (string \<times> int) list \<Rightarrow> (string \<times> int) list" where
  "remember_userid k i cache = AList.update k i (if USERID_CACHE_SIZE \<le> length cache then [] else cache)"

definition ask_status :: "moodle_site \<Rightarrow> string \<Rightarrow> int \<Rightarrow> int \<Rightarrow> moodle_outcome" where
  "ask_status site token aid userid = (case checked_call site (GetSubmissionStatus token aid userid) of
     Inl e \<Rightarrow> e
   | Inr body \<Rightarrow> (case parse_submission_status site body of Inl e \<Rightarrow> MError | Inr None \<Rightarrow> MNoAnswer | Inr (Some s) \<Rightarrow> MAnswer s))"

definition ask_userid :: "moodle_site \<Rightarrow> string \<Rightarrow> moodle_outcome + int" where
  "ask_userid site token = (case checked_call site (SiteInfo token) of
     Inl e \<Rightarrow> Inl e
   | Inr info \<Rightarrow> (case strict_int (js_get ''userid'' info) of None \<Rightarrow> Inl MRefused | Some i \<Rightarrow> Inr i))"

definition check_submission_status_http :: "moodle_site \<Rightarrow> (string \<times> int) list \<Rightarrow> string \<Rightarrow> int \<Rightarrow> moodle_outcome \<times> (string \<times> int) list" where
  "check_submission_status_http site cache token aid =
    (case map_of cache (token_digest site token) of
       Some i \<Rightarrow> (ask_status site token aid i, cache)
     | None \<Rightarrow> (case ask_userid site token of
         Inl e \<Rightarrow> (e, cache)
       | Inr i \<Rightarrow> (ask_status site token aid i, remember_userid (token_digest site token) i cache)))"

section \<open>What the answers guarantee\<close>

text \<open>An answer that lists the user's courses.\<close>

definition lists_courses :: "ws_reply \<Rightarrow> bool" where
  "lists_courses r = (case r of
     WsReply code (Some (JObj kv)) \<Rightarrow> code < 400 \<and> map_of kv ''exception'' = None \<and> (case js_get ''courses'' kv of JList cs \<Rightarrow> True | _ \<Rightarrow> False)
   | _ \<Rightarrow> False)"

lemma raise_exception_kind: "raise_exception site kv \<noteq> MoodleNoCourseAccess ids"
  by (simp add: raise_exception_def Let_def)

lemma no_list_raises:
  assumes "\<not> lists_courses (web site (GetAssignments token))"
  shows "\<exists>e. fetch_assignments_http site token = Inl e \<and> (\<forall>ids. e \<noteq> MoodleNoCourseAccess ids)"
proof (cases "web site (GetAssignments token)")
  case (WsReply code body)
  show ?thesis
  proof (cases body)
    case None
    then show ?thesis by (simp add: fetch_assignments_http_def WsReply)
  next
    case (Some v)
    show ?thesis
    proof (cases v)
      case (JObj kv)
      have "\<not> (code < 400 \<and> map_of kv ''exception'' = None \<and> (case js_get ''courses'' kv of JList cs \<Rightarrow> True | _ \<Rightarrow> False))"
        using assms by (simp add: lists_courses_def WsReply Some JObj)
      then show ?thesis by (auto simp: fetch_assignments_http_def WsReply Some JObj raise_exception_kind not_less split: json.splits)
    qed (simp_all add: fetch_assignments_http_def WsReply Some)
  qed
qed (simp add: fetch_assignments_http_def)

text \<open>
  C33. An answer of Moodle that does not list the user's courses (a 429, an error page, an exception, another shape) never reaches the
  mirror: the run ends with an error and writes nothing, so no stored assignment is taken for one Moodle dropped.
\<close>

theorem unlisted_answer_writes_nothing:
  assumes "\<not> lists_courses (web site (GetAssignments token))" "fetch_assignments env = fetch_assignments_http site"
  shows "\<exists>e. run_assignments w env job run u token db = (Some e, db)"
proof -
  obtain e where "fetch_assignments env token = Inl e" "\<forall>ids. e \<noteq> MoodleNoCourseAccess ids" using no_list_raises [OF assms(1)] assms(2) by auto
  then show ?thesis by (cases e) (simp_all add: run_assignments_def)
qed

section \<open>The batch of probes\<close>

definition escalates :: "moodle_site \<Rightarrow> string \<Rightarrow> int \<Rightarrow> int \<Rightarrow> moodle_error \<Rightarrow> bool" where
  "escalates site token userid aid e \<longleftrightarrow> probe site token userid aid = Escalated e"

definition answer_of :: "moodle_site \<Rightarrow> string \<Rightarrow> int \<Rightarrow> int \<Rightarrow> fetched_submission option" where
  "answer_of site token userid aid = (case probe site token userid aid of Answered s \<Rightarrow> Some s | _ \<Rightarrow> None)"

lemma probe_escalates: "probe site token userid aid = Escalated e \<Longrightarrow> e = MoodleTokenInvalid \<or> e = MoodleRateLimited"
  by (auto simp: probe_def split: ws_reply.splits if_splits option.splits json.splits sum.splits)

lemma end_probe_errors:
  "set (raised_errors (fold (end_probe site token userid outruns) xs g)) \<subseteq> set (raised_errors g) \<union> {e. \<exists>aid \<in> set xs. escalates site token userid aid e}"
proof (induction xs arbitrary: g)
  case (Cons x xs)
  have "set (raised_errors (end_probe site token userid outruns x g)) \<subseteq> set (raised_errors g) \<union> {e. escalates site token userid x e}"
    by (auto simp: end_probe_def escalates_def split: probe_end.split)
  then show ?case using Cons [of "end_probe site token userid outruns x g"] by fastforce
qed simp

lemma end_probe_raised: "raised_errors g \<noteq> [] \<Longrightarrow> raised_errors (fold (end_probe site token userid outruns) xs g) \<noteq> []"
  by (induction xs arbitrary: g) (auto simp: end_probe_def split: probe_end.split)

lemma escalation_raised:
  assumes "aid \<in> set xs" "escalates site token userid aid e"
  shows "raised_errors (fold (end_probe site token userid outruns) xs g) \<noteq> []"
  using assms(1)
proof (induction xs arbitrary: g)
  case (Cons x xs)
  then show ?case
  proof (cases "x = aid")
    case True
    have "raised_errors (end_probe site token userid outruns x g) \<noteq> []"
      using assms(2) by (auto simp: end_probe_def escalates_def True)
    then show ?thesis by (simp add: end_probe_raised)
  qed simp
qed simp

lemma quiet_batch:
  assumes "\<And>aid e. aid \<in> set xs \<Longrightarrow> \<not> escalates site token userid aid e" "raised_errors g = []"
  shows "raised_errors (fold (end_probe site token userid outruns) xs g) = [] \<and>
    map_of (answers (fold (end_probe site token userid outruns) xs g)) =
      (\<lambda>aid. if aid \<in> set xs \<and> answer_of site token userid aid \<noteq> None then answer_of site token userid aid else map_of (answers g) aid)"
  using assms
proof (induction xs arbitrary: g)
  case (Cons x xs)
  let ?g = "end_probe site token userid outruns x g"
  have step: "raised_errors ?g = []" "map_of (answers ?g) = (\<lambda>aid. if aid = x \<and> answer_of site token userid aid \<noteq> None then answer_of site token userid aid else map_of (answers g) aid)"
    using Cons.prems(1) [of x] Cons.prems(2)
    by (auto simp: end_probe_def escalates_def answer_of_def update_conv' fun_eq_iff split: probe_end.split)
  show ?case using Cons.IH [of ?g] Cons.prems(1) step by (auto simp: fun_eq_iff)
qed simp

text \<open>
  The batch of submission probes, whatever order they end in: if no probe meets a dead token or a 429 the batch answers exactly the
  assignments whose probe got a readable answer, each with that answer, so one assignment's failure costs only that assignment;
  otherwise it raises, and what it raises is what some probe met.
\<close>

theorem probe_batch_outcome:
  assumes "set (order ids) = set ids"
  shows "if \<exists>aid \<in> set ids. \<exists>e. escalates site token userid aid e
    then \<exists>e aid. run_probes site order outruns token ids userid = Inl e \<and> aid \<in> set ids \<and> escalates site token userid aid e
    else \<exists>r. run_probes site order outruns token ids userid = Inr r \<and>
      map_of r = (\<lambda>aid. if aid \<in> set ids then answer_of site token userid aid else None)"
proof -
  define g where "g = fold (end_probe site token userid outruns) (order ids) \<lparr>answers = [], raised_errors = []\<rparr>"
  have run: "run_probes site order outruns token ids userid = (if raised_errors g = [] then Inr (answers g) else Inl (route_escalation (raised_errors g)))"
    by (simp add: run_probes_def g_def Let_def)
  show ?thesis
  proof (cases "\<exists>aid \<in> set ids. \<exists>e. escalates site token userid aid e")
    case True
    then have ne: "raised_errors g \<noteq> []" using escalation_raised assms unfolding g_def by blast
    have sub: "set (raised_errors g) \<subseteq> {e. \<exists>aid \<in> set ids. escalates site token userid aid e}"
      using end_probe_errors [of site token userid outruns "order ids" "\<lparr>answers = [], raised_errors = []\<rparr>"] assms by (simp add: g_def)
    then have "\<forall>e \<in> set (raised_errors g). e = MoodleTokenInvalid \<or> e = MoodleRateLimited" using probe_escalates unfolding escalates_def by blast
    then have "route_escalation (raised_errors g) \<in> set (raised_errors g)"
      using ne by (cases "raised_errors g") (auto simp: route_escalation_def)
    then have "\<exists>aid \<in> set ids. escalates site token userid aid (route_escalation (raised_errors g))" using sub by blast
    then show ?thesis using True ne by (auto simp: run)
  next
    case False
    then show ?thesis using quiet_batch [of "order ids" site token userid "\<lparr>answers = [], raised_errors = []\<rparr>" outruns] assms
      by (auto simp: run g_def fun_eq_iff)
  qed
qed

section \<open>The cache of user ids\<close>

definition cache_ok :: "moodle_site \<Rightarrow> (string \<times> int) list \<Rightarrow> bool" where
  "cache_ok site cache \<longleftrightarrow> (\<forall>t i. map_of cache (token_digest site t) = Some i \<longrightarrow> ask_userid site t = Inr i)"

definition uncached_check :: "moodle_site \<Rightarrow> string \<Rightarrow> int \<Rightarrow> moodle_outcome" where
  "uncached_check site token aid = (case ask_userid site token of Inl e \<Rightarrow> e | Inr i \<Rightarrow> ask_status site token aid i)"

lemma remember_length: "length (remember_userid k i cache) \<le> max (length cache) USERID_CACHE_SIZE"
proof -
  have u: "length (AList.update k i xs) \<le> Suc (length xs)" for xs by (induction xs) auto
  show ?thesis
  proof (cases "USERID_CACHE_SIZE \<le> length cache")
    case False
    then show ?thesis using u [of cache] by (simp add: remember_userid_def)
  qed (simp add: remember_userid_def USERID_CACHE_SIZE_def)
qed

text \<open>
  The cached check is the uncached one: with a hash that keeps tokens apart, asking with the cache answers what asking for the user id
  every time would, keeps every entry right, and never holds more than 4096 ids.
\<close>

theorem cached_check_agrees:
  assumes "cache_ok site cache" "inj (token_digest site)" "length cache \<le> USERID_CACHE_SIZE"
  shows "fst (check_submission_status_http site cache token aid) = uncached_check site token aid \<and>
    cache_ok site (snd (check_submission_status_http site cache token aid)) \<and>
    length (snd (check_submission_status_http site cache token aid)) \<le> USERID_CACHE_SIZE"
proof (cases "map_of cache (token_digest site token)")
  case (Some i)
  then have "ask_userid site token = Inr i" using assms(1) by (simp add: cache_ok_def)
  then show ?thesis using assms(1,3) by (simp add: check_submission_status_http_def uncached_check_def Some)
next
  case None
  show ?thesis
  proof (cases "ask_userid site token")
    case (Inr i)
    have "map_of (remember_userid (token_digest site token) i cache) (token_digest site t) = Some j \<Longrightarrow> ask_userid site t = Inr j" for t j
      using assms(1) Inr injD [OF assms(2), of token t]
      by (auto simp: remember_userid_def update_conv' cache_ok_def split: if_splits)
    then have "cache_ok site (remember_userid (token_digest site token) i cache)" by (simp add: cache_ok_def)
    moreover have "length (remember_userid (token_digest site token) i cache) \<le> USERID_CACHE_SIZE"
      using remember_length [of "token_digest site token" i cache] assms(3) by simp
    ultimately show ?thesis by (simp add: check_submission_status_http_def uncached_check_def None Inr)
  qed (use assms None in \<open>simp add: check_submission_status_http_def uncached_check_def\<close>)
qed

section \<open>The hypotheses hold\<close>

definition sample_site :: moodle_site where
  "sample_site = \<lparr>base_url = ''m'',
     web = (\<lambda>call. case call of
        SiteInfo t \<Rightarrow> WsReply 200 (Some (JObj [(''userid'', JInt 5)]))
      | GetSubmissionStatus t aid i \<Rightarrow> if aid = 1
          then WsReply 200 (Some (JObj [(''lastattempt'', JObj [(''submission'', JObj [(''status'', JStr ''submitted''), (''timemodified'', JInt 60)])])]))
          else WsReply 503 None
      | _ \<Rightarrow> WsReply 200 (Some (JObj [(''exception'', JStr ''x'')]))),
     str_of = (\<lambda>v. []), timestamp_error = (\<lambda>n. ''ValueError''), token_digest = (\<lambda>t. t)\<rparr>"

theorem unlisted_answer_writes_nothing_witness:
  "\<exists>e. run_assignments sample_worker (sample_run_env\<lparr>fetch_assignments := fetch_assignments_http sample_site\<rparr>) 0 0 7 ''t'' sample_claimed = (Some e, sample_claimed)"
proof -
  have "\<not> lists_courses (web sample_site (GetAssignments ''t''))" by (simp add: lists_courses_def sample_site_def)
  then show ?thesis by (rule unlisted_answer_writes_nothing) simp
qed

theorem probe_batch_outcome_witness:
  "\<exists>r. run_probes sample_site rev (\<lambda>x. False) ''t'' [1, 2] 5 = Inr r \<and> map_of r 2 = None \<and> map_option submitted_at (map_of r 1) = Some (Some (seconds 60))"
proof -
  have e: "\<not> (\<exists>aid \<in> set [1, 2]. \<exists>e. escalates sample_site ''t'' 5 aid e)"
  proof -
    have "case probe sample_site ''t'' 5 1 of Escalated e \<Rightarrow> False | _ \<Rightarrow> True" "case probe sample_site ''t'' 5 2 of Escalated e \<Rightarrow> False | _ \<Rightarrow> True" by code_simp+
    then show ?thesis by (auto simp: escalates_def)
  qed
  obtain r where r: "run_probes sample_site rev (\<lambda>x. False) ''t'' [1, 2] 5 = Inr r"
      "map_of r = (\<lambda>aid. if aid \<in> set [1, 2] then answer_of sample_site ''t'' 5 aid else None)"
    using probe_batch_outcome [of rev, OF set_rev, of "[1, 2]" sample_site "''t''" 5 "\<lambda>x. False"] unfolding if_not_P [OF e] by blast
  have "answer_of sample_site ''t'' 5 2 = None" "map_option submitted_at (answer_of sample_site ''t'' 5 1) = Some (Some (seconds 60))" by code_simp+
  then show ?thesis using r by simp
qed

theorem cached_check_agrees_witness:
  "fst (check_submission_status_http sample_site [(''t'', 5)] ''t'' 1) = uncached_check sample_site ''t'' 1"
proof -
  have "ask_userid sample_site t = Inr 5" for t by (simp add: ask_userid_def checked_call_def sample_site_def js_get_def)
  then have "cache_ok sample_site [(''t'', 5)]" by (auto simp: cache_ok_def sample_site_def split: if_splits)
  moreover have "inj (token_digest sample_site)" by (simp add: sample_site_def inj_def)
  ultimately show ?thesis using cached_check_agrees [of sample_site "[(''t'', 5)]" "''t''" 1] by (simp add: USERID_CACHE_SIZE_def)
qed

end
