(* ===== verification/MirrorFacts.thy ===== *)
theory MirrorFacts
  imports MoodleMirror
begin

text \<open>
  What the mirror of a Moodle answer guarantees. A user's rows are seen as a \<open>shelf\<close>, a map from the key Moodle gives
  a row to the row; the Python dict of the code is an \<open>index\<close> of that shelf, kept in step with the table by every write.
  On the shelf one item of the answer is a point update (\<open>shelve\<close>), which the table operations refine.
\<close>

section \<open>Rows of one owner under their key\<close>

definition shelf :: "('r \<Rightarrow> bool) \<Rightarrow> ('r \<Rightarrow> 'k) \<Rightarrow> 'r list \<Rightarrow> 'k \<Rightarrow> 'r option" where
  "shelf mine key rows k = row_get key k (filter mine rows)"

definition rows_ok :: "('r \<Rightarrow> nat) \<Rightarrow> ('r \<Rightarrow> bool) \<Rightarrow> ('r \<Rightarrow> 'k) \<Rightarrow> 'r list \<Rightarrow> bool" where
  "rows_ok rid mine key rows \<longleftrightarrow> distinct (map rid rows) \<and> distinct (map key (filter mine rows))"

definition index_of :: "('r \<Rightarrow> nat) \<Rightarrow> ('k \<Rightarrow> 'r option) \<Rightarrow> ('k \<times> nat) list \<Rightarrow> bool" where
  "index_of rid m ex \<longleftrightarrow> distinct (map fst ex) \<and> map_of ex = (\<lambda>k. map_option rid (m k))"

lemma shelf_iff: "rows_ok rid mine key rows \<Longrightarrow> shelf mine key rows k = Some r \<longleftrightarrow> r \<in> set rows \<and> mine r \<and> key r = k"
  by (simp add: shelf_def rows_ok_def row_get_eq_iff)

lemma shelf_get: "rows_ok rid mine key rows \<Longrightarrow> shelf mine key rows k = Some r \<Longrightarrow> row_get rid (rid r) rows = Some r"
  using shelf_iff [of rid mine key rows k r] by (simp add: rows_ok_def row_get_in_set)

text \<open>Replacing a row, under the same key or under a free one.\<close>

lemma shelf_replace:
  assumes ok: "rows_ok rid mine key rows" and r: "shelf mine key rows k = Some r"
    and b: "rid b = rid r" "mine b" "key b = k \<or> shelf mine key rows (key b) = None"
  shows "shelf mine key (row_update rid (rid r) (\<lambda>_. b) rows) = (shelf mine key rows)(k := None, key b := Some b)"
    and "rows_ok rid mine key (row_update rid (rid r) (\<lambda>_. b) rows)"
proof -
  have m: "r \<in> set rows" "mine r" "key r = k" using shelf_iff [OF ok, of k r] r by simp_all
  obtain xs ys where rows: "rows = xs @ r # ys" using split_list [OF m(1)] by blast
  have d: "rid r \<notin> rid ` set xs" "rid r \<notin> rid ` set ys" "k \<notin> key ` set (filter mine xs)" "k \<notin> key ` set (filter mine ys)"
    using ok m(2,3) by (auto simp: rows_ok_def rows)
  have u: "row_update rid (rid r) (\<lambda>_. b) rows = xs @ b # ys"
    using row_update_absent [OF d(1), of "\<lambda>_. b"] row_update_absent [OF d(2), of "\<lambda>_. b"] by (simp add: rows row_update_def)
  have free: "key b \<notin> key ` set (filter mine xs)" "key b \<notin> key ` set (filter mine ys)"
    using b(3) d(3,4) by (auto simp: shelf_def row_get_None_iff rows simp del: row_get_append)
  have none: "row_get key x (filter mine xs) = None" if "x \<notin> key ` set (filter mine xs)" for x using that by (simp add: row_get_None_iff)
  show "shelf mine key (row_update rid (rid r) (\<lambda>_. b) rows) = (shelf mine key rows)(k := None, key b := Some b)"
  proof
    fix x
    have "row_get key k (filter mine ys) = None" "row_get key (key b) (filter mine ys) = None" using d(4) free(2) by (simp_all add: row_get_None_iff)
    then show "shelf mine key (row_update rid (rid r) (\<lambda>_. b) rows) x = ((shelf mine key rows)(k := None, key b := Some b)) x"
      unfolding u unfolding shelf_def rows using b(2) m(2,3) none [OF d(3)] none [OF free(1)] by (auto split: option.split)
  qed
  show "rows_ok rid mine key (row_update rid (rid r) (\<lambda>_. b) rows)"
    using ok free b(1,2) m(2) unfolding u by (auto simp: rows_ok_def rows)
qed

lemma row_get_snoc:
  assumes "row_get key (key r) xs = None"
  shows "(\<lambda>k. row_get key k (xs @ [r])) = (\<lambda>k. row_get key k xs)(key r := Some r)"
  using assms by (auto simp: fun_eq_iff simp del: row_get_Cons split: option.split) (simp_all add: row_get_def)

lemma shelf_insert:
  assumes ok: "rows_ok rid mine key rows" and b: "rid b \<notin> rid ` set rows" "mine b" "shelf mine key rows (key b) = None"
  shows "shelf mine key (rows @ [b]) = (shelf mine key rows)(key b := Some b)" and "rows_ok rid mine key (rows @ [b])"
  using row_get_snoc [of key b "filter mine rows"] b ok by (auto simp: rows_ok_def shelf_def [abs_def] row_get_None_iff)

lemma shelf_remove:
  assumes ok: "rows_ok rid mine key rows" and r: "shelf mine key rows k = Some r"
  shows "shelf mine key (filter (\<lambda>x. rid x \<noteq> rid r) rows) = (shelf mine key rows)(k := None)"
    and "rows_ok rid mine key (filter (\<lambda>x. rid x \<noteq> rid r) rows)"
proof -
  have m: "r \<in> set rows" "mine r" "key r = k" using shelf_iff [OF ok, of k r] r by simp_all
  show o: "rows_ok rid mine key (filter (\<lambda>x. rid x \<noteq> rid r) rows)"
    using ok unfolding rows_ok_def filter_filter by (simp add: distinct_map inj_on_def)
  show "shelf mine key (filter (\<lambda>x. rid x \<noteq> rid r) rows) = (shelf mine key rows)(k := None)"
  proof
    fix x
    have same: "rid y = rid r \<longleftrightarrow> y = r" if "y \<in> set rows" for y using ok that m(1) by (auto simp: rows_ok_def distinct_map inj_on_def)
    have "shelf mine key (filter (\<lambda>x. rid x \<noteq> rid r) rows) x = Some y \<longleftrightarrow> y \<in> set rows \<and> mine y \<and> key y = x \<and> y \<noteq> r" for y
      using shelf_iff [OF o, of x y] same [of y] by auto
    moreover have "((shelf mine key rows)(k := None)) x = Some y \<longleftrightarrow> y \<in> set rows \<and> mine y \<and> key y = x \<and> x \<noteq> k" for y
      using shelf_iff [OF ok, of x y] by simp
    moreover have "y \<in> set rows \<and> mine y \<and> key y = x \<and> y \<noteq> r \<longleftrightarrow> y \<in> set rows \<and> mine y \<and> key y = x \<and> x \<noteq> k" for y
      using shelf_iff [OF ok, of k y] r m by auto
    ultimately have "shelf mine key (filter (\<lambda>x. rid x \<noteq> rid r) rows) x = Some y \<longleftrightarrow> ((shelf mine key rows)(k := None)) x = Some y" for y by blast
    then show "shelf mine key (filter (\<lambda>x. rid x \<noteq> rid r) rows) x = ((shelf mine key rows)(k := None)) x"
      by (metis option.exhaust)
  qed
qed

lemma index_put: "index_of rid m ex \<Longrightarrow> index_of rid (m(k := Some r)) (AList.update k (rid r) ex)"
  by (auto simp: index_of_def update_conv' distinct_update)

lemma index_drop: "index_of rid m ex \<Longrightarrow> index_of rid (m(k := None)) (AList.delete k ex)"
  by (auto simp: index_of_def delete_conv' distinct_delete)

lemma index_same: "index_of rid m ex \<Longrightarrow> m k = Some a \<Longrightarrow> rid b = rid a \<Longrightarrow> index_of rid (m(k := Some b)) ex"
  by (auto simp: index_of_def fun_eq_iff)

text \<open>The comprehension that builds the dict.\<close>

lemma index_build:
  assumes "rows_ok rid mine key rows"
  shows "index_of rid (shelf mine key rows) (fold (\<lambda>r. AList.update (key r) (rid r)) (filter mine rows) [])"
proof -
  have "distinct (map key xs) \<Longrightarrow> index_of rid (\<lambda>k. row_get key k xs) (fold (\<lambda>r. AList.update (key r) (rid r)) xs [])" for xs
  proof (induction xs rule: rev_induct)
    case (snoc r xs)
    then have "index_of rid ((\<lambda>k. row_get key k xs)(key r := Some r)) (AList.update (key r) (rid r) (fold (\<lambda>r. AList.update (key r) (rid r)) xs []))"
      by (intro index_put) simp
    moreover have "(\<lambda>k. row_get key k xs)(key r := Some r) = (\<lambda>k. row_get key k (xs @ [r]))"
      using snoc.prems row_get_snoc [of key r xs] by (simp add: row_get_None_iff)
    ultimately show ?case by simp
  qed (simp add: index_of_def)
  then show ?thesis using assms by (simp add: rows_ok_def shelf_def [abs_def])
qed

section \<open>The user's assignments\<close>

definition a_key :: "user_assignment \<Rightarrow> int \<times> int" where
  "a_key a = (ua_moodle_course a, ua_moodle_assignment a)"

definition fa_key :: "fetched_assignment \<Rightarrow> int \<times> int" where
  "fa_key item = (fa_course item, fa_id item)"

definition a_shelf :: "uuid \<Rightarrow> course_db \<Rightarrow> int \<times> int \<Rightarrow> user_assignment option" where
  "a_shelf u db = shelf (\<lambda>a. ua_user a = u) a_key (assignments (queue db))"

definition a_ok :: "uuid \<Rightarrow> course_db \<Rightarrow> bool" where
  "a_ok u db \<longleftrightarrow> rows_ok ua_id (\<lambda>a. ua_user a = u) a_key (assignments (queue db)) \<and> (\<forall>a \<in> set (assignments (queue db)). ua_id a < assignment_seq (queue db))"

definition others :: "uuid \<Rightarrow> course_db \<Rightarrow> user_assignment list" where
  "others u db = filter (\<lambda>a. ua_user a \<noteq> u) (assignments (queue db))"

text \<open>What one item of the answer does to the shelf.\<close>

definition refreshed :: "filing option \<Rightarrow> datetime \<Rightarrow> fetched_assignment \<Rightarrow> user_assignment \<Rightarrow> user_assignment" where
  "refreshed f now item a =
    (let ext = kept_extension item (ua_extension_due_at a) in mirror_row f now (with_extension item ext) (a\<lparr>ua_extension_due_at := ext\<rparr>))"

definition shelve :: "uuid \<Rightarrow> filing option \<Rightarrow> datetime \<Rightarrow> nat \<Rightarrow> fetched_assignment \<Rightarrow> (int \<times> int \<Rightarrow> user_assignment option) \<Rightarrow> int \<times> int \<Rightarrow> user_assignment option" where
  "shelve u f now i item m = (case m (fa_key item) of
     Some a \<Rightarrow> m(fa_key item := Some (refreshed f now item a))
   | None \<Rightarrow> (case m (0, fa_id item) of
       Some a \<Rightarrow> m((0, fa_id item) := None, fa_key item := Some (refreshed f now item (adopt_placeholder item a)))
     | None \<Rightarrow> m(fa_key item := Some (new_assignment u f now item i))))"

lemma log_assignment_frame [simp]:
  "assignments (queue (log_assignment u now i op names db)) = assignments (queue db)"
  "assignment_seq (queue (log_assignment u now i op names db)) = assignment_seq (queue db)"
  "courses (log_assignment u now i op names db) = courses db"
  "terms (queue (log_assignment u now i op names db)) = terms (queue db)"
  by (simp_all add: log_assignment_def)

lemma log_assignment_shelf [simp]:
  "a_shelf v (log_assignment u now i op names db) = a_shelf v db" "a_ok v (log_assignment u now i op names db) = a_ok v db"
  "others v (log_assignment u now i op names db) = others v db"
  by (simp_all add: a_shelf_def a_ok_def others_def)

lemma put_assignment_frame [simp]:
  "assignments (queue (put_assignment a db)) = row_update ua_id (ua_id a) (\<lambda>_. a) (assignments (queue db))"
  "assignment_seq (queue (put_assignment a db)) = assignment_seq (queue db)"
  "courses (put_assignment a db) = courses db" "terms (queue (put_assignment a db)) = terms (queue db)"
  "sync_log (queue (put_assignment a db)) = sync_log (queue db)"
  by (simp_all add: put_assignment_def)

lemma a_shelf_get: "a_ok u db \<Longrightarrow> a_shelf u db k = Some a \<Longrightarrow> assignment_of db (ua_id a) = Some a \<and> ua_user a = u \<and> a_key a = k \<and> a \<in> set (assignments (queue db))"
  using shelf_get [of ua_id "\<lambda>a. ua_user a = u" a_key "assignments (queue db)" k a] shelf_iff [of ua_id "\<lambda>a. ua_user a = u" a_key "assignments (queue db)" k a]
  by (simp add: a_ok_def a_shelf_def assignment_of_def)

lemma put_shelf:
  assumes ok: "a_ok u db" and a: "a_shelf u db k = Some a"
    and b: "ua_id b = ua_id a" "ua_user b = u" "a_key b = k \<or> a_shelf u db (a_key b) = None"
  shows "a_shelf u (put_assignment b db) = (a_shelf u db)(k := None, a_key b := Some b)" "a_ok u (put_assignment b db)"
    "others u (put_assignment b db) = others u db"
proof -
  have r: "rows_ok ua_id (\<lambda>a. ua_user a = u) a_key (assignments (queue db))" using ok by (simp add: a_ok_def)
  note rep = shelf_replace [OF r, of k a b]
  show "a_shelf u (put_assignment b db) = (a_shelf u db)(k := None, a_key b := Some b)" using rep(1) a b by (simp add: a_shelf_def)
  have m: "a \<in> set (assignments (queue db))" "ua_user a = u" using a_shelf_get [OF ok a] by simp_all
  have "\<forall>x \<in> set (assignments (queue db)). ua_id x < assignment_seq (queue db)" using ok by (simp add: a_ok_def)
  then show "a_ok u (put_assignment b db)" using rep(2) a b m by (auto simp: a_ok_def a_shelf_def row_update_def)
  have "\<forall>x \<in> set (assignments (queue db)). ua_id x = ua_id a \<longrightarrow> x = a" using r m(1) by (auto simp: rows_ok_def distinct_map inj_on_def)
  then have "filter (\<lambda>a. ua_user a \<noteq> u) (row_update ua_id (ua_id a) (\<lambda>_. b) rows) = filter (\<lambda>a. ua_user a \<noteq> u) rows"
    if "set rows \<subseteq> set (assignments (queue db))" for rows using that b(2) m(2) by (induction rows) auto
  then show "others u (put_assignment b db) = others u db" by (simp add: others_def b(1))
qed

lemma insert_shelf:
  assumes ok: "a_ok u db" and b: "ua_id b = assignment_seq (queue db)" "ua_user b = u" "a_shelf u db (a_key b) = None"
    and db': "assignments (queue db') = assignments (queue db) @ [b]" "assignment_seq (queue db') = Suc (assignment_seq (queue db))"
  shows "a_shelf u db' = (a_shelf u db)(a_key b := Some b)" "a_ok u db'" "others u db' = others u db"
proof -
  have r: "rows_ok ua_id (\<lambda>a. ua_user a = u) a_key (assignments (queue db))" and i: "ua_id b \<notin> ua_id ` set (assignments (queue db))"
    using ok b(1) by (auto simp: a_ok_def)
  note ins = shelf_insert [OF r i]
  show "a_shelf u db' = (a_shelf u db)(a_key b := Some b)" using ins(1) b by (simp add: a_shelf_def db')
  have "rows_ok ua_id (\<lambda>a. ua_user a = u) a_key (assignments (queue db'))" using ins(2) b by (simp add: a_shelf_def db')
  then show "a_ok u db'" using ok b(1) unfolding a_ok_def db'(2) by (auto simp: db'(1))
  show "others u db' = others u db" by (simp add: others_def db' b(2))
qed

text \<open>Frames of the rows the mirror writes.\<close>

lemma with_extension_key [simp]: "fa_key (with_extension item ext) = fa_key item" "fa_course (with_extension item ext) = fa_course item" "fa_id (with_extension item ext) = fa_id item"
  by (simp_all add: with_extension_def fa_key_def split: option.split)

lemma mirror_row_frame [simp]:
  "ua_id (mirror_row f now item a) = ua_id a" "ua_user (mirror_row f now item a) = ua_user a" "a_key (mirror_row f now item a) = a_key a"
  "ua_is_submitted (mirror_row f now item a) = ua_is_submitted a" "ua_submitted_at (mirror_row f now item a) = ua_submitted_at a"
  "ua_deleted_at (mirror_row f now item a) = None" "ua_extension_due_at (mirror_row f now item a) = ua_extension_due_at a"
  by (simp_all add: mirror_row_def a_key_def)

lemma refreshed_frame [simp]:
  "ua_id (refreshed f now item a) = ua_id a" "ua_user (refreshed f now item a) = ua_user a" "a_key (refreshed f now item a) = a_key a"
  "ua_is_submitted (refreshed f now item a) = ua_is_submitted a" "ua_submitted_at (refreshed f now item a) = ua_submitted_at a"
  "ua_deleted_at (refreshed f now item a) = None" "ua_extension_due_at (refreshed f now item a) = kept_extension item (ua_extension_due_at a)"
  by (simp_all add: refreshed_def Let_def a_key_def) (simp_all add: mirror_row_def)

lemma adopt_frame [simp]:
  "ua_id (adopt_placeholder item a) = ua_id a" "ua_user (adopt_placeholder item a) = ua_user a"
  "a_key (adopt_placeholder item a) = (fa_course item, ua_moodle_assignment a)"
  "ua_is_submitted (adopt_placeholder item a) = ua_is_submitted a" "ua_submitted_at (adopt_placeholder item a) = ua_submitted_at a"
  by (simp_all add: adopt_placeholder_def a_key_def)

lemma new_assignment_frame [simp]:
  "ua_id (new_assignment u f now item i) = i" "ua_user (new_assignment u f now item i) = u" "a_key (new_assignment u f now item i) = fa_key item"
  "ua_deleted_at (new_assignment u f now item i) = None" "ua_extension_due_at (new_assignment u f now item i) = None"
  "\<not> ua_is_submitted (new_assignment u f now item i)"
  by (simp_all add: new_assignment_def a_key_def fa_key_def)

section \<open>One item\<close>

definition mirror_ok :: "uuid \<Rightarrow> mirror_state \<Rightarrow> bool" where
  "mirror_ok u st \<longleftrightarrow> a_ok u (ms_db st) \<and> index_of ua_id (a_shelf u (ms_db st)) (ms_existing st)"

text \<open>What a step leaves alone.\<close>

definition same_filing :: "course_db \<Rightarrow> course_db \<Rightarrow> bool" where
  "same_filing db db' \<longleftrightarrow> courses db' = courses db \<and> terms (queue db') = terms (queue db)"

definition moved_on :: "uuid \<Rightarrow> fetched_assignment \<Rightarrow> mirror_state \<Rightarrow> mirror_state \<Rightarrow> bool" where
  "moved_on u item st st' \<longleftrightarrow> mirror_ok u st' \<and> others u (ms_db st') = others u (ms_db st) \<and> same_filing (ms_db st) (ms_db st') \<and>
     ms_seen st' = fa_key item # ms_seen st"

definition moved_fields :: "filing option \<Rightarrow> fetched_assignment \<Rightarrow> user_assignment \<Rightarrow> string list" where
  "moved_fields f item a =
    (let ext = kept_extension item (ua_extension_due_at a) in changed_fields f (with_extension item ext) (a\<lparr>ua_extension_due_at := ext\<rparr>))"

lemma mirror_known:
  assumes ok: "mirror_ok u st" and a: "a_shelf u (ms_db st) (fa_key item) = Some a"
  shows "a_shelf u (ms_db (mirror_item u f now item st)) = (a_shelf u (ms_db st))(fa_key item := Some (refreshed f now item a))"
    "moved_on u item st (mirror_item u f now item st)"
    "moved_fields f item a = [] \<Longrightarrow> ms_changed (mirror_item u f now item st) = ms_changed st \<and>
       sync_log (queue (ms_db (mirror_item u f now item st))) = sync_log (queue (ms_db st))"
    "ua_due_at a = ua_due_at (refreshed f now item a) \<Longrightarrow> ms_recheck (mirror_item u f now item st) = ms_recheck st"
proof -
  let ?db = "ms_db st" and ?st' = "mirror_item u f now item st" and ?b = "refreshed f now item a"
  have g: "assignment_of ?db (ua_id a) = Some a" "ua_user a = u" "a_key a = fa_key item" using a_shelf_get [OF _ a] ok by (simp_all add: mirror_ok_def)
  have i: "map_of (ms_existing st) (fa_key item) = Some (ua_id a)" using ok a by (simp add: mirror_ok_def index_of_def)
  note P = put_shelf [OF _ a, of ?b, simplified g refreshed_frame]
  have sh: "a_shelf u (put_assignment ?b ?db) = (a_shelf u ?db)(fa_key item := Some ?b)" "a_ok u (put_assignment ?b ?db)" "others u (put_assignment ?b ?db) = others u ?db"
    using P ok by (simp_all add: mirror_ok_def)
  have e1: "ms_db ?st' = (if moved_fields f item a = [] then put_assignment ?b ?db
      else log_assignment u now (ua_id a) ''upsert'' (Some (moved_fields f item a)) (put_assignment ?b ?db))"
    and e: "ms_existing ?st' = ms_existing st" "ms_seen ?st' = fa_key item # ms_seen st"
    and quiet: "moved_fields f item a = [] \<longrightarrow> ms_changed ?st' = ms_changed st"
    and dates: "ms_recheck ?st' = (if later_than (ua_due_at a) (ua_due_at ?b) then fa_id item # ms_recheck st else ms_recheck st)"
    unfolding mirror_item_def Let_def fa_key_def [symmetric] i by (simp_all add: g(1) refreshed_def moved_fields_def Let_def mirror_row_def)
  show s': "a_shelf u (ms_db ?st') = (a_shelf u ?db)(fa_key item := Some ?b)" using sh(1) by (simp add: e1)
  have "index_of ua_id (a_shelf u (ms_db ?st')) (ms_existing ?st')" unfolding s' e(1) using ok by (intro index_same [where a = a]) (simp_all add: mirror_ok_def a)
  then show "moved_on u item st ?st'" using sh(2,3) e(2) by (simp add: moved_on_def mirror_ok_def same_filing_def e1)
  show "moved_fields f item a = [] \<Longrightarrow> ms_changed ?st' = ms_changed st \<and> sync_log (queue (ms_db ?st')) = sync_log (queue ?db)" using quiet by (simp add: e1)
  show "ua_due_at a = ua_due_at ?b \<Longrightarrow> ms_recheck ?st' = ms_recheck st" unfolding dates by (simp add: later_than_def split: option.split)
qed

lemma mirror_placeholder:
  assumes ok: "mirror_ok u st" and n: "a_shelf u (ms_db st) (fa_key item) = None" and a: "a_shelf u (ms_db st) (0, fa_id item) = Some a"
  shows "a_shelf u (ms_db (mirror_item u f now item st)) =
      (a_shelf u (ms_db st))((0, fa_id item) := None, fa_key item := Some (refreshed f now item (adopt_placeholder item a)))"
    "moved_on u item st (mirror_item u f now item st)"
proof -
  let ?db = "ms_db st" and ?st' = "mirror_item u f now item st" and ?b = "refreshed f now item (adopt_placeholder item a)"
  have g: "assignment_of ?db (ua_id a) = Some a" "ua_user a = u" "a_key a = (0, fa_id item)" using a_shelf_get [OF _ a] ok by (simp_all add: mirror_ok_def)
  have i: "map_of (ms_existing st) (fa_key item) = None" "map_of (ms_existing st) (0, fa_id item) = Some (ua_id a)"
    using ok a n by (simp_all add: mirror_ok_def index_of_def)
  have "ua_moodle_assignment a = fa_id item" using g(3) by (simp add: a_key_def)
  then have k: "a_key ?b = fa_key item" by (simp add: fa_key_def)
  note P = put_shelf [OF _ a, of ?b, unfolded k]
  have sh: "a_shelf u (put_assignment ?b ?db) = (a_shelf u ?db)((0, fa_id item) := None, fa_key item := Some ?b)"
      "a_ok u (put_assignment ?b ?db)" "others u (put_assignment ?b ?db) = others u ?db"
    using P ok n g(2) by (simp_all add: mirror_ok_def)
  have e1: "ms_db ?st' = log_assignment u now (ua_id a) ''upsert'' (Some (''moodle_course_id'' # changed_fields f
      (with_extension item (kept_extension item (ua_extension_due_at (adopt_placeholder item a))))
      ((adopt_placeholder item a)\<lparr>ua_extension_due_at := kept_extension item (ua_extension_due_at (adopt_placeholder item a))\<rparr>))) (put_assignment ?b ?db)"
    and e: "ms_existing ?st' = AList.update (fa_key item) (ua_id ?b) (AList.delete (0, fa_id item) (ms_existing st))" "ms_seen ?st' = fa_key item # ms_seen st"
    unfolding mirror_item_def Let_def fa_key_def [symmetric] i by (simp_all add: g(1) refreshed_def Let_def)
  show s': "a_shelf u (ms_db ?st') = (a_shelf u ?db)((0, fa_id item) := None, fa_key item := Some ?b)" using sh(1) by (simp add: e1)
  have "index_of ua_id (a_shelf u (ms_db ?st')) (ms_existing ?st')" unfolding s' e(1) using ok by (intro index_put index_drop) (simp add: mirror_ok_def)
  then show "moved_on u item st ?st'" using sh(2,3) e(2) by (simp add: moved_on_def mirror_ok_def same_filing_def e1)
qed

lemma mirror_new:
  assumes ok: "mirror_ok u st" and n: "a_shelf u (ms_db st) (fa_key item) = None" "a_shelf u (ms_db st) (0, fa_id item) = None"
  shows "a_shelf u (ms_db (mirror_item u f now item st)) =
      (a_shelf u (ms_db st))(fa_key item := Some (new_assignment u f now item (assignment_seq (queue (ms_db st)))))"
    "moved_on u item st (mirror_item u f now item st)"
proof -
  let ?db = "ms_db st" and ?st' = "mirror_item u f now item st" and ?b = "new_assignment u f now item (assignment_seq (queue (ms_db st)))"
  let ?db1 = "?db\<lparr>queue := (queue ?db)\<lparr>assignments := assignments (queue ?db) @ [?b], assignment_seq := Suc (assignment_seq (queue ?db))\<rparr>\<rparr>"
  have i: "map_of (ms_existing st) (fa_key item) = None" "map_of (ms_existing st) (0, fa_id item) = None"
    using ok n by (simp_all add: mirror_ok_def index_of_def)
  have sh: "a_shelf u ?db1 = (a_shelf u ?db)(fa_key item := Some ?b)" "a_ok u ?db1" "others u ?db1 = others u ?db"
    using insert_shelf [of u ?db ?b ?db1] ok n by (simp_all add: mirror_ok_def)
  have e1: "ms_db ?st' = log_assignment u now (assignment_seq (queue ?db)) ''upsert'' (Some PROVIDER_FIELDS) ?db1"
    and e: "ms_existing ?st' = AList.update (fa_key item) (ua_id ?b) (ms_existing st)" "ms_seen ?st' = fa_key item # ms_seen st"
    unfolding mirror_item_def Let_def fa_key_def [symmetric] i by simp_all
  show s': "a_shelf u (ms_db ?st') = (a_shelf u ?db)(fa_key item := Some ?b)" using sh(1) by (simp add: e1)
  have "index_of ua_id (a_shelf u (ms_db ?st')) (ms_existing ?st')" unfolding s' e(1) using ok by (intro index_put) (simp add: mirror_ok_def)
  then show "moved_on u item st ?st'" using sh(2,3) e(2) by (simp add: moved_on_def mirror_ok_def same_filing_def e1)
qed

lemma mirror_item_refines:
  assumes "mirror_ok u st"
  shows "a_shelf u (ms_db (mirror_item u f now item st)) = shelve u f now (assignment_seq (queue (ms_db st))) item (a_shelf u (ms_db st)) \<and>
    moved_on u item st (mirror_item u f now item st)"
  using mirror_known [OF assms, of item] mirror_placeholder [OF assms, of item] mirror_new [OF assms, of item]
  by (simp add: shelve_def split: option.split)

section \<open>A whole answer\<close>

text \<open>A row shows an item: every field Moodle owns, the dates with the extension that is still later than the listed one, and the link
  to the class table.\<close>

definition shows_item :: "filing option \<Rightarrow> fetched_assignment \<Rightarrow> user_assignment \<Rightarrow> bool" where
  "shows_item f item a \<longleftrightarrow> ua_deleted_at a = None \<and> kept_extension item (ua_extension_due_at a) = ua_extension_due_at a \<and>
     ua_due_at a = fa_due_at (with_extension item (ua_extension_due_at a)) \<and> ua_cutoff_at a = fa_cutoff_at (with_extension item (ua_extension_due_at a)) \<and>
     ua_title a = fa_title item \<and> ua_course_name a = fa_course_name item \<and> ua_allow_from_at a = fa_allow_from_at item \<and>
     ua_moodle_url a = fa_moodle_url item \<and> ua_intro_html a = fa_intro_html item \<and>
     (f = None \<or> ua_user_course a = linked_course f item \<and> (course_no_of f item = None \<or> ua_course_no a = course_no_of f item))"

text \<open>The row an item starts from, and what a row keeps of it.\<close>

definition stored_before :: "(int \<times> int \<Rightarrow> user_assignment option) \<Rightarrow> fetched_assignment \<Rightarrow> user_assignment option" where
  "stored_before m item = (case m (fa_key item) of Some a \<Rightarrow> Some a | None \<Rightarrow> m (0, fa_id item))"

definition continues :: "user_assignment option \<Rightarrow> user_assignment \<Rightarrow> bool" where
  "continues prev a = (case prev of
     None \<Rightarrow> \<not> ua_is_submitted a
   | Some b \<Rightarrow> ua_id a = ua_id b \<and> ua_is_submitted a = ua_is_submitted b \<and> ua_submitted_at a = ua_submitted_at b)"

lemma with_extension_fields [simp]:
  "fa_title (with_extension item e) = fa_title item" "fa_course_name (with_extension item e) = fa_course_name item"
  "fa_allow_from_at (with_extension item e) = fa_allow_from_at item" "fa_moodle_url (with_extension item e) = fa_moodle_url item"
  "fa_intro_html (with_extension item e) = fa_intro_html item" "course_no_of f (with_extension item e) = course_no_of f item"
  "linked_course f (with_extension item e) = linked_course f item"
  by (simp_all add: with_extension_def course_no_of_def linked_course_def split: option.split)

lemma kept_extension_idem [simp]: "kept_extension item (kept_extension item e) = kept_extension item e"
  by (simp add: kept_extension_def split: option.split)

lemma refreshed_shows: "shows_item f item (refreshed f now item a)"
  by (simp add: shows_item_def refreshed_def Let_def) (simp add: mirror_row_def)

lemma new_shows: "shows_item f item (new_assignment u f now item i)"
  by (simp add: shows_item_def new_assignment_def kept_extension_def with_extension_def)

lemma shows_unmoved: "shows_item f item a \<Longrightarrow> moved_fields f item a = [] \<and> ua_due_at a = ua_due_at (refreshed f now item a)"
  by (auto simp: shows_item_def moved_fields_def changed_fields_def refreshed_def mirror_row_def Let_def)

lemma shelve_item:
  "\<exists>a. shelve u f now i item m (fa_key item) = Some a \<and> shows_item f item a \<and> continues (stored_before m item) a"
  by (auto simp: shelve_def stored_before_def continues_def refreshed_shows new_shows split: option.split)

lemma shelve_other: "k \<noteq> fa_key item \<Longrightarrow> k \<noteq> (0, fa_id item) \<Longrightarrow> shelve u f now i item m k = m k"
  by (simp add: shelve_def split: option.split)

definition answer_ok :: "fetched_assignment list \<Rightarrow> bool" where
  "answer_ok fetched \<longleftrightarrow> distinct (map fa_id fetched) \<and> (\<forall>item \<in> set fetched. fa_course item \<noteq> 0)"

lemma mirror_fold:
  fixes f :: "filing option" and now :: datetime
  assumes "mirror_ok u st" "answer_ok fetched"
  defines "st' \<equiv> fold (mirror_item u f now) fetched st"
  shows "mirror_ok u st' \<and> others u (ms_db st') = others u (ms_db st) \<and> same_filing (ms_db st) (ms_db st') \<and>
    ms_seen st' = rev (map fa_key fetched) @ ms_seen st \<and>
    (\<forall>k. snd k \<notin> fa_id ` set fetched \<longrightarrow> a_shelf u (ms_db st') k = a_shelf u (ms_db st) k) \<and>
    (\<forall>item \<in> set fetched. \<exists>a. a_shelf u (ms_db st') (fa_key item) = Some a \<and> shows_item f item a \<and> continues (stored_before (a_shelf u (ms_db st)) item) a)"
  using assms(2) unfolding st'_def
proof (induction fetched rule: rev_induct)
  case (snoc x xs)
  define st1 where "st1 = fold (mirror_item u f now) xs st"
  define st2 where "st2 = mirror_item u f now x st1"
  have e: "fold (mirror_item u f now) (xs @ [x]) st = st2" by (simp add: st1_def st2_def)
  have ans: "answer_ok xs" "fa_id x \<notin> fa_id ` set xs" using snoc.prems by (auto simp: answer_ok_def)
  note IH = snoc.IH [OF ans(1), folded st1_def]
  have r: "a_shelf u (ms_db st2) = shelve u f now (assignment_seq (queue (ms_db st1))) x (a_shelf u (ms_db st1))" "moved_on u x st1 st2"
    using mirror_item_refines [of u st1 f now x] IH by (simp_all add: st2_def)
  have old: "a_shelf u (ms_db st1) k = a_shelf u (ms_db st) k" if "snd k \<notin> fa_id ` set xs" for k using IH that by blast
  have sb: "stored_before (a_shelf u (ms_db st1)) x = stored_before (a_shelf u (ms_db st)) x"
    using old [of "fa_key x"] old [of "(0, fa_id x)"] ans(2) by (simp add: stored_before_def fa_key_def split: option.split)
  have "\<exists>a. a_shelf u (ms_db st2) (fa_key item) = Some a \<and> shows_item f item a \<and> continues (stored_before (a_shelf u (ms_db st)) item) a"
    if "item \<in> set (xs @ [x])" for item
  proof (cases "item = x")
    case True
    then show ?thesis using shelve_item [of u f now _ x "a_shelf u (ms_db st1)"] by (simp add: r(1) sb)
  next
    case False
    then have i: "item \<in> set xs" using that by simp
    then have "fa_id item \<noteq> fa_id x" using ans(2) by (metis image_eqI)
    then have "a_shelf u (ms_db st2) (fa_key item) = a_shelf u (ms_db st1) (fa_key item)"
      unfolding r(1) by (intro shelve_other) (simp_all add: fa_key_def)
    then show ?thesis using IH i by simp
  qed
  moreover have "a_shelf u (ms_db st2) k = a_shelf u (ms_db st) k" if k: "snd k \<notin> fa_id ` set (xs @ [x])" for k
  proof -
    have "k \<noteq> fa_key x" "k \<noteq> (0, fa_id x)" using k by (auto simp: fa_key_def)
    then have "a_shelf u (ms_db st2) k = a_shelf u (ms_db st1) k" unfolding r(1) by (rule shelve_other)
    then show ?thesis using old [of k] k by simp
  qed
  moreover have "mirror_ok u st2" "others u (ms_db st2) = others u (ms_db st)" "same_filing (ms_db st) (ms_db st2)" "ms_seen st2 = rev (map fa_key (xs @ [x])) @ ms_seen st"
    using r(2) IH by (simp_all add: moved_on_def same_filing_def)
  ultimately show ?case unfolding e by blast
qed (use assms(1) in \<open>simp add: same_filing_def\<close>)

section \<open>The rows an answer leaves out\<close>

definition spared :: "int list \<Rightarrow> user_assignment \<Rightarrow> bool" where
  "spared refused a \<longleftrightarrow> refused \<noteq> [] \<and> (ua_moodle_course a = 0 \<or> ua_moodle_course a \<in> set refused)"

definition left_out :: "datetime \<Rightarrow> int list \<Rightarrow> user_assignment \<Rightarrow> user_assignment" where
  "left_out now refused a = (if ua_deleted_at a \<noteq> None \<or> spared refused a then a else a\<lparr>ua_deleted_at := Some now\<rparr>)"

lemma mirror_left_out_step:
  fixes now :: datetime and refused :: "int list" and seen :: "(int \<times> int) list" and n :: nat
  assumes ok: "a_ok u db" and a: "a_shelf u db k = Some a" "ua_id a = i"
  defines "db' \<equiv> snd (mirror_left_out u now refused seen (k, i) (n, db))"
  shows "a_ok u db' \<and> others u db' = others u db \<and> same_filing db db' \<and>
    a_shelf u db' = (a_shelf u db)(k := Some (if k \<in> set seen then a else left_out now refused a))"
proof -
  have g: "assignment_of db i = Some a" "ua_user a = u" "a_key a = k" using a_shelf_get [OF ok a(1)] a(2) by simp_all
  have kb: "a_key (a\<lparr>ua_deleted_at := Some now\<rparr>) = k" using g(3) by (simp add: a_key_def)
  note P = put_shelf [OF ok a(1), of "a\<lparr>ua_deleted_at := Some now\<rparr>", unfolded kb]
  show ?thesis
  proof (cases "k \<in> set seen \<or> ua_deleted_at a \<noteq> None \<or> spared refused a")
    case True
    then have "db' = db" by (auto simp: db'_def mirror_left_out_def g(1) spared_def)
    then show ?thesis using True ok a(1) by (auto simp: same_filing_def left_out_def fun_upd_idem)
  next
    case False
    then have "db' = log_assignment u now i ''delete'' None (put_assignment (a\<lparr>ua_deleted_at := Some now\<rparr>) db)"
      by (auto simp: db'_def mirror_left_out_def g(1) spared_def)
    then show ?thesis using False P g(2) by (simp add: same_filing_def left_out_def)
  qed
qed

lemma mirror_left_out_fold:
  fixes now :: datetime and refused :: "int list" and seen :: "(int \<times> int) list" and n :: nat
  assumes "a_ok u db" "distinct (map fst es)" "\<And>k i. (k, i) \<in> set es \<Longrightarrow> \<exists>a. a_shelf u db k = Some a \<and> ua_id a = i"
  defines "db' \<equiv> snd (fold (mirror_left_out u now refused seen) es (n, db))"
  shows "a_ok u db' \<and> others u db' = others u db \<and> same_filing db db' \<and>
    (\<forall>k. a_shelf u db' k = (if k \<in> fst ` set es \<and> k \<notin> set seen then map_option (left_out now refused) (a_shelf u db k) else a_shelf u db k))"
  using assms(1-3) unfolding db'_def
proof (induction es arbitrary: n db)
  case (Cons e es)
  obtain k i where e: "e = (k, i)" by fastforce
  obtain a where a: "a_shelf u db k = Some a" "ua_id a = i" using Cons.prems(3) [of k i] e by auto
  obtain n1 db1 where s: "mirror_left_out u now refused seen (k, i) (n, db) = (n1, db1)" by fastforce
  have s1: "a_ok u db1" "others u db1 = others u db" "same_filing db db1" and
    sh: "a_shelf u db1 = (a_shelf u db)(k := Some (if k \<in> set seen then a else left_out now refused a))"
    using mirror_left_out_step [OF Cons.prems(1) a, of now refused seen n] by (simp_all add: s)
  have k: "k \<notin> fst ` set es" using Cons.prems(2) by (simp add: e)
  have "\<exists>a. a_shelf u db1 x = Some a \<and> ua_id a = j" if "(x, j) \<in> set es" for x j
  proof -
    have "x \<noteq> k" using k that by force
    then show ?thesis using Cons.prems(3) [of x j] that by (simp add: sh)
  qed
  note ih = Cons.IH [OF s1(1) _ this, of n1]
  then have IH: "a_ok u (snd (fold (mirror_left_out u now refused seen) es (n1, db1)))" "others u (snd (fold (mirror_left_out u now refused seen) es (n1, db1))) = others u db1"
      "same_filing db1 (snd (fold (mirror_left_out u now refused seen) es (n1, db1)))"
      "\<And>x. a_shelf u (snd (fold (mirror_left_out u now refused seen) es (n1, db1))) x =
        (if x \<in> fst ` set es \<and> x \<notin> set seen then map_option (left_out now refused) (a_shelf u db1 x) else a_shelf u db1 x)"
    using Cons.prems(2) unfolding e by (auto simp del: split_paired_All)
  show ?case unfolding e using IH s1 k a(1) by (auto simp: s sh same_filing_def)
qed (simp add: same_filing_def)

lemma mirror_left_out_idle:
  assumes "\<And>k i. (k, i) \<in> set es \<Longrightarrow> k \<in> set seen \<or> ua_deleted_at (the (assignment_of db i)) \<noteq> None"
  shows "fold (mirror_left_out u now refused seen) es (n, db) = (n, db)"
  using assms
proof (induction es)
  case (Cons e es)
  obtain k i where e: "e = (k, i)" by fastforce
  have "mirror_left_out u now refused seen e (n, db) = (n, db)" using Cons.prems [of k i] by (auto simp: mirror_left_out_def e)
  then show ?case using Cons by simp
qed simp

section \<open>The mirror\<close>

lemma file_courses_same:
  assumes "courses db' = courses db" "current_term_code (terms (queue db')) now' = current_term_code (terms (queue db)) now"
  shows "file_courses uni u now' enrolled db' = file_courses uni u now enrolled db"
  unfolding file_courses_def assms ..

lemma lock_user_mirror [simp]:
  "a_shelf v (lock_user u db) = a_shelf v db" "a_ok v (lock_user u db) = a_ok v db" "others v (lock_user u db) = others v db"
  "file_courses uni v now enrolled (lock_user u db) = file_courses uni v now enrolled db"
  "assignments (queue (lock_user u db)) = assignments (queue db)" "same_filing (lock_user u db) db' = same_filing db db'"
proof -
  show "file_courses uni v now enrolled (lock_user u db) = file_courses uni v now enrolled db" by (rule file_courses_same) (simp_all add: lock_user_def)
qed (simp_all add: lock_user_def a_shelf_def a_ok_def others_def same_filing_def)

text \<open>The states of a run: after the items, and at the end.\<close>

definition after_items :: "unicode \<Rightarrow> uuid \<Rightarrow> fetched_assignment list \<Rightarrow> datetime \<Rightarrow> fetched_course list option \<Rightarrow> course_db \<Rightarrow> mirror_state" where
  "after_items uni u fetched now enrolled db = fold (mirror_item u (file_courses uni u now enrolled db) now) fetched
    \<lparr>ms_db = lock_user u db,
     ms_existing = fold (\<lambda>a. AList.update (a_key a) (ua_id a)) (filter (\<lambda>a. ua_user a = u) (assignments (queue db))) [],
     ms_changed = 0, ms_seen = [], ms_recheck = []\<rparr>"

lemma apply_as_items:
  "apply_fetched_assignments uni u fetched now enrolled refused db =
    (let st = after_items uni u fetched now enrolled db; (n, db1) = fold (mirror_left_out u now refused (ms_seen st)) (ms_existing st) (ms_changed st, ms_db st)
     in (\<lparr>fetched_count = length fetched, changed_count = n, recheck_ids = remdups (ms_recheck st)\<rparr>, db1))"
  by (simp add: apply_fetched_assignments_def after_items_def Let_def a_key_def)

lemma start_ok:
  assumes "a_ok u db"
  shows "mirror_ok u \<lparr>ms_db = lock_user u db,
     ms_existing = fold (\<lambda>a. AList.update (a_key a) (ua_id a)) (filter (\<lambda>a. ua_user a = u) (assignments (queue db))) [],
     ms_changed = c, ms_seen = sn, ms_recheck = rc\<rparr>"
  using assms index_build [of ua_id "\<lambda>a. ua_user a = u" a_key "assignments (queue db)"] unfolding a_ok_def
  by (simp add: mirror_ok_def a_shelf_def) (simp add: a_ok_def)

lemma after_items_facts:
  fixes uni :: unicode and now :: datetime and enrolled :: "fetched_course list option"
  assumes "a_ok u db" "answer_ok fetched"
  defines "st \<equiv> after_items uni u fetched now enrolled db"
  shows "mirror_ok u st" "others u (ms_db st) = others u db" "same_filing db (ms_db st)" "set (ms_seen st) = fa_key ` set fetched"
    "\<forall>item \<in> set fetched. \<exists>a. a_shelf u (ms_db st) (fa_key item) = Some a \<and> shows_item (file_courses uni u now enrolled db) item a \<and>
       continues (stored_before (a_shelf u db) item) a"
  using mirror_fold [OF start_ok [OF assms(1)] assms(2), of "file_courses uni u now enrolled db" now 0 "[]" "[]"]
  by (simp_all add: st_def after_items_def)

lemma index_entry: "index_of ua_id m ex \<Longrightarrow> (k, i) \<in> set ex \<Longrightarrow> \<exists>a. m k = Some a \<and> ua_id a = i"
  by (auto simp: index_of_def fun_eq_iff dest!: map_of_is_SomeI)

lemma index_keys: "index_of ua_id m ex \<Longrightarrow> k \<in> fst ` set ex \<longleftrightarrow> m k \<noteq> None"
  by (metis index_of_def map_of_eq_None_iff option.map_disc_iff)

lemma apply_facts:
  fixes uni :: unicode and now :: datetime and enrolled :: "fetched_course list option" and refused :: "int list"
  assumes "a_ok u db" "answer_ok fetched"
  defines "st \<equiv> after_items uni u fetched now enrolled db" and "db' \<equiv> snd (apply_fetched_assignments uni u fetched now enrolled refused db)"
  shows "a_ok u db'" "others u db' = others u db" "same_filing db db'"
    "a_shelf u db' k = (if k \<in> fa_key ` set fetched then a_shelf u (ms_db st) k else map_option (left_out now refused) (a_shelf u (ms_db st) k))"
proof -
  note F = after_items_facts [OF assms(1,2), of uni now enrolled, folded st_def]
  have x: "index_of ua_id (a_shelf u (ms_db st)) (ms_existing st)" "a_ok u (ms_db st)" "distinct (map fst (ms_existing st))"
    using F(1) by (simp_all add: mirror_ok_def index_of_def)
  have e: "db' = snd (fold (mirror_left_out u now refused (ms_seen st)) (ms_existing st) (ms_changed st, ms_db st))"
    by (simp add: db'_def apply_as_items st_def Let_def split_beta)
  note L = mirror_left_out_fold [OF x(2,3) index_entry [OF x(1)], of now refused "ms_seen st" "ms_changed st", folded e]
  show "a_ok u db'" "others u db' = others u db" "same_filing db db'" using L F(2,3) by (simp_all add: same_filing_def)
  have "a_shelf u db' k = (if k \<in> fst ` set (ms_existing st) \<and> k \<notin> set (ms_seen st)
      then map_option (left_out now refused) (a_shelf u (ms_db st) k) else a_shelf u (ms_db st) k)" using L by blast
  then show "a_shelf u db' k = (if k \<in> fa_key ` set fetched then a_shelf u (ms_db st) k else map_option (left_out now refused) (a_shelf u (ms_db st) k))"
    using index_keys [OF x(1), of k] F(4) by auto
qed


section \<open>The same answer again\<close>

lemma same_filing_courses:
  "same_filing db db' \<Longrightarrow> current_term_code (terms (queue db)) now' = current_term_code (terms (queue db)) now \<Longrightarrow>
   file_courses uni u now' enrolled db' = file_courses uni u now enrolled db"
  by (rule file_courses_same) (simp_all add: same_filing_def)

definition stable :: "uuid \<Rightarrow> filing option \<Rightarrow> fetched_assignment list \<Rightarrow> mirror_state \<Rightarrow> bool" where
  "stable u f fetched st \<longleftrightarrow> mirror_ok u st \<and> ms_changed st = 0 \<and> ms_recheck st = [] \<and>
     (\<forall>item \<in> set fetched. \<exists>a. a_shelf u (ms_db st) (fa_key item) = Some a \<and> shows_item f item a) \<and>
     (\<forall>k a. a_shelf u (ms_db st) k = Some a \<longrightarrow> k \<in> fa_key ` set fetched \<or> ua_deleted_at a \<noteq> None)"

lemma stable_step:
  assumes st: "stable u f fetched st" and item: "item \<in> set fetched" and ans: "answer_ok fetched"
  shows "stable u f fetched (mirror_item u f now item st)" "sync_log (queue (ms_db (mirror_item u f now item st))) = sync_log (queue (ms_db st))"
proof -
  have ok: "mirror_ok u st" and a0: "\<exists>a. a_shelf u (ms_db st) (fa_key item) = Some a \<and> shows_item f item a" using st item by (auto simp: stable_def)
  then obtain a where a: "a_shelf u (ms_db st) (fa_key item) = Some a" "shows_item f item a" by blast
  note K = mirror_known [OF ok a(1), of f now] and U = shows_unmoved [OF a(2), of now]
  have inj: "fa_key x = fa_key item \<longleftrightarrow> x = item" if "x \<in> set fetched" for x
    using ans that item by (auto simp: answer_ok_def fa_key_def distinct_map inj_on_def)
  have rows: "\<exists>b. a_shelf u (ms_db (mirror_item u f now item st)) (fa_key x) = Some b \<and> shows_item f x b" if "x \<in> set fetched" for x
    using st that inj [OF that] refreshed_shows by (auto simp: K(1) stable_def)
  show "stable u f fetched (mirror_item u f now item st)"
    using st K(2,3,4) U rows item unfolding stable_def moved_on_def K(1) by (auto simp: K(1) split: if_splits)
  show "sync_log (queue (ms_db (mirror_item u f now item st))) = sync_log (queue (ms_db st))" using K(3) U by simp
qed

lemma stable_fold:
  assumes "stable u f fetched st" "answer_ok fetched" "set items \<subseteq> set fetched"
  shows "stable u f fetched (fold (mirror_item u f now) items st) \<and> sync_log (queue (ms_db (fold (mirror_item u f now) items st))) = sync_log (queue (ms_db st))"
  using assms(1,3)
proof (induction items arbitrary: st)
  case (Cons x xs)
  then show ?case using stable_step [OF Cons.prems(1) _ assms(2), of x now] by simp
qed simp

text \<open>
  C32. The same answer again, while the term is the same, changes nothing a device would fetch: no change is counted, so no sync
  trigger is queued, nothing is appended to the change log and no assignment is probed again.
\<close>

theorem mirror_again_silent:
  assumes "a_ok u db" "answer_ok fetched" "current_term_code (terms (queue db)) now' = current_term_code (terms (queue db)) now"
  shows "let db1 = snd (apply_fetched_assignments uni u fetched now enrolled [] db);
             (stats, db2) = apply_fetched_assignments uni u fetched now' enrolled [] db1
         in changed_count stats = 0 \<and> recheck_ids stats = [] \<and> change_log (sync_log (queue db2)) = change_log (sync_log (queue db1))"
proof -
  define db1 where "db1 = snd (apply_fetched_assignments uni u fetched now enrolled [] db)"
  define f where "f = file_courses uni u now enrolled db"
  note A = apply_facts [OF assms(1,2), of uni now enrolled "[]", folded db1_def]
  have f1: "file_courses uni u now' enrolled db1 = f" unfolding f_def by (rule same_filing_courses [OF A(3) assms(3)])
  have ex: "\<exists>a. a_shelf u db1 (fa_key item) = Some a \<and> shows_item f item a" if "item \<in> set fetched" for item
    using after_items_facts(5) [OF assms(1,2), of uni now enrolled] that by (auto simp: A(4) f_def)
  have gone: "k \<in> fa_key ` set fetched \<or> ua_deleted_at a \<noteq> None" if s: "a_shelf u db1 k = Some a" for k a
  proof (cases "k \<in> fa_key ` set fetched")
    case False
    then obtain b where "a = left_out now [] b" using s unfolding A(4) if_not_P [OF False] by blast
    then show ?thesis by (simp add: left_out_def spared_def)
  qed simp
  define st where "st = after_items uni u fetched now' enrolled db1"
  define s0 where "s0 = \<lparr>ms_db = lock_user u db1,
     ms_existing = fold (\<lambda>a. AList.update (a_key a) (ua_id a)) (filter (\<lambda>a. ua_user a = u) (assignments (queue db1))) [],
     ms_changed = 0, ms_seen = [], ms_recheck = []\<rparr>"
  have "stable u f fetched s0" unfolding stable_def s0_def using start_ok [OF A(1), of 0 "[]" "[]"] ex gone by simp
  then have "stable u f fetched st \<and> sync_log (queue (ms_db st)) = sync_log (queue (lock_user u db1))"
    unfolding st_def after_items_def f1 s0_def [symmetric] using stable_fold [of u f fetched s0 fetched now'] assms(2) by (simp add: s0_def)
  then have st: "stable u f fetched st" and log: "sync_log (queue (ms_db st)) = sync_log (queue (lock_user u db1))" by blast+
  have seen: "set (ms_seen st) = fa_key ` set fetched" unfolding st_def by (rule after_items_facts(4) [OF A(1) assms(2)])
  have "k \<in> set (ms_seen st) \<or> ua_deleted_at (the (assignment_of (ms_db st) i)) \<noteq> None" if e: "(k, i) \<in> set (ms_existing st)" for k i
  proof -
    have ok: "a_ok u (ms_db st)" "index_of ua_id (a_shelf u (ms_db st)) (ms_existing st)" using st by (simp_all add: stable_def mirror_ok_def)
    obtain a where a: "a_shelf u (ms_db st) k = Some a" "ua_id a = i" using index_entry [OF ok(2) e] by blast
    have "assignment_of (ms_db st) i = Some a" using a_shelf_get [OF ok(1) a(1)] a(2) by simp
    moreover have "k \<in> fa_key ` set fetched \<or> ua_deleted_at a \<noteq> None" using st a(1) unfolding stable_def by blast
    ultimately show ?thesis by (simp add: seen)
  qed
  then have "fold (mirror_left_out u now' [] (ms_seen st)) (ms_existing st) (ms_changed st, ms_db st) = (ms_changed st, ms_db st)"
    by (rule mirror_left_out_idle)
  then have "apply_fetched_assignments uni u fetched now' enrolled [] db1 =
      (\<lparr>fetched_count = length fetched, changed_count = 0, recheck_ids = []\<rparr>, ms_db st)"
    using st unfolding apply_as_items st_def [symmetric] by (simp add: Let_def stable_def)
  then show ?thesis unfolding Let_def db1_def [symmetric] using log by (simp add: lock_user_def)
qed

section \<open>The hypotheses hold\<close>

definition sample_mirror :: course_db where
  "sample_mirror = \<lparr>courses = [], course_seq = 0, overrides = [], tombstones = [], semester_resets = [], courses_reset_at = (\<lambda>u. None),
     rosters = (\<lambda>x. None),
     queue = \<lparr>jobs = [], push_job_seq = 0, deliveries = [], delivery_seq = 0, tokens = [], devices = [], terms = [], holidays = [],
       holiday_overrides = [],
       assignments = [\<lparr>ua_id = 4, ua_user = 7, ua_user_course = None, ua_moodle_course = 0, ua_moodle_assignment = 9, ua_moodle_semester = None,
         ua_course_no = None, ua_course_name = None, ua_title = ''draft'', ua_due_at = Some 500, ua_cutoff_at = None, ua_extension_due_at = None,
         ua_allow_from_at = None, ua_moodle_url = None, ua_intro_html = None, ua_is_submitted = True, ua_submitted_at = Some 80, ua_grade = None, ua_fetched_at = 0,
         ua_last_seen_at = 0, ua_deleted_at = None\<rparr>],
       assignment_seq = 5, assignment_marks = [], user_courses = [], course_overrides = [], sync_log = empty_log\<rparr>,
     worker_jobs = [], worker_policies = [], device_seen = (\<lambda>d. None)\<rparr>"

definition sample_answer :: "fetched_assignment list" where
  "sample_answer = [\<lparr>fa_course = 3, fa_id = 9, fa_course_name = Some ''Logic'', fa_title = ''HW1'', fa_due_at = Some 400, fa_cutoff_at = None,
     fa_allow_from_at = None, fa_moodle_url = None, fa_intro_html = None\<rparr>]"

definition sample_unicode :: unicode where
  "sample_unicode = \<lparr>isnumeric = (\<lambda>x. False), isalpha = (\<lambda>x. False), upper = (\<lambda>x. x), find_words = (\<lambda>x. [])\<rparr>"

lemma sample_mirror_ok: "a_ok 7 sample_mirror" "answer_ok sample_answer"
  by (simp_all add: a_ok_def rows_ok_def sample_mirror_def answer_ok_def sample_answer_def)


theorem mirror_again_silent_witness:
  "changed_count (fst (apply_fetched_assignments sample_unicode 7 sample_answer 200 None []
     (snd (apply_fetched_assignments sample_unicode 7 sample_answer 100 None [] sample_mirror)))) = 0"
proof -
  have "current_term_code (terms (queue sample_mirror)) 200 = current_term_code (terms (queue sample_mirror)) 100" by code_simp
  then show ?thesis using mirror_again_silent [OF sample_mirror_ok, of 200 100 sample_unicode None] by (simp add: Let_def split_beta)
qed

end
