(* ===== verification/UserEdits.thy ===== *)
theory UserEdits
  imports MirrorFacts
begin

text \<open>
  What a device writes besides its courses: the assignments it uploads (\<^verbatim>\<open>routes/sync/assignments.py\<close>), the mark on an assignment
  and the colour, names and ``ignore'' flag of a course (\<^verbatim>\<open>routes/overrides.py\<close>), the exception for a holiday
  (\<^verbatim>\<open>routes/holiday_overrides.py\<close>) and the settings documents (\<^verbatim>\<open>routes/settings_docs.py\<close>).

  All but the settings run under the user's \<open>user_sync_state\<close> lock, so each request is one function; a settings document is written
  by one atomic statement (a compare-and-swap of its revision, or an insert under a unique index). \<open>edit_db\<close> adds to the tables of
  \<open>course_db\<close> the full rows of the marks, of which \<open>assignment_marks\<close> of the push pipeline shows two columns (\<open>set_marks\<close>
  writes both), the holiday exceptions and the documents. The operator log is left out.
\<close>

section \<open>Data\<close>

record mark_row =
  mk_user :: uuid
  mk_assignment :: nat
  mk_status :: "string sync_field"
  mk_received_at :: "datetime option"

text \<open>A row that was just created holds no value yet.\<close>

record holiday_row =
  hr_user :: uuid
  hr_holiday :: nat
  hr_notify :: "bool option sync_field"

record settings_document =
  sd_user :: uuid
  sd_namespace :: string
  sd_schema_version :: int
  sd_document :: json
  sd_revision :: int
  sd_deleted_at :: "datetime option"
  sd_created_by :: "uuid option"
  sd_updated_by :: "uuid option"

record edit_db =
  data :: course_db
  marks :: "mark_row list"
  holiday_rows :: "holiday_row list"
  documents :: "settings_document list"

definition shown_mark :: "mark_row \<Rightarrow> assignment_mark" where
  "shown_mark m = \<lparr>am_assignment = mk_assignment m, local_status = fld_value (mk_status m)\<rparr>"

definition set_marks :: "mark_row list \<Rightarrow> edit_db \<Rightarrow> edit_db" where
  "set_marks ms db = db\<lparr>marks := ms, data := (data db)\<lparr>queue := (queue (data db))\<lparr>assignment_marks := map shown_mark ms\<rparr>\<rparr>\<rparr>"

definition log_edit :: "uuid \<Rightarrow> uuid option \<Rightarrow> datetime \<Rightarrow> string \<Rightarrow> string \<Rightarrow> string \<Rightarrow> json \<Rightarrow> course_db \<Rightarrow> course_db" where
  "log_edit u dev now ty i operation details db =
    db\<lparr>queue := (queue db)\<lparr>sync_log := snd (append_change (sync_log (queue db)) u
      \<lparr>cd_entity_type = ty, cd_entity_id = i, cd_operation = operation, cd_payload = Some details, cd_device = dev, cd_created_at = now\<rparr>)\<rparr>\<rparr>"

section \<open>Uploaded assignments\<close>

record upload_item =
  ui_id :: int
  ui_course_no :: string
  ui_course_name :: string
  ui_title :: string
  ui_due_at :: "string option"
  ui_moodle_url :: "string option"
  ui_is_submitted :: bool
  ui_grade :: "string option"

definition parse_due :: "(string \<Rightarrow> datetime option) \<Rightarrow> string option \<Rightarrow> datetime option" where
  "parse_due from_iso due = (case due of None \<Rightarrow> None | Some s \<Rightarrow> if s = [] then None else from_iso s)"

text \<open>The row an upload writes to: the server's before the placeholder, a live one before a deleted one, the oldest.\<close>

definition upload_order :: "user_assignment \<Rightarrow> user_assignment \<Rightarrow> bool" where
  "upload_order a b \<longleftrightarrow>
    (let key = (\<lambda>x. (of_bool (ua_moodle_course x = 0) :: nat, of_bool (ua_deleted_at x \<noteq> None) :: nat, ua_id x)); (p, q, i) = key a; (p', q', i') = key b
     in p < p' \<or> p = p' \<and> (q < q' \<or> q = q' \<and> i < i'))"

definition placeholder_row :: "uuid \<Rightarrow> datetime \<Rightarrow> upload_item \<Rightarrow> datetime option \<Rightarrow> nat \<Rightarrow> user_assignment" where
  "placeholder_row u now item due i = \<lparr>ua_id = i, ua_user = u, ua_user_course = None, ua_moodle_course = 0, ua_moodle_assignment = ui_id item,
     ua_moodle_semester = None, ua_course_no = Some (ui_course_no item), ua_course_name = Some (ui_course_name item), ua_title = ui_title item,
     ua_due_at = due, ua_cutoff_at = None, ua_extension_due_at = None, ua_allow_from_at = None, ua_moodle_url = ui_moodle_url item,
     ua_intro_html = None, ua_is_submitted = False, ua_submitted_at = None, ua_grade = None, ua_fetched_at = now, ua_last_seen_at = now,
     ua_deleted_at = None\<rparr>"

definition placeholder_fields :: "upload_item \<Rightarrow> datetime option \<Rightarrow> user_assignment \<Rightarrow> string list" where
  "placeholder_fields item due a = map fst (filter snd
    [(''course_no'', ua_course_no a \<noteq> Some (ui_course_no item)), (''course_name'', ua_course_name a \<noteq> Some (ui_course_name item)),
     (''title'', ua_title a \<noteq> ui_title item), (''due_at'', ua_due_at a \<noteq> due), (''moodle_url'', ua_moodle_url a \<noteq> ui_moodle_url item)])"

definition update_placeholder :: "datetime \<Rightarrow> upload_item \<Rightarrow> datetime option \<Rightarrow> user_assignment \<Rightarrow> user_assignment" where
  "update_placeholder now item due a = a\<lparr>ua_course_no := Some (ui_course_no item), ua_course_name := Some (ui_course_name item),
     ua_title := ui_title item, ua_due_at := due, ua_moodle_url := ui_moodle_url item, ua_last_seen_at := now\<rparr>"

text \<open>A grade and a submission, which go to any row; a submission is never taken back.\<close>

definition report_grade :: "upload_item \<Rightarrow> user_assignment \<Rightarrow> string list \<times> user_assignment" where
  "report_grade item a = (if ui_grade item \<noteq> None \<and> ui_grade item \<noteq> ua_grade a then ([''provider_grade''], a\<lparr>ua_grade := ui_grade item\<rparr>) else ([], a))"

definition report_submission :: "datetime \<Rightarrow> upload_item \<Rightarrow> user_assignment \<Rightarrow> string list \<times> user_assignment" where
  "report_submission now item a =
    (if ui_is_submitted item \<and> \<not> ua_is_submitted a
     then ([''provider_is_submitted'', ''provider_submitted_at''],
           a\<lparr>ua_is_submitted := True, ua_submitted_at := (case ua_submitted_at a of Some t \<Rightarrow> Some t | None \<Rightarrow> Some now)\<rparr>)
     else ([], a))"

definition upload_into :: "datetime \<Rightarrow> upload_item \<Rightarrow> datetime option \<Rightarrow> user_assignment \<Rightarrow> string list \<times> user_assignment" where
  "upload_into now item due a =
    (let (fs, b) = (if ua_moodle_course a = 0 then (placeholder_fields item due a, update_placeholder now item due a) else ([], a));
         (gs, c) = report_grade item b; (hs, d) = report_submission now item c
     in (fs @ gs @ hs, d))"

record upload_state =
  us_db :: course_db
  us_rows :: "(int \<times> nat) list"
  us_submitted :: "int list"
  us_changed :: "(int \<times> string list) list"

definition upload_item_step :: "(string \<Rightarrow> datetime option) \<Rightarrow> uuid \<Rightarrow> datetime \<Rightarrow> upload_item \<Rightarrow> upload_state \<Rightarrow> upload_state" where
  "upload_item_step from_iso u now item st =
    (let due = parse_due from_iso (ui_due_at item); db = us_db st;
         (i, fresh, db1) = (case map_of (us_rows st) (ui_id item) of
            Some i \<Rightarrow> (i, [], db)
          | None \<Rightarrow> let i = assignment_seq (queue db) in
              (i, [''course_no'', ''course_name'', ''title''] @ (if due = None then [] else [''due_at'']) @ (if ui_moodle_url item = None then [] else [''moodle_url'']),
               db\<lparr>queue := (queue db)\<lparr>assignments := assignments (queue db) @ [placeholder_row u now item due i], assignment_seq := Suc i\<rparr>\<rparr>));
         a = the (assignment_of db1 i); (names, b) = upload_into now item due a;
         before = (case map_of (us_changed st) (ui_id item) of None \<Rightarrow> [] | Some fs \<Rightarrow> fs)
     in \<lparr>us_db = put_assignment b db1, us_rows = AList.update (ui_id item) i (us_rows st),
         us_submitted = (if ui_is_submitted item \<and> \<not> ua_is_submitted a then ui_id item # us_submitted st else us_submitted st),
         us_changed = AList.update (ui_id item) (before @ fresh @ names) (us_changed st)\<rparr>)"

definition log_uploaded :: "uuid \<Rightarrow> uuid option \<Rightarrow> datetime \<Rightarrow> (int \<times> nat) list \<Rightarrow> int \<times> string list \<Rightarrow> course_db \<Rightarrow> course_db" where
  "log_uploaded u dev now rows entry db =
    (case entry of (aid, fs) \<Rightarrow>
       if fs = [] then db
       else log_edit u dev now ''assignment'' (nat_str (the (map_of rows aid))) ''upsert'' (JObj [(''fields'', JList (map JStr fs))]) db)"

definition upload_assignments ::
  "(string \<Rightarrow> datetime option) \<Rightarrow> (datetime \<Rightarrow> string) \<Rightarrow> uuid \<Rightarrow> uuid option \<Rightarrow> upload_item list \<Rightarrow> datetime \<Rightarrow> edit_db \<Rightarrow> nat \<times> edit_db" where
  "upload_assignments from_iso isoformat u dev items now db =
    (let base = lock_user u (data db); ids = map ui_id items;
         mine = (\<lambda>aid. first_by upload_order (filter (\<lambda>a. ua_user a = u \<and> ua_moodle_assignment a = aid) (assignments (queue base))));
         rows = [(aid, ua_id a). aid \<leftarrow> remdups ids, Some a \<leftarrow> [mine aid]];
         st = fold (upload_item_step from_iso u now) items \<lparr>us_db = base, us_rows = rows, us_submitted = [], us_changed = []\<rparr>;
         db1 = fold (log_uploaded u dev now (us_rows st)) (us_changed st) (us_db st);
         db2 = db1\<lparr>queue := cancel_for_submitted isoformat (queue db1) u (remdups (us_submitted st)) now\<rparr>
     in (length items, db\<lparr>data := push_back_sync_jobs u MoodleAssignments CLIENT_SYNC_PUSHBACK_SECONDS now db2\<rparr>))"

section \<open>The mark on an assignment\<close>

definition mark_order :: "user_assignment \<Rightarrow> user_assignment \<Rightarrow> bool" where
  "mark_order a b \<longleftrightarrow>
    (let key = (\<lambda>x. (of_bool (ua_deleted_at x \<noteq> None) :: nat, of_bool (ua_moodle_course x = 0) :: nat, ua_id x)); (p, q, i) = key a; (p', q', i') = key b
     in p < p' \<or> p = p' \<and> (q < q' \<or> q = q' \<and> i < i'))"

definition rows_of_assignment :: "course_db \<Rightarrow> uuid \<Rightarrow> int \<Rightarrow> user_assignment list" where
  "rows_of_assignment db u aid = filter (\<lambda>a. ua_user a = u \<and> ua_moodle_assignment a = aid) (assignments (queue db))"

definition get_assignment_by_moodle_id :: "course_db \<Rightarrow> uuid \<Rightarrow> int \<Rightarrow> user_assignment option" where
  "get_assignment_by_moodle_id db u aid = first_by mark_order (rows_of_assignment db u aid)"

definition mark_of :: "mark_row list \<Rightarrow> uuid \<Rightarrow> nat \<Rightarrow> mark_row option" where
  "mark_of ms u i = find (\<lambda>m. mk_user m = u \<and> mk_assignment m = i) ms"

definition new_mark :: "uuid \<Rightarrow> nat \<Rightarrow> mark_row" where
  "new_mark u i = \<lparr>mk_user = u, mk_assignment = i, mk_status = \<lparr>fld_value = ''none'', fld_stamp = None, fld_device = None\<rparr>, mk_received_at = None\<rparr>"

definition ensure_mark :: "uuid \<Rightarrow> nat \<Rightarrow> mark_row list \<Rightarrow> mark_row list" where
  "ensure_mark u i ms = (if mark_of ms u i = None then ms @ [new_mark u i] else ms)"

definition mark_edit :: "string \<Rightarrow> datetime \<Rightarrow> uuid option \<Rightarrow> datetime \<Rightarrow> mark_row \<Rightarrow> bool \<times> mark_row" where
  "mark_edit status stamp dev now m =
    (let (changed, f) = apply_field True (mk_status m) status stamp dev now
     in (changed, if changed then m\<lparr>mk_status := f, mk_received_at := Some now\<rparr> else m\<lparr>mk_status := f\<rparr>))"

record mark_answer =
  ma_local_status :: string
  ma_stamp :: "datetime option"
  ma_applied :: bool

definition patch_assignment_override ::
  "uuid \<Rightarrow> uuid option \<Rightarrow> bool \<Rightarrow> int \<Rightarrow> string \<Rightarrow> int option \<Rightarrow> int option \<Rightarrow> datetime \<Rightarrow> datetime \<Rightarrow> edit_db \<Rightarrow> (http_error + mark_answer) \<times> edit_db" where
  "patch_assignment_override u dev speaks_clock aid status hlc age_ms now tnow db =
    (case require_stamp speaks_clock hlc age_ms of Inl e \<Rightarrow> (Inl e, db) | Inr _ \<Rightarrow>
     (case edit_time hlc now age_ms of Inl e \<Rightarrow> (Inl e, db) | Inr stamp \<Rightarrow>
      let base = lock_user u (data db) in
      (case get_assignment_by_moodle_id base u aid of
         None \<Rightarrow> (Inl (HTTPException 404 ''assignment_not_found''), db)
       | Some a \<Rightarrow>
         let ids = (if status = ''none'' then map ua_id (rows_of_assignment base u aid) else [ua_id a]);
             ms = fold (ensure_mark u) ids (marks db);
             edited = (\<lambda>m. mk_user m = u \<and> mk_assignment m \<in> set ids);
             changed = (\<exists>m \<in> set ms. edited m \<and> fst (mark_edit status stamp dev now m));
             ms' = update_where edited (\<lambda>m. snd (mark_edit status stamp dev now m)) ms;
             target = the (mark_of ms' u (ua_id a));
             result = fld_value (mk_status target);
             db1 = set_marks ms' (db\<lparr>data := base\<rparr>);
             db2 = (if changed
               then db1\<lparr>data := queue_sync_trigger u dev tnow (log_edit u dev tnow ''assignment_override'' (nat_str (ua_id a))
                      (if result = ''none'' then ''delete'' else ''upsert'') (JObj [(''local_status'', JStr result)]) (data db1))\<rparr>
               else db1)
         in (Inr \<lparr>ma_local_status = result, ma_stamp = fld_stamp (mk_status target), ma_applied = (result = status)\<rparr>, db2))))"

section \<open>A course's colour, names and flag\<close>

record override_request =
  or_color_hex :: "string option"
  or_custom_name :: "string option"
  or_locale :: "string option"
  or_ignore_assignments :: "bool option"
  or_moodle_course_id :: "int option"
  or_hlc :: "int option"
  or_age_ms :: "int option"

definition names_sent :: "override_request \<Rightarrow> bool" where
  "names_sent req \<longleftrightarrow> or_locale req \<noteq> None \<and> or_locale req \<noteq> Some [] \<and> or_custom_name req \<noteq> None"

text \<open>The fields a request changes and the row with them.\<close>

definition color_edit :: "override_request \<Rightarrow> datetime \<Rightarrow> uuid option \<Rightarrow> datetime \<Rightarrow> override_row \<Rightarrow> string list \<times> override_row" where
  "color_edit req stamp dev now ov = (case or_color_hex req of
     None \<Rightarrow> ([], ov)
   | Some c \<Rightarrow> let (changed, f) = apply_field True (ov_color ov) (Some c) stamp dev now in (if changed then [''color_hex''] else [], ov\<lparr>ov_color := f\<rparr>))"

definition name_edit :: "override_request \<Rightarrow> datetime \<Rightarrow> uuid option \<Rightarrow> datetime \<Rightarrow> override_row \<Rightarrow> string list \<times> override_row" where
  "name_edit req stamp dev now ov =
    (if names_sent req
     then let (changed, f) = apply_course_name (ov_names ov) (the (or_locale req)) (the (or_custom_name req)) stamp dev now
          in (if changed then [''custom_name''] else [], ov\<lparr>ov_names := f\<rparr>)
     else ([], ov))"

definition ignore_edit :: "override_request \<Rightarrow> datetime \<Rightarrow> uuid option \<Rightarrow> datetime \<Rightarrow> override_row \<Rightarrow> string list \<times> override_row" where
  "ignore_edit req stamp dev now ov = (case or_ignore_assignments req of
     None \<Rightarrow> ([], ov)
   | Some b \<Rightarrow> let (changed, f) = apply_field True (ov_ignore ov) b stamp dev now in (if changed then [''ignore_assignments''] else [], ov\<lparr>ov_ignore := f\<rparr>))"

definition override_edit :: "override_request \<Rightarrow> datetime \<Rightarrow> uuid option \<Rightarrow> datetime \<Rightarrow> datetime option \<Rightarrow> override_row \<Rightarrow> string list \<times> override_row" where
  "override_edit req stamp dev now reset_at ov =
    (let (fs, ov1) =
       (if (case reset_at of Some t \<Rightarrow> stamp \<le> t | None \<Rightarrow> False) then ([], ov)
        else let (a, ov1) = color_edit req stamp dev now ov; (b, ov2) = name_edit req stamp dev now ov1; (c, ov3) = ignore_edit req stamp dev now ov2
             in (a @ b @ c, ov3))
     in (fs, case or_moodle_course_id req of None \<Rightarrow> ov1 | Some i \<Rightarrow> ov1\<lparr>ov_moodle_course := Some i\<rparr>))"

definition applied_fields :: "override_request \<Rightarrow> bool \<Rightarrow> override_row \<Rightarrow> string list" where
  "applied_fields req refused ov = (if refused then [] else map fst (filter snd
    [(''color_hex'', or_color_hex req \<noteq> None \<and> fld_value (ov_color ov) = or_color_hex req),
     (''custom_name'', names_sent req \<and> map_of (custom_names (ov_names ov)) (the (or_locale req)) = or_custom_name req),
     (''ignore_assignments'', or_ignore_assignments req \<noteq> None \<and> Some (fld_value (ov_ignore ov)) = or_ignore_assignments req)]))"

text \<open>\<open>find\<close> reads the course once the lock is held. The push pipeline's \<open>course_overrides\<close> are columns of the same rows.\<close>

definition shown_override :: "override_row \<Rightarrow> course_override" where
  "shown_override ov = \<lparr>co_user = ov_user ov, co_course = ov_course ov, co_moodle_course = ov_moodle_course ov, ignore_assignments = fld_value (ov_ignore ov)\<rparr>"

definition override_course ::
  "uuid \<Rightarrow> uuid option \<Rightarrow> override_request \<Rightarrow> bool \<Rightarrow> datetime \<Rightarrow> datetime \<Rightarrow> (course_db \<Rightarrow> course_row option) \<Rightarrow> course_db \<Rightarrow> (http_error + string list) \<times> course_db" where
  "override_course u dev req speaks_clock now tnow find_course db =
    (case (if or_color_hex req \<noteq> None \<or> names_sent req \<or> or_ignore_assignments req \<noteq> None
           then require_stamp speaks_clock (or_hlc req) (or_age_ms req) else Inr ()) of Inl e \<Rightarrow> (Inl e, db) | Inr _ \<Rightarrow>
     (case edit_time (or_hlc req) now (or_age_ms req) of Inl e \<Rightarrow> (Inl e, db) | Inr stamp \<Rightarrow>
      let db0 = lock_user u db in
      (case find_course db0 of
         None \<Rightarrow> (Inl (HTTPException 404 ''course_not_found''), db)
       | Some c \<Rightarrow>
         let db1 = ensure_override u (cr_id c) db0; reset_at = covering (load_resets db1 u) (Some (cr_semester c));
             ov = the (override_of db1 u (cr_id c)); (fs, ov') = override_edit req stamp dev now reset_at ov;
             db2 = modify_override u (cr_id c) (\<lambda>_. ov') db1;
             db3 = db2\<lparr>queue := (queue db2)\<lparr>course_overrides := map shown_override (overrides db2)\<rparr>\<rparr>;
             db4 = (if fs = [] then db3
               else queue_sync_trigger u dev tnow (log_edit u dev tnow ''course_override'' (nat_str (cr_id c)) ''upsert'' (JObj [(''fields'', JList (map JStr fs))]) db3))
         in (Inr (applied_fields req (case reset_at of Some t \<Rightarrow> stamp \<le> t | None \<Rightarrow> False) ov'), db4))))"

text \<open>The two ways to name the course: \<open>/v3\<close> by its Moodle id, the portal's row first, \<open>/v4\<close> by its key.\<close>

definition portal_first :: "course_row \<Rightarrow> course_row \<Rightarrow> bool" where
  "portal_first a b \<longleftrightarrow>
    (let key = (\<lambda>c. (of_bool (starts_with ''moodle:'' (cr_key c)) :: nat, cr_id c)); (p, i) = key a; (p', i') = key b in p < p' \<or> p = p' \<and> i < i')"

definition get_course_by_moodle_id :: "uuid \<Rightarrow> string \<Rightarrow> course_db \<Rightarrow> course_row option" where
  "get_course_by_moodle_id u mid db = first_by portal_first (filter (\<lambda>c. cr_user c = u \<and> moodle_id (cr_info c) = Some mid) (courses db))"

definition patch_course_override ::
  "uuid \<Rightarrow> uuid option \<Rightarrow> bool \<Rightarrow> string \<Rightarrow> override_request \<Rightarrow> datetime \<Rightarrow> datetime \<Rightarrow> course_db \<Rightarrow> (http_error + string list) \<times> course_db" where
  "patch_course_override u dev speaks_clock mid req now tnow db =
    override_course u dev req speaks_clock now tnow (get_course_by_moodle_id u mid) db"

definition patch_course_override_v4 ::
  "uuid \<Rightarrow> uuid option \<Rightarrow> string \<Rightarrow> override_request \<Rightarrow> datetime \<Rightarrow> datetime \<Rightarrow> course_db \<Rightarrow> (http_error + string list) \<times> course_db" where
  "patch_course_override_v4 u dev key req now tnow db =
    (case (if or_color_hex req \<noteq> None \<or> or_custom_name req \<noteq> None \<or> or_locale req \<noteq> None \<or> or_ignore_assignments req \<noteq> None \<or> or_moodle_course_id req \<noteq> None
           then require_stamp True (or_hlc req) (or_age_ms req) else Inr ()) of
       Inl e \<Rightarrow> (Inl e, db)
     | Inr _ \<Rightarrow> override_course u dev req True now tnow (\<lambda>d. course_of d u key) db)"

section \<open>The exception for a holiday\<close>

record holiday_answer =
  ha_notify :: bool
  ha_stamp :: "datetime option"
  ha_applied :: bool

definition holiday_of :: "holiday_row list \<Rightarrow> uuid \<Rightarrow> nat \<Rightarrow> holiday_row option" where
  "holiday_of rows u h = find (\<lambda>r. hr_user r = u \<and> hr_holiday r = h) rows"

definition ensure_holiday :: "uuid \<Rightarrow> nat \<Rightarrow> holiday_row list \<Rightarrow> holiday_row list" where
  "ensure_holiday u h rows = (if holiday_of rows u h = None
     then rows @ [\<lparr>hr_user = u, hr_holiday = h, hr_notify = \<lparr>fld_value = None, fld_stamp = None, fld_device = None\<rparr>\<rparr>] else rows)"

definition shown_holiday :: "holiday_row \<Rightarrow> holiday_override" where
  "shown_holiday r = \<lparr>ho_user = hr_user r, ho_holiday = hr_holiday r, ho_notify = (fld_value (hr_notify r) = Some True)\<rparr>"

definition set_holiday_override ::
  "uuid \<Rightarrow> uuid option \<Rightarrow> bool \<Rightarrow> nat \<Rightarrow> bool \<Rightarrow> int option \<Rightarrow> int option \<Rightarrow> datetime \<Rightarrow> datetime \<Rightarrow> edit_db \<Rightarrow> (http_error + holiday_answer) \<times> edit_db" where
  "set_holiday_override u dev speaks_clock h notify hlc age_ms now tnow db =
    (case require_stamp speaks_clock hlc age_ms of Inl e \<Rightarrow> (Inl e, db) | Inr _ \<Rightarrow>
     if row_get h_id h (holidays (queue (data db))) = None then (Inl (HTTPException 404 ''holiday_not_found''), db)
     else case edit_time hlc now age_ms of Inl e \<Rightarrow> (Inl e, db) | Inr stamp \<Rightarrow>
       let base = lock_user u (data db); rows = ensure_holiday u h (holiday_rows db); r = the (holiday_of rows u h);
           (changed, f) = apply_field False (hr_notify r) (Some notify) stamp dev now;
           rows' = update_where (\<lambda>x. hr_user x = u \<and> hr_holiday x = h) (\<lambda>x. x\<lparr>hr_notify := f\<rparr>) rows;
           base1 = base\<lparr>queue := (queue base)\<lparr>holiday_overrides := map shown_holiday rows'\<rparr>\<rparr>;
           base2 = (if changed then log_edit u dev tnow ''holiday_override'' (nat_str h) ''upsert''
                      (JObj [(''holiday_id'', JInt (int h)), (''notify'', JBool notify)]) base1 else base1)
       in (Inr \<lparr>ha_notify = (fld_value f = Some True), ha_stamp = fld_stamp f, ha_applied = (fld_value f = Some notify)\<rparr>,
           db\<lparr>data := base2, holiday_rows := rows'\<rparr>))"

section \<open>Settings documents\<close>

definition SETTINGS_NAMESPACES :: "string list" where
  "SETTINGS_NAMESPACES = [''home_layout'', ''appearance'', ''assignment_display'', ''notification'', ''browser'', ''language'',
     ''schedule_display'', ''watch'', ''wearos'', ''club_subscriptions'']"

record settings_put =
  sp_schema :: int
  sp_document :: json
  sp_base_revision :: "int option"

datatype settings_answer = Stored settings_document | Conflict settings_document | SettingsError http_error

definition live_document :: "uuid \<Rightarrow> string \<Rightarrow> settings_document \<Rightarrow> bool" where
  "live_document u ns d \<longleftrightarrow> sd_user d = u \<and> sd_namespace d = ns \<and> sd_deleted_at d = None"

definition get_document :: "edit_db \<Rightarrow> uuid \<Rightarrow> string \<Rightarrow> settings_document option" where
  "get_document db u ns = find (live_document u ns) (documents db)"

definition read_document :: "edit_db \<Rightarrow> uuid \<Rightarrow> string \<Rightarrow> http_error + settings_document" where
  "read_document db u ns =
    (if ns \<notin> set SETTINGS_NAMESPACES then Inl (HTTPException 422 ''unknown namespace'')
     else case get_document db u ns of None \<Rightarrow> Inl (HTTPException 404 ''settings document not found'') | Some d \<Rightarrow> Inr d)"

definition log_settings :: "uuid \<Rightarrow> uuid option \<Rightarrow> datetime \<Rightarrow> settings_document \<Rightarrow> edit_db \<Rightarrow> edit_db" where
  "log_settings u dev tnow d db =
    db\<lparr>data := log_edit u dev tnow ''settings_document'' (sd_namespace d) ''upsert'' (JObj [(''revision'', JInt (sd_revision d))]) (data db)\<rparr>"

definition put_document :: "uuid \<Rightarrow> uuid option \<Rightarrow> string \<Rightarrow> settings_put \<Rightarrow> datetime \<Rightarrow> edit_db \<Rightarrow> settings_answer \<times> edit_db" where
  "put_document u dev ns req tnow db =
    (if ns \<notin> set SETTINGS_NAMESPACES then (SettingsError (HTTPException 422 ''unknown namespace''), db)
     else case sp_base_revision req of
       None \<Rightarrow> (case get_document db u ns of
          Some d \<Rightarrow> (Conflict d, db)
        | None \<Rightarrow>
           let d = \<lparr>sd_user = u, sd_namespace = ns, sd_schema_version = sp_schema req, sd_document = sp_document req, sd_revision = 1,
                    sd_deleted_at = None, sd_created_by = dev, sd_updated_by = dev\<rparr>
           in (Stored d, log_settings u dev tnow d (db\<lparr>documents := documents db @ [d]\<rparr>)))
     | Some r \<Rightarrow>
         let hit = (\<lambda>d. live_document u ns d \<and> sd_revision d = r);
             db1 = db\<lparr>documents := update_where hit (\<lambda>d. d\<lparr>sd_document := sp_document req, sd_schema_version := sp_schema req,
                     sd_revision := sd_revision d + 1, sd_updated_by := dev\<rparr>) (documents db)\<rparr>
         in if \<not> (\<exists>d \<in> set (documents db). hit d)
            then (case get_document db u ns of None \<Rightarrow> (SettingsError (HTTPException 404 ''settings document not found''), db) | Some d \<Rightarrow> (Conflict d, db))
            else (case get_document db1 u ns of None \<Rightarrow> (SettingsError (HTTPException 500 ''assertion''), db) | Some d \<Rightarrow> (Stored d, log_settings u dev tnow d db1)))"

end
