(* ===== verification/EditFacts.thy ===== *)
theory EditFacts
  imports UserEdits
begin

text \<open>
  What the edits of \<open>UserEdits\<close> guarantee: a mark is one write to a last-writer-wins register and stops the assignment's reminders,
  settings documents never lose an update, an upload never takes a submission back nor adds a second row.
\<close>

section \<open>Frames\<close>

lemma trigger_rounds_rows:
  "assignments (snd (trigger_rounds n db u lt source now)) = assignments db"
  "assignment_marks (snd (trigger_rounds n db u lt source now)) = assignment_marks db"
  by (induction n arbitrary: lt)
    (auto simp: ride_def modify_job_def insert_job_def Let_def split: option.splits if_splits bind_splits)

lemma queue_sync_trigger_frame [simp]:
  "assignments (queue (queue_sync_trigger u dev tnow db)) = assignments (queue db)"
  "assignment_marks (queue (queue_sync_trigger u dev tnow db)) = assignment_marks (queue db)"
  by (simp_all add: queue_sync_trigger_def enqueue_sync_trigger_def trigger_rounds_rows)

lemma log_edit_frame [simp]:
  "assignments (queue (log_edit u dev now ty i op d db)) = assignments (queue db)"
  "assignment_seq (queue (log_edit u dev now ty i op d db)) = assignment_seq (queue db)"
  "assignment_marks (queue (log_edit u dev now ty i op d db)) = assignment_marks (queue db)"
  by (simp_all add: log_edit_def)

section \<open>A mark is a register\<close>

definition mark_field :: "edit_db \<Rightarrow> uuid \<Rightarrow> nat \<Rightarrow> string sync_field" where
  "mark_field db u i = (case mark_of (marks db) u i of Some m \<Rightarrow> mk_status m | None \<Rightarrow> mk_status (new_mark u i))"

lemma mark_of_append: "mark_of (xs @ ys) u i = (case mark_of xs u i of Some m \<Rightarrow> Some m | None \<Rightarrow> mark_of ys u i)"
  by (induction xs) (auto simp: mark_of_def)

lemma mark_of_ensure: "mark_of (ensure_mark v k ms) u i =
    (if v = u \<and> k = i \<and> mark_of ms u i = None then Some (new_mark u i) else mark_of ms u i)"
  by (auto simp: ensure_mark_def mark_of_append split: option.split) (auto simp: mark_of_def new_mark_def)

lemma mark_of_ensures:
  "mark_of (fold (ensure_mark u) ids ms) u i = (if i \<in> set ids \<and> mark_of ms u i = None then Some (new_mark u i) else mark_of ms u i)"
  by (induction ids arbitrary: ms) (auto simp: mark_of_ensure)

lemma mark_of_update:
  assumes "\<And>m. mk_user (f m) = mk_user m \<and> mk_assignment (f m) = mk_assignment m"
  shows "mark_of (update_where P f ms) u i = map_option (\<lambda>m. if P m then f m else m) (mark_of ms u i)"
  using assms by (induction ms) (auto simp: mark_of_def)

lemma mark_of_SomeD: "mark_of ms u i = Some m \<Longrightarrow> m \<in> set ms \<and> mk_user m = u \<and> mk_assignment m = i"
  by (auto simp: mark_of_def find_Some_iff)

lemma mark_edit_frame [simp]:
  "mk_user (snd (mark_edit status stamp dev now m)) = mk_user m" "mk_assignment (snd (mark_edit status stamp dev now m)) = mk_assignment m"
  "mk_status (snd (mark_edit status stamp dev now m)) =
    field_put True (mk_status m) \<lparr>ed_value = status, ed_ts = stamp, ed_device = dev, ed_now = now\<rparr>"
  by (simp_all add: mark_edit_def field_put_def split: prod.split)

text \<open>One request: its answer and the register after it.\<close>

record mark_request =
  mq_device :: "uuid option"
  mq_speaks_clock :: bool
  mq_status :: string
  mq_hlc :: "int option"
  mq_age_ms :: "int option"
  mq_arrival :: datetime
  mq_clock :: datetime

definition run_mark :: "uuid \<Rightarrow> int \<Rightarrow> mark_request \<Rightarrow> edit_db \<Rightarrow> (http_error + mark_answer) \<times> edit_db" where
  "run_mark u aid q = patch_assignment_override u (mq_device q) (mq_speaks_clock q) aid (mq_status q) (mq_hlc q) (mq_age_ms q) (mq_arrival q) (mq_clock q)"

definition mark_ok :: "mark_request \<Rightarrow> bool" where
  "mark_ok q \<longleftrightarrow> (\<not> mq_speaks_clock q \<or> mq_hlc q \<noteq> None \<or> mq_age_ms q \<noteq> None) \<and>
     (case edit_time (mq_hlc q) (mq_arrival q) (mq_age_ms q) of Inl e \<Rightarrow> False | Inr t \<Rightarrow> True)"

definition mark_as_edit :: "mark_request \<Rightarrow> string field_edit" where
  "mark_as_edit q = \<lparr>ed_value = mq_status q,
     ed_ts = (case edit_time (mq_hlc q) (mq_arrival q) (mq_age_ms q) of Inl e \<Rightarrow> 0 | Inr t \<Rightarrow> t), ed_device = mq_device q, ed_now = mq_arrival q\<rparr>"

lemma first_by_mem: "first_by lt xs = Some x \<Longrightarrow> x \<in> set xs"
  by (simp add: first_by_SomeD)

lemma lock_user_rows [simp]: "rows_of_assignment (lock_user v db) u aid = rows_of_assignment db u aid"
  "get_assignment_by_moodle_id (lock_user v db) u aid = get_assignment_by_moodle_id db u aid"
  by (simp_all add: rows_of_assignment_def get_assignment_by_moodle_id_def)

lemma run_mark_spec:
  assumes q: "mark_ok q" and a: "get_assignment_by_moodle_id (data db) u aid = Some a"
  defines "db' \<equiv> snd (run_mark u aid q db)"
  shows "mark_field db' u (ua_id a) = field_put True (mark_field db u (ua_id a)) (mark_as_edit q)"
    "assignments (queue (data db')) = assignments (queue (data db))"
    "assignment_marks (queue (data db')) = map shown_mark (marks db')"
    "mark_of (marks db') u (ua_id a) \<noteq> None"
    "\<exists>ans. fst (run_mark u aid q db) = Inr ans \<and> ma_local_status ans = fld_value (mark_field db' u (ua_id a)) \<and>
       ma_applied ans = (ma_local_status ans = mq_status q)"
proof -
  obtain t where t: "edit_time (mq_hlc q) (mq_arrival q) (mq_age_ms q) = Inr t" and s: "require_stamp (mq_speaks_clock q) (mq_hlc q) (mq_age_ms q) = Inr ()"
    using q by (auto simp: mark_ok_def require_stamp_def split: sum.splits)
  define ids where "ids = (if mq_status q = ''none'' then map ua_id (rows_of_assignment (data db) u aid) else [ua_id a])"
  define ms where "ms = fold (ensure_mark u) ids (marks db)"
  define f where "f = (\<lambda>m. snd (mark_edit (mq_status q) t (mq_device q) (mq_arrival q) m))"
  define ms' where "ms' = update_where (\<lambda>m. mk_user m = u \<and> mk_assignment m \<in> set ids) f ms"
  have ia: "ua_id a \<in> set ids" using first_by_mem [of mark_order "rows_of_assignment (data db) u aid" a] a by (auto simp: ids_def get_assignment_by_moodle_id_def)
  have m: "mark_of ms' u (ua_id a) = Some (f (case mark_of (marks db) u (ua_id a) of Some m \<Rightarrow> m | None \<Rightarrow> new_mark u (ua_id a)))"
  proof -
    define m0 where "m0 = (case mark_of (marks db) u (ua_id a) of Some m \<Rightarrow> m | None \<Rightarrow> new_mark u (ua_id a))"
    have m0: "mark_of ms u (ua_id a) = Some m0" using ia by (simp add: ms_def mark_of_ensures m0_def split: option.split)
    have fr: "mk_user (f m) = mk_user m \<and> mk_assignment (f m) = mk_assignment m" for m by (simp add: f_def)
    show ?thesis unfolding ms'_def mark_of_update [of f, OF fr] m0 m0_def [symmetric] using ia mark_of_SomeD [OF m0] by simp
  qed
  define target where "target = the (mark_of ms' u (ua_id a))"
  define D where "D = set_marks ms' (db\<lparr>data := lock_user u (data db)\<rparr>)"
  define base where "base = data D"
  define ch where "ch \<longleftrightarrow> (\<exists>m \<in> set ms. (mk_user m = u \<and> mk_assignment m \<in> set ids) \<and> fst (mark_edit (mq_status q) t (mq_device q) (mq_arrival q) m))"
  have run: "run_mark u aid q db = (Inr \<lparr>ma_local_status = fld_value (mk_status target), ma_stamp = fld_stamp (mk_status target),
        ma_applied = (fld_value (mk_status target) = mq_status q)\<rparr>,
      if ch then D\<lparr>data := queue_sync_trigger u (mq_device q) (mq_clock q) (log_edit u (mq_device q) (mq_clock q) ''assignment_override'' (nat_str (ua_id a))
        (if fld_value (mk_status target) = ''none'' then ''delete'' else ''upsert'') (JObj [(''local_status'', JStr (fld_value (mk_status target)))]) (data D))\<rparr> else D)"
    unfolding run_mark_def patch_assignment_override_def s sum.case t lock_user_rows a option.case Let_def target_def D_def ch_def ms'_def ms_def ids_def f_def
    by (rule refl)
  have e: "marks db' = ms' \<and> (data db' = base \<or> (\<exists>i op d. data db' = queue_sync_trigger u (mq_device q) (mq_clock q) (log_edit u (mq_device q) (mq_clock q) ''assignment_override'' i op d base)))"
    "\<exists>ans. fst (run_mark u aid q db) = Inr ans \<and> ma_local_status ans = fld_value (mk_status target) \<and> ma_applied ans = (ma_local_status ans = mq_status q)"
    unfolding db'_def run base_def by (auto simp: D_def set_marks_def)
  show af: "mark_field db' u (ua_id a) = field_put True (mark_field db u (ua_id a)) (mark_as_edit q)"
    using e(1) m by (simp add: mark_field_def f_def mark_as_edit_def t split: option.split)
  have b: "assignments (queue base) = assignments (queue (data db))" "assignment_marks (queue base) = map shown_mark ms'"
    by (simp_all add: base_def D_def set_marks_def)
  show "assignments (queue (data db')) = assignments (queue (data db))" "assignment_marks (queue (data db')) = map shown_mark (marks db')"
    using e(1) b by auto
  show "mark_of (marks db') u (ua_id a) \<noteq> None" using e(1) m by simp
  have "mk_status target = mark_field db' u (ua_id a)" using e(1) m by (simp add: target_def mark_field_def)
  then show "\<exists>ans. fst (run_mark u aid q db) = Inr ans \<and> ma_local_status ans = fld_value (mark_field db' u (ua_id a)) \<and> ma_applied ans = (ma_local_status ans = mq_status q)"
    using e(2) by simp
qed

definition run_marks :: "uuid \<Rightarrow> int \<Rightarrow> mark_request list \<Rightarrow> edit_db \<Rightarrow> edit_db" where
  "run_marks u aid qs db = fold (\<lambda>q d. snd (run_mark u aid q d)) qs db"

lemma run_marks_refines:
  assumes "\<forall>q \<in> set qs. mark_ok q" "get_assignment_by_moodle_id (data db) u aid = Some a"
  shows "mark_field (run_marks u aid qs db) u (ua_id a) = fold (\<lambda>e f. field_put True f e) (map mark_as_edit qs) (mark_field db u (ua_id a)) \<and>
    get_assignment_by_moodle_id (data (run_marks u aid qs db)) u aid = Some a"
  using assms
proof (induction qs arbitrary: db)
  case (Cons q qs)
  let ?db = "snd (run_mark u aid q db)"
  have r: "mark_field ?db u (ua_id a) = field_put True (mark_field db u (ua_id a)) (mark_as_edit q)" "assignments (queue (data ?db)) = assignments (queue (data db))"
    using run_mark_spec(1,2) [of q db u aid a] Cons.prems by simp_all
  have "get_assignment_by_moodle_id (data ?db) u aid = Some a"
    using Cons.prems(2) r(2) by (simp add: get_assignment_by_moodle_id_def rows_of_assignment_def)
  then show ?case using Cons.IH [of ?db] Cons.prems(1) r(1) by (simp add: run_marks_def)
qed (simp add: run_marks_def)


lemma marked_row_listed:
  assumes "a \<in> set (assignments db)" "ua_user a = u" "ua_moodle_assignment a = aid" "m \<in> set (assignment_marks db)" "am_assignment m = ua_id a"
  shows "(a, Some (local_status m)) \<in> set (assignment_rows db u aid)"
proof -
  have "m \<in> set (filter (\<lambda>m. am_assignment m = ua_id a) (assignment_marks db))" using assms by simp
  then obtain x xs where f: "filter (\<lambda>m. am_assignment m = ua_id a) (assignment_marks db) = x # xs" "m \<in> set (x # xs)"
    by (cases "filter (\<lambda>m. am_assignment m = ua_id a) (assignment_marks db)") auto
  then have "(a, Some (local_status m)) \<in> set (case filter (\<lambda>m. am_assignment m = ua_id a) (assignment_marks db) of
        [] \<Rightarrow> [(a, None)] | ms \<Rightarrow> map (\<lambda>m. (a, Some (local_status m))) ms)" by auto
  then show ?thesis using assms(1-3) unfolding assignment_rows_def by auto
qed

lemma marked_is_gone:
  assumes "(a, Some st) \<in> set rows" "st \<in> set EXCLUDED_LOCAL_STATUSES"
  shows "\<exists>c. database_verdict db j aid rows due t = Some c \<and> pc_verdict c \<noteq> VSend"
  using assms by (cases "find ua_is_submitted (map fst rows)") (auto simp: database_verdict_def Let_def gone_def intro: rev_bexI)

text \<open>
  C31. A mark stops the reminders: once a request that marks the assignment done, ignored or archived is answered as applied, the check
  before a send finds the mark (or a submission) for every push about that assignment and never lets it go.
\<close>

theorem mark_stops_reminder:
  assumes "mark_ok q" "get_assignment_by_moodle_id (data db) u aid = Some a" "mq_status q \<in> set EXCLUDED_LOCAL_STATUSES"
    "run_mark u aid q db = (Inr ans, db')" "ma_applied ans"
  shows "\<exists>c. database_verdict (queue (data db')) j aid (assignment_rows (queue (data db')) u aid) due t = Some c \<and> pc_verdict c \<noteq> VSend"
proof -
  note R = run_mark_spec [OF assms(1,2), unfolded assms(4), simplified]
  obtain m where m: "mark_of (marks db') u (ua_id a) = Some m" using R(4) by blast
  have "fld_value (mk_status m) = mq_status q" using R(5) assms(5) m by (auto simp: mark_field_def)
  moreover have "shown_mark m \<in> set (assignment_marks (queue (data db')))" "am_assignment (shown_mark m) = ua_id a"
    using R(3) mark_of_SomeD [OF m] by auto (simp add: shown_mark_def)
  moreover have "a \<in> set (assignments (queue (data db')))" "ua_user a = u" "ua_moodle_assignment a = aid"
    using first_by_mem [of mark_order "rows_of_assignment (data db) u aid" a] assms(2) R(2) by (auto simp: get_assignment_by_moodle_id_def rows_of_assignment_def)
  ultimately have "(a, Some (mq_status q)) \<in> set (assignment_rows (queue (data db')) u aid)"
    using marked_row_listed [of a "queue (data db')" u aid "shown_mark m"] by (simp add: shown_mark_def)
  then show ?thesis using assms(3) by (rule marked_is_gone)
qed

section \<open>Settings documents\<close>

definition docs_ok :: "edit_db \<Rightarrow> bool" where
  "docs_ok db \<longleftrightarrow> (\<forall>u ns. length (filter (live_document u ns) (documents db)) \<le> 1)"

text \<open>The live document's revision, 0 for none.\<close>

definition stored_revision :: "edit_db \<Rightarrow> uuid \<Rightarrow> string \<Rightarrow> int" where
  "stored_revision db u ns = (case get_document db u ns of None \<Rightarrow> 0 | Some d \<Rightarrow> sd_revision d)"

record settings_request =
  sq_user :: uuid
  sq_device :: "uuid option"
  sq_namespace :: string
  sq_put :: settings_put
  sq_clock :: datetime

definition run_settings :: "settings_request \<Rightarrow> edit_db \<Rightarrow> settings_answer \<times> edit_db" where
  "run_settings q = put_document (sq_user q) (sq_device q) (sq_namespace q) (sq_put q) (sq_clock q)"

text \<open>The writes accepted for one document, in order: the revision they were based on and the one they stored.\<close>

fun accepted_writes :: "uuid \<Rightarrow> string \<Rightarrow> settings_request list \<Rightarrow> edit_db \<Rightarrow> (int \<times> int) list" where
  "accepted_writes u ns [] db = []"
| "accepted_writes u ns (q # qs) db =
    (case run_settings q db of (ans, db') \<Rightarrow>
       (case ans of
          Stored d \<Rightarrow> if sq_user q = u \<and> sq_namespace q = ns
            then (case sp_base_revision (sq_put q) of None \<Rightarrow> 0 | Some r \<Rightarrow> r, sd_revision d) # accepted_writes u ns qs db' else accepted_writes u ns qs db'
        | _ \<Rightarrow> accepted_writes u ns qs db'))"

lemma get_document_documents: "documents db' = documents db \<Longrightarrow> get_document db' = get_document db"
  by (simp add: get_document_def fun_eq_iff)

lemma log_settings_documents [simp]: "documents (log_settings u dev t d db) = documents db"
  by (simp add: log_settings_def)

lemma find_filter: "find P xs = (case filter P xs of [] \<Rightarrow> None | x # _ \<Rightarrow> Some x)"
  by (induction xs) auto

lemma one_live:
  assumes "length (filter P xs) \<le> 1" "d \<in> set xs" "P d"
  shows "find P xs = Some d" "x \<in> set xs \<Longrightarrow> P x \<Longrightarrow> x = d"
proof -
  have "d \<in> set (filter P xs)" using assms by simp
  then have e: "filter P xs = [d]" using assms(1) by (cases "filter P xs") auto
  then show "find P xs = Some d" by (simp add: find_filter)
  show "x \<in> set xs \<Longrightarrow> P x \<Longrightarrow> x = d"
  proof -
    assume "x \<in> set xs" "P x"
    then have "x \<in> set (filter P xs)" by simp
    then show ?thesis by (simp only: e) simp
  qed
qed

lemma find_update_where: "(\<And>d. P (f d) = P d) \<Longrightarrow> find P (update_where H f xs) = map_option (\<lambda>d. if H d then f d else d) (find P xs)"
  by (induction xs) auto

lemma filter_update_where: "(\<And>d. P (f d) = P d) \<Longrightarrow> length (filter P (update_where H f xs)) = length (filter P xs)"
  by (induction xs) auto

lemma live_document_unique: "live_document u ns d \<Longrightarrow> live_document v ms d \<longleftrightarrow> u = v \<and> ns = ms"
  by (auto simp: live_document_def)

definition stored_ok :: "uuid \<Rightarrow> string \<Rightarrow> int \<Rightarrow> settings_document \<Rightarrow> edit_db \<Rightarrow> edit_db \<Rightarrow> bool" where
  "stored_ok u ns base d db db' \<longleftrightarrow> base = stored_revision db u ns \<and> sd_revision d = base + 1 \<and> stored_revision db' u ns = base + 1 \<and>
     (\<forall>v ms. (v, ms) \<noteq> (u, ns) \<longrightarrow> stored_revision db' v ms = stored_revision db v ms)"

lemma create_stored:
  assumes ok: "docs_ok db" and n: "get_document db u ns = None" and d: "live_document u ns d" "sd_revision d = 1" and db': "documents db' = documents db @ [d]"
  shows "docs_ok db' \<and> stored_ok u ns 0 d db db'"
proof -
  have g: "get_document db' v ms = (if v = u \<and> ms = ns then Some d else get_document db v ms)" for v ms
  proof -
    have "find P (xs @ [d]) = (case find P xs of None \<Rightarrow> if P d then Some d else None | Some x \<Rightarrow> Some x)" for P and xs by (induction xs) auto
    then show ?thesis using n d(1) live_document_unique [OF d(1), of v ms] by (auto simp: get_document_def db' split: option.split)
  qed
  have "filter (live_document u ns) (documents db) = []" using n by (auto simp: get_document_def find_None_iff filter_empty_conv)
  then have "length (filter (live_document v ms) (documents db')) \<le> 1" for v ms
    using ok live_document_unique [OF d(1), of v ms] by (cases "v = u \<and> ms = ns") (auto simp: docs_ok_def db')
  then show ?thesis using g n d(2) by (auto simp: docs_ok_def stored_ok_def stored_revision_def)
qed

lemma update_stored:
  assumes ok: "docs_ok db" and d0: "d0 \<in> set (documents db)" "live_document u ns d0" "sd_revision d0 = r"
    and f: "\<And>d v ms. live_document v ms (f d) = live_document v ms d" "\<And>d. sd_revision (f d) = sd_revision d + 1"
    and db': "documents db' = update_where (\<lambda>d. live_document u ns d \<and> sd_revision d = r) f (documents db)"
  shows "docs_ok db' \<and> get_document db' u ns = Some (f d0) \<and> stored_ok u ns r (f d0) db db'"
proof -
  have one: "length (filter (live_document u ns) (documents db)) \<le> 1" using ok by (simp add: docs_ok_def)
  have g0: "get_document db u ns = Some d0" using one_live(1) [OF one d0(1,2)] by (simp add: get_document_def)
  have g: "get_document db' v ms = map_option (\<lambda>d. if live_document u ns d \<and> sd_revision d = r then f d else d) (get_document db v ms)" for v ms
    by (simp add: get_document_def db' find_update_where f(1))
  have g1: "get_document db' u ns = Some (f d0)" using g g0 d0(2,3) by simp
  have "get_document db' v ms = get_document db v ms" if "(v, ms) \<noteq> (u, ns)" for v ms
  proof (cases "get_document db v ms")
    case (Some d)
    then have "live_document v ms d" by (auto simp: get_document_def find_Some_iff)
    then show ?thesis using g Some live_document_unique [of v ms d u ns] that by auto
  qed (simp add: g)
  then have "stored_revision db' v ms = stored_revision db v ms" if "(v, ms) \<noteq> (u, ns)" for v ms using that by (simp add: stored_revision_def)
  moreover have "docs_ok db'" using ok by (simp add: docs_ok_def db' filter_update_where f(1))
  ultimately show ?thesis using g0 g1 d0(3) f(2) by (simp add: stored_ok_def stored_revision_def)
qed

lemma settings_step:
  assumes ok: "docs_ok db" and run: "run_settings q db = (ans, db')"
  shows "docs_ok db' \<and> (case ans of
      Stored d \<Rightarrow> stored_ok (sq_user q) (sq_namespace q) (case sp_base_revision (sq_put q) of None \<Rightarrow> 0 | Some r \<Rightarrow> r) d db db'
    | _ \<Rightarrow> db' = db)"
proof (cases "sq_namespace q \<in> set SETTINGS_NAMESPACES")
  case False
  then show ?thesis using ok run by (auto simp: run_settings_def put_document_def)
next
  case ns: True
  show ?thesis
  proof (cases "sp_base_revision (sq_put q)")
    case None
    show ?thesis
    proof (cases "get_document db (sq_user q) (sq_namespace q)")
      case (Some d)
      then show ?thesis using ok run ns None by (auto simp: run_settings_def put_document_def)
    next
      case no: None
      define d where "d = \<lparr>sd_user = sq_user q, sd_namespace = sq_namespace q, sd_schema_version = sp_schema (sq_put q), sd_document = sp_document (sq_put q),
        sd_revision = 1, sd_deleted_at = None, sd_created_by = sq_device q, sd_updated_by = sq_device q\<rparr>"
      have e: "ans = Stored d" "documents db' = documents db @ [d]" using run ns None no by (auto simp: run_settings_def put_document_def Let_def d_def)
      have "live_document (sq_user q) (sq_namespace q) d" "sd_revision d = 1" by (simp_all add: d_def live_document_def)
      from create_stored [OF ok no this e(2)] show ?thesis by (simp add: e(1) None)
    qed
  next
    case (Some r)
    let ?hit = "\<lambda>d. live_document (sq_user q) (sq_namespace q) d \<and> sd_revision d = r"
    define f where "f = (\<lambda>d :: settings_document. d\<lparr>sd_document := sp_document (sq_put q), sd_schema_version := sp_schema (sq_put q),
        sd_revision := sd_revision d + 1, sd_updated_by := sq_device q\<rparr>)"
    define db1 where "db1 = db\<lparr>documents := update_where ?hit f (documents db)\<rparr>"
    have nn: "(sq_namespace q \<notin> set SETTINGS_NAMESPACES) = False" using ns by simp
    have run': "put_document (sq_user q) (sq_device q) (sq_namespace q) (sq_put q) (sq_clock q) db =
        (if \<not> (\<exists>d \<in> set (documents db). ?hit d)
         then (case get_document db (sq_user q) (sq_namespace q) of None \<Rightarrow> (SettingsError (HTTPException 404 ''settings document not found''), db) | Some d \<Rightarrow> (Conflict d, db))
         else (case get_document db1 (sq_user q) (sq_namespace q) of None \<Rightarrow> (SettingsError (HTTPException 500 ''assertion''), db)
           | Some d \<Rightarrow> (Stored d, log_settings (sq_user q) (sq_device q) (sq_clock q) d db1)))"
      unfolding put_document_def nn if_False Some option.case Let_def db1_def f_def by (rule refl)
    show ?thesis
    proof (cases "\<exists>d \<in> set (documents db). ?hit d")
      case False
      then show ?thesis using ok run unfolding run_settings_def run' by (auto split: option.splits)
    next
      case True
      then obtain d0 where d0: "d0 \<in> set (documents db)" "live_document (sq_user q) (sq_namespace q) d0" "sd_revision d0 = r" by blast
      have F: "\<And>d v ms. live_document v ms (f d) = live_document v ms d" "\<And>d. sd_revision (f d) = sd_revision d + 1" by (simp_all add: f_def live_document_def)
      have U: "docs_ok db1" "get_document db1 (sq_user q) (sq_namespace q) = Some (f d0)" "stored_ok (sq_user q) (sq_namespace q) r (f d0) db db1"
        using update_stored [OF ok d0 F, of db1] by (simp_all add: db1_def)
      have e: "ans = Stored (f d0)" "documents db' = documents db1" using run True U(2) unfolding run_settings_def run' by auto
      have "docs_ok db' = docs_ok db1" "stored_ok a b c d db db' = stored_ok a b c d db db1" for a b c d
        using get_document_documents [OF e(2)] e(2) by (simp_all add: docs_ok_def stored_ok_def stored_revision_def)
      then show ?thesis using U(1,3) by (simp add: e(1) Some)
    qed
  qed
qed

text \<open>
  C30. No update of a settings document is lost: over any sequence of writes by any devices, the accepted ones of a document form a chain.
  Each was based on the revision the one before it stored (the first on what was stored, none counting as 0) and stored the next, so of
  two writes based on the same revision only one is accepted.
\<close>

theorem settings_chain:
  assumes "docs_ok db"
  shows "accepted_writes u ns qs db =
    map (\<lambda>k. (stored_revision db u ns + int k, stored_revision db u ns + int k + 1)) [0..<length (accepted_writes u ns qs db)]"
  using assms
proof (induction qs arbitrary: db)
  case (Cons q qs)
  obtain ans db' where run: "run_settings q db = (ans, db')" by fastforce
  note S = settings_step [OF Cons.prems run]
  show ?case
  proof (cases "\<exists>d. ans = Stored d \<and> sq_user q = u \<and> sq_namespace q = ns")
    case True
    then obtain d where d: "ans = Stored d" "sq_user q = u" "sq_namespace q = ns" by blast
    have s: "docs_ok db'" "(case sp_base_revision (sq_put q) of None \<Rightarrow> 0 | Some r \<Rightarrow> r) = stored_revision db u ns"
        "sd_revision d = stored_revision db u ns + 1" "stored_revision db' u ns = stored_revision db u ns + 1"
      using S d by (auto simp: stored_ok_def)
    define n where "n = length (accepted_writes u ns qs db')"
    have IH: "accepted_writes u ns qs db' = map (\<lambda>k. (stored_revision db' u ns + int k, stored_revision db' u ns + int k + 1)) [0..<n]"
      using Cons.IH [OF s(1)] by (simp add: n_def)
    have "accepted_writes u ns (q # qs) db = (stored_revision db u ns, stored_revision db u ns + 1) # accepted_writes u ns qs db'"
      using d s(2,3) by (simp add: run)
    also have "\<dots> = map (\<lambda>k. (stored_revision db u ns + int k, stored_revision db u ns + int k + 1)) [0..<Suc n]"
      unfolding IH s(4) by (subst upt_conv_Cons) (simp_all add: map_Suc_upt [symmetric] o_def del: upt_Suc)
    finally show ?thesis by (simp only: length_map length_upt) (simp add: n_def)
  next
    case False
    have same: "stored_revision db' u ns = stored_revision db u ns" "docs_ok db'"
      using S False by (auto simp: stored_ok_def split: settings_answer.splits)
    have "accepted_writes u ns (q # qs) db = accepted_writes u ns qs db'" using False by (auto simp: run split: settings_answer.split)
    then show ?thesis using Cons.IH [OF same(2)] by (simp add: same(1))
  qed
qed simp

section \<open>Concrete cases\<close>

definition sample_open :: user_assignment where
  "sample_open = (hd (assignments (queue sample_mirror)))\<lparr>ua_is_submitted := False, ua_submitted_at := None\<rparr>"

definition sample_edits :: edit_db where
  "sample_edits = \<lparr>data = sample_mirror\<lparr>queue := (queue sample_mirror)\<lparr>assignments := [sample_open]\<rparr>\<rparr>, marks = [], holiday_rows = [], documents = []\<rparr>"

definition sample_mark :: "string \<Rightarrow> int \<Rightarrow> mark_request" where
  "sample_mark status age = \<lparr>mq_device = Some 2, mq_speaks_clock = True, mq_status = status, mq_hlc = None, mq_age_ms = Some age,
     mq_arrival = 5000000000, mq_clock = 5000000000\<rparr>"

definition sample_put :: "int option \<Rightarrow> settings_request" where
  "sample_put base = \<lparr>sq_user = 7, sq_device = Some 2, sq_namespace = ''appearance'',
     sq_put = \<lparr>sp_schema = 1, sp_document = JObj [], sp_base_revision = base\<rparr>, sq_clock = 100\<rparr>"

lemma sample_edits_row: "get_assignment_by_moodle_id (data sample_edits) 7 9 = Some sample_open"
  by (simp add: sample_edits_def get_assignment_by_moodle_id_def rows_of_assignment_def sample_open_def sample_mirror_def first_by_def mark_order_def)

lemma sample_marks_ok: "mark_ok (sample_mark ''locally_completed'' 10)" "mark_ok (sample_mark ''ignored'' 20)"
  by code_simp+


theorem mark_stops_reminder_witness:
  "\<exists>c. database_verdict (queue (data (snd (run_mark 7 9 (sample_mark ''locally_completed'' 10) sample_edits)))) (new_job 7 None ''k'' REMINDER_CHANNEL ''reminder_24h'' 50 0 [] 0 1) 9
     (assignment_rows (queue (data (snd (run_mark 7 9 (sample_mark ''locally_completed'' 10) sample_edits)))) 7 9) (Some 500) 100 = Some c \<and> pc_verdict c \<noteq> VSend"
proof -
  have "map_sum id ma_applied (fst (run_mark 7 9 (sample_mark ''locally_completed'' 10) sample_edits)) = Inr True" by code_simp
  then obtain ans where "run_mark 7 9 (sample_mark ''locally_completed'' 10) sample_edits = (Inr ans, snd (run_mark 7 9 (sample_mark ''locally_completed'' 10) sample_edits))" "ma_applied ans"
    by (cases "run_mark 7 9 (sample_mark ''locally_completed'' 10) sample_edits"; cases "fst (run_mark 7 9 (sample_mark ''locally_completed'' 10) sample_edits)") auto
  moreover have "mq_status (sample_mark ''locally_completed'' 10) \<in> set EXCLUDED_LOCAL_STATUSES" by code_simp
  ultimately show ?thesis using mark_stops_reminder [OF sample_marks_ok(1) sample_edits_row] by blast
qed

theorem settings_chain_witness:
  "accepted_writes 7 ''appearance'' [sample_put None, sample_put (Some 1), sample_put (Some 1)] sample_edits = [(0, 1), (1, 2)]"
proof -
  have ok: "docs_ok sample_edits" by (simp add: docs_ok_def sample_edits_def)
  have "length (accepted_writes 7 ''appearance'' [sample_put None, sample_put (Some 1), sample_put (Some 1)] sample_edits) = 2"
    "stored_revision sample_edits 7 ''appearance'' = 0" by code_simp+
  then show ?thesis
    using settings_chain [OF ok, of 7 "''appearance''" "[sample_put None, sample_put (Some 1), sample_put (Some 1)]"] by (simp add: upt_rec)
qed

end
