(* ===== verification/UploadFacts.thy ===== *)
theory UploadFacts
  imports EditFacts
begin

text \<open>
  What an upload of assignments guarantees (\<open>upload_assignments\<close> of \<open>UserEdits\<close>): no row is lost or doubled, a submission is
  never taken back, the server's rows only gain a report, and every submission reported reaches a row.
\<close>

section \<open>How a row may grow\<close>

definition grew :: "user_assignment \<Rightarrow> user_assignment \<Rightarrow> bool" where
  "grew x y \<longleftrightarrow> ua_id y = ua_id x \<and> ua_user y = ua_user x \<and> ua_moodle_assignment y = ua_moodle_assignment x \<and> ua_moodle_course y = ua_moodle_course x \<and>
     ua_deleted_at y = ua_deleted_at x \<and>
     (ua_is_submitted x \<longrightarrow> ua_is_submitted y \<and> ua_submitted_at y = ua_submitted_at x) \<and>
     (ua_grade x \<noteq> None \<longrightarrow> ua_grade y \<noteq> None) \<and>
     (ua_moodle_course x \<noteq> 0 \<longrightarrow> y = x\<lparr>ua_is_submitted := ua_is_submitted y, ua_submitted_at := ua_submitted_at y, ua_grade := ua_grade y\<rparr>)"

lemma grew_refl [simp]: "grew x x"
  by (simp add: grew_def)

lemma grew_trans:
  assumes "grew x y" "grew y z"
  shows "grew x z"
proof -
  have "z = x\<lparr>ua_is_submitted := ua_is_submitted z, ua_submitted_at := ua_submitted_at z, ua_grade := ua_grade z\<rparr>" if c: "ua_moodle_course x \<noteq> 0"
  proof -
    have y: "y = x\<lparr>ua_is_submitted := ua_is_submitted y, ua_submitted_at := ua_submitted_at y, ua_grade := ua_grade y\<rparr>"
      and z: "z = y\<lparr>ua_is_submitted := ua_is_submitted z, ua_submitted_at := ua_submitted_at z, ua_grade := ua_grade z\<rparr>"
      using assms c by (auto simp: grew_def)
    show ?thesis using y z by (cases x; cases y; cases z) simp
  qed
  then show ?thesis using assms by (auto simp: grew_def)
qed

lemma upload_into_grew: "grew a (snd (upload_into now item due a))"
  by (simp add: upload_into_def grew_def report_grade_def report_submission_def update_placeholder_def split: option.split)

lemma upload_into_reports: "ui_is_submitted item \<Longrightarrow> ua_is_submitted (snd (upload_into now item due a))"
  by (simp add: upload_into_def report_grade_def report_submission_def)

definition of_student :: "uuid \<Rightarrow> int \<Rightarrow> user_assignment \<Rightarrow> bool" where
  "of_student u aid a \<longleftrightarrow> ua_user a = u \<and> ua_moodle_assignment a = aid"

lemma grew_of_student: "grew x y \<Longrightarrow> of_student u aid y = of_student u aid x"
  by (simp add: grew_def of_student_def)

text \<open>One row replaced by what it grew into.\<close>

lemma replace_grown:
  assumes d: "distinct (map ua_id rows)" and a: "a \<in> set rows" and g: "grew a b"
  defines "rows' \<equiv> row_update ua_id (ua_id b) (\<lambda>_. b) rows"
  shows "list_all2 grew rows rows'" "b \<in> set rows'"
proof -
  have "grew r (if ua_id r = ua_id b then b else r)" if r: "r \<in> set rows" for r
  proof (cases "ua_id r = ua_id b")
    case True
    then have "ua_id r = ua_id a" using g by (simp add: grew_def)
    then have "r = a" using d a r by (auto simp: distinct_map dest: inj_onD)
    then show ?thesis using g by simp
  qed simp
  then show "list_all2 grew rows rows'" by (simp add: rows'_def row_update_def list_all2_map2 list.rel_refl_strong)
  have "ua_id a = ua_id b" using g by (simp add: grew_def)
  then show "b \<in> set rows'" using a by (force simp: rows'_def row_update_def)
qed

lemma grown_rows:
  assumes "list_all2 grew xs ys"
  shows "map ua_id ys = map ua_id xs" "length (filter (of_student u aid) ys) = length (filter (of_student u aid) xs)"
    "x \<in> set xs \<Longrightarrow> \<exists>y \<in> set ys. grew x y" "y \<in> set ys \<Longrightarrow> \<exists>x \<in> set xs. grew x y"
  using assms by (induction rule: list_all2_induct) (auto simp: grew_of_student, auto simp: grew_def)

section \<open>One item\<close>

definition rows_of :: "upload_state \<Rightarrow> user_assignment list" where
  "rows_of st = assignments (queue (us_db st))"

definition upload_ok :: "uuid \<Rightarrow> int set \<Rightarrow> upload_state \<Rightarrow> bool" where
  "upload_ok u ids st \<longleftrightarrow> distinct (map ua_id (rows_of st)) \<and> (\<forall>x \<in> set (rows_of st). ua_id x < assignment_seq (queue (us_db st))) \<and>
     (\<forall>aid i. map_of (us_rows st) aid = Some i \<longrightarrow> (\<exists>a \<in> set (rows_of st). ua_id a = i \<and> of_student u aid a)) \<and>
     (\<forall>aid \<in> ids. map_of (us_rows st) aid = None \<longrightarrow> filter (of_student u aid) (rows_of st) = [])"

text \<open>What one item does to the rows: at most one is appended, for an assignment that had none, then all grow.\<close>

lemma upload_item_rows:
  fixes from_iso :: "string \<Rightarrow> datetime option" and now :: datetime and item :: upload_item
  assumes ok: "upload_ok u ids st" and i: "ui_id item \<in> ids"
  defines "st' \<equiv> upload_item_step from_iso u now item st"
  shows "upload_ok u ids st' \<and>
    (\<exists>new. list_all2 grew (rows_of st @ new) (rows_of st') \<and>
       (if filter (of_student u (ui_id item)) (rows_of st) = [] then length new = 1 \<and> list_all (of_student u (ui_id item)) new else new = [])) \<and>
    (\<exists>y \<in> set (rows_of st'). of_student u (ui_id item) y \<and> (ui_is_submitted item \<longrightarrow> ua_is_submitted y))"
proof -
  define due where "due = parse_due from_iso (ui_due_at item)"
  define s where "s = assignment_seq (queue (us_db st))"
  define new where "new = (if map_of (us_rows st) (ui_id item) = None then [placeholder_row u now item due s] else [])"
  define i0 where "i0 = (case map_of (us_rows st) (ui_id item) of Some i \<Rightarrow> i | None \<Rightarrow> s)"
  define rows where "rows = rows_of st @ new"
  define a where "a = the (row_get ua_id i0 rows)"
  define b where "b = snd (upload_into now item due a)"
  have ok': "distinct (map ua_id (rows_of st))" "\<forall>x \<in> set (rows_of st). ua_id x < s"
      "\<And>aid i. map_of (us_rows st) aid = Some i \<Longrightarrow> \<exists>a \<in> set (rows_of st). ua_id a = i \<and> of_student u aid a"
      "\<And>aid. aid \<in> ids \<Longrightarrow> map_of (us_rows st) aid = None \<Longrightarrow> filter (of_student u aid) (rows_of st) = []"
    using ok by (simp_all add: upload_ok_def s_def)
  have r: "rows_of st' = row_update ua_id (ua_id b) (\<lambda>_. b) rows" "us_rows st' = AList.update (ui_id item) i0 (us_rows st)"
    "assignment_seq (queue (us_db st')) = s + length new"
    by (simp_all add: st'_def upload_item_step_def Let_def rows_of_def b_def a_def due_def new_def i0_def s_def rows_def assignment_of_def put_assignment_def split_beta
        split: option.split)
  have d: "distinct (map ua_id rows)" "\<forall>x \<in> set rows. ua_id x < s + length new" using ok'(1,2) by (auto simp: rows_def new_def placeholder_row_def)
  have a: "a \<in> set rows" "ua_id a = i0" "of_student u (ui_id item) a"
  proof -
    have "\<exists>x \<in> set rows. ua_id x = i0 \<and> of_student u (ui_id item) x"
      using ok'(3) [of "ui_id item"] by (cases "map_of (us_rows st) (ui_id item)") (auto simp: rows_def i0_def new_def placeholder_row_def of_student_def)
    then obtain x where x: "x \<in> set rows" "ua_id x = i0" "of_student u (ui_id item) x" by blast
    then have "a = x" using row_get_in_set [OF d(1) x(1)] by (simp add: a_def)
    then show "a \<in> set rows" "ua_id a = i0" "of_student u (ui_id item) a" using x by simp_all
  qed
  have g: "grew a b" by (simp add: b_def upload_into_grew)
  note G = replace_grown [OF d(1) a(1) g, folded r(1)]
  note GR = grown_rows [OF G(1)]
  have new: "if filter (of_student u (ui_id item)) (rows_of st) = [] then length new = 1 \<and> list_all (of_student u (ui_id item)) new else new = []"
  proof (cases "map_of (us_rows st) (ui_id item)")
    case None
    then show ?thesis using ok'(4) [OF i] by (simp add: new_def placeholder_row_def of_student_def)
  next
    case (Some j)
    then show ?thesis using ok'(3) [OF Some] by (auto simp: new_def filter_empty_conv)
  qed
  have rep: "of_student u (ui_id item) b" "ui_is_submitted item \<Longrightarrow> ua_is_submitted b"
    using grew_of_student [OF g] a(3) upload_into_reports by (simp_all add: b_def)
  have idx: "\<exists>a \<in> set (rows_of st'). ua_id a = j \<and> of_student u aid a" if j: "map_of (us_rows st') aid = Some j" for aid j
  proof (cases "aid = ui_id item")
    case True
    then have "j = i0" using j by (simp add: r(2) update_conv)
    then show ?thesis using True G(2) rep(1) g a(2) by (auto simp: grew_def)
  next
    case False
    then obtain x where x: "x \<in> set rows" "ua_id x = j" "of_student u aid x" using ok'(3) [of aid j] j by (auto simp: r(2) update_conv rows_def)
    then obtain y where "y \<in> set (rows_of st')" "grew x y" using GR(3) by blast
    then show ?thesis using x(2,3) by (auto simp: grew_def of_student_def)
  qed
  have free: "filter (of_student u aid) (rows_of st') = []" if f: "aid \<in> ids" "map_of (us_rows st') aid = None" for aid
  proof -
    have n: "aid \<noteq> ui_id item" "map_of (us_rows st) aid = None" using f(2) by (auto simp: r(2) update_conv split: if_splits)
    then have "filter (of_student u aid) rows = []" using ok'(4) [OF f(1)] by (simp add: rows_def new_def placeholder_row_def of_student_def)
    then show ?thesis using GR(2) [of u aid] by simp
  qed
  have "\<forall>x \<in> set (rows_of st'). ua_id x < s + length new"
  proof
    fix x assume "x \<in> set (rows_of st')"
    then have "ua_id x \<in> set (map ua_id rows)" using GR(1) by (metis image_eqI list.set_map)
    then show "ua_id x < s + length new" using d(2) by auto
  qed
  then have "upload_ok u ids st'" using d(1) GR(1) idx free by (simp add: upload_ok_def r(3))
  then show ?thesis using G new rep by (auto simp: rows_def)
qed

lemma upload_item_counts:
  assumes "upload_ok u ids st" "ui_id item \<in> ids"
  shows "length (filter (of_student v aid) (rows_of (upload_item_step from_iso u now item st))) =
    (if v = u \<and> aid = ui_id item then max 1 (length (filter (of_student v aid) (rows_of st))) else length (filter (of_student v aid) (rows_of st)))"
proof -
  obtain extra where n: "list_all2 grew (rows_of st @ extra) (rows_of (upload_item_step from_iso u now item st))"
      "if filter (of_student u (ui_id item)) (rows_of st) = [] then length extra = 1 \<and> list_all (of_student u (ui_id item)) extra else extra = []"
    using upload_item_rows [OF assms] by blast
  show ?thesis
  proof (cases "filter (of_student u (ui_id item)) (rows_of st) = []")
    case True
    then obtain x where "extra = [x]" "of_student u (ui_id item) x" using n(2) by (auto simp: length_Suc_conv)
    then show ?thesis using True grown_rows(2) [OF n(1), of v aid] by (auto simp: of_student_def)
  next
    case False
    then have "length (filter (of_student u (ui_id item)) (rows_of st)) \<ge> 1" by (cases "filter (of_student u (ui_id item)) (rows_of st)") simp_all
    moreover have "extra = []" using n(2) unfolding if_not_P [OF False] .
    ultimately show ?thesis using grown_rows(2) [OF n(1), of v aid] by auto
  qed
qed

section \<open>The whole upload\<close>

definition reported :: "uuid \<Rightarrow> user_assignment list \<Rightarrow> upload_item \<Rightarrow> bool" where
  "reported u rows item \<longleftrightarrow> (\<exists>y \<in> set rows. of_student u (ui_id item) y \<and> (ui_is_submitted item \<longrightarrow> ua_is_submitted y))"

definition all_grew :: "user_assignment list \<Rightarrow> user_assignment list \<Rightarrow> bool" where
  "all_grew xs ys \<longleftrightarrow> (\<forall>x \<in> set xs. \<exists>y \<in> set ys. grew x y)"

lemma all_grew_trans: "all_grew xs ys \<Longrightarrow> all_grew ys zs \<Longrightarrow> all_grew xs zs"
  unfolding all_grew_def by (meson grew_trans)

lemma reported_grows: "reported u xs item \<Longrightarrow> all_grew xs ys \<Longrightarrow> reported u ys item"
proof -
  assume r: "reported u xs item" and g: "all_grew xs ys"
  obtain x where x: "x \<in> set xs" "of_student u (ui_id item) x" "ui_is_submitted item \<longrightarrow> ua_is_submitted x" using r unfolding reported_def by blast
  then obtain y where y: "y \<in> set ys" "grew x y" using g unfolding all_grew_def by blast
  have "ua_is_submitted x \<longrightarrow> ua_is_submitted y" using y(2) by (simp add: grew_def)
  then show ?thesis using x(2,3) y(1) grew_of_student [OF y(2)] unfolding reported_def by blast
qed

lemma upload_items:
  fixes from_iso :: "string \<Rightarrow> datetime option" and now :: datetime
  assumes "upload_ok u ids st" "\<forall>item \<in> set items. ui_id item \<in> ids"
  defines "st' \<equiv> fold (upload_item_step from_iso u now) items st"
  shows "all_grew (rows_of st) (rows_of st') \<and> (\<forall>item \<in> set items. reported u (rows_of st') item) \<and>
    (\<forall>v aid. length (filter (of_student v aid) (rows_of st')) =
      (if v = u \<and> aid \<in> ui_id ` set items then max 1 (length (filter (of_student v aid) (rows_of st))) else length (filter (of_student v aid) (rows_of st))))"
  using assms(1,2) unfolding st'_def
proof (induction items arbitrary: st)
  case (Cons item items)
  let ?st = "upload_item_step from_iso u now item st"
  have i: "ui_id item \<in> ids" using Cons.prems(2) by simp
  note R = upload_item_rows [OF Cons.prems(1) i, of from_iso now]
  obtain extra where l: "list_all2 grew (rows_of st @ extra) (rows_of ?st)" using R by blast
  have g: "all_grew (rows_of st) (rows_of ?st)" "reported u (rows_of ?st) item"
    using R grown_rows(3) [OF l] by (auto simp: all_grew_def reported_def)
  have IH: "all_grew (rows_of ?st) (rows_of (fold (upload_item_step from_iso u now) items ?st))"
      "\<forall>item \<in> set items. reported u (rows_of (fold (upload_item_step from_iso u now) items ?st)) item"
      "\<And>v aid. length (filter (of_student v aid) (rows_of (fold (upload_item_step from_iso u now) items ?st))) =
        (if v = u \<and> aid \<in> ui_id ` set items then max 1 (length (filter (of_student v aid) (rows_of ?st))) else length (filter (of_student v aid) (rows_of ?st)))"
    using Cons.IH [of ?st] R Cons.prems(2) by auto
  show ?case using all_grew_trans [OF g(1) IH(1)] reported_grows [OF g(2) IH(1)] IH(2,3) upload_item_counts [OF Cons.prems(1) i, of _ _ from_iso now]
    by auto
qed (auto simp: all_grew_def intro: grew_refl)

text \<open>Nothing after the items touches the rows.\<close>

lemma log_uploaded_rows [simp]: "assignments (queue (fold (log_uploaded u dev now rows) entries db)) = assignments (queue db)"
  by (induction entries arbitrary: db) (auto simp: log_uploaded_def split: prod.split)

lemma end_activity_rows [simp]: "assignments (end_activity isoformat u now target db) = assignments db"
  by (simp add: end_activity_def modify_job_def insert_job_def Let_def split: prod.split option.split)

lemma cancel_for_submitted_rows [simp]: "assignments (cancel_for_submitted isoformat db u aids now) = assignments db"
proof -
  have "assignments (fold (end_activity isoformat u now) ts d) = assignments d" for ts d by (induction ts arbitrary: d) simp_all
  then show ?thesis by (simp add: cancel_for_submitted_def end_running_activities_def cancel_pending_reminders_def)
qed

definition numbered :: "push_db \<Rightarrow> bool" where
  "numbered db \<longleftrightarrow> distinct (map ua_id (assignments db)) \<and> (\<forall>x \<in> set (assignments db). ua_id x < assignment_seq db)"

definition upload_start :: "uuid \<Rightarrow> upload_item list \<Rightarrow> course_db \<Rightarrow> upload_state" where
  "upload_start u items base = \<lparr>us_db = base,
     us_rows = [(aid, ua_id a). aid \<leftarrow> remdups (map ui_id items), Some a \<leftarrow> [first_by upload_order (filter (of_student u aid) (assignments (queue base)))]],
     us_submitted = [], us_changed = []\<rparr>"

lemma map_of_chosen:
  "map_of (concat (map (\<lambda>k. case g k of None \<Rightarrow> [] | Some x \<Rightarrow> [(k, f x)]) ks)) k = (if k \<in> set ks then map_option f (g k) else None)"
  by (induction ks) (auto split: option.split)

lemma three_keys_trans:
  fixes p q i :: "'a \<Rightarrow> nat"
  defines "lt \<equiv> (\<lambda>a b. p a < p b \<or> p a = p b \<and> (q a < q b \<or> q a = q b \<and> i a < i b))"
  shows "transp lt" "irreflp lt"
  by (auto simp: lt_def transp_def irreflp_def)

lemma upload_order_picks: "first_by upload_order xs = None \<Longrightarrow> xs = []"
proof -
  have e: "upload_order = (\<lambda>a b. of_bool (ua_moodle_course a = 0) < (of_bool (ua_moodle_course b = 0) :: nat) \<or>
      of_bool (ua_moodle_course a = 0) = (of_bool (ua_moodle_course b = 0) :: nat) \<and>
      (of_bool (ua_deleted_at a \<noteq> None) < (of_bool (ua_deleted_at b \<noteq> None) :: nat) \<or>
       of_bool (ua_deleted_at a \<noteq> None) = (of_bool (ua_deleted_at b \<noteq> None) :: nat) \<and> ua_id a < ua_id b))"
    unfolding upload_order_def Let_def prod.case by (rule refl)
  have "transp upload_order" "irreflp upload_order" unfolding e by (rule three_keys_trans)+
  then show "first_by upload_order xs = None \<Longrightarrow> xs = []" using first_by_exists [of upload_order xs] by force
qed

lemma upload_start_ok:
  assumes "numbered (queue base)"
  shows "upload_ok u (ui_id ` set items) (upload_start u items base)"
proof -
  have m: "map_of (us_rows (upload_start u items base)) aid = (if aid \<in> ui_id ` set items
      then map_option ua_id (first_by upload_order (filter (of_student u aid) (assignments (queue base)))) else None)" for aid
    using map_of_chosen [where g = "\<lambda>aid. first_by upload_order (filter (of_student u aid) (assignments (queue base)))" and f = ua_id and ks = "remdups (map ui_id items)" and k = aid] by (simp add: upload_start_def)
  have r: "rows_of (upload_start u items base) = assignments (queue base)" "us_db (upload_start u items base) = base"
    by (simp_all add: upload_start_def rows_of_def)
  have "\<exists>a \<in> set (assignments (queue base)). ua_id a = i \<and> of_student u aid a" if "map_of (us_rows (upload_start u items base)) aid = Some i" for aid i
    using that first_by_mem unfolding m by (fastforce split: if_splits)
  moreover have "filter (of_student u aid) (assignments (queue base)) = []"
    if "aid \<in> ui_id ` set items" "map_of (us_rows (upload_start u items base)) aid = None" for aid
    using that unfolding m by (simp add: upload_order_picks)
  ultimately show ?thesis using assms unfolding upload_ok_def r numbered_def by blast
qed

lemma upload_rows:
  "assignments (queue (data (snd (upload_assignments from_iso isoformat u dev items now db)))) =
    rows_of (fold (upload_item_step from_iso u now) items (upload_start u items (lock_user u (data db))))"
  by (simp add: upload_assignments_def upload_start_def of_student_def [abs_def] Let_def rows_of_def push_back_sync_jobs_def)


definition sample_upload :: "upload_item list" where
  "sample_upload = [\<lparr>ui_id = 9, ui_course_no = ''CS1'', ui_course_name = ''Logic'', ui_title = ''HW1'', ui_due_at = None, ui_moodle_url = None,
       ui_is_submitted = True, ui_grade = None\<rparr>,
     \<lparr>ui_id = 12, ui_course_no = ''CS1'', ui_course_name = ''Logic'', ui_title = ''HW2'', ui_due_at = None, ui_moodle_url = None,
       ui_is_submitted = False, ui_grade = Some ''A''\<rparr>]"


end
