(* ===== verification/Reminders.thy ===== *)
theory Reminders
  imports UserEdits PushDelivery
begin

text \<open>
  The scan that files the reminders of due assignments, \<^verbatim>\<open>server/push/reminders.py\<close>, one transaction over the tables of
  \<open>edit_db\<close>. It reads every user's assignments, settings documents and devices, files a job per assignment and offset with the due
  date in its key, and cancels the waiting jobs whose key no longer stands for one. A job another transaction has locked is skipped
  (\<^verbatim>\<open>SKIP LOCKED\<close>): which ones is a parameter. An exception anywhere ends the transaction, the value \<open>Inl\<close>.
\<close>

section \<open>Filing jobs\<close>

record job_values =
  jv_user :: uuid
  jv_key :: string
  jv_scenario :: string
  jv_fire_at :: datetime
  jv_payload :: payload

definition INSERT_CHUNK_ROWS :: nat where "INSERT_CHUNK_ROWS = 2000"

text \<open>\<^verbatim>\<open>INSERT ... ON CONFLICT DO NOTHING\<close> of one row; the count is the statement's \<^verbatim>\<open>rowcount\<close>.\<close>

definition file_job :: "string \<Rightarrow> datetime \<Rightarrow> job_values \<Rightarrow> nat \<times> push_db \<Rightarrow> nat \<times> push_db" where
  "file_job chan filed v state =
    (case state of (n, db) \<Rightarrow>
       if conflicting_job db (jv_user v) (jv_key v) = None
       then (Suc n, insert_job (new_job (jv_user v) None (jv_key v) chan (jv_scenario v) (jv_fire_at v) 100 (jv_payload v) filed) db)
       else (n, db))"

function file_chunks :: "nat \<Rightarrow> string \<Rightarrow> datetime \<Rightarrow> job_values list \<Rightarrow> nat \<times> push_db \<Rightarrow> nat \<times> push_db" where
  "file_chunks k chan filed vs state =
    (if vs = [] \<or> k = 0 then state
     else file_chunks k chan filed (drop k vs) (let (n, db) = state; (m, db') = fold (file_job chan filed) (take k vs) (0, db) in (n + m, db')))"
  by pat_completeness auto
termination by (relation "measure (\<lambda>(k, chan, filed, vs, state). length vs)") auto

declare file_chunks.simps [simp del]

definition file_jobs :: "string \<Rightarrow> datetime \<Rightarrow> job_values list \<Rightarrow> push_db \<Rightarrow> nat \<times> push_db" where
  "file_jobs chan filed vs db = file_chunks INSERT_CHUNK_ROWS chan filed vs (0, db)"

section \<open>The notification settings\<close>

record reminder_settings =
  default_offsets :: "rat list"
  window_hours :: int

fun numbers :: "json list \<Rightarrow> string + rat list" where
  "numbers [] = Inr []"
| "numbers (JInt n # xs) =
    (case nearest_double (of_int n) of None \<Rightarrow> Inl ''OverflowError''
     | Some r \<Rightarrow> (case numbers xs of Inl e \<Rightarrow> Inl e | Inr rs \<Rightarrow> Inr (r # rs)))"
| "numbers (JFloat r # xs) = (case numbers xs of Inl e \<Rightarrow> Inl e | Inr rs \<Rightarrow> Inr (r # rs))"
| "numbers (_ # xs) = numbers xs"

text \<open>A double divided by 60 is one again.\<close>

definition sixtieth :: "rat \<Rightarrow> rat" where
  "sixtieth r = (case nearest_double (r / 60) of Some x \<Rightarrow> x | None \<Rightarrow> r / 60)"

text \<open>\<^verbatim>\<open>x or {}\<close>, then \<^verbatim>\<open>.get\<close>, which a value that is no dictionary lacks.\<close>

definition dict_or_empty :: "json \<Rightarrow> string + payload" where
  "dict_or_empty v = (if \<not> truthy v then Inr [] else case v of JObj kv \<Rightarrow> Inr kv | _ \<Rightarrow> Inl ''AttributeError'')"

definition offsets_hours :: "payload \<Rightarrow> rat list \<Rightarrow> string + rat list" where
  "offsets_hours section dflt = (case payload_get section ''reminder_offsets_minutes'' of
     JList xs \<Rightarrow> (case numbers xs of Inl e \<Rightarrow> Inl e | Inr rs \<Rightarrow> Inr (map sixtieth rs))
   | _ \<Rightarrow> (case payload_get section ''reminder_offsets_hours'' of JList xs \<Rightarrow> numbers xs | _ \<Rightarrow> Inr dflt))"

definition reminders_enabled :: "payload \<Rightarrow> bool" where
  "reminders_enabled section = (case map_of section ''enabled'' of None \<Rightarrow> True | Some v \<Rightarrow> v = JBool True)"

definition read_prefs :: "string \<Rightarrow> (payload \<Rightarrow> rat list \<Rightarrow> string + rat list) \<Rightarrow> rat list \<Rightarrow> settings_document \<Rightarrow> string + (uuid \<times> bool \<times> rat list)" where
  "read_prefs name offsets dflt d =
    (case dict_or_empty (sd_document d) of Inl e \<Rightarrow> Inl e | Inr doc \<Rightarrow>
     (case dict_or_empty (payload_get doc name) of Inl e \<Rightarrow> Inl e | Inr section \<Rightarrow>
      (case offsets section dflt of Inl e \<Rightarrow> Inl e | Inr os \<Rightarrow> Inr (sd_user d, reminders_enabled section, os))))"

definition notification_documents :: "edit_db \<Rightarrow> uuid list \<Rightarrow> settings_document list" where
  "notification_documents db users = filter (\<lambda>d. sd_user d \<in> set users \<and> sd_namespace d = ''notification'' \<and> sd_deleted_at d = None) (documents db)"

definition notification_prefs :: "edit_db \<Rightarrow> uuid list \<Rightarrow> reminder_settings \<Rightarrow> string + (uuid \<Rightarrow> bool \<times> rat list)" where
  "notification_prefs db users st =
    (case traverse (read_prefs ''assignments'' offsets_hours (default_offsets st)) (notification_documents db users) of
       Inl e \<Rightarrow> Inl e
     | Inr ps \<Rightarrow> Inr (\<lambda>u. case map_of (rev ps) u of None \<Rightarrow> (True, default_offsets st) | Some p \<Rightarrow> p))"

section \<open>Who can receive one\<close>

definition awaits_reminders :: "push_device \<Rightarrow> bool" where
  "awaits_reminders d \<longleftrightarrow> pv_deleted_at d = None \<and> cloud_sync_enabled d \<and> sync_assignment_reminders d \<and>
     pv_platform d \<in> set APPLE_HANDHELD_PLATFORMS \<and> \<not> schedules_reminders_locally (pv_platform d) (pv_app_version d)"

definition has_standard_token :: "push_db \<Rightarrow> datetime \<Rightarrow> push_device \<Rightarrow> bool" where
  "has_standard_token db now d \<longleftrightarrow> (\<exists>t \<in> set (tokens db). tk_device t = pv_id d \<and> tk_kind t = ''standard'' \<and> token_live now t)"

definition users_with_a_recipient :: "push_db \<Rightarrow> uuid list \<Rightarrow> datetime \<Rightarrow> bool \<Rightarrow> uuid list" where
  "users_with_a_recipient db users now token_required =
    filter (\<lambda>u. \<exists>d \<in> set (devices db). pv_user d = u \<and> awaits_reminders d \<and> (token_required \<longrightarrow> has_standard_token db now d)) users"

section \<open>The scan\<close>

definition listed_in :: "push_db \<Rightarrow> string option \<Rightarrow> user_assignment \<Rightarrow> bool" where
  "listed_in db code a \<longleftrightarrow> ua_moodle_semester a = None \<or> code \<noteq> None \<and>
     (ua_moodle_semester a = code \<or> map_option uc_semester (Option.bind (ua_user_course a) (\<lambda>i. row_get uc_id i (user_courses db))) = code)"

definition due_rows :: "push_db \<Rightarrow> reminder_settings \<Rightarrow> datetime \<Rightarrow> user_assignment list" where
  "due_rows db st now = filter (\<lambda>a. listed_in db (current_term_code (terms db) now) a \<and> ua_deleted_at a = None \<and> \<not> ua_is_submitted a \<and>
     (case ua_due_at a of None \<Rightarrow> False | Some t \<Rightarrow> now < t \<and> t \<le> now + hours (window_hours st))) (assignments db)"

definition with_marks :: "push_db \<Rightarrow> user_assignment list \<Rightarrow> (user_assignment \<times> string option) list" where
  "with_marks db as =
    concat (map (\<lambda>a. case filter (\<lambda>m. am_assignment m = ua_id a) (assignment_marks db) of
      [] \<Rightarrow> [(a, None)] | ms \<Rightarrow> map (\<lambda>m. (a, Some (local_status m))) ms) as)"

definition eligible_assignments :: "push_db \<Rightarrow> reminder_settings \<Rightarrow> datetime \<Rightarrow> user_assignment list" where
  "eligible_assignments db st now =
    filter (\<lambda>a. \<not> in_ignored_course a (ignored_courses db (ua_user a) now))
      [a. (a, mark) \<leftarrow> with_marks db (due_rows db st now), case mark of None \<Rightarrow> True | Some s \<Rightarrow> s \<notin> set EXCLUDED_LOCAL_STATUSES]"

definition waiting_jobs :: "string \<Rightarrow> (nat \<Rightarrow> bool) \<Rightarrow> push_db \<Rightarrow> push_job list" where
  "waiting_jobs chan skip_locked db = filter (\<lambda>j. channel j = chan \<and> j_status j = PPending \<and> \<not> skip_locked (j_id j)) (jobs db)"

definition assignment_reminder_key :: "int \<Rightarrow> rat \<Rightarrow> int \<Rightarrow> string" where
  "assignment_reminder_key aid offset deadline = reminder_key aid (format_g offset) deadline"

definition reminder_values :: "(datetime \<Rightarrow> string) \<Rightarrow> user_assignment \<Rightarrow> datetime \<Rightarrow> rat \<Rightarrow> datetime \<Rightarrow> job_values" where
  "reminder_values iso_text a deadline offset fire =
    \<lparr>jv_user = ua_user a, jv_key = assignment_reminder_key (ua_moodle_assignment a) offset (epoch_seconds deadline),
     jv_scenario = ''reminder_'' @ format_g offset @ ''h'', jv_fire_at = fire,
     jv_payload = [(''kind'', JStr ''assignment_reminder''), (''assignment_title'', JStr (ua_title a)),
       (''course_name'', case ua_course_name a of None \<Rightarrow> JNull | Some s \<Rightarrow> JStr s),
       (''moodle_assignment_id'', JInt (ua_moodle_assignment a)), (''moodle_course_id'', JInt (ua_moodle_course a)),
       (''due_at'', JStr (iso_text deadline)), (''due_epoch'', JInt (epoch_seconds deadline)), (''offset_hours'', JFloat offset)]\<rparr>"

text \<open>The keys an assignment keeps valid, each with the job to file while its time has not come.\<close>

definition plan_offset :: "(datetime \<Rightarrow> string) \<Rightarrow> datetime \<Rightarrow> user_assignment \<Rightarrow> datetime \<Rightarrow> rat \<Rightarrow> string + ((uuid \<times> string) \<times> job_values option)" where
  "plan_offset iso_text now a deadline offset =
    (case time_before deadline (hours 1) offset of None \<Rightarrow> Inl ''OverflowError''
     | Some fire \<Rightarrow> let v = reminder_values iso_text a deadline offset fire in Inr ((jv_user v, jv_key v), if fire \<le> now then None else Some v))"

definition plan_assignment :: "(datetime \<Rightarrow> string) \<Rightarrow> datetime \<Rightarrow> (uuid \<Rightarrow> bool \<times> rat list) \<Rightarrow> uuid list \<Rightarrow> user_assignment \<Rightarrow> string + ((uuid \<times> string) \<times> job_values option) list" where
  "plan_assignment iso_text now prefs reach a =
    (case (prefs (ua_user a), ua_due_at a) of
       ((enabled, offsets), Some deadline) \<Rightarrow> if \<not> enabled \<or> ua_user a \<notin> set reach then Inr [] else traverse (plan_offset iso_text now a deadline) offsets
     | _ \<Rightarrow> Inr [])"

definition has_reminder_copy_inputs :: "payload \<Rightarrow> bool" where
  "has_reminder_copy_inputs p \<longleftrightarrow> map_of p ''assignment_title'' \<noteq> None"

definition recheck_waiting :: "(uuid \<times> string) list \<Rightarrow> ((uuid \<times> string) \<times> payload) list \<Rightarrow> datetime \<Rightarrow> push_job \<Rightarrow> push_job" where
  "recheck_waiting valid fresh now j =
    (let key = (j_user j, dedupe_key j) in
     if key \<notin> set valid then j\<lparr>j_status := PCancelled, cancelled_at := Some now\<rparr>
     else case map_of (rev fresh) key of
       Some p \<Rightarrow> if has_reminder_copy_inputs (j_payload j) then j else j\<lparr>j_payload := p\<rparr>
     | None \<Rightarrow> j)"

definition scan_assignment_reminders ::
  "(datetime \<Rightarrow> string) \<Rightarrow> (nat \<Rightarrow> bool) \<Rightarrow> reminder_settings \<Rightarrow> datetime \<Rightarrow> datetime \<Rightarrow> edit_db \<Rightarrow> string + (nat \<times> edit_db)" where
  "scan_assignment_reminders iso_text skip_locked st now filed db =
    (let q = queue (data db); eligible = eligible_assignments q st now; waiting = waiting_jobs REMINDER_CHANNEL skip_locked q;
         owners = map ua_user eligible; users = owners @ map j_user waiting
     in if users = [] then Inr (0, db)
        else case notification_prefs db users st of Inl e \<Rightarrow> Inl e | Inr prefs \<Rightarrow>
          let reachable = users_with_a_recipient q owners now True;
              awaiting = users_with_a_recipient q (filter (\<lambda>u. u \<notin> set reachable) owners) now False
          in case traverse (plan_assignment iso_text now prefs (reachable @ awaiting)) eligible of Inl e \<Rightarrow> Inl e | Inr plans \<Rightarrow>
            let entries = concat plans; valid = map fst entries; vals = [v. (_, Some v) \<leftarrow> entries];
                fresh = map (\<lambda>v. ((jv_user v, jv_key v), jv_payload v)) vals;
                (n, q1) = file_jobs REMINDER_CHANNEL filed (filter (\<lambda>v. jv_user v \<in> set reachable) vals) q;
                q2 = q1\<lparr>jobs := update_where (\<lambda>j. j_id j \<in> j_id ` set waiting) (recheck_waiting valid fresh now) (jobs q1)\<rparr>
            in Inr (n, db\<lparr>data := (data db)\<lparr>queue := q2\<rparr>\<rparr>))"

end
