(* ===== verification/FilingScan.thy ===== *)
theory FilingScan
  imports Reminders
begin

text \<open>
  What the two reminder scans share: filing jobs under the unique index (\<open>file_jobs\<close>), rechecking the jobs that wait, and the contract
  \<open>filing_scan\<close>, from which the exactness and the idempotence of a scan follow once. \<open>ReminderFacts\<close> and \<open>ClassFacts\<close>
  interpret it.
\<close>

section \<open>Filing\<close>

definition key_of :: "push_job \<Rightarrow> uuid \<times> string" where
  "key_of j = (j_user j, dedupe_key j)"

definition value_key :: "job_values \<Rightarrow> uuid \<times> string" where
  "value_key v = (jv_user v, jv_key v)"

text \<open>What the partial unique index keeps.\<close>

definition one_active :: "push_db \<Rightarrow> bool" where
  "one_active db \<longleftrightarrow> distinct (map key_of (filter dedupe_active (jobs db)))"

definition active_keys :: "push_db \<Rightarrow> (uuid \<times> string) set" where
  "active_keys db = key_of ` set (filter dedupe_active (jobs db))"

lemma active_keysI: "j \<in> set (jobs db) \<Longrightarrow> dedupe_active j \<Longrightarrow> key_of j \<in> active_keys db"
  by (simp add: active_keys_def)

lemma conflicting_None: "conflicting_job db u key = None \<longleftrightarrow> (u, key) \<notin> active_keys db"
  by (auto simp: conflicting_job_def find_None_iff active_keys_def key_of_def)

lemma file_job_known: "value_key v \<in> active_keys db \<Longrightarrow> file_job chan filed v (n, db) = (n, db)"
  using conflicting_None [of db "jv_user v" "jv_key v"] by (auto simp: file_job_def value_key_def)

lemma fold_file_shift: "fold (file_job chan filed) vs (n, db) = (n + fst (fold (file_job chan filed) vs (0, db)), snd (fold (file_job chan filed) vs (0, db)))"
proof (induction vs arbitrary: n db)
  case (Cons v vs)
  obtain k db1 where k: "file_job chan filed v (0, db) = (k, db1)" by fastforce
  then have "file_job chan filed v (n, db) = (n + k, db1)" by (auto simp: file_job_def split: if_splits)
  then show ?case using Cons.IH [of "n + k" db1] Cons.IH [of k db1] k by simp
qed simp

lemma file_chunks_fold:
  assumes "0 < k"
  shows "file_chunks k chan filed vs state = fold (file_job chan filed) vs state"
proof (induction "length vs" arbitrary: vs state rule: less_induct)
  case less
  show ?case
  proof (cases "vs = []")
    case False
    obtain n db where s: "state = (n, db)" by fastforce
    have "file_chunks k chan filed vs state = file_chunks k chan filed (drop k vs) (fold (file_job chan filed) (take k vs) state)"
      using False assms fold_file_shift [of chan filed "take k vs" n db] by (subst file_chunks.simps) (auto simp: s split_beta)
    also have "\<dots> = fold (file_job chan filed) (drop k vs) (fold (file_job chan filed) (take k vs) state)"
      using less [of "drop k vs"] assms False by (cases vs) auto
    also have "\<dots> = fold (file_job chan filed) (take k vs @ drop k vs) state" by (simp only: fold_append o_apply)
    finally show ?thesis by simp
  qed (simp add: file_chunks.simps)
qed

lemma file_jobs_fold [code]: "file_jobs chan filed vs db = fold (file_job chan filed) vs (0, db)"
  by (simp add: file_jobs_def file_chunks_fold INSERT_CHUNK_ROWS_def)

text \<open>The rows a filing adds.\<close>

definition filed_from :: "string \<Rightarrow> datetime \<Rightarrow> job_values list \<Rightarrow> push_job \<Rightarrow> bool" where
  "filed_from chan filed vs j \<longleftrightarrow>
    (\<exists>v \<in> set vs. j = new_job (jv_user v) None (jv_key v) chan (jv_scenario v) (jv_fire_at v) 100 (jv_payload v) filed (j_id j))"

lemma filed_fromE:
  assumes "filed_from chan filed vs j"
  obtains v where "v \<in> set vs" "key_of j = value_key v" "j_payload j = jv_payload v" "channel j = chan" "j_status j = PPending" "scenario j = jv_scenario v"
proof -
  obtain v i where v: "v \<in> set vs" "j = new_job (jv_user v) None (jv_key v) chan (jv_scenario v) (jv_fire_at v) 100 (jv_payload v) filed i"
    using assms unfolding filed_from_def by blast
  show thesis by (rule that [OF v(1)]) (simp_all add: v(2) key_of_def value_key_def new_job_def)
qed

lemma new_job_active [simp]: "dedupe_active (new_job u dev key chan sc fire prio p now i)" "key_of (new_job u dev key chan sc fire prio p now i) = (u, key)"
  "j_id (new_job u dev key chan sc fire prio p now i) = i"
  by (simp_all add: new_job_def dedupe_active_def key_of_def)

lemma file_jobs_rows:
  assumes "file_jobs chan filed vs db = (n, db')" "one_active db"
  shows "\<exists>extra. db' = db\<lparr>jobs := jobs db @ extra, push_job_seq := push_job_seq db + n\<rparr> \<and> n = length extra \<and>
    map j_id extra = [push_job_seq db..<push_job_seq db + n] \<and> list_all (filed_from chan filed vs) extra \<and>
    one_active db' \<and> active_keys db' = active_keys db \<union> value_key ` set vs"
  using assms unfolding file_jobs_fold
proof (induction vs arbitrary: db n)
  case (Cons v vs)
  show ?case
  proof (cases "value_key v \<in> active_keys db")
    case True
    then have "fold (file_job chan filed) vs (0, db) = (n, db')" using Cons.prems(1) file_job_known [OF True, of chan filed 0] by simp
    from Cons.IH [OF this Cons.prems(2)] True show ?thesis by (fastforce simp: list_all_iff filed_from_def)
  next
    case False
    define j where "j = new_job (jv_user v) None (jv_key v) chan (jv_scenario v) (jv_fire_at v) 100 (jv_payload v) filed (push_job_seq db)"
    define db1 where "db1 = db\<lparr>jobs := jobs db @ [j], push_job_seq := Suc (push_job_seq db)\<rparr>"
    have f: "file_job chan filed v (0, db) = (1, db1)" using False conflicting_None [of db "jv_user v" "jv_key v"] by (auto simp: file_job_def value_key_def insert_job_def db1_def j_def)
    obtain m where m: "fold (file_job chan filed) vs (0, db1) = (m, db')" "n = Suc m"
      using Cons.prems(1) fold_file_shift [of chan filed vs 1 db1] f by (auto simp: prod_eq_iff)
    have a: "active_keys db1 = insert (value_key v) (active_keys db)" by (simp add: active_keys_def db1_def j_def value_key_def)
    have "one_active db1" using Cons.prems(2) False by (auto simp: one_active_def db1_def j_def active_keys_def value_key_def)
    from Cons.IH [OF m(1) this] obtain extra where e: "db' = db1\<lparr>jobs := jobs db1 @ extra, push_job_seq := push_job_seq db1 + m\<rparr>" "m = length extra"
      "map j_id extra = [push_job_seq db1..<push_job_seq db1 + m]" "list_all (filed_from chan filed vs) extra" "one_active db'" "active_keys db' = active_keys db1 \<union> value_key ` set vs"
      by blast
    have "list_all (filed_from chan filed (v # vs)) (j # extra)" using e(4) by (auto simp: list_all_iff filed_from_def j_def)
    moreover have "map j_id (j # extra) = [push_job_seq db..<push_job_seq db + n]" using e(3) m(2) by (simp add: db1_def j_def upt_conv_Cons)
    moreover have "db' = db\<lparr>jobs := jobs db @ j # extra, push_job_seq := push_job_seq db + n\<rparr>" using e(1) m(2) by (simp add: db1_def)
    ultimately show ?thesis using e(2,5,6) m(2) a by (intro exI [of _ "j # extra"]) simp
  qed
qed auto

lemma file_jobs_nothing:
  assumes "value_key ` set vs \<subseteq> active_keys db"
  shows "file_jobs chan filed vs db = (0, db)"
  using assms unfolding file_jobs_fold
proof (induction vs)
  case (Cons v vs)
  then show ?case using file_job_known [of v db chan filed 0] by simp
qed simp

lemma traverse_total: "(\<exists>ys. traverse f xs = Inr ys) \<longleftrightarrow> (\<forall>x \<in> set xs. \<exists>y. f x = Inr y)"
proof (induction xs)
  case (Cons x xs)
  then show ?case by (cases "f x"; cases "traverse f xs") auto
qed simp

lemma traverse_set: "traverse f xs = Inr ys \<Longrightarrow> set ys = {y. \<exists>x \<in> set xs. f x = Inr y}"
proof (induction xs arbitrary: ys)
  case (Cons x xs)
  then show ?case by (cases "f x"; cases "traverse f xs") auto
qed simp

lemma set_entry_values: "set [v. (_, Some v) \<leftarrow> es] = {v. \<exists>k. (k, Some v) \<in> set es}"
  by (auto split: option.splits)

section \<open>Rechecking\<close>

lemma recheck_frame [simp]: "j_id (recheck_waiting valid fresh now j) = j_id j" "key_of (recheck_waiting valid fresh now j) = key_of j"
  "channel (recheck_waiting valid fresh now j) = channel j"
  by (auto simp: recheck_waiting_def key_of_def Let_def split: option.split)

lemma recheck_status:
  "key_of j \<in> set valid \<Longrightarrow> j_status (recheck_waiting valid fresh now j) = j_status j"
  "key_of j \<notin> set valid \<Longrightarrow> j_status (recheck_waiting valid fresh now j) = PCancelled"
  by (auto simp: recheck_waiting_def key_of_def Let_def split: option.split)

definition waits :: "string \<Rightarrow> (nat \<Rightarrow> bool) \<Rightarrow> push_job \<Rightarrow> bool" where
  "waits chan skip_locked j \<longleftrightarrow> channel j = chan \<and> j_status j = PPending \<and> \<not> skip_locked (j_id j)"

lemma waiting_ids:
  assumes "distinct (map j_id (jobs q))" "j \<in> set (jobs q)"
  shows "j_id j \<in> j_id ` set (waiting_jobs chan skip_locked q) \<longleftrightarrow> waits chan skip_locked j"
  using assms by (auto simp: waiting_jobs_def waits_def distinct_map dest: inj_onD)

definition rechecked :: "string \<Rightarrow> (nat \<Rightarrow> bool) \<Rightarrow> (uuid \<times> string) list \<Rightarrow> ((uuid \<times> string) \<times> payload) list \<Rightarrow> datetime \<Rightarrow> push_db \<Rightarrow> push_db \<Rightarrow> push_db" where
  "rechecked chan skip_locked valid fresh now q q1 =
    q1\<lparr>jobs := update_where (\<lambda>j. j_id j \<in> j_id ` set (waiting_jobs chan skip_locked q)) (recheck_waiting valid fresh now) (jobs q1)\<rparr>"

lemma rechecked_rows:
  assumes "distinct (map j_id (jobs q))" "\<forall>j \<in> set (jobs q). j_id j < push_job_seq q" "map j_id extra = [push_job_seq q..<k]"
  shows "update_where (\<lambda>j. j_id j \<in> j_id ` set (waiting_jobs chan skip_locked q)) (recheck_waiting valid fresh now) (jobs q @ extra) =
    map (\<lambda>j. if waits chan skip_locked j then recheck_waiting valid fresh now j else j) (jobs q) @ extra"
proof -
  define W where "W = j_id ` set (waiting_jobs chan skip_locked q)"
  have "W \<subseteq> {..<push_job_seq q}" using assms(2) by (auto simp: W_def waiting_jobs_def)
  moreover have "j_id j \<in> set [push_job_seq q..<k]" if "j \<in> set extra" for j using that assms(3) by (metis image_eqI list.set_map)
  ultimately have "\<forall>j \<in> set extra. j_id j \<notin> W" by fastforce
  then have "update_where (\<lambda>j. j_id j \<in> W) (recheck_waiting valid fresh now) extra = extra" by (simp add: update_where_def map_idI)
  moreover have "update_where (\<lambda>j. j_id j \<in> W) (recheck_waiting valid fresh now) (jobs q) =
      map (\<lambda>j. if waits chan skip_locked j then recheck_waiting valid fresh now j else j) (jobs q)"
    using waiting_ids [OF assms(1), of _ chan skip_locked] by (auto simp: update_where_def W_def intro!: map_cong)
  ultimately show ?thesis by (simp add: update_where_def W_def)
qed

lemma upgraded_copy:
  assumes "key_of j \<in> set valid" "key_of j \<in> value_key ` set vals" "\<And>v. v \<in> set vals \<Longrightarrow> has_reminder_copy_inputs (jv_payload v)"
  shows "has_reminder_copy_inputs (j_payload (recheck_waiting valid (map (\<lambda>v. (value_key v, jv_payload v)) vals) now j))"
proof -
  have "map_of (rev (map (\<lambda>v. (value_key v, jv_payload v)) vals)) (key_of j) \<noteq> None" using assms(2) by (auto simp: map_of_eq_None_iff image_image)
  then obtain pl where p: "map_of (rev (map (\<lambda>v. (value_key v, jv_payload v)) vals)) (key_of j) = Some pl" by blast
  then have "(key_of j, pl) \<in> set (map (\<lambda>v. (value_key v, jv_payload v)) vals)" using map_of_SomeD by fastforce
  then have "has_reminder_copy_inputs pl" using assms(3) by auto
  then show ?thesis using p assms(1) by (auto simp: recheck_waiting_def key_of_def)
qed

lemma recheck_idle:
  assumes "key_of j \<in> set valid" "key_of j \<in> value_key ` set vals \<Longrightarrow> has_reminder_copy_inputs (j_payload j)"
  shows "recheck_waiting valid (map (\<lambda>v. (value_key v, jv_payload v)) vals) now j = j"
proof (cases "map_of (rev (map (\<lambda>v. (value_key v, jv_payload v)) vals)) (key_of j)")
  case (Some p)
  then have "(key_of j, p) \<in> set (map (\<lambda>v. (value_key v, jv_payload v)) vals)" using map_of_SomeD by fastforce
  then have "key_of j \<in> value_key ` set vals" by auto
  then show ?thesis using assms Some by (simp add: recheck_waiting_def key_of_def)
qed (use assms(1) in \<open>simp add: recheck_waiting_def key_of_def\<close>)

lemma rechecked_idle:
  assumes "jobs_wf q" "\<And>j. j \<in> set (jobs q) \<Longrightarrow> waits chan skip_locked j \<Longrightarrow> recheck_waiting valid fresh now j = j"
  shows "rechecked chan skip_locked valid fresh now q q = q"
proof -
  have "distinct (map j_id (jobs q))" using assms(1) by (simp add: jobs_wf_def)
  then have "update_where (\<lambda>j. j_id j \<in> j_id ` set (waiting_jobs chan skip_locked q)) (recheck_waiting valid fresh now) (jobs q) = jobs q"
    unfolding update_where_def by (intro map_idI) (use waiting_ids assms(2) in auto)
  then show ?thesis by (simp add: rechecked_def)
qed

lemma filter_map_shrinks:
  assumes "\<And>x. P (g x) \<Longrightarrow> P x" "\<And>x. k (g x) = k x"
  shows "k ` set (filter P (map g xs)) \<subseteq> k ` set (filter P xs)" "distinct (map k (filter P xs)) \<Longrightarrow> distinct (map k (filter P (map g xs)))"
proof -
  have s: "k ` set (filter P (map g xs)) \<subseteq> k ` set (filter P xs)" for xs using assms by fastforce
  then show "k ` set (filter P (map g xs)) \<subseteq> k ` set (filter P xs)" .
  show "distinct (map k (filter P xs)) \<Longrightarrow> distinct (map k (filter P (map g xs)))"
  proof (induction xs)
    case (Cons x xs)
    have "k x \<notin> k ` set (filter P (map g xs))" if "P x" using that Cons.prems s [of xs] by auto
    then show ?case using Cons assms by (cases "P x"; cases "P (g x)") auto
  qed simp
qed

lemma jobs_wf_extended:
  assumes "jobs_wf q" "map j_id (jobs q') = map j_id (jobs q) @ ids" "ids = [push_job_seq q..<push_job_seq q']" "push_job_seq q \<le> push_job_seq q'"
  shows "jobs_wf q'"
proof -
  have w: "jobs_wf d \<longleftrightarrow> distinct (map j_id (jobs d)) \<and> (\<forall>i \<in> set (map j_id (jobs d)). i < push_job_seq d)" for d by (simp add: jobs_wf_def)
  have "distinct (map j_id (jobs q))" "\<forall>i \<in> set (map j_id (jobs q)). i < push_job_seq q" using assms(1) unfolding w by simp_all
  then show ?thesis unfolding w assms(2,3) using assms(4) by fastforce
qed

lemma shrunk_distinct:
  assumes "\<And>x. P (g x) \<Longrightarrow> P x" "\<And>x. k (g x) = k x" "distinct (map k (filter P (xs @ ys)))"
  shows "distinct (map k (filter P (map g xs @ ys)))"
proof -
  have "distinct (map k (filter P (map g xs)))" "distinct (map k (filter P ys))" "k ` set (filter P xs) \<inter> k ` set (filter P ys) = {}"
    using assms(3) filter_map_shrinks(2) [of P g k xs] assms(1,2) by (auto simp del: set_filter)
  moreover have "k ` set (filter P (map g xs)) \<subseteq> k ` set (filter P xs)" using filter_map_shrinks(1) [of P g k xs] assms(1,2) by simp
  ultimately show ?thesis unfolding filter_append map_append distinct_append set_map by blast
qed

section \<open>What a settings document asks for\<close>

text \<open>A user's own document alone decides the user's offsets.\<close>

definition own_documents :: "edit_db \<Rightarrow> uuid \<Rightarrow> settings_document list" where
  "own_documents db u = filter (\<lambda>d. sd_user d = u \<and> sd_namespace d = ''notification'' \<and> sd_deleted_at d = None) (documents db)"

definition own_prefs :: "string \<Rightarrow> (payload \<Rightarrow> rat list \<Rightarrow> string + rat list) \<Rightarrow> rat list \<Rightarrow> edit_db \<Rightarrow> uuid \<Rightarrow> bool \<times> rat list" where
  "own_prefs name offsets dflt db u = (case rev (own_documents db u) of [] \<Rightarrow> (True, dflt)
     | d # _ \<Rightarrow> (case read_prefs name offsets dflt d of Inr (_, p) \<Rightarrow> p | Inl _ \<Rightarrow> (True, dflt)))"

definition section_prefs :: "string \<Rightarrow> (payload \<Rightarrow> rat list \<Rightarrow> string + rat list) \<Rightarrow> rat list \<Rightarrow> edit_db \<Rightarrow> uuid list \<Rightarrow> string + (uuid \<Rightarrow> bool \<times> rat list)" where
  "section_prefs name offsets dflt db users =
    (case traverse (read_prefs name offsets dflt) (notification_documents db users) of Inl e \<Rightarrow> Inl e
     | Inr ps \<Rightarrow> Inr (\<lambda>u. case map_of (rev ps) u of None \<Rightarrow> (True, dflt) | Some p \<Rightarrow> p))"

lemma read_prefs_user: "read_prefs name offsets dflt d = Inr (u, p) \<Longrightarrow> u = sd_user d"
  by (auto simp: read_prefs_def split: sum.splits)

lemma last_prefs:
  assumes "list_all2 (\<lambda>d p. read_prefs name offsets dflt d = Inr p) ds ps"
  shows "map_of (rev ps) u = (case rev (filter (\<lambda>d. sd_user d = u) ds) of [] \<Rightarrow> None
     | d # _ \<Rightarrow> (case read_prefs name offsets dflt d of Inr (_, p) \<Rightarrow> Some p | Inl _ \<Rightarrow> None))"
  using assms
proof (induction ds arbitrary: ps rule: rev_induct)
  case (snoc d ds)
  obtain qs v q where p: "ps = qs @ [(v, q)]" and r: "list_all2 (\<lambda>d p. read_prefs name offsets dflt d = Inr p) ds qs" "read_prefs name offsets dflt d = Inr (v, q)"
    using snoc.prems by (auto simp: list_all2_append1 list_all2_Cons1)
  have "v = sd_user d" using r(2) by (rule read_prefs_user)
  then show ?case using snoc.IH [OF r(1)] r(2) p by simp
qed simp

lemma section_prefs_eq:
  assumes "section_prefs name offsets dflt db users = Inr prefs" "u \<in> set users"
  shows "prefs u = own_prefs name offsets dflt db u"
proof -
  obtain ps where ps: "traverse (read_prefs name offsets dflt) (notification_documents db users) = Inr ps"
      "prefs = (\<lambda>u. case map_of (rev ps) u of None \<Rightarrow> (True, dflt) | Some p \<Rightarrow> p)"
    using assms(1) by (auto simp: section_prefs_def split: sum.splits)
  have l: "list_all2 (\<lambda>d p. read_prefs name offsets dflt d = Inr p) (notification_documents db users) ps" using ps(1) by (simp add: traverse_Inr_iff)
  have "filter (\<lambda>d. sd_user d = u) (notification_documents db users) = own_documents db u"
    using assms(2) by (auto simp: notification_documents_def own_documents_def filter_filter intro!: filter_cong)
  then show ?thesis using last_prefs [OF l, of u] by (auto simp: ps(2) own_prefs_def split: list.splits sum.splits)
qed

lemma section_prefs_ends:
  "(\<exists>prefs. section_prefs name offsets dflt db users = Inr prefs) \<longleftrightarrow> (\<forall>d \<in> set (notification_documents db users). \<exists>p. read_prefs name offsets dflt d = Inr p)"
proof -
  have "(\<exists>prefs. section_prefs name offsets dflt db users = Inr prefs) \<longleftrightarrow> (\<exists>ps. traverse (read_prefs name offsets dflt) (notification_documents db users) = Inr ps)"
    by (auto simp: section_prefs_def split: sum.splits)
  then show ?thesis by (simp only: traverse_total)
qed

text \<open>What the loop over the planned entries collects: the keys that stand and the jobs whose time has not come.\<close>

lemma entry_sets:
  fixes fire :: "'x \<Rightarrow> datetime"
  assumes "\<And>e. e \<in> set es \<longleftrightarrow> (\<exists>x \<in> S. e = (key x, if fire x \<le> now then None else Some (val x)))"
  shows "set (map fst es) = key ` S" "set [v. (_, Some v) \<leftarrow> es] = val ` {x \<in> S. now < fire x}"
proof -
  have "set es = (\<lambda>x. (key x, if fire x \<le> now then None else Some (val x))) ` S" using assms by auto
  then show "set (map fst es) = key ` S" by (simp add: image_image)
  have "v \<in> set [v. (_, Some v) \<leftarrow> es] \<longleftrightarrow> (\<exists>x \<in> S. now < fire x \<and> v = val x)" for v
    unfolding set_entry_values mem_Collect_eq assms by (auto simp: not_le split: if_splits)
  then show "set [v. (_, Some v) \<leftarrow> es] = val ` {x \<in> S. now < fire x}" by auto
qed

lemma traverse_cong: "(\<And>x. x \<in> set xs \<Longrightarrow> f x = g x) \<Longrightarrow> traverse f xs = traverse g xs"
proof (induction xs)
  case (Cons x xs)
  then have "f x = g x" "traverse f xs = traverse g xs" by simp_all
  then show ?case by (simp split: sum.split)
qed simp

section \<open>The contract of a scan\<close>

text \<open>The payloads a scan that upgrades them gives the jobs that wait.\<close>

definition fresh_payloads :: "bool \<Rightarrow> job_values list \<Rightarrow> ((uuid \<times> string) \<times> payload) list" where
  "fresh_payloads upgrades vals = (if upgrades then map (\<lambda>v. (value_key v, jv_payload v)) vals else [])"

definition set_jobs_of :: "push_job list \<Rightarrow> nat \<Rightarrow> push_db \<Rightarrow> push_db" where
  "set_jobs_of js k q = q\<lparr>jobs := js, push_job_seq := k\<rparr>"

text \<open>
  Both reminder scans read the tables for the keys that stand and the jobs to file, then file and recheck. The laws say what a scan that
  ends did, that what it files stands, and that its reading does not depend on the jobs; from them follows what it leaves.
\<close>

locale filing_scan =
  fixes chan :: string
    and upgrades :: bool
    and scan :: "'p \<Rightarrow> datetime \<Rightarrow> 'd \<Rightarrow> string + (nat \<times> 'd)"
    and tables :: "'d \<Rightarrow> push_db"
    and put_tables :: "push_db \<Rightarrow> 'd \<Rightarrow> 'd"
    and skip_of :: "'p \<Rightarrow> nat \<Rightarrow> bool"
    and now_of :: "'p \<Rightarrow> datetime"
    and standing :: "'p \<Rightarrow> 'd \<Rightarrow> (uuid \<times> string) set"
    and wanted :: "'p \<Rightarrow> 'd \<Rightarrow> job_values set"
    and reach :: "'p \<Rightarrow> 'd \<Rightarrow> uuid \<Rightarrow> bool"
  assumes runs: "scan p filed db = Inr (n, db') \<Longrightarrow> \<exists>valid vals q1. set valid = standing p db \<and> set vals = wanted p db \<and>
      file_jobs chan filed (filter (\<lambda>v. reach p db (jv_user v)) vals) (tables db) = (n, q1) \<and>
      db' = put_tables (rechecked chan (skip_of p) valid (fresh_payloads upgrades vals) (now_of p) (tables db) q1) db"
    and wanted_stands: "v \<in> wanted p db \<Longrightarrow> value_key v \<in> standing p db"
    and wanted_copy: "upgrades \<Longrightarrow> v \<in> wanted p db \<Longrightarrow> has_reminder_copy_inputs (jv_payload v)"
    and tables_put [simp]: "tables (put_tables q db) = q"
    and put_same [simp]: "put_tables (tables db) db = db"
    and reads_no_jobs: "db' = put_tables (set_jobs_of js k (tables db)) db \<Longrightarrow>
      standing p db' = standing p db \<and> wanted p db' = wanted p db \<and> (\<forall>u. reach p db' u = reach p db u)"
    and ends_again: "scan p filed db = Inr r \<Longrightarrow> db' = put_tables (set_jobs_of js k (tables db)) db \<Longrightarrow>
      (\<And>j. j \<in> set js \<Longrightarrow> waits chan (skip_of p) j \<Longrightarrow> key_of j \<in> standing p db) \<Longrightarrow> \<exists>r'. scan p filed' db' = Inr r'"
begin

text \<open>The rows after a scan: the old ones rechecked, then the new ones.\<close>

lemma rows_after:
  assumes run: "scan p filed db = Inr (n, db')" and wf: "jobs_wf (tables db)" "one_active (tables db)"
  defines "q \<equiv> tables db"
  obtains g extra where "db' = put_tables (set_jobs_of (map g (jobs q) @ extra) (push_job_seq q + n) q) db"
    "\<And>j. j_id (g j) = j_id j \<and> key_of (g j) = key_of j \<and> (\<not> waits chan (skip_of p) j \<longrightarrow> g j = j)"
    "\<And>j. waits chan (skip_of p) (g j) \<longleftrightarrow> waits chan (skip_of p) j \<and> key_of j \<in> standing p db"
    "\<And>j. dedupe_active (g j) \<longleftrightarrow> dedupe_active j \<and> (waits chan (skip_of p) j \<longrightarrow> key_of j \<in> standing p db)"
    "\<And>j. upgrades \<Longrightarrow> waits chan (skip_of p) (g j) \<Longrightarrow> key_of j \<in> value_key ` wanted p db \<Longrightarrow> has_reminder_copy_inputs (j_payload (g j))"
    "map j_id extra = [push_job_seq q..<push_job_seq q + n]"
    "\<And>j. j \<in> set extra \<Longrightarrow> \<exists>v \<in> wanted p db. reach p db (jv_user v) \<and> filed_from chan filed [v] j"
    "distinct (map key_of (filter dedupe_active (jobs q @ extra)))"
    "key_of ` set (filter dedupe_active (jobs q @ extra)) = active_keys q \<union> value_key ` {v \<in> wanted p db. reach p db (jv_user v)}"
proof -
  obtain valid vals q1 where r: "set valid = standing p db" "set vals = wanted p db"
      "file_jobs chan filed (filter (\<lambda>v. reach p db (jv_user v)) vals) q = (n, q1)"
      "db' = put_tables (rechecked chan (skip_of p) valid (fresh_payloads upgrades vals) (now_of p) q q1) db"
    using runs [OF run] unfolding q_def by blast
  obtain extra where x: "q1 = q\<lparr>jobs := jobs q @ extra, push_job_seq := push_job_seq q + n\<rparr>" "n = length extra" "map j_id extra = [push_job_seq q..<push_job_seq q + n]"
      "list_all (filed_from chan filed (filter (\<lambda>v. reach p db (jv_user v)) vals)) extra" "one_active q1"
      "active_keys q1 = active_keys q \<union> value_key ` set (filter (\<lambda>v. reach p db (jv_user v)) vals)"
    using file_jobs_rows [OF r(3)] wf(2) unfolding q_def by blast
  define f where "f = recheck_waiting valid (fresh_payloads upgrades vals) (now_of p)"
  define g where "g = (\<lambda>j. if waits chan (skip_of p) j then f j else j)"
  have d: "distinct (map j_id (jobs q))" "\<forall>j \<in> set (jobs q). j_id j < push_job_seq q" using wf(1) by (simp_all add: jobs_wf_def q_def)
  have "rechecked chan (skip_of p) valid (fresh_payloads upgrades vals) (now_of p) q q1 = set_jobs_of (map g (jobs q) @ extra) (push_job_seq q + n) q"
    using rechecked_rows [OF d x(3), of chan "skip_of p" valid "fresh_payloads upgrades vals" "now_of p"] by (simp add: rechecked_def x(1) g_def f_def set_jobs_of_def)
  then have db': "db' = put_tables (set_jobs_of (map g (jobs q) @ extra) (push_job_seq q + n) q) db" using r(4) by simp
  have gf: "j_id (g j) = j_id j \<and> key_of (g j) = key_of j \<and> (\<not> waits chan (skip_of p) j \<longrightarrow> g j = j)" for j by (simp add: g_def f_def)
  note RS = recheck_status [of _ valid "fresh_payloads upgrades vals" "now_of p", folded f_def]
  have fc: "channel (f j) = channel j" "j_id (f j) = j_id j" for j by (simp_all add: f_def)
  have gs: "waits chan (skip_of p) (g j) \<longleftrightarrow> waits chan (skip_of p) j \<and> key_of j \<in> standing p db" for j
    using RS [of j] r(1) fc by (cases "key_of j \<in> set valid") (auto simp: g_def waits_def)
  have ga: "dedupe_active (g j) \<longleftrightarrow> dedupe_active j \<and> (waits chan (skip_of p) j \<longrightarrow> key_of j \<in> standing p db)" for j
    using RS [of j] r(1) by (cases "key_of j \<in> set valid") (auto simp: g_def waits_def dedupe_active_def)
  have gp: "has_reminder_copy_inputs (j_payload (g j))" if u: upgrades and w: "waits chan (skip_of p) (g j)" and k: "key_of j \<in> value_key ` wanted p db" for j
  proof -
    have "has_reminder_copy_inputs (j_payload (f j))"
      using upgraded_copy [of j valid vals "now_of p"] gs [of j] w k r(1,2) wanted_copy [OF u] u by (auto simp: f_def fresh_payloads_def)
    then show ?thesis using w gs [of j] by (simp add: g_def)
  qed
  have ex: "\<exists>v \<in> wanted p db. reach p db (jv_user v) \<and> filed_from chan filed [v] j" if "j \<in> set extra" for j
    using r(2) x(4) that by (fastforce simp: list_all_iff filed_from_def)
  have act: "distinct (map key_of (filter dedupe_active (jobs q @ extra)))"
    "key_of ` set (filter dedupe_active (jobs q @ extra)) = active_keys q \<union> value_key ` {v \<in> wanted p db. reach p db (jv_user v)}"
    using x(5,6) r(2) by (simp_all add: x(1) one_active_def active_keys_def)
  show thesis by (rule that [OF db' gf gs ga gp x(3) ex act])
qed

text \<open>What a scan that ends leaves.\<close>

lemma after:
  assumes run: "scan p filed db = Inr (n, db')" and wf: "jobs_wf (tables db)" "one_active (tables db)"
  defines "q \<equiv> tables db" and "q' \<equiv> tables db'"
  shows "q' = set_jobs_of (jobs q') (push_job_seq q') q" and "db' = put_tables q' db" and "jobs_wf q'" and "one_active q'"
    and "j \<in> set (jobs q') \<Longrightarrow> waits chan (skip_of p) j \<Longrightarrow> key_of j \<in> standing p db"
    and "upgrades \<Longrightarrow> j \<in> set (jobs q') \<Longrightarrow> waits chan (skip_of p) j \<Longrightarrow> key_of j \<in> value_key ` wanted p db \<Longrightarrow> has_reminder_copy_inputs (j_payload j)"
    and "v \<in> wanted p db \<Longrightarrow> reach p db (jv_user v) \<Longrightarrow> value_key v \<in> active_keys q'"
    and "j \<in> set (jobs q) \<Longrightarrow> if waits chan (skip_of p) j then key_of j \<in> standing p db \<longrightarrow> (\<exists>j' \<in> set (jobs q'). j_id j' = j_id j \<and> waits chan (skip_of p) j') else j \<in> set (jobs q')"
    and "j \<in> set (jobs q') \<Longrightarrow> j_id j \<notin> job_ids q \<Longrightarrow> \<exists>v \<in> wanted p db. reach p db (jv_user v) \<and> filed_from chan filed [v] j"
proof -
  obtain g extra where db': "db' = put_tables (set_jobs_of (map g (jobs q) @ extra) (push_job_seq q + n) q) db"
    and gf: "\<And>j. j_id (g j) = j_id j \<and> key_of (g j) = key_of j \<and> (\<not> waits chan (skip_of p) j \<longrightarrow> g j = j)"
    and gs: "\<And>j. waits chan (skip_of p) (g j) \<longleftrightarrow> waits chan (skip_of p) j \<and> key_of j \<in> standing p db"
    and ga: "\<And>j. dedupe_active (g j) \<longleftrightarrow> dedupe_active j \<and> (waits chan (skip_of p) j \<longrightarrow> key_of j \<in> standing p db)"
    and gp: "\<And>j. upgrades \<Longrightarrow> waits chan (skip_of p) (g j) \<Longrightarrow> key_of j \<in> value_key ` wanted p db \<Longrightarrow> has_reminder_copy_inputs (j_payload (g j))"
    and ids: "map j_id extra = [push_job_seq q..<push_job_seq q + n]"
    and ex: "\<And>j. j \<in> set extra \<Longrightarrow> \<exists>v \<in> wanted p db. reach p db (jv_user v) \<and> filed_from chan filed [v] j"
    and act: "distinct (map key_of (filter dedupe_active (jobs q @ extra)))"
      "key_of ` set (filter dedupe_active (jobs q @ extra)) = active_keys q \<union> value_key ` {v \<in> wanted p db. reach p db (jv_user v)}"
    by (rule rows_after [OF run wf, folded q_def]) (rule that)
  have q': "q' = set_jobs_of (map g (jobs q) @ extra) (push_job_seq q + n) q" by (simp add: q'_def db')
  then have js: "jobs q' = map g (jobs q) @ extra" "push_job_seq q' = push_job_seq q + n" by (simp_all add: set_jobs_of_def)
  have exk: "\<exists>v \<in> wanted p db. key_of j = value_key v \<and> j_payload j = jv_payload v" if "j \<in> set extra" for j
    using ex [OF that] by (auto elim!: filed_fromE)
  show "q' = set_jobs_of (jobs q') (push_job_seq q') q" unfolding js by (rule q')
  show "db' = put_tables q' db" using db' q' by simp
  show "jobs_wf q'" by (rule jobs_wf_extended [of q _ "map j_id extra"]) (use wf(1) ids gf js in \<open>auto simp: q_def o_def\<close>)
  show "one_active q'" unfolding one_active_def js by (rule shrunk_distinct [OF _ _ act(1)]) (use ga gf in auto)
  show "j \<in> set (jobs q') \<Longrightarrow> waits chan (skip_of p) j \<Longrightarrow> key_of j \<in> standing p db"
    using gs gf exk [of j] wanted_stands by (auto simp: js)
  show "upgrades \<Longrightarrow> j \<in> set (jobs q') \<Longrightarrow> waits chan (skip_of p) j \<Longrightarrow> key_of j \<in> value_key ` wanted p db \<Longrightarrow> has_reminder_copy_inputs (j_payload j)"
    using gp gf exk [of j] wanted_copy by (auto simp: js)
  show "value_key v \<in> active_keys q'" if v: "v \<in> wanted p db" "reach p db (jv_user v)"
  proof -
    have "value_key v \<in> key_of ` set (filter dedupe_active (jobs q @ extra))" unfolding act(2) using v by blast
    then obtain j where "value_key v = key_of j" "j \<in> set (filter dedupe_active (jobs q @ extra))" by (rule imageE)
    then have j: "j \<in> set (jobs q @ extra)" "dedupe_active j" "key_of j = value_key v" by auto
    have "g j \<in> set (jobs q') \<and> dedupe_active (g j) \<or> j \<in> set (jobs q')" using j wanted_stands [OF v(1)] ga by (auto simp: js)
    then show ?thesis using j(2,3) gf [of j] active_keysI [of j q'] active_keysI [of "g j" q'] by auto
  qed
  show "if waits chan (skip_of p) j then key_of j \<in> standing p db \<longrightarrow> (\<exists>j' \<in> set (jobs q'). j_id j' = j_id j \<and> waits chan (skip_of p) j') else j \<in> set (jobs q')" if "j \<in> set (jobs q)"
  proof -
    have "g j \<in> set (jobs q')" using that by (simp add: js)
    then show ?thesis using gs [of j] gf [of j] by (cases "waits chan (skip_of p) j") auto
  qed
  show "j \<in> set (jobs q') \<Longrightarrow> j_id j \<notin> job_ids q \<Longrightarrow> \<exists>v \<in> wanted p db. reach p db (jv_user v) \<and> filed_from chan filed [v] j"
    using ex gf by (auto simp: js job_ids_def)
qed

text \<open>A second scan ends and changes nothing.\<close>

lemma again:
  assumes run: "scan p filed db = Inr (n, db')" and wf: "jobs_wf (tables db)" "one_active (tables db)"
  shows "scan p filed' db' = Inr (0, db')"
proof -
  define q' where "q' = tables db'"
  note A = after [OF run wf, folded q'_def]
  have w: "db' = put_tables (set_jobs_of (jobs q') (push_job_seq q') (tables db)) db" using A(1,2) by metis
  note R = reads_no_jobs [OF w]
  obtain n' db'' where run': "scan p filed' db' = Inr (n', db'')" using ends_again [OF run w A(5)] by fastforce
  obtain valid vals q1 where r: "set valid = standing p db" "set vals = wanted p db" "file_jobs chan filed' (filter (\<lambda>v. reach p db (jv_user v)) vals) q' = (n', q1)"
      "db'' = put_tables (rechecked chan (skip_of p) valid (fresh_payloads upgrades vals) (now_of p) q' q1) db'"
    using runs [OF run'] R unfolding q'_def [symmetric] by auto
  have "file_jobs chan filed' (filter (\<lambda>v. reach p db (jv_user v)) vals) q' = (0, q')" by (rule file_jobs_nothing) (use A(7) r(2) in auto)
  then have n: "n' = 0" "q1 = q'" using r(3) by simp_all
  have "rechecked chan (skip_of p) valid (fresh_payloads upgrades vals) (now_of p) q' q' = q'"
  proof (rule rechecked_idle [OF A(3)])
    fix j assume j: "j \<in> set (jobs q')" "waits chan (skip_of p) j"
    have "key_of j \<in> set valid" using A(5) [OF j] r(1) by simp
    then show "recheck_waiting valid (fresh_payloads upgrades vals) (now_of p) j = j"
      using recheck_idle [of j valid vals "now_of p"] recheck_idle [of j valid "[]" "now_of p"] A(6) [OF _ j] r(2) by (cases upgrades) (auto simp: fresh_payloads_def)
  qed
  then have "db'' = db'" using r(4) n(2) by (simp add: q'_def)
  then show ?thesis using run' n(1) by simp
qed

end

end
