(* ===== verification/ReminderFacts.thy ===== *)
theory ReminderFacts
  imports FilingScan EditFacts
begin

text \<open>
  What the reminder scan of \<open>Reminders\<close> guarantees: after a scan the waiting reminders are exactly the ones the tables ask for, a
  second scan changes nothing, what it files passes the check before a send. One user's settings document can stop it for everyone.
\<close>

section \<open>What the tables ask for\<close>

abbreviation read_assignment_prefs :: "reminder_settings \<Rightarrow> settings_document \<Rightarrow> string + (uuid \<times> bool \<times> rat list)" where
  "read_assignment_prefs st \<equiv> read_prefs ''assignments'' offsets_hours (default_offsets st)"

abbreviation prefs_of :: "edit_db \<Rightarrow> reminder_settings \<Rightarrow> uuid \<Rightarrow> bool \<times> rat list" where
  "prefs_of db st \<equiv> own_prefs ''assignments'' offsets_hours (default_offsets st) db"

lemma notification_prefs_section: "notification_prefs db users st = section_prefs ''assignments'' offsets_hours (default_offsets st) db users"
  by (simp add: notification_prefs_def section_prefs_def)

lemma notification_prefs_eq: "notification_prefs db users st = Inr prefs \<Longrightarrow> u \<in> set users \<Longrightarrow> prefs u = prefs_of db st u"
  unfolding notification_prefs_section by (rule section_prefs_eq)

lemma notification_prefs_total_iff:
  "(\<exists>prefs. notification_prefs db users st = Inr prefs) \<longleftrightarrow> (\<forall>d \<in> set (notification_documents db users). \<exists>p. read_assignment_prefs st d = Inr p)"
  unfolding notification_prefs_section by (rule section_prefs_ends)

definition could_receive :: "push_db \<Rightarrow> uuid \<Rightarrow> bool" where
  "could_receive q u \<longleftrightarrow> (\<exists>d \<in> set (devices q). pv_user d = u \<and> awaits_reminders d)"

definition can_receive :: "push_db \<Rightarrow> datetime \<Rightarrow> uuid \<Rightarrow> bool" where
  "can_receive q now u \<longleftrightarrow> (\<exists>d \<in> set (devices q). pv_user d = u \<and> awaits_reminders d \<and> has_standard_token q now d)"

text \<open>The reminder of an assignment due at \<open>deadline\<close>, \<open>offset\<close> hours before.\<close>

definition asked :: "reminder_settings \<Rightarrow> datetime \<Rightarrow> edit_db \<Rightarrow> user_assignment \<Rightarrow> datetime \<Rightarrow> rat \<Rightarrow> datetime \<Rightarrow> bool" where
  "asked st now db a deadline offset fire \<longleftrightarrow> a \<in> set (eligible_assignments (queue (data db)) st now) \<and> ua_due_at a = Some deadline \<and>
     fst (prefs_of db st (ua_user a)) \<and> offset \<in> set (snd (prefs_of db st (ua_user a))) \<and> could_receive (queue (data db)) (ua_user a) \<and>
     time_before deadline (hours 1) offset = Some fire"

definition asked_key :: "user_assignment \<Rightarrow> datetime \<Rightarrow> rat \<Rightarrow> uuid \<times> string" where
  "asked_key a deadline offset = (ua_user a, assignment_reminder_key (ua_moodle_assignment a) offset (epoch_seconds deadline))"

definition standing_keys :: "reminder_settings \<Rightarrow> datetime \<Rightarrow> edit_db \<Rightarrow> (uuid \<times> string) set" where
  "standing_keys st now db = {asked_key a deadline offset | a deadline offset fire. asked st now db a deadline offset fire}"

definition asked_values :: "(datetime \<Rightarrow> string) \<Rightarrow> reminder_settings \<Rightarrow> datetime \<Rightarrow> edit_db \<Rightarrow> job_values set" where
  "asked_values iso_text st now db = {reminder_values iso_text a deadline offset fire | a deadline offset fire. asked st now db a deadline offset fire \<and> now < fire}"

lemma recipients:
  "set (users_with_a_recipient q users now True) = {u \<in> set users. can_receive q now u}"
  "set (users_with_a_recipient q users now True @ users_with_a_recipient q (filter (\<lambda>u. u \<notin> set (users_with_a_recipient q users now True)) users) now False) =
    {u \<in> set users. could_receive q u}"
  by (auto simp: users_with_a_recipient_def can_receive_def could_receive_def)

definition entry :: "(datetime \<Rightarrow> string) \<Rightarrow> datetime \<Rightarrow> user_assignment \<Rightarrow> datetime \<Rightarrow> rat \<Rightarrow> datetime \<Rightarrow> (uuid \<times> string) \<times> job_values option" where
  "entry iso_text now a deadline offset fire = (asked_key a deadline offset, if fire \<le> now then None else Some (reminder_values iso_text a deadline offset fire))"

lemma plan_offset_entry:
  "plan_offset iso_text now a d offset = Inr e \<longleftrightarrow> (\<exists>fire. time_before d (hours 1) offset = Some fire \<and> e = entry iso_text now a d offset fire)"
  by (auto simp: plan_offset_def entry_def asked_key_def reminder_values_def Let_def split: option.split)

lemma plan_assignment_entries:
  assumes "plan_assignment iso_text now prefs reach a = Inr es"
  shows "e \<in> set es \<longleftrightarrow> (\<exists>d offset fire. ua_due_at a = Some d \<and> fst (prefs (ua_user a)) \<and> ua_user a \<in> set reach \<and> offset \<in> set (snd (prefs (ua_user a))) \<and>
        time_before d (hours 1) offset = Some fire \<and> e = entry iso_text now a d offset fire)"
proof (cases "ua_due_at a")
  case (Some d)
  obtain en os where p: "prefs (ua_user a) = (en, os)" by fastforce
  show ?thesis
  proof (cases "en \<and> ua_user a \<in> set reach")
    case True
    then have "traverse (plan_offset iso_text now a d) os = Inr es" using assms Some p by (simp add: plan_assignment_def)
    from traverse_set [OF this] show ?thesis using True Some p by (simp add: plan_offset_entry) blast
  next
    case False
    then show ?thesis using assms Some p by (auto simp: plan_assignment_def)
  qed
next
  case None
  then show ?thesis using assms by (auto simp: plan_assignment_def split: prod.splits)
qed

lemma plan_entries:
  assumes plans: "traverse (plan_assignment iso_text now prefs reach) (eligible_assignments (queue (data db)) st now) = Inr plans"
    and prefs: "\<And>a. a \<in> set (eligible_assignments (queue (data db)) st now) \<Longrightarrow> prefs (ua_user a) = prefs_of db st (ua_user a)"
    and reach: "\<And>a. a \<in> set (eligible_assignments (queue (data db)) st now) \<Longrightarrow> ua_user a \<in> set reach \<longleftrightarrow> could_receive (queue (data db)) (ua_user a)"
  shows "e \<in> set (concat plans) \<longleftrightarrow> (\<exists>a d offset fire. asked st now db a d offset fire \<and> e = entry iso_text now a d offset fire)"
proof -
  define el where "el = set (eligible_assignments (queue (data db)) st now)"
  have t: "\<forall>a \<in> el. \<exists>es. plan_assignment iso_text now prefs reach a = Inr es" unfolding el_def traverse_total [symmetric] using plans by blast
  have "e \<in> set (concat plans) \<longleftrightarrow> (\<exists>a \<in> el. \<exists>es. plan_assignment iso_text now prefs reach a = Inr es \<and> e \<in> set es)"
    using traverse_set [OF plans] by (auto simp: el_def)
  also have "\<dots> \<longleftrightarrow> (\<exists>a \<in> el. \<exists>d offset fire. ua_due_at a = Some d \<and> fst (prefs (ua_user a)) \<and> ua_user a \<in> set reach \<and> offset \<in> set (snd (prefs (ua_user a))) \<and>
        time_before d (hours 1) offset = Some fire \<and> e = entry iso_text now a d offset fire)"
  proof (rule bex_cong [OF refl])
    fix a assume "a \<in> el"
    then obtain es where es: "plan_assignment iso_text now prefs reach a = Inr es" using t by blast
    show "(\<exists>es. plan_assignment iso_text now prefs reach a = Inr es \<and> e \<in> set es) \<longleftrightarrow> (\<exists>d offset fire. ua_due_at a = Some d \<and> fst (prefs (ua_user a)) \<and>
        ua_user a \<in> set reach \<and> offset \<in> set (snd (prefs (ua_user a))) \<and> time_before d (hours 1) offset = Some fire \<and> e = entry iso_text now a d offset fire)"
      unfolding plan_assignment_entries [OF es, symmetric] using es by auto
  qed
  also have "\<dots> \<longleftrightarrow> (\<exists>a \<in> el. \<exists>d offset fire. asked st now db a d offset fire \<and> e = entry iso_text now a d offset fire)"
  proof (rule bex_cong [OF refl])
    fix a assume a: "a \<in> el"
    then have "prefs (ua_user a) = prefs_of db st (ua_user a)" "ua_user a \<in> set reach \<longleftrightarrow> could_receive (queue (data db)) (ua_user a)"
      using prefs reach by (simp_all add: el_def)
    then show "(\<exists>d offset fire. ua_due_at a = Some d \<and> fst (prefs (ua_user a)) \<and> ua_user a \<in> set reach \<and> offset \<in> set (snd (prefs (ua_user a))) \<and>
        time_before d (hours 1) offset = Some fire \<and> e = entry iso_text now a d offset fire) \<longleftrightarrow>
      (\<exists>d offset fire. asked st now db a d offset fire \<and> e = entry iso_text now a d offset fire)"
      using a by (simp add: asked_def el_def) blast
  qed
  also have "\<dots> \<longleftrightarrow> (\<exists>a d offset fire. asked st now db a d offset fire \<and> e = entry iso_text now a d offset fire)" by (auto simp: asked_def el_def)
  finally show ?thesis .
qed

section \<open>The scan\<close>

lemma scan_runs:
  fixes st :: reminder_settings and now :: datetime and db :: edit_db
  assumes "scan_assignment_reminders iso_text skip_locked st now filed db = Inr (n, db')"
  defines "q \<equiv> queue (data db)"
  shows "\<exists>valid vals q1. set valid = standing_keys st now db \<and> set vals = asked_values iso_text st now db \<and>
    file_jobs REMINDER_CHANNEL filed (filter (\<lambda>v. can_receive q now (jv_user v)) vals) q = (n, q1) \<and>
    db' = db\<lparr>data := (data db)\<lparr>queue := rechecked REMINDER_CHANNEL skip_locked valid (fresh_payloads True vals) now q q1\<rparr>\<rparr>"
proof (cases "map ua_user (eligible_assignments q st now) @ map j_user (waiting_jobs REMINDER_CHANNEL skip_locked q) = []")
  case True
  then have e: "eligible_assignments q st now = []" "waiting_jobs REMINDER_CHANNEL skip_locked q = []" by simp_all
  have "n = 0" "db' = db" using assms(1) e by (simp_all add: scan_assignment_reminders_def Let_def q_def)
  moreover have "standing_keys st now db = {}" "asked_values iso_text st now db = {}" using e(1) by (auto simp: standing_keys_def asked_values_def asked_def q_def)
  moreover have "update_where (\<lambda>j. False) f xs = xs" for f and xs :: "push_job list" by (induction xs) auto
  ultimately show ?thesis
    by (intro exI [of _ "[]"]) (simp add: file_jobs_def file_chunks.simps rechecked_def e(2) [unfolded q_def] q_def)
next
  case False
  define owners where "owners = map ua_user (eligible_assignments q st now)"
  define users where "users = owners @ map j_user (waiting_jobs REMINDER_CHANNEL skip_locked q)"
  define reachable where "reachable = users_with_a_recipient q owners now True"
  define awaiting where "awaiting = users_with_a_recipient q (filter (\<lambda>u. u \<notin> set reachable) owners) now False"
  have u: "users \<noteq> []" using False by (simp add: users_def owners_def)
  have run: "scan_assignment_reminders iso_text skip_locked st now filed db =
      (case notification_prefs db users st of Inl e \<Rightarrow> Inl e | Inr prefs \<Rightarrow>
       (case traverse (plan_assignment iso_text now prefs (reachable @ awaiting)) (eligible_assignments q st now) of Inl e \<Rightarrow> Inl e | Inr plans \<Rightarrow>
         let entries = concat plans; valid = map fst entries; vals = [v. (_, Some v) \<leftarrow> entries];
             fresh = map (\<lambda>v. ((jv_user v, jv_key v), jv_payload v)) vals;
             (n, q1) = file_jobs REMINDER_CHANNEL filed (filter (\<lambda>v. jv_user v \<in> set reachable) vals) q
         in Inr (n, db\<lparr>data := (data db)\<lparr>queue := rechecked REMINDER_CHANNEL skip_locked valid fresh now q q1\<rparr>\<rparr>)))"
    using u unfolding scan_assignment_reminders_def Let_def users_def owners_def reachable_def awaiting_def rechecked_def q_def by (simp only: if_False)
  obtain prefs where prefs: "notification_prefs db users st = Inr prefs" using assms(1) unfolding run by (auto split: sum.splits)
  obtain plans where plans: "traverse (plan_assignment iso_text now prefs (reachable @ awaiting)) (eligible_assignments q st now) = Inr plans"
    using assms(1) unfolding run prefs by (auto split: sum.splits)
  define es where "es = concat plans"
  define vals where "vals = [v. (_, Some v) \<leftarrow> es]"
  obtain q1 where q1: "file_jobs REMINDER_CHANNEL filed (filter (\<lambda>v. jv_user v \<in> set reachable) vals) q = (n, q1)"
      "db' = db\<lparr>data := (data db)\<lparr>queue := rechecked REMINDER_CHANNEL skip_locked (map fst es) (fresh_payloads True vals) now q q1\<rparr>\<rparr>"
    using assms(1) unfolding run prefs sum.case plans Let_def es_def [symmetric] vals_def [symmetric] by (auto simp: value_key_def fresh_payloads_def split: prod.splits)
  have own: "ua_user a \<in> set owners" "ua_user a \<in> set users" if "a \<in> set (eligible_assignments q st now)" for a using that by (simp_all add: owners_def users_def)
  have E: "e \<in> set es \<longleftrightarrow> (\<exists>a d offset fire. asked st now db a d offset fire \<and> e = entry iso_text now a d offset fire)" for e
    unfolding es_def
  proof (rule plan_entries [OF plans [unfolded q_def]])
    fix a assume "a \<in> set (eligible_assignments (queue (data db)) st now)"
    then have o: "ua_user a \<in> set owners" "ua_user a \<in> set users" using own by (simp_all add: q_def)
    show "prefs (ua_user a) = prefs_of db st (ua_user a)" by (rule notification_prefs_eq [OF prefs o(2)])
    show "ua_user a \<in> set (reachable @ awaiting) \<longleftrightarrow> could_receive (queue (data db)) (ua_user a)"
      using recipients(2) [of q owners now] o(1) by (simp only: reachable_def awaiting_def q_def mem_Collect_eq) simp
  qed
  define S where "S = {(a, d, offset, fire). asked st now db a d offset fire}"
  have "e \<in> set es \<longleftrightarrow> (\<exists>x \<in> S. e = ((\<lambda>(a, d, offset, fire). asked_key a d offset) x,
      if (\<lambda>(a, d, offset, fire). fire) x \<le> now then None else Some ((\<lambda>(a, d, offset, fire). reminder_values iso_text a d offset fire) x)))" for e
    unfolding E by (simp add: S_def entry_def)
  note sets = entry_sets [of es S "\<lambda>(a, d, offset, fire). asked_key a d offset" "\<lambda>(a, d, offset, fire). fire" now
      "\<lambda>(a, d, offset, fire). reminder_values iso_text a d offset fire", OF this]
  have "set vals = (\<lambda>(a, d, offset, fire). reminder_values iso_text a d offset fire) ` {x \<in> S. now < (\<lambda>(a, d, offset, fire). fire) x}"
    unfolding vals_def by (rule sets(2))
  then have vset: "set vals = asked_values iso_text st now db" by (auto simp: S_def asked_values_def image_def)
  have "set (map fst es) = standing_keys st now db" unfolding sets(1) by (auto simp: S_def standing_keys_def image_def)
  moreover have "filter (\<lambda>v. jv_user v \<in> set reachable) vals = filter (\<lambda>v. can_receive q now (jv_user v)) vals"
  proof (rule filter_cong [OF refl])
    fix v assume "v \<in> set vals"
    then obtain a where "a \<in> set (eligible_assignments q st now)" "jv_user v = ua_user a" unfolding vset by (auto simp: asked_values_def asked_def q_def reminder_values_def)
    then show "jv_user v \<in> set reachable \<longleftrightarrow> can_receive q now (jv_user v)" using own(1) recipients(1) [of q owners now] by (simp add: reachable_def)
  qed
  ultimately show ?thesis using q1 vset by (intro exI [of _ "map fst es"] exI [of _ vals] exI [of _ q1]) simp
qed

lemma reminder_values_key [simp]: "value_key (reminder_values iso_text a d offset fire) = asked_key a d offset"
  "jv_user (reminder_values iso_text a d offset fire) = ua_user a" "has_reminder_copy_inputs (jv_payload (reminder_values iso_text a d offset fire))"
  by (simp_all add: value_key_def reminder_values_def asked_key_def has_reminder_copy_inputs_def)

lemma asked_value_keys:
  assumes "v \<in> asked_values iso_text st now db"
  shows "value_key v \<in> standing_keys st now db" "has_reminder_copy_inputs (jv_payload v)"
proof -
  obtain a d offset fire where a: "v = reminder_values iso_text a d offset fire" "asked st now db a d offset fire" using assms unfolding asked_values_def by blast
  show "value_key v \<in> standing_keys st now db" using a(2) unfolding a(1) reminder_values_key standing_keys_def by blast
  show "has_reminder_copy_inputs (jv_payload v)" by (simp add: a(1))
qed

section \<open>When a scan fails\<close>

definition scanned_users :: "(nat \<Rightarrow> bool) \<Rightarrow> reminder_settings \<Rightarrow> datetime \<Rightarrow> edit_db \<Rightarrow> uuid list" where
  "scanned_users skip_locked st now db =
    map ua_user (eligible_assignments (queue (data db)) st now) @ map j_user (waiting_jobs REMINDER_CHANNEL skip_locked (queue (data db)))"

definition offsets_in_range :: "reminder_settings \<Rightarrow> edit_db \<Rightarrow> user_assignment \<Rightarrow> bool" where
  "offsets_in_range st db a \<longleftrightarrow> (case ua_due_at a of None \<Rightarrow> True | Some deadline \<Rightarrow>
     fst (prefs_of db st (ua_user a)) \<and> could_receive (queue (data db)) (ua_user a) \<longrightarrow>
     (\<forall>offset \<in> set (snd (prefs_of db st (ua_user a))). time_before deadline (hours 1) offset \<noteq> None))"

lemma plan_offset_ends: "(\<exists>e. plan_offset iso_text now a d offset = Inr e) \<longleftrightarrow> time_before d (hours 1) offset \<noteq> None"
  unfolding plan_offset_entry by blast

lemma plan_assignment_ends:
  assumes "prefs (ua_user a) = prefs_of db st (ua_user a)" "ua_user a \<in> set reach \<longleftrightarrow> could_receive (queue (data db)) (ua_user a)"
  shows "(\<exists>es. plan_assignment iso_text now prefs reach a = Inr es) \<longleftrightarrow> offsets_in_range st db a"
proof (cases "ua_due_at a")
  case (Some d)
  obtain en os where p: "prefs_of db st (ua_user a) = (en, os)" by fastforce
  show ?thesis
  proof (cases "en \<and> could_receive (queue (data db)) (ua_user a)")
    case True
    then have "plan_assignment iso_text now prefs reach a = traverse (plan_offset iso_text now a d) os" using Some p assms by (simp add: plan_assignment_def)
    then show ?thesis using True Some p by (simp only: traverse_total plan_offset_ends offsets_in_range_def option.case fst_conv snd_conv) simp
  next
    case False
    then show ?thesis using Some p assms by (auto simp: plan_assignment_def offsets_in_range_def)
  qed
qed (auto simp: plan_assignment_def offsets_in_range_def split: prod.split)

lemma scan_ends:
  "(\<exists>r. scan_assignment_reminders iso_text skip_locked st now filed db = Inr r) \<longleftrightarrow>
    (\<forall>d \<in> set (notification_documents db (scanned_users skip_locked st now db)). \<exists>p. read_assignment_prefs st d = Inr p) \<and>
    (\<forall>a \<in> set (eligible_assignments (queue (data db)) st now). offsets_in_range st db a)"
proof (cases "scanned_users skip_locked st now db = []")
  case True
  then show ?thesis by (auto simp: scan_assignment_reminders_def scanned_users_def notification_documents_def Let_def)
next
  case False
  define q where "q = queue (data db)"
  define el where "el = eligible_assignments q st now"
  define owners where "owners = map ua_user el"
  define users where "users = scanned_users skip_locked st now db"
  define reach where "reach = users_with_a_recipient q owners now True @
    users_with_a_recipient q (filter (\<lambda>u. u \<notin> set (users_with_a_recipient q owners now True)) owners) now False"
  have u: "users \<noteq> []" using False by (simp add: users_def)
  have run: "(\<exists>r. scan_assignment_reminders iso_text skip_locked st now filed db = Inr r) \<longleftrightarrow>
      (\<exists>prefs. notification_prefs db users st = Inr prefs \<and> (\<exists>plans. traverse (plan_assignment iso_text now prefs reach) el = Inr plans))"
    using u unfolding scan_assignment_reminders_def Let_def users_def scanned_users_def owners_def reach_def el_def q_def
    by (auto split: sum.splits prod.splits)
  have "(\<exists>plans. traverse (plan_assignment iso_text now prefs reach) el = Inr plans) \<longleftrightarrow> (\<forall>a \<in> set el. offsets_in_range st db a)"
    if p: "notification_prefs db users st = Inr prefs" for prefs
    unfolding traverse_total
  proof (rule ball_cong [OF refl])
    fix a assume a: "a \<in> set el"
    then have "ua_user a \<in> set users" "ua_user a \<in> set owners" by (simp_all add: users_def scanned_users_def owners_def el_def q_def)
    then show "(\<exists>es. plan_assignment iso_text now prefs reach a = Inr es) \<longleftrightarrow> offsets_in_range st db a"
      using recipients(2) [of q owners now] by (intro plan_assignment_ends notification_prefs_eq [OF p]) (simp_all add: reach_def q_def)
  qed
  then have "(\<exists>r. scan_assignment_reminders iso_text skip_locked st now filed db = Inr r) \<longleftrightarrow>
      (\<exists>prefs. notification_prefs db users st = Inr prefs) \<and> (\<forall>a \<in> set el. offsets_in_range st db a)" unfolding run by blast
  then show ?thesis unfolding notification_prefs_total_iff by (simp add: users_def el_def q_def)
qed

lemma eligible_frame:
  assumes "terms q' = terms q" "assignments q' = assignments q" "user_courses q' = user_courses q" "course_overrides q' = course_overrides q"
    "assignment_marks q' = assignment_marks q"
  shows "eligible_assignments q' st now = eligible_assignments q st now"
  unfolding eligible_assignments_def with_marks_def due_rows_def listed_in_def ignored_courses_def assms by (rule refl)

lemma put_document_stored:
  assumes put: "put_document u dev ns req clock db = (Stored d, db')"
  shows "queue (data db') = (queue (data db))\<lparr>sync_log := sync_log (queue (data db'))\<rparr>"
    "\<exists>x \<in> set (documents db'). live_document u ns x \<and> sd_document x = sp_document req"
proof -
  show "queue (data db') = (queue (data db))\<lparr>sync_log := sync_log (queue (data db'))\<rparr>"
    using put by (auto simp: put_document_def log_settings_def log_edit_def Let_def split: if_splits option.splits)
  show "\<exists>x \<in> set (documents db'). live_document u ns x \<and> sd_document x = sp_document req"
  proof (cases "sp_base_revision req")
    case None
    then show ?thesis using put by (auto simp: put_document_def live_document_def Let_def split: if_splits option.splits)
  next
    case (Some r)
    define f where "f = (\<lambda>d :: settings_document. d\<lparr>sd_document := sp_document req, sd_schema_version := sp_schema req, sd_revision := sd_revision d + 1, sd_updated_by := dev\<rparr>)"
    define hit where "hit = (\<lambda>d. live_document u ns d \<and> sd_revision d = r)"
    have d: "documents db' = update_where hit f (documents db)" "\<exists>x \<in> set (documents db). hit x"
      using put Some by (auto simp: put_document_def f_def hit_def Let_def split: if_splits option.splits)
    then obtain x where "x \<in> set (documents db)" "hit x" by blast
    then have "f x \<in> set (documents db')" "live_document u ns (f x)" "sd_document (f x) = sp_document req"
      unfolding d(1) by (auto simp: update_where_def f_def hit_def live_document_def)
    then show ?thesis by blast
  qed
qed


section \<open>A second scan\<close>

definition put_queue :: "push_db \<Rightarrow> edit_db \<Rightarrow> edit_db" where
  "put_queue q db = db\<lparr>data := (data db)\<lparr>queue := q\<rparr>\<rparr>"

abbreviation with_jobs :: "push_job list \<Rightarrow> nat \<Rightarrow> edit_db \<Rightarrow> edit_db" where
  "with_jobs js k db \<equiv> put_queue (set_jobs_of js k (queue (data db))) db"

lemma with_jobs_frame:
  "eligible_assignments (queue (data (with_jobs js k db))) st now = eligible_assignments (queue (data db)) st now"
  "prefs_of (with_jobs js k db) st u = prefs_of db st u"
  "could_receive (queue (data (with_jobs js k db))) u = could_receive (queue (data db)) u"
  "can_receive (queue (data (with_jobs js k db))) now u = can_receive (queue (data db)) now u"
  by (subst eligible_frame [of _ "queue (data db)"])
    (simp_all add: put_queue_def set_jobs_of_def own_prefs_def own_documents_def could_receive_def can_receive_def has_standard_token_def)

lemma with_jobs_asked:
  "asked st now (with_jobs js k db) = asked st now db" "standing_keys st now (with_jobs js k db) = standing_keys st now db"
  "asked_values iso_text st now (with_jobs js k db) = asked_values iso_text st now db" "offsets_in_range st (with_jobs js k db) a = offsets_in_range st db a"
proof -
  show a: "asked st now (with_jobs js k db) = asked st now db" by (simp add: fun_eq_iff asked_def with_jobs_frame)
  show "standing_keys st now (with_jobs js k db) = standing_keys st now db" "asked_values iso_text st now (with_jobs js k db) = asked_values iso_text st now db"
    by (simp_all add: standing_keys_def asked_values_def a)
  show "offsets_in_range st (with_jobs js k db) a = offsets_in_range st db a" by (simp add: offsets_in_range_def with_jobs_frame split: option.split)
qed

lemma standing_user: "(u, key) \<in> standing_keys st now db \<Longrightarrow> u \<in> ua_user ` set (eligible_assignments (queue (data db)) st now)"
  by (auto simp: standing_keys_def asked_key_def asked_def)

text \<open>A scan that ends still ends when the waiting jobs are only ones that stand.\<close>

lemma scan_ends_again:
  assumes run: "scan_assignment_reminders iso_text skip_locked st now filed db = Inr r"
    and js: "\<And>j. j \<in> set js \<Longrightarrow> waits REMINDER_CHANNEL skip_locked j \<Longrightarrow> key_of j \<in> standing_keys st now db"
  shows "\<exists>r'. scan_assignment_reminders iso_text skip_locked st now filed' (with_jobs js k db) = Inr r'"
proof -
  define db' where "db' = with_jobs js k db"
  have docs: "documents db' = documents db" "jobs (queue (data db')) = js" by (simp_all add: db'_def put_queue_def set_jobs_of_def)
  have el: "eligible_assignments (queue (data db')) st now = eligible_assignments (queue (data db)) st now" by (simp add: db'_def with_jobs_frame)
  have "j_user j \<in> ua_user ` set (eligible_assignments (queue (data db)) st now)" if "j \<in> set (waiting_jobs REMINDER_CHANNEL skip_locked (queue (data db')))" for j
    using that js [of j] standing_user [of "j_user j" "dedupe_key j" st now db] by (auto simp: waiting_jobs_def waits_def key_of_def docs)
  then have "set (scanned_users skip_locked st now db') \<subseteq> set (scanned_users skip_locked st now db)" by (auto simp: scanned_users_def el)
  then have "set (notification_documents db' (scanned_users skip_locked st now db')) \<subseteq> set (notification_documents db (scanned_users skip_locked st now db))"
    by (auto simp: notification_documents_def docs)
  moreover have "(\<forall>d \<in> set (notification_documents db (scanned_users skip_locked st now db)). \<exists>p. read_assignment_prefs st d = Inr p) \<and>
    (\<forall>a \<in> set (eligible_assignments (queue (data db)) st now). offsets_in_range st db a)" using run scan_ends by blast
  ultimately have "(\<forall>d \<in> set (notification_documents db' (scanned_users skip_locked st now db')). \<exists>p. read_assignment_prefs st d = Inr p) \<and>
    (\<forall>a \<in> set (eligible_assignments (queue (data db')) st now). offsets_in_range st db' a)"
    using el by (auto simp: db'_def with_jobs_asked(4))
  then show ?thesis using scan_ends by (simp add: db'_def)
qed

interpretation assignment_scan: filing_scan REMINDER_CHANNEL True
  "\<lambda>(iso_text, skip_locked, st, now). scan_assignment_reminders iso_text skip_locked st now" "\<lambda>db. queue (data db)" put_queue
  "\<lambda>(iso_text, skip_locked, st, now). skip_locked" "\<lambda>(iso_text, skip_locked, st, now). now"
  "\<lambda>(iso_text, skip_locked, st, now). standing_keys st now" "\<lambda>(iso_text, skip_locked, st, now). asked_values iso_text st now"
  "\<lambda>(iso_text, skip_locked, st, now) db. can_receive (queue (data db)) now"
proof (unfold_locales, goal_cases)
  case (1 p filed db n db')
  then show ?case using scan_runs by (cases p) (simp add: put_queue_def)
next
  case (2 v p db)
  then show ?case using asked_value_keys(1) by (cases p) simp
next
  case (3 v p db)
  then show ?case using asked_value_keys(2) by (cases p) simp
next
  case (6 db' js k db p)
  then show ?case by (cases p) (simp add: with_jobs_asked with_jobs_frame)
next
  case (7 p filed db r db' js k filed')
  then show ?case using scan_ends_again by (cases p) auto
qed (simp_all add: put_queue_def)


text \<open>
  C23. The scan is idempotent: run again at the same time over what it left, it ends, files nothing, cancels nothing and rewrites no payload.
\<close>

theorem scan_again_silent:
  fixes st :: reminder_settings and now :: datetime
  assumes run: "scan_assignment_reminders iso_text skip_locked st now filed db = Inr (n, db')"
    and wf: "jobs_wf (queue (data db))" "one_active (queue (data db))"
  shows "scan_assignment_reminders iso_text skip_locked st now filed' db' = Inr (0, db')"
  by (rule assignment_scan.again [of "(iso_text, skip_locked, st, now)", unfolded prod.case, OF run wf])

section \<open>The scan and the check before a send\<close>

lemma with_marks_own:
  assumes "(a, m) \<in> set (with_marks q as)"
  shows "a \<in> set as \<and> (a, m) \<in> set (with_marks q [a])"
proof -
  define F where "F = (\<lambda>a :: user_assignment. case filter (\<lambda>m. am_assignment m = ua_id a) (assignment_marks q) of [] \<Rightarrow> [(a, None)] | ms \<Rightarrow> map (\<lambda>m. (a, Some (local_status m))) ms)"
  have w: "with_marks q as = concat (map F as)" for as by (simp add: with_marks_def F_def)
  obtain b where b: "b \<in> set as" "(a, m) \<in> set (F b)" using assms by (auto simp: w)
  then have "b = a" by (cases "filter (\<lambda>m. am_assignment m = ua_id b) (assignment_marks q)") (auto simp: F_def)
  then show ?thesis using b by (simp add: w)
qed

lemma assignment_rows_marks:
  "assignment_rows db u aid = with_marks db (filter (\<lambda>a. ua_user a = u \<and> ua_moodle_assignment a = aid) (assignments db))"
  by (simp add: assignment_rows_def with_marks_def)

lemma eligible_facts:
  assumes "a \<in> set (eligible_assignments q st now)"
  shows "a \<in> set (assignments q)" "ua_deleted_at a = None" "\<not> ua_is_submitted a" "\<exists>t. ua_due_at a = Some t \<and> now < t"
    "\<not> in_ignored_course a (ignored_courses q (ua_user a) now)" "\<exists>m. (a, m) \<in> set (with_marks q [a]) \<and> (\<forall>s. m = Some s \<longrightarrow> s \<notin> set EXCLUDED_LOCAL_STATUSES)"
proof -
  obtain m where m: "(a, m) \<in> set (with_marks q (due_rows q st now))" "case m of None \<Rightarrow> True | Some s \<Rightarrow> s \<notin> set EXCLUDED_LOCAL_STATUSES"
    using assms by (auto simp: eligible_assignments_def split: if_splits)
  then have d: "a \<in> set (due_rows q st now)" "(a, m) \<in> set (with_marks q [a])" using with_marks_own by blast+
  show "a \<in> set (assignments q)" "ua_deleted_at a = None" "\<not> ua_is_submitted a" "\<exists>t. ua_due_at a = Some t \<and> now < t"
    using d(1) by (auto simp: due_rows_def split: option.splits)
  show "\<not> in_ignored_course a (ignored_courses q (ua_user a) now)" using assms by (simp add: eligible_assignments_def)
  show "\<exists>m. (a, m) \<in> set (with_marks q [a]) \<and> (\<forall>s. m = Some s \<longrightarrow> s \<notin> set EXCLUDED_LOCAL_STATUSES)" using d(2) m(2) by auto
qed

text \<open>One row per assignment and user, one mark per row, due dates in whole seconds: what Moodle and the unique indexes give.\<close>

definition plain_tables :: "push_db \<Rightarrow> bool" where
  "plain_tables q \<longleftrightarrow> distinct (map (\<lambda>a. (ua_user a, ua_moodle_assignment a)) (assignments q)) \<and> distinct (map am_assignment (assignment_marks q)) \<and>
     (\<forall>a \<in> set (assignments q). case ua_due_at a of None \<Rightarrow> True | Some t \<Rightarrow> seconds (epoch_seconds t) = t)"

lemma one_mark:
  assumes "distinct (map am_assignment (assignment_marks q))"
  shows "\<exists>m. with_marks q [a] = [(a, m)]"
proof -
  have "length (filter (\<lambda>m. am_assignment m = i) ms) \<le> 1" if "distinct (map am_assignment ms)" for i ms
    using that by (induction ms) (auto simp: filter_empty_conv intro: rev_image_eqI)
  then have "length (filter (\<lambda>m. am_assignment m = ua_id a) (assignment_marks q)) \<le> 1" using assms by blast
  then show ?thesis by (cases "filter (\<lambda>m. am_assignment m = ua_id a) (assignment_marks q)") (auto simp: with_marks_def)
qed

lemma one_row:
  assumes "distinct (map f xs)" "a \<in> set xs"
  shows "filter (\<lambda>x. f x = f a) xs = [a]"
  using assms by (induction xs) (auto simp: filter_empty_conv intro: rev_image_eqI)

lemma eligible_passes:
  assumes pt: "plain_tables q" and a: "a \<in> set (eligible_assignments q st now)" "ua_due_at a = Some d" and j: "j_user j = ua_user a"
  shows "database_verdict q j (ua_moodle_assignment a) (assignment_rows q (ua_user a) (ua_moodle_assignment a)) (Some (epoch_seconds d)) now = None"
proof -
  note E = eligible_facts [OF a(1)]
  have "filter (\<lambda>x. ua_user x = ua_user a \<and> ua_moodle_assignment x = ua_moodle_assignment a) (assignments q) = [a]"
    using one_row [of "\<lambda>a. (ua_user a, ua_moodle_assignment a)" "assignments q" a] pt E(1) by (simp add: plain_tables_def)
  then have "assignment_rows q (ua_user a) (ua_moodle_assignment a) = with_marks q [a]" by (simp add: assignment_rows_marks)
  moreover obtain m where "with_marks q [a] = [(a, m)]" using one_mark pt unfolding plain_tables_def by blast
  ultimately have rows: "assignment_rows q (ua_user a) (ua_moodle_assignment a) = [(a, m)]" "\<forall>s. m = Some s \<longrightarrow> s \<notin> set EXCLUDED_LOCAL_STATUSES"
    using E(6) by auto
  have "seconds (epoch_seconds d) = d" using pt E(1) a(2) by (auto simp: plain_tables_def)
  moreover have "now < d" using E(4) a(2) by simp
  ultimately show ?thesis using rows E(2,3,5) a(2) j by (simp add: database_verdict_def alive_rows_def split: option.split)
qed


section \<open>Concrete cases\<close>

definition sample_scan_settings :: reminder_settings where
  "sample_scan_settings = \<lparr>default_offsets = [1 / 128, 1 / 256], window_hours = 168\<rparr>"

definition sample_due :: edit_db where
  "sample_due = sample_edits\<lparr>data := (data sample_edits)\<lparr>queue := (queue (data sample_edits))
    \<lparr>assignments := [sample_open\<lparr>ua_due_at := Some (seconds 50)\<rparr>],
     devices := [\<lparr>pv_id = 2, pv_user = 7, pv_platform = ''ios'', pv_app_version = Some ''2.1.0'', pv_locale = None, bulletin_push_enabled = False,
       cloud_sync_enabled = True, sync_assignment_reminders = True, pv_deleted_at = None\<rparr>],
     tokens := [\<lparr>tk_id = 1, tk_device = 2, tk_provider = ''apns'', tk_kind = ''standard'', tk_hash = [], tk_value = [], tk_scope_key = [],
       tk_expires_at = None, tk_status = ''active'', tk_last_success_at = None, tk_last_failure_at = None, tk_last_failure_code = None\<rparr>]\<rparr>\<rparr>\<rparr>"

abbreviation sample_scan :: "edit_db \<Rightarrow> string + (nat \<times> edit_db)" where
  "sample_scan \<equiv> scan_assignment_reminders (\<lambda>t. []) (\<lambda>i. False) sample_scan_settings 0 0"

lemma sample_due_ok: "jobs_wf (queue (data sample_due))" "one_active (queue (data sample_due))" "plain_tables (queue (data sample_due))"
  by (simp_all add: jobs_wf_def one_active_def plain_tables_def sample_due_def sample_edits_def sample_mirror_def sample_open_def epoch_seconds_def hours_def seconds_def)

lemma sample_scan_runs:
  obtains db' j where "sample_scan sample_due = Inr (2, db')" "j \<in> set (jobs (queue (data db')))" "j_id j \<notin> job_ids (queue (data sample_due))"
proof -
  have "map_sum id (\<lambda>r. (fst r, map j_id (jobs (queue (data (snd r)))))) (sample_scan sample_due) = Inr (2, [0, 1])" by code_simp
  then obtain db' where d: "sample_scan sample_due = Inr (2, db')" "map j_id (jobs (queue (data db'))) = [0, 1]" by (cases "sample_scan sample_due") auto
  moreover have "jobs (queue (data sample_due)) = []" by (simp add: sample_due_def sample_edits_def sample_mirror_def)
  ultimately show thesis using that [of db' "hd (jobs (queue (data db')))"] by (cases "jobs (queue (data db'))") (auto simp: job_ids_def)
qed


theorem scan_again_silent_witness: "\<exists>db'. sample_scan sample_due = Inr (2, db') \<and> sample_scan db' = Inr (0, db')"
  by (rule sample_scan_runs) (use scan_again_silent [OF _ sample_due_ok(1,2)] in blast)


definition sample_poison :: settings_put where
  "sample_poison = \<lparr>sp_schema = 1, sp_document = JObj [(''assignments'', JBool True)], sp_base_revision = None\<rparr>"


end
