(* ===== verification/ClassReminders.thy ===== *)
theory ClassReminders
  imports Reminders
begin

text \<open>
  The scan that files the reminders of classes, \<^verbatim>\<open>server/push/course_reminders.py\<close>, with the school's course changes
  (\<^verbatim>\<open>academic_calendar/changes.py\<close>) and the check the pipeline makes right before it sends one (\<open>recheck_class_reminder\<close>). The school's
  zone is a fixed offset \<open>cs_tz\<close> from UTC, as the code assumes; a day is a day number, a time of day a duration since midnight. A course
  change carries the weekdays the course meets on in its periods, which a function of the database works out; the changes are in the
  order the query gives them.
\<close>

section \<open>Data\<close>

record course_change =
  cc_term :: string
  cc_course_no :: string
  cc_kind :: string
  cc_start_date :: int
  cc_end_date :: int
  cc_excluded :: "int list"
  cc_periods :: "string list option"
  cc_room :: "string option"
  cc_start_time :: string
  cc_meeting_weekdays :: "int list"

record skipped_date =
  sk_course :: nat
  sk_on :: int
  sk_deleted_at :: "datetime option"

record class_db =
  edits :: edit_db
  skipped_dates :: "skipped_date list"
  course_changes :: "course_change list"

record class_settings =
  cs_offsets :: "rat list"
  cs_window_hours :: int
  cs_tz :: timedelta
  cs_period_times :: "(string \<times> string) list"

definition local_day :: "timedelta \<Rightarrow> datetime \<Rightarrow> int" where
  "local_day tz t = (t + tz) div days 1"

definition isoweekday :: "int \<Rightarrow> int" where
  "isoweekday d = (d + 3) mod 7 + 1"

definition combine :: "timedelta \<Rightarrow> int \<Rightarrow> timedelta \<Rightarrow> datetime" where
  "combine tz d t = d * days 1 + t - tz"

section \<open>A course's schedule\<close>

text \<open>\<^verbatim>\<open>str\<close> of a period; a list or an object has a text no period has.\<close>

definition period_text :: "json \<Rightarrow> string" where
  "period_text v = (case v of JStr s \<Rightarrow> s | JInt n \<Rightarrow> int_str n | JFloat r \<Rightarrow> float_str r | JBool b \<Rightarrow> (if b then ''True'' else ''False'')
     | JNull \<Rightarrow> ''None'' | JList xs \<Rightarrow> ''['' | JObj kv \<Rightarrow> ''{'')"

definition time_of_day :: "string \<Rightarrow> timedelta option" where
  "time_of_day s =
    (case (py_int (takeWhile (\<lambda>ch. ch \<noteq> CHR '':'') s), py_int (drop 1 (dropWhile (\<lambda>ch. ch \<noteq> CHR '':'') s))) of
       (Some h, Some m) \<Rightarrow> if 0 \<le> h \<and> h < 24 \<and> 0 \<le> m \<and> m < 60 then Some (hours h + minutes m) else None
     | _ \<Rightarrow> None)"

definition earlier_slot :: "timedelta \<times> string \<Rightarrow> timedelta \<times> string \<Rightarrow> bool" where
  "earlier_slot a b \<longleftrightarrow> fst a < fst b \<or> fst a = fst b \<and> ord_class.lexordp (snd a) (snd b)"

definition entry_start_time :: "(string \<times> string) list \<Rightarrow> json \<Rightarrow> (int \<times> timedelta \<times> string) option" where
  "entry_start_time period_times e = (case e of
     JObj kv \<Rightarrow>
       (case (case payload_get kv ''day'' of JInt n \<Rightarrow> Some n | JBool b \<Rightarrow> Some (of_bool b) | _ \<Rightarrow> None) of
          None \<Rightarrow> None
        | Some d \<Rightarrow>
          if \<not> (1 \<le> d \<and> d \<le> 7) then None
          else (case payload_get kv ''periods'' of
            JList ps \<Rightarrow>
              map_option (\<lambda>slot. (d, slot)) (first_by earlier_slot
                (List.map_filter (\<lambda>p. map_option (\<lambda>t. (t, period_text p)) (Option.bind (map_of period_times (period_text p)) time_of_day)) ps))
          | _ \<Rightarrow> None))
   | _ \<Rightarrow> None)"

definition PERIODS :: "string list" where
  "PERIODS = [''1'', ''2'', ''3'', ''4'', ''5'', ''6'', ''7'', ''8'', ''9'', ''10'', ''A'', ''B'', ''C'', ''D'']"

definition WEEKDAY_KEYS :: "string list" where
  "WEEKDAY_KEYS = [''1'', ''2'', ''3'', ''4'', ''5'', ''6'', ''7'']"

text \<open>The runs of consecutive periods; the flags say which periods the day has.\<close>

fun period_runs :: "bool list \<Rightarrow> string list \<Rightarrow> string list \<Rightarrow> string list list" where
  "period_runs (here # flags) (p # ps) run =
    (if here then period_runs flags ps (run @ [p]) else (if run = [] then [] else [run]) @ period_runs flags ps [])"
| "period_runs _ _ run = (if run = [] then [] else [run])"

definition weekday_entries :: "string \<times> json \<Rightarrow> json list" where
  "weekday_entries entry = (case entry of
     (d, JList ps) \<Rightarrow>
       if d \<notin> set WEEKDAY_KEYS then []
       else map (\<lambda>run. JObj [(''day'', JInt (int (digits_value d))), (''periods'', JList (map JStr run))])
              (period_runs (map (\<lambda>p. p \<in> period_text ` set ps) PERIODS) PERIODS [])
   | _ \<Rightarrow> [])"

definition schedule_entries :: "json \<Rightarrow> json list" where
  "schedule_entries schedule = (case schedule of JList es \<Rightarrow> es | JObj kv \<Rightarrow> concat (map weekday_entries kv) | _ \<Rightarrow> [])"

text \<open>The loop over the days of the window; \<^verbatim>\<open>setdefault\<close> keeps the first slot of a start.\<close>

definition meet_slot :: "timedelta \<Rightarrow> datetime \<Rightarrow> datetime \<Rightarrow> int \<Rightarrow> int \<times> timedelta \<times> string \<Rightarrow> (datetime \<times> string) list \<Rightarrow> (datetime \<times> string) list" where
  "meet_slot tz ws we d slot found =
    (case slot of (weekday, start, period) \<Rightarrow>
       let t = combine tz d start in
       if weekday = isoweekday d \<and> ws < t \<and> t \<le> we \<and> map_of found t = None then found @ [(t, period)] else found)"

definition class_meetings :: "class_settings \<Rightarrow> json \<Rightarrow> datetime \<Rightarrow> datetime \<Rightarrow> (datetime \<times> string) list" where
  "class_meetings st schedule ws we =
    (let slots = List.map_filter (entry_start_time (cs_period_times st)) (schedule_entries schedule) in
     sort_key fst (fold (\<lambda>d. fold (meet_slot (cs_tz st) ws we d) slots) [local_day (cs_tz st) ws..local_day (cs_tz st) we] []))"

section \<open>The school's changes\<close>

definition load_course_changes :: "course_change list \<Rightarrow> string list \<Rightarrow> string option \<Rightarrow> course_change list" where
  "load_course_changes chs codes course_no = filter (\<lambda>c. cc_term c \<in> set codes \<and> (course_no = None \<or> Some (cc_course_no c) = course_no)) chs"

text \<open>By kind, the last row of a kind as a dictionary keeps it.\<close>

definition meeting_change :: "course_change list \<Rightarrow> string \<Rightarrow> string \<Rightarrow> int \<Rightarrow> string \<Rightarrow> string \<Rightarrow> course_change option" where
  "meeting_change chs code course_no d period kind =
    find (\<lambda>c. cc_kind c = kind \<and> cc_kind c \<noteq> ''note'' \<and> cc_term c = code \<and> cc_course_no c = course_no \<and> cc_start_date c \<le> d \<and> d \<le> cc_end_date c \<and>
        isoweekday d \<notin> set (cc_excluded c) \<and> isoweekday d \<in> set (cc_meeting_weekdays c) \<and> (case cc_periods c of None \<Rightarrow> True | Some ps \<Rightarrow> period \<in> set ps))
      (rev chs)"

text \<open>\<open>Inl\<close> for the \<^verbatim>\<open>ValueError\<close> of a start that is no time.\<close>

definition changed_meeting :: "class_settings \<Rightarrow> course_change list \<Rightarrow> course_row \<Rightarrow> datetime \<Rightarrow> string \<Rightarrow> string + (datetime \<times> string option) option" where
  "changed_meeting st chs c t period =
    (let d = local_day (cs_tz st) t;
         changed = (\<lambda>kind. case cr_no c of None \<Rightarrow> None | Some no \<Rightarrow> if no = [] then None else meeting_change chs (cr_semester c) no d period kind);
         room = (case changed ''room'' of Some x \<Rightarrow> cc_room x | None \<Rightarrow> classroom (cr_info c))
     in if changed ''cancelled'' \<noteq> None then Inr None
        else (case changed ''start'' of
           None \<Rightarrow> Inr (Some (t, room))
         | Some x \<Rightarrow> (case time_of_day (cc_start_time x) of None \<Rightarrow> Inl ''ValueError'' | Some start \<Rightarrow> Inr (Some (combine (cs_tz st) d start, room)))))"

text \<open>\<^verbatim>\<open>" \<cdot> ".join\<close> of the start and the room, in UTF-8.\<close>

definition two_digits :: "int \<Rightarrow> string" where
  "two_digits n = [char_of (48 + nat (n div 10)), char_of (48 + nat (n mod 10))]"

definition clock_text :: "timedelta \<Rightarrow> datetime \<Rightarrow> string" where
  "clock_text tz t = (let m = ((t + tz) mod days 1) div minutes 1 in two_digits (m div 60) @ '':'' @ two_digits (m mod 60))"

definition reminder_body :: "timedelta \<Rightarrow> datetime \<Rightarrow> string option \<Rightarrow> string" where
  "reminder_body tz t room = clock_text tz t @ (case room of None \<Rightarrow> [] | Some r \<Rightarrow> if r = [] then [] else '' '' @ [CHR 0xC2, CHR 0xB7] @ '' '' @ r)"

section \<open>The check before a send\<close>

fun confirm_meeting :: "class_settings \<Rightarrow> course_change list \<Rightarrow> course_row \<Rightarrow> payload \<Rightarrow> datetime \<Rightarrow> (datetime \<times> string) list \<Rightarrow> string + payload option" where
  "confirm_meeting st chs c p start [] = Inr None"
| "confirm_meeting st chs c p start ((t, period) # ms) =
    (case changed_meeting st chs c t period of
       Inl e \<Rightarrow> Inl e
     | Inr None \<Rightarrow> confirm_meeting st chs c p start ms
     | Inr (Some (t', room)) \<Rightarrow>
         if t' = start then Inr (Some (if map_of p ''course_name'' = None then p else AList.update ''body'' (JStr (reminder_body (cs_tz st) t' room)) p))
         else confirm_meeting st chs c p start ms)"

definition recheck_class_reminder :: "class_settings \<Rightarrow> class_db \<Rightarrow> payload \<Rightarrow> string + payload option" where
  "recheck_class_reminder st db p =
    (case (payload_get p ''user_course_id'', payload_get p ''start_epoch'') of
       (JInt i, JInt e) \<Rightarrow>
         (case find (\<lambda>c. int (cr_id c) = i) (courses (data (edits db))) of
            None \<Rightarrow> Inr None
          | Some c \<Rightarrow>
            if cr_enrollment c \<noteq> Enrolled then Inr None
            else if seconds e < MIN_DATETIME \<or> MAX_DATETIME < seconds e then Inl ''ValueError''
            else let start = seconds e; midnight = combine (cs_tz st) (local_day (cs_tz st) start) 0;
                     chs = (case cr_no c of None \<Rightarrow> [] | Some no \<Rightarrow> if no = [] then [] else load_course_changes (course_changes db) [cr_semester c] (Some no))
                 in confirm_meeting st chs c p start (class_meetings st (schedule_json (cr_info c)) midnight (midnight + days 1)))
     | _ \<Rightarrow> Inr None)"

section \<open>The scan\<close>

definition class_offsets :: "payload \<Rightarrow> rat list \<Rightarrow> string + rat list" where
  "class_offsets section dflt = (case payload_get section ''reminder_offsets_minutes'' of JList xs \<Rightarrow> numbers xs | _ \<Rightarrow> Inr dflt)"

definition course_prefs :: "edit_db \<Rightarrow> uuid list \<Rightarrow> class_settings \<Rightarrow> string + (uuid \<Rightarrow> bool \<times> rat list)" where
  "course_prefs db users st =
    (case traverse (read_prefs ''courses'' class_offsets (cs_offsets st)) (notification_documents db users) of
       Inl e \<Rightarrow> Inl e
     | Inr ps \<Rightarrow> Inr (\<lambda>u. case map_of (rev ps) u of None \<Rightarrow> (True, cs_offsets st) | Some p \<Rightarrow> p))"

definition users_with_a_phone :: "push_db \<Rightarrow> uuid list \<Rightarrow> datetime \<Rightarrow> bool \<Rightarrow> uuid list" where
  "users_with_a_phone db users now token_required =
    filter (\<lambda>u. \<exists>d \<in> set (devices db). pv_user d = u \<and> pv_deleted_at d = None \<and> pv_platform d \<in> set APPLE_HANDHELD_PLATFORMS \<and>
      (token_required \<longrightarrow> has_standard_token db now d)) users"

definition current_terms :: "semester_term list \<Rightarrow> class_settings \<Rightarrow> datetime \<Rightarrow> datetime \<Rightarrow> (int \<times> string option) list" where
  "current_terms ts st ws we = map (\<lambda>d. (d, current_term_code ts (combine (cs_tz st) d (hours 12)))) [local_day (cs_tz st) ws..local_day (cs_tz st) we]"

definition with_overrides :: "override_row list \<Rightarrow> course_row list \<Rightarrow> (course_row \<times> override_row option) list" where
  "with_overrides os cs = concat (map (\<lambda>c. case filter (\<lambda>x. ov_course x = cr_id c) os of [] \<Rightarrow> [(c, None)] | xs \<Rightarrow> map (\<lambda>x. (c, Some x)) xs) cs)"

definition latest_code :: "string list \<Rightarrow> string option" where
  "latest_code codes = first_by (\<lambda>a b. ord_class.lexordp b a) codes"

definition latest_semester :: "(course_row \<times> override_row option) list \<Rightarrow> uuid \<Rightarrow> string option" where
  "latest_semester rows u =
    (let mine = map fst (filter (\<lambda>r. cr_user (fst r) = u) rows); school = filter (\<lambda>c. cr_source c = NtustPortal \<or> is_term_code (cr_semester c)) mine
     in latest_code (map cr_semester (if school = [] then mine else school)))"

definition is_quiet :: "push_db \<Rightarrow> uuid \<Rightarrow> int \<Rightarrow> bool" where
  "is_quiet db u d =
    (let covering_ids = map h_id (filter (\<lambda>h. h_start h \<le> d \<and> d \<le> h_end h) (holidays db)) in
     covering_ids \<noteq> [] \<and> \<not> (\<exists>x \<in> set (holiday_overrides db). ho_user x = u \<and> ho_notify x \<and> ho_holiday x \<in> set covering_ids))"

definition display_name :: "course_row \<Rightarrow> override_row option \<Rightarrow> string" where
  "display_name c ov =
    (let custom = (\<lambda>x. let names = custom_names (ov_names x); zh = (case map_of names ''zh'' of None \<Rightarrow> [] | Some s \<Rightarrow> s);
                           en = (case map_of names ''en'' of None \<Rightarrow> [] | Some s \<Rightarrow> s) in if zh \<noteq> [] then zh else en)
     in case ov of None \<Rightarrow> course_name (cr_info c) | Some x \<Rightarrow> if custom x \<noteq> [] then custom x else course_name (cr_info c))"

definition class_key :: "nat \<Rightarrow> rat \<Rightarrow> int \<Rightarrow> string" where
  "class_key i offset start = ''course:'' @ nat_str i @ '':reminder_'' @ format_g offset @ ''m:'' @ int_str start"

definition class_values :: "(datetime \<Rightarrow> string) \<Rightarrow> class_settings \<Rightarrow> course_row \<Rightarrow> override_row option \<Rightarrow> datetime \<Rightarrow> string option \<Rightarrow> rat \<Rightarrow> datetime \<Rightarrow> job_values" where
  "class_values iso_text st c ov t room offset fire =
    \<lparr>jv_user = cr_user c, jv_key = class_key (cr_id c) offset (epoch_seconds t), jv_scenario = ''reminder_'' @ format_g offset @ ''m'', jv_fire_at = fire,
     jv_payload = [(''kind'', JStr ''course_reminder''), (''course_name'', JStr (display_name c ov)), (''body'', JStr (reminder_body (cs_tz st) t room)),
       (''semester'', JStr (cr_semester c)), (''course_key'', JStr (cr_key c)), (''user_course_id'', JInt (int (cr_id c))), (''starts_at'', JStr (iso_text t)),
       (''start_epoch'', JInt (epoch_seconds t)), (''offset_minutes'', JFloat offset)]\<rparr>"

definition plan_class_offset ::
  "(datetime \<Rightarrow> string) \<Rightarrow> class_settings \<Rightarrow> datetime \<Rightarrow> course_row \<Rightarrow> override_row option \<Rightarrow> datetime \<Rightarrow> string option \<Rightarrow> rat \<Rightarrow> string + ((uuid \<times> string) \<times> job_values option)" where
  "plan_class_offset iso_text st now c ov t room offset =
    (case time_before t (minutes 1) offset of None \<Rightarrow> Inl ''OverflowError''
     | Some fire \<Rightarrow> let v = class_values iso_text st c ov t room offset fire in Inr ((jv_user v, jv_key v), if fire \<le> now then None else Some v))"

definition meets_on :: "class_db \<Rightarrow> (int \<times> string option) list \<Rightarrow> course_row \<Rightarrow> int \<Rightarrow> bool" where
  "meets_on db term_on c d \<longleftrightarrow> \<not> (\<exists>x \<in> set (skipped_dates db). sk_course x = cr_id c \<and> sk_on x = d \<and> sk_deleted_at x = None) \<and>
     (term_on = [] \<or> map_of term_on d = Some (Some (cr_semester c))) \<and> \<not> outside_term d (load_term_dates (queue (data (edits db)))) \<and>
     \<not> is_quiet (queue (data (edits db))) (cr_user c) d"

definition plan_meeting ::
  "(datetime \<Rightarrow> string) \<Rightarrow> class_settings \<Rightarrow> datetime \<Rightarrow> class_db \<Rightarrow> (int \<times> string option) list \<Rightarrow> course_change list \<Rightarrow> rat list \<Rightarrow> course_row \<Rightarrow> override_row option \<Rightarrow>
    datetime \<times> string \<Rightarrow> string + ((uuid \<times> string) \<times> job_values option) list" where
  "plan_meeting iso_text st now db term_on chs offsets c ov meeting =
    (case meeting of (t, period) \<Rightarrow>
       if \<not> meets_on db term_on c (local_day (cs_tz st) t) then Inr []
       else (case changed_meeting st chs c t period of
          Inl e \<Rightarrow> Inl e
        | Inr None \<Rightarrow> Inr []
        | Inr (Some (t', room)) \<Rightarrow> if t' \<le> now then Inr [] else traverse (plan_class_offset iso_text st now c ov t' room) offsets))"

definition plan_course ::
  "(datetime \<Rightarrow> string) \<Rightarrow> class_settings \<Rightarrow> datetime \<Rightarrow> class_db \<Rightarrow> (int \<times> string option) list \<Rightarrow> course_change list \<Rightarrow> (uuid \<Rightarrow> bool \<times> rat list) \<Rightarrow> uuid list \<Rightarrow>
    course_row \<times> override_row option \<Rightarrow> string + ((uuid \<times> string) \<times> job_values option) list" where
  "plan_course iso_text st now db term_on chs prefs reach row =
    (case row of (c, ov) \<Rightarrow>
       (case prefs (cr_user c) of (enabled, offsets) \<Rightarrow>
          if \<not> enabled \<or> cr_user c \<notin> set reach then Inr []
          else map_sum id concat (traverse (plan_meeting iso_text st now db term_on chs offsets c ov)
            (class_meetings st (schedule_json (cr_info c)) (combine (cs_tz st) (local_day (cs_tz st) now) 0) (now + hours (cs_window_hours st))))))"

definition class_rows :: "class_settings \<Rightarrow> datetime \<Rightarrow> class_db \<Rightarrow> (int \<times> string option) list \<Rightarrow> (course_row \<times> override_row option) list" where
  "class_rows st now db term_on =
    (let q = queue (data (edits db)); ts = load_term_dates q;
         rows = with_overrides (overrides (data (edits db))) (filter (\<lambda>c. cr_enrollment c = Enrolled \<and> schedule_json (cr_info c) \<noteq> JObj [] \<and> schedule_json (cr_info c) \<noteq> JList [] \<and>
           (term_on = [] \<or> (\<exists>(d, code) \<in> set term_on. \<not> outside_term d ts \<and> code = Some (cr_semester c)))) (courses (data (edits db))))
     in if term_on \<noteq> [] then rows else filter (\<lambda>r. Some (cr_semester (fst r)) = latest_semester rows (cr_user (fst r))) rows)"

definition term_days :: "class_settings \<Rightarrow> datetime \<Rightarrow> class_db \<Rightarrow> (int \<times> string option) list" where
  "term_days st now db = (let ts = terms (queue (data (edits db))) in if ts = [] then [] else current_terms ts st now (now + hours (cs_window_hours st)))"

definition scan_course_reminders ::
  "(datetime \<Rightarrow> string) \<Rightarrow> (nat \<Rightarrow> bool) \<Rightarrow> class_settings \<Rightarrow> datetime \<Rightarrow> datetime \<Rightarrow> class_db \<Rightarrow> string + (nat \<times> class_db)" where
  "scan_course_reminders iso_text skip_locked st now filed db =
    (let q = queue (data (edits db)); term_on = term_days st now db; eligible = class_rows st now db term_on;
         waiting = waiting_jobs COURSE_CHANNEL skip_locked q; owners = map (\<lambda>r. cr_user (fst r)) eligible; users = owners @ map j_user waiting;
         chs = load_course_changes (course_changes db) (map (\<lambda>r. cr_semester (fst r)) eligible) None
     in if users = [] then Inr (0, db)
        else case course_prefs (edits db) users st of Inl e \<Rightarrow> Inl e | Inr prefs \<Rightarrow>
          let reachable = users_with_a_phone q owners now True;
              awaiting = users_with_a_phone q (filter (\<lambda>u. u \<notin> set reachable) owners) now False
          in case traverse (plan_course iso_text st now db term_on chs prefs (reachable @ awaiting)) eligible of Inl e \<Rightarrow> Inl e | Inr plans \<Rightarrow>
            let entries = concat plans; valid = map fst entries; vals = [v. (_, Some v) \<leftarrow> entries];
                (n, q1) = file_jobs COURSE_CHANNEL filed (filter (\<lambda>v. jv_user v \<in> set reachable) vals) q;
                q2 = q1\<lparr>jobs := update_where (\<lambda>j. j_id j \<in> j_id ` set waiting) (recheck_waiting valid [] now) (jobs q1)\<rparr>
            in Inr (n, db\<lparr>edits := (edits db)\<lparr>data := (data (edits db))\<lparr>queue := q2\<rparr>\<rparr>\<rparr>))"

end
