(* ===== verification/ClassFacts.thy ===== *)
theory ClassFacts
  imports ClassReminders FilingScan EditFacts
begin

text \<open>
  What the class reminder scan of \<open>ClassReminders\<close> guarantees: the meetings it finds are the schedule's, in order; after a scan the
  waiting reminders are exactly the ones the tables ask for, and a second scan changes nothing (by interpreting \<open>filing_scan\<close>); what it
  files, the check before a send confirms.
\<close>

section \<open>Times\<close>

lemma local_day_combine: "0 \<le> s \<Longrightarrow> s < days 1 \<Longrightarrow> local_day tz (combine tz d s) = d"
  by (simp add: local_day_def combine_def duration_defs)

lemma local_day_mono: "s \<le> t \<Longrightarrow> local_day tz s \<le> local_day tz t"
  by (simp add: local_day_def duration_defs zdiv_mono1)

lemma midnight_le: "combine tz (local_day tz t) 0 \<le> t" "t < combine tz (local_day tz t) 0 + days 1"
  by (simp_all add: local_day_def combine_def duration_defs)

lemma time_of_day_range: "time_of_day s = Some t \<Longrightarrow> 0 \<le> t \<and> t < days 1 \<and> t mod seconds 1 = 0"
  by (auto simp: time_of_day_def duration_defs split: option.splits if_splits)

section \<open>The meetings of a schedule\<close>

definition class_slots :: "class_settings \<Rightarrow> json \<Rightarrow> (int \<times> timedelta \<times> string) list" where
  "class_slots st schedule = List.map_filter (entry_start_time (cs_period_times st)) (schedule_entries schedule)"

text \<open>The slot a schedule has at a moment.\<close>

definition slot_on :: "timedelta \<Rightarrow> (int \<times> timedelta \<times> string) list \<Rightarrow> int \<Rightarrow> datetime \<Rightarrow> string option" where
  "slot_on tz slots d t = map_option (\<lambda>(w, s, period). period) (find (\<lambda>(w, s, period). w = isoweekday d \<and> combine tz d s = t) slots)"

lemma entry_start_time_range:
  assumes "entry_start_time pts e = Some (w, s, period)"
  shows "1 \<le> w \<and> w \<le> 7 \<and> (\<exists>raw. map_of pts period = Some raw \<and> time_of_day raw = Some s)"
  using assms by (auto simp: entry_start_time_def map_filter_def bind_eq_Some_conv split: json.splits option.splits if_splits dest!: first_by_mem)

lemma class_slots_range:
  assumes "(w, s, period) \<in> set (class_slots st schedule)"
  shows "\<exists>raw. (period, raw) \<in> set (cs_period_times st) \<and> time_of_day raw = Some s"
proof -
  obtain e where "entry_start_time (cs_period_times st) e = Some (w, s, period)" using assms by (auto simp: class_slots_def map_filter_def)
  then show ?thesis using entry_start_time_range map_of_SomeD by fastforce
qed

lemma class_slots_day: "(w, s, period) \<in> set (class_slots st schedule) \<Longrightarrow> 0 \<le> s \<and> s < days 1"
  using class_slots_range time_of_day_range by blast

lemma slot_on_simps [simp]:
  "slot_on tz [] d t = None"
  "slot_on tz ((w, s, period) # slots) d t = (if w = isoweekday d \<and> combine tz d s = t then Some period else slot_on tz slots d t)"
  by (simp_all add: slot_on_def)

lemma meet_slots_map:
  "map_of (fold (meet_slot tz ws we d) slots found) t =
    (case map_of found t of Some p \<Rightarrow> Some p | None \<Rightarrow> if ws < t \<and> t \<le> we then slot_on tz slots d t else None)"
proof (induction slots arbitrary: found)
  case (Cons x slots)
  obtain w s period where x: "x = (w, s, period)" by (cases x)
  show ?case unfolding x fold_simps Cons.IH by (auto simp: meet_slot_def Let_def map_add_def split: option.split)
qed (simp split: option.split)

lemma slot_on_day:
  assumes "\<And>w s period. (w, s, period) \<in> set slots \<Longrightarrow> 0 \<le> s \<and> s < days 1" "slot_on tz slots d t \<noteq> None"
  shows "d = local_day tz t"
  using assms local_day_combine by (force simp: slot_on_def find_Some_iff dest: nth_mem)

lemma meet_days_map:
  assumes "\<And>w s period. (w, s, period) \<in> set slots \<Longrightarrow> 0 \<le> s \<and> s < days 1"
  shows "map_of (fold (\<lambda>d. fold (meet_slot tz ws we d) slots) ds found) t =
    (case map_of found t of Some p \<Rightarrow> Some p
     | None \<Rightarrow> if ws < t \<and> t \<le> we \<and> local_day tz t \<in> set ds then slot_on tz slots (local_day tz t) t else None)"
proof (induction ds arbitrary: found)
  case (Cons d ds)
  have "slot_on tz slots d t = None" if "d \<noteq> local_day tz t" using slot_on_day [of slots tz d t] assms that by blast
  then show ?case by (cases "d = local_day tz t") (auto simp: Cons.IH meet_slots_map split: option.split)
qed (simp split: option.split)

lemma meet_slots_distinct:
  "distinct (map fst found) \<Longrightarrow> distinct (map fst (fold (meet_slot tz ws we d) slots found))"
proof (induction slots arbitrary: found)
  case (Cons x slots)
  have "distinct (map fst (meet_slot tz ws we d x found))" using Cons.prems by (auto simp: meet_slot_def Let_def map_of_eq_None_iff split: prod.split)
  then show ?case by (simp add: Cons.IH)
qed simp

lemma meet_days_distinct:
  "distinct (map fst found) \<Longrightarrow> distinct (map fst (fold (\<lambda>d. fold (meet_slot tz ws we d) slots) ds found))"
  by (induction ds arbitrary: found) (simp_all add: meet_slots_distinct)

lemma distinct_sort_key: "distinct (map fst xs) \<Longrightarrow> distinct (map fst (sort_key fst xs))"
  by (simp add: distinct_map)

lemma class_meetings_distinct: "distinct (map fst (class_meetings st schedule ws we))"
  unfolding class_meetings_def Let_def by (intro distinct_sort_key meet_days_distinct) simp

lemma class_meetings_map:
  "map_of (class_meetings st schedule ws we) t =
    (if ws < t \<and> t \<le> we then slot_on (cs_tz st) (class_slots st schedule) (local_day (cs_tz st) t) t else None)"
proof -
  define xs where "xs = fold (\<lambda>d. fold (meet_slot (cs_tz st) ws we d) (class_slots st schedule)) [local_day (cs_tz st) ws..local_day (cs_tz st) we] []"
  have d: "distinct (map fst xs)" unfolding xs_def by (intro meet_days_distinct) simp
  have "map_of (sort_key fst xs) = map_of xs" using d distinct_sort_key [OF d] by (subst map_of_inject_set) simp_all
  moreover have "class_meetings st schedule ws we = sort_key fst xs" by (simp add: class_meetings_def class_slots_def xs_def Let_def)
  moreover have "map_of xs t = (if ws < t \<and> t \<le> we \<and> local_day (cs_tz st) t \<in> set [local_day (cs_tz st) ws..local_day (cs_tz st) we]
      then slot_on (cs_tz st) (class_slots st schedule) (local_day (cs_tz st) t) t else None)"
    unfolding xs_def by (subst meet_days_map [OF class_slots_day]) simp_all
  ultimately show ?thesis using local_day_mono [of ws t "cs_tz st"] local_day_mono [of t we "cs_tz st"] by auto
qed

lemma class_meetings_mem:
  "(t, period) \<in> set (class_meetings st schedule ws we) \<longleftrightarrow>
    ws < t \<and> t \<le> we \<and> slot_on (cs_tz st) (class_slots st schedule) (local_day (cs_tz st) t) t = Some period"
  by (simp add: class_meetings_map flip: map_of_eq_Some_iff [OF class_meetings_distinct]) auto

lemma class_meetings_sorted: "sorted_wrt (<) (map fst (class_meetings st schedule ws we))"
proof -
  have "sorted (map fst (class_meetings st schedule ws we))" by (simp add: class_meetings_def Let_def)
  then show ?thesis using class_meetings_distinct by (simp add: strict_sorted_iff)
qed

text \<open>
  C26. The meetings of a schedule in a window are exactly the moments inside it, after its start and up to its end, at which a slot of the
  schedule begins on its weekday in the school's zone, each once, in order, with the period of the first such slot.
\<close>

theorem class_meetings_exact:
  "sorted_wrt (<) (map fst (class_meetings st schedule ws we)) \<and>
   set (class_meetings st schedule ws we) =
     {(t, period). ws < t \<and> t \<le> we \<and> slot_on (cs_tz st) (class_slots st schedule) (local_day (cs_tz st) t) t = Some period}"
  using class_meetings_mem class_meetings_sorted by fast

section \<open>What the tables ask for\<close>

lemma find_in_filter: "(\<And>x. P x \<Longrightarrow> Q x) \<Longrightarrow> find P (filter Q xs) = find P xs"
  by (induction xs) auto

text \<open>Loading the changes of a course's term alone leaves its meetings the same.\<close>

lemma changed_meeting_loaded:
  assumes "cr_semester c \<in> set codes" "no = None \<or> no = cr_no c"
  shows "changed_meeting st (load_course_changes chs codes no) c t period = changed_meeting st chs c t period"
proof -
  have "meeting_change (load_course_changes chs codes no) (cr_semester c) n d period kind = meeting_change chs (cr_semester c) n d period kind" if "cr_no c = Some n" for n d kind
    unfolding meeting_change_def load_course_changes_def rev_filter by (rule find_in_filter) (use assms that in auto)
  then have "(case cr_no c of None \<Rightarrow> None | Some n \<Rightarrow> if n = [] then None else meeting_change (load_course_changes chs codes no) (cr_semester c) n d period kind) =
      (case cr_no c of None \<Rightarrow> None | Some n \<Rightarrow> if n = [] then None else meeting_change chs (cr_semester c) n d period kind)" for d kind
    by (simp split: option.split)
  then show ?thesis by (simp only: changed_meeting_def Let_def)
qed

abbreviation class_prefs :: "class_settings \<Rightarrow> class_db \<Rightarrow> uuid \<Rightarrow> bool \<times> rat list" where
  "class_prefs st db \<equiv> own_prefs ''courses'' class_offsets (cs_offsets st) (edits db)"

lemma course_prefs_section: "course_prefs db users st = section_prefs ''courses'' class_offsets (cs_offsets st) db users"
  by (simp add: course_prefs_def section_prefs_def)

definition has_phone :: "push_db \<Rightarrow> uuid \<Rightarrow> bool" where
  "has_phone q u \<longleftrightarrow> (\<exists>d \<in> set (devices q). pv_user d = u \<and> pv_deleted_at d = None \<and> pv_platform d \<in> set APPLE_HANDHELD_PLATFORMS)"

definition phone_reached :: "push_db \<Rightarrow> datetime \<Rightarrow> uuid \<Rightarrow> bool" where
  "phone_reached q now u \<longleftrightarrow> (\<exists>d \<in> set (devices q). pv_user d = u \<and> pv_deleted_at d = None \<and> pv_platform d \<in> set APPLE_HANDHELD_PLATFORMS \<and> has_standard_token q now d)"

lemma phones:
  "set (users_with_a_phone q users now True) = {u \<in> set users. phone_reached q now u}"
  "set (users_with_a_phone q users now True @ users_with_a_phone q (filter (\<lambda>u. u \<notin> set (users_with_a_phone q users now True)) users) now False) =
    {u \<in> set users. has_phone q u}"
  by (auto simp: users_with_a_phone_def has_phone_def phone_reached_def)

text \<open>A class of the window as the school's changes leave it, from the meeting \<open>t'\<close> of the schedule.\<close>

definition class_held :: "class_settings \<Rightarrow> datetime \<Rightarrow> class_db \<Rightarrow> course_row \<Rightarrow> datetime \<times> string \<Rightarrow> datetime \<Rightarrow> string option \<Rightarrow> bool" where
  "class_held st now db c meeting t room \<longleftrightarrow>
     meeting \<in> set (class_meetings st (schedule_json (cr_info c)) (combine (cs_tz st) (local_day (cs_tz st) now) 0) (now + hours (cs_window_hours st))) \<and>
     meets_on db (term_days st now db) c (local_day (cs_tz st) (fst meeting)) \<and>
     changed_meeting st (course_changes db) c (fst meeting) (snd meeting) = Inr (Some (t, room)) \<and> now < t"

type_synonym wanted_class = "course_row \<times> override_row option \<times> datetime \<times> string option \<times> rat \<times> datetime"

definition class_wanted :: "class_settings \<Rightarrow> datetime \<Rightarrow> class_db \<Rightarrow> wanted_class set" where
  "class_wanted st now db = {(c, ov, t, room, offset, fire). (c, ov) \<in> set (class_rows st now db (term_days st now db)) \<and>
     fst (class_prefs st db (cr_user c)) \<and> has_phone (queue (data (edits db))) (cr_user c) \<and> (\<exists>meeting. class_held st now db c meeting t room) \<and>
     offset \<in> set (snd (class_prefs st db (cr_user c))) \<and> time_before t (minutes 1) offset = Some fire}"

fun wanted_key :: "wanted_class \<Rightarrow> uuid \<times> string" where
  "wanted_key (c, ov, t, room, offset, fire) = (cr_user c, class_key (cr_id c) offset (epoch_seconds t))"

fun wanted_fire :: "wanted_class \<Rightarrow> datetime" where
  "wanted_fire (c, ov, t, room, offset, fire) = fire"

fun wanted_value :: "(datetime \<Rightarrow> string) \<Rightarrow> class_settings \<Rightarrow> wanted_class \<Rightarrow> job_values" where
  "wanted_value iso_text st (c, ov, t, room, offset, fire) = class_values iso_text st c ov t room offset fire"

definition class_standing :: "class_settings \<Rightarrow> datetime \<Rightarrow> class_db \<Rightarrow> (uuid \<times> string) set" where
  "class_standing st now db = wanted_key ` class_wanted st now db"

definition class_asked :: "(datetime \<Rightarrow> string) \<Rightarrow> class_settings \<Rightarrow> datetime \<Rightarrow> class_db \<Rightarrow> job_values set" where
  "class_asked iso_text st now db = wanted_value iso_text st ` {x \<in> class_wanted st now db. now < wanted_fire x}"

lemma wanted_value_key [simp]: "value_key (wanted_value iso_text st x) = wanted_key x"
  by (cases x) (simp add: value_key_def class_values_def)

section \<open>The scan\<close>

lemma traverse_concat:
  assumes "traverse f xs = Inr yss"
  shows "e \<in> set (concat yss) \<longleftrightarrow> (\<exists>x \<in> set xs. \<exists>ys. f x = Inr ys \<and> e \<in> set ys)"
  using traverse_set [OF assms] by auto

lemma plan_meeting_entries:
  assumes "plan_meeting iso_text st now db term_on chs offsets c ov (t', period) = Inr es"
  shows "e \<in> set es \<longleftrightarrow> meets_on db term_on c (local_day (cs_tz st) t') \<and> (\<exists>t room offset fire. changed_meeting st chs c t' period = Inr (Some (t, room)) \<and> now < t \<and>
    offset \<in> set offsets \<and> time_before t (minutes 1) offset = Some fire \<and>
    e = (wanted_key (c, ov, t, room, offset, fire), if fire \<le> now then None else Some (class_values iso_text st c ov t room offset fire)))"
proof (cases "meets_on db term_on c (local_day (cs_tz st) t') \<and> (\<exists>t room. changed_meeting st chs c t' period = Inr (Some (t, room)) \<and> now < t)")
  case True
  then obtain t room where t: "meets_on db term_on c (local_day (cs_tz st) t')" "changed_meeting st chs c t' period = Inr (Some (t, room))" "now < t" by blast
  have po: "plan_class_offset iso_text st now c ov t room offset = Inr e \<longleftrightarrow> (\<exists>fire. time_before t (minutes 1) offset = Some fire \<and>
      e = (wanted_key (c, ov, t, room, offset, fire), if fire \<le> now then None else Some (class_values iso_text st c ov t room offset fire)))" for offset
    by (auto simp: plan_class_offset_def class_values_def Let_def split: option.split)
  have "traverse (plan_class_offset iso_text st now c ov t room) offsets = Inr es" using assms t by (simp add: plan_meeting_def)
  from traverse_set [OF this] have "e \<in> set es \<longleftrightarrow> (\<exists>offset \<in> set offsets. plan_class_offset iso_text st now c ov t room offset = Inr e)" by simp
  then show ?thesis unfolding po t(2) using t(1,3) by (simp only: sum.inject option.inject prod.inject) blast
next
  case False
  then have "es = []" using assms by (auto simp: plan_meeting_def split: if_splits sum.splits option.splits prod.splits)
  then show ?thesis using False by auto
qed

text \<open>The rows of the scan, and what a plan of one of them holds.\<close>

lemma plan_course_entries:
  assumes plan: "plan_course iso_text st now db (term_days st now db) chs prefs reach (c, ov) = Inr es"
    and c: "(c, ov) \<in> set (class_rows st now db (term_days st now db))"
    and prefs: "prefs (cr_user c) = class_prefs st db (cr_user c)" and reach: "cr_user c \<in> set reach \<longleftrightarrow> has_phone (queue (data (edits db))) (cr_user c)"
    and chs: "\<And>t period. changed_meeting st chs c t period = changed_meeting st (course_changes db) c t period"
  shows "e \<in> set es \<longleftrightarrow> (\<exists>t room offset fire. (c, ov, t, room, offset, fire) \<in> class_wanted st now db \<and>
    e = (wanted_key (c, ov, t, room, offset, fire), if fire \<le> now then None else Some (class_values iso_text st c ov t room offset fire)))"
proof -
  define ms where "ms = class_meetings st (schedule_json (cr_info c)) (combine (cs_tz st) (local_day (cs_tz st) now) 0) (now + hours (cs_window_hours st))"
  obtain enabled offsets where p: "class_prefs st db (cr_user c) = (enabled, offsets)" by fastforce
  show ?thesis
  proof (cases "enabled \<and> has_phone (queue (data (edits db))) (cr_user c)")
    case True
    define f where "f = plan_meeting iso_text st now db (term_days st now db) chs offsets c ov"
    have "map_sum id concat (traverse f ms) = Inr es" using plan True p prefs reach by (simp add: plan_course_def ms_def f_def)
    then obtain yss where y: "traverse f ms = Inr yss" "es = concat yss" by (cases "traverse f ms") auto
    have total: "\<exists>ys. f m = Inr ys" if "m \<in> set ms" for m using y(1) traverse_total [of f ms] that by blast
    define R where "R = (\<lambda>m e. meets_on db (term_days st now db) c (local_day (cs_tz st) (fst m)) \<and> (\<exists>t room offset fire.
      changed_meeting st (course_changes db) c (fst m) (snd m) = Inr (Some (t, room)) \<and> now < t \<and> offset \<in> set offsets \<and> time_before t (minutes 1) offset = Some fire \<and>
      e = (wanted_key (c, ov, t, room, offset, fire), if fire \<le> now then None else Some (class_values iso_text st c ov t room offset fire))))"
    have "(\<exists>ys. f m = Inr ys \<and> e \<in> set ys) \<longleftrightarrow> R m e" if m: "m \<in> set ms" for m
    proof -
      obtain ys where ys: "f m = Inr ys" using total [OF m] by blast
      obtain t' period where tp: "m = (t', period)" by (cases m)
      have "e \<in> set ys \<longleftrightarrow> R m e" using plan_meeting_entries [OF ys [unfolded f_def tp], of e] by (simp only: R_def chs tp fst_conv snd_conv)
      then show ?thesis using ys by simp
    qed
    then have "e \<in> set es \<longleftrightarrow> (\<exists>m \<in> set ms. R m e)" unfolding y(2) traverse_concat [OF y(1)] by (rule bex_cong [OF refl])
    also have "\<dots> \<longleftrightarrow> (\<exists>t room offset fire. ((\<exists>m. class_held st now db c m t room) \<and> offset \<in> set offsets \<and> time_before t (minutes 1) offset = Some fire) \<and>
      e = (wanted_key (c, ov, t, room, offset, fire), if fire \<le> now then None else Some (class_values iso_text st c ov t room offset fire)))"
      unfolding R_def class_held_def ms_def [symmetric] by blast
    also have "\<dots> \<longleftrightarrow> (\<exists>t room offset fire. (c, ov, t, room, offset, fire) \<in> class_wanted st now db \<and>
      e = (wanted_key (c, ov, t, room, offset, fire), if fire \<le> now then None else Some (class_values iso_text st c ov t room offset fire)))"
      using c p True by (simp add: class_wanted_def)
    finally show ?thesis .
  next
    case False
    then show ?thesis using plan p prefs reach by (auto simp: plan_course_def class_wanted_def)
  qed
qed

abbreviation class_queue :: "class_db \<Rightarrow> push_db" where
  "class_queue db \<equiv> queue (data (edits db))"

definition put_class_queue :: "push_db \<Rightarrow> class_db \<Rightarrow> class_db" where
  "put_class_queue q db = db\<lparr>edits := (edits db)\<lparr>data := (data (edits db))\<lparr>queue := q\<rparr>\<rparr>\<rparr>"

text \<open>The scan in three steps: whom it reads for, what it plans, what it writes.\<close>

abbreviation the_rows :: "class_settings \<Rightarrow> datetime \<Rightarrow> class_db \<Rightarrow> (course_row \<times> override_row option) list" where
  "the_rows st now db \<equiv> class_rows st now db (term_days st now db)"

definition class_owners :: "class_settings \<Rightarrow> datetime \<Rightarrow> class_db \<Rightarrow> uuid list" where
  "class_owners st now db = map (\<lambda>r. cr_user (fst r)) (the_rows st now db)"

definition class_users :: "(nat \<Rightarrow> bool) \<Rightarrow> class_settings \<Rightarrow> datetime \<Rightarrow> class_db \<Rightarrow> uuid list" where
  "class_users skip_locked st now db = class_owners st now db @ map j_user (waiting_jobs COURSE_CHANNEL skip_locked (class_queue db))"

definition class_reach :: "class_settings \<Rightarrow> datetime \<Rightarrow> class_db \<Rightarrow> uuid list" where
  "class_reach st now db = users_with_a_phone (class_queue db) (class_owners st now db) now True @
    users_with_a_phone (class_queue db) (filter (\<lambda>u. u \<notin> set (users_with_a_phone (class_queue db) (class_owners st now db) now True)) (class_owners st now db)) now False"

definition plan_classes :: "(datetime \<Rightarrow> string) \<Rightarrow> class_settings \<Rightarrow> datetime \<Rightarrow> class_db \<Rightarrow> (uuid \<Rightarrow> bool \<times> rat list) \<Rightarrow> string + ((uuid \<times> string) \<times> job_values option) list list" where
  "plan_classes iso_text st now db prefs =
    traverse (plan_course iso_text st now db (term_days st now db) (load_course_changes (course_changes db) (map (\<lambda>r. cr_semester (fst r)) (the_rows st now db)) None)
      prefs (class_reach st now db)) (the_rows st now db)"

lemma class_scan_steps:
  "scan_course_reminders iso_text skip_locked st now filed db =
    (if class_users skip_locked st now db = [] then Inr (0, db)
     else case course_prefs (edits db) (class_users skip_locked st now db) st of Inl e \<Rightarrow> Inl e | Inr prefs \<Rightarrow>
       (case plan_classes iso_text st now db prefs of Inl e \<Rightarrow> Inl e | Inr plans \<Rightarrow>
         case file_jobs COURSE_CHANNEL filed (filter (\<lambda>v. jv_user v \<in> set (users_with_a_phone (class_queue db) (class_owners st now db) now True)) [v. (_, Some v) \<leftarrow> concat plans]) (class_queue db) of
           (n, q1) \<Rightarrow> Inr (n, put_class_queue (rechecked COURSE_CHANNEL skip_locked (map fst (concat plans)) [] now (class_queue db) q1) db)))"
  unfolding scan_course_reminders_def Let_def class_users_def class_owners_def class_reach_def plan_classes_def rechecked_def put_class_queue_def by (rule refl)

lemma plan_classes_entries:
  assumes prefs: "course_prefs (edits db) (class_users skip_locked st now db) st = Inr prefs" and plans: "plan_classes iso_text st now db prefs = Inr plans"
  shows "e \<in> set (concat plans) \<longleftrightarrow> (\<exists>x \<in> class_wanted st now db. e = (wanted_key x, if wanted_fire x \<le> now then None else Some (wanted_value iso_text st x)))"
proof -
  define rows where "rows = the_rows st now db"
  define ent where "ent = (\<lambda>x. (wanted_key x, if wanted_fire x \<le> now then None else Some (wanted_value iso_text st x)))"
  define f where "f = plan_course iso_text st now db (term_days st now db) (load_course_changes (course_changes db) (map (\<lambda>r. cr_semester (fst r)) rows) None) prefs (class_reach st now db)"
  have y: "traverse f rows = Inr plans" using plans by (simp only: plan_classes_def f_def rows_def)
  have "(\<exists>ys. f r = Inr ys \<and> e \<in> set ys) \<longleftrightarrow> (\<exists>x \<in> class_wanted st now db. (fst x, fst (snd x)) = r \<and> e = ent x)" if r: "r \<in> set rows" for r
  proof -
    obtain ys where ys: "f r = Inr ys" using y traverse_total [of f rows] r by blast
    obtain c ov where co: "r = (c, ov)" by (cases r)
    have u: "cr_user c \<in> set (class_owners st now db)" using r co by (auto simp: class_owners_def rows_def intro: rev_image_eqI)
    have "e \<in> set ys \<longleftrightarrow> (\<exists>t room offset fire. (c, ov, t, room, offset, fire) \<in> class_wanted st now db \<and>
        e = (wanted_key (c, ov, t, room, offset, fire), if fire \<le> now then None else Some (class_values iso_text st c ov t room offset fire)))"
    proof (rule plan_course_entries)
      show "plan_course iso_text st now db (term_days st now db) (load_course_changes (course_changes db) (map (\<lambda>r. cr_semester (fst r)) rows) None) prefs (class_reach st now db) (c, ov) = Inr ys"
        using ys by (simp only: f_def co)
      show "(c, ov) \<in> set (the_rows st now db)" using r co by (simp add: rows_def)
      show "prefs (cr_user c) = class_prefs st db (cr_user c)"
        using u by (intro section_prefs_eq [OF prefs [unfolded course_prefs_section]]) (simp add: class_users_def)
      show "cr_user c \<in> set (class_reach st now db) \<longleftrightarrow> has_phone (class_queue db) (cr_user c)" using u unfolding class_reach_def phones(2) by simp
      show "changed_meeting st (load_course_changes (course_changes db) (map (\<lambda>r. cr_semester (fst r)) rows) None) c t period = changed_meeting st (course_changes db) c t period" for t period
        by (rule changed_meeting_loaded) (use r co in \<open>auto intro: rev_image_eqI\<close>)
    qed
    also have "\<dots> \<longleftrightarrow> (\<exists>t room offset fire. (c, ov, t, room, offset, fire) \<in> class_wanted st now db \<and> e = ent (c, ov, t, room, offset, fire))"
      by (simp only: ent_def wanted_fire.simps wanted_value.simps)
    also have "\<dots> \<longleftrightarrow> (\<exists>x \<in> class_wanted st now db. (fst x, fst (snd x)) = r \<and> e = ent x)"
      unfolding Bex_def split_paired_Ex co fst_conv snd_conv prod.inject by blast
    finally show ?thesis using ys by simp
  qed
  then have "e \<in> set (concat plans) \<longleftrightarrow> (\<exists>r \<in> set rows. \<exists>x \<in> class_wanted st now db. (fst x, fst (snd x)) = r \<and> e = ent x)"
    unfolding traverse_concat [OF y] by (rule bex_cong [OF refl])
  also have "\<dots> \<longleftrightarrow> (\<exists>x \<in> class_wanted st now db. e = ent x)"
  proof -
    have "(fst x, fst (snd x)) \<in> set rows" if "x \<in> class_wanted st now db" for x using that by (auto simp: class_wanted_def rows_def)
    then show ?thesis by blast
  qed
  finally show ?thesis by (simp only: ent_def)
qed

lemma class_scan_runs:
  assumes run: "scan_course_reminders iso_text skip_locked st now filed db = Inr (n, db')"
  shows "\<exists>valid vals q1. set valid = class_standing st now db \<and> set vals = class_asked iso_text st now db \<and>
    file_jobs COURSE_CHANNEL filed (filter (\<lambda>v. phone_reached (class_queue db) now (jv_user v)) vals) (class_queue db) = (n, q1) \<and>
    db' = put_class_queue (rechecked COURSE_CHANNEL skip_locked valid (fresh_payloads False vals) now (class_queue db) q1) db"
proof (cases "class_users skip_locked st now db = []")
  case True
  then have e: "the_rows st now db = []" "waiting_jobs COURSE_CHANNEL skip_locked (class_queue db) = []" by (simp_all add: class_users_def class_owners_def)
  have "n = 0" "db' = db" using run True by (simp_all add: class_scan_steps)
  moreover have "class_wanted st now db = {}" using e(1) by (simp add: class_wanted_def)
  moreover have "update_where (\<lambda>j. False) f xs = xs" for f and xs :: "push_job list" by (induction xs) auto
  ultimately show ?thesis
    by (intro exI [of _ "[]"]) (simp add: class_standing_def class_asked_def file_jobs_def file_chunks.simps rechecked_def e(2) put_class_queue_def)
next
  case False
  obtain prefs where prefs: "course_prefs (edits db) (class_users skip_locked st now db) st = Inr prefs" using run False by (auto simp: class_scan_steps split: sum.splits)
  obtain plans where plans: "plan_classes iso_text st now db prefs = Inr plans" using run False prefs by (auto simp: class_scan_steps split: sum.splits)
  define vals where "vals = [v. (_, Some v) \<leftarrow> concat plans]"
  define reached where "reached = users_with_a_phone (class_queue db) (class_owners st now db) now True"
  obtain q1 where q1: "file_jobs COURSE_CHANNEL filed (filter (\<lambda>v. jv_user v \<in> set reached) vals) (class_queue db) = (n, q1)"
      "db' = put_class_queue (rechecked COURSE_CHANNEL skip_locked (map fst (concat plans)) [] now (class_queue db) q1) db"
    using run False unfolding class_scan_steps prefs sum.case plans vals_def [symmetric] reached_def [symmetric] by (auto split: prod.splits)
  note sets = entry_sets [of "concat plans" "class_wanted st now db" wanted_key wanted_fire now "wanted_value iso_text st", OF plan_classes_entries [OF prefs plans]]
  have v: "set vals = class_asked iso_text st now db" unfolding vals_def class_asked_def by (rule sets(2))
  have "set (map fst (concat plans)) = class_standing st now db" unfolding class_standing_def by (rule sets(1))
  moreover have "filter (\<lambda>v. jv_user v \<in> set reached) vals = filter (\<lambda>v. phone_reached (class_queue db) now (jv_user v)) vals"
  proof (rule filter_cong [OF refl])
    fix w assume "w \<in> set vals"
    then obtain x where x: "x \<in> class_wanted st now db" "w = wanted_value iso_text st x" unfolding v class_asked_def by blast
    then have "jv_user w \<in> set (class_owners st now db)"
      by (cases x) (auto simp: class_wanted_def class_owners_def class_values_def intro: rev_image_eqI)
    then show "jv_user w \<in> set reached \<longleftrightarrow> phone_reached (class_queue db) now (jv_user w)" by (simp add: reached_def phones(1))
  qed
  ultimately show ?thesis using q1 v by (intro exI [of _ "map fst (concat plans)"] exI [of _ vals] exI [of _ q1]) (simp add: fresh_payloads_def)
qed

section \<open>The scan as a filing scan\<close>

text \<open>The scan reads the jobs only for their owners.\<close>

abbreviation class_jobs_set :: "push_job list \<Rightarrow> nat \<Rightarrow> class_db \<Rightarrow> class_db" where
  "class_jobs_set js k db \<equiv> put_class_queue (set_jobs_of js k (class_queue db)) db"

lemma class_frame:
  "class_rows st now (class_jobs_set js k db) = class_rows st now db" "term_days st now (class_jobs_set js k db) = term_days st now db"
  "meets_on (class_jobs_set js k db) = meets_on db" "class_prefs st (class_jobs_set js k db) = class_prefs st db"
  "has_phone (class_queue (class_jobs_set js k db)) = has_phone (class_queue db)"
  "phone_reached (class_queue (class_jobs_set js k db)) = phone_reached (class_queue db)" "course_changes (class_jobs_set js k db) = course_changes db"
  "notification_documents (edits (class_jobs_set js k db)) = notification_documents (edits db)" "jobs (class_queue (class_jobs_set js k db)) = js"
  "users_with_a_phone (class_queue (class_jobs_set js k db)) = users_with_a_phone (class_queue db)"
proof -
  let ?db = "class_jobs_set js k db"
  note f = put_class_queue_def set_jobs_of_def
  have q: "terms (class_queue ?db) = terms (class_queue db)" "load_term_dates (class_queue ?db) = load_term_dates (class_queue db)" by (simp_all add: f load_term_dates_def)
  have q2: "courses (data (edits ?db)) = courses (data (edits db))" "overrides (data (edits ?db)) = overrides (data (edits db))" by (simp_all add: f)
  show "term_days st now ?db = term_days st now db" by (simp only: term_days_def q)
  show "class_rows st now ?db = class_rows st now db" by (rule ext) (simp only: class_rows_def Let_def q q2)
  show "meets_on ?db = meets_on db" by (simp add: fun_eq_iff meets_on_def is_quiet_def load_term_dates_def f)
  show "class_prefs st ?db = class_prefs st db" by (simp add: fun_eq_iff own_prefs_def own_documents_def f)
  have "has_standard_token (class_queue ?db) = has_standard_token (class_queue db)" by (simp add: fun_eq_iff has_standard_token_def f)
  then show "has_phone (class_queue ?db) = has_phone (class_queue db)" "phone_reached (class_queue ?db) = phone_reached (class_queue db)"
    "users_with_a_phone (class_queue ?db) = users_with_a_phone (class_queue db)"
    by (simp_all add: fun_eq_iff has_phone_def phone_reached_def users_with_a_phone_def) (simp_all add: f)
  show "course_changes ?db = course_changes db" "notification_documents (edits ?db) = notification_documents (edits db)" "jobs (class_queue ?db) = js"
    by (simp_all add: fun_eq_iff notification_documents_def f)
qed

lemma class_wanted_frame:
  "class_wanted st now (class_jobs_set js k db) = class_wanted st now db" "class_standing st now (class_jobs_set js k db) = class_standing st now db"
  "class_asked iso_text st now (class_jobs_set js k db) = class_asked iso_text st now db"
proof -
  show a: "class_wanted st now (class_jobs_set js k db) = class_wanted st now db" by (simp only: class_wanted_def class_held_def class_frame)
  show "class_standing st now (class_jobs_set js k db) = class_standing st now db" "class_asked iso_text st now (class_jobs_set js k db) = class_asked iso_text st now db"
    by (simp_all only: class_standing_def class_asked_def a)
qed

lemma plan_classes_frame: "plan_classes iso_text st now (class_jobs_set js k db) = plan_classes iso_text st now db"
proof -
  have "plan_meeting iso_text st now (class_jobs_set js k db) = plan_meeting iso_text st now db" by (simp add: fun_eq_iff plan_meeting_def class_frame)
  then have "plan_course iso_text st now (class_jobs_set js k db) = plan_course iso_text st now db" by (intro ext) (simp only: plan_course_def)
  then show ?thesis by (intro ext) (simp only: plan_classes_def class_reach_def class_owners_def class_frame)
qed

lemma class_standing_user: "(u, key) \<in> class_standing st now db \<Longrightarrow> u \<in> set (class_owners st now db)"
  by (auto simp: class_standing_def class_wanted_def class_owners_def intro: rev_image_eqI)

lemma plan_classes_prefs:
  assumes "\<And>u. u \<in> set (class_owners st now db) \<Longrightarrow> prefs' u = prefs u"
  shows "plan_classes iso_text st now db prefs' = plan_classes iso_text st now db prefs"
  unfolding plan_classes_def
proof (rule traverse_cong)
  fix r assume "r \<in> set (the_rows st now db)"
  then have "prefs' (cr_user (fst r)) = prefs (cr_user (fst r))" by (intro assms) (simp add: class_owners_def)
  then show "plan_course iso_text st now db term_on chs prefs' reach r = plan_course iso_text st now db term_on chs prefs reach r" for term_on chs reach
    by (cases r) (simp add: plan_course_def)
qed

lemma class_scan_ends_again:
  assumes run: "scan_course_reminders iso_text skip_locked st now filed db = Inr r"
    and js: "\<And>j. j \<in> set js \<Longrightarrow> waits COURSE_CHANNEL skip_locked j \<Longrightarrow> key_of j \<in> class_standing st now db"
  shows "\<exists>r'. scan_course_reminders iso_text skip_locked st now filed' (class_jobs_set js k db) = Inr r'"
proof -
  define db' where "db' = class_jobs_set js k db"
  note F = class_frame [where js = js and k = k and db = db, folded db'_def]
  have own: "class_owners st now db' = class_owners st now db" by (simp only: class_owners_def F)
  have "j_user j \<in> set (class_owners st now db)" if "j \<in> set (waiting_jobs COURSE_CHANNEL skip_locked (class_queue db'))" for j
    using that js [of j] class_standing_user [of "j_user j" "dedupe_key j" st now db] by (auto simp: waiting_jobs_def waits_def key_of_def F)
  then have us: "set (class_users skip_locked st now db') \<subseteq> set (class_users skip_locked st now db)" by (auto simp: class_users_def own)
  show ?thesis
  proof (cases "class_users skip_locked st now db' = []")
    case False
    then have ne: "class_users skip_locked st now db \<noteq> []" using us by auto
    obtain prefs where prefs: "course_prefs (edits db) (class_users skip_locked st now db) st = Inr prefs" using run ne by (auto simp: class_scan_steps split: sum.splits)
    obtain plans where plans: "plan_classes iso_text st now db prefs = Inr plans" using run ne prefs by (auto simp: class_scan_steps split: sum.splits)
    have "\<forall>d \<in> set (notification_documents (edits db) (class_users skip_locked st now db)). \<exists>p. read_prefs ''courses'' class_offsets (cs_offsets st) d = Inr p"
      using prefs section_prefs_ends unfolding course_prefs_section by blast
    then have "\<forall>d \<in> set (notification_documents (edits db') (class_users skip_locked st now db')). \<exists>p. read_prefs ''courses'' class_offsets (cs_offsets st) d = Inr p"
      using us unfolding F by (auto simp: notification_documents_def)
    then obtain prefs' where prefs': "course_prefs (edits db') (class_users skip_locked st now db') st = Inr prefs'"
      unfolding course_prefs_section section_prefs_ends [symmetric] by blast
    have "prefs' u = prefs u" if "u \<in> set (class_owners st now db)" for u
      using section_prefs_eq [OF prefs [unfolded course_prefs_section], of u] section_prefs_eq [OF prefs' [unfolded course_prefs_section], of u] that
      by (simp add: class_users_def own F)
    then have "plan_classes iso_text st now db prefs' = plan_classes iso_text st now db prefs" by (rule plan_classes_prefs)
    then have "plan_classes iso_text st now db' prefs' = Inr plans" using plans by (simp only: db'_def plan_classes_frame)
    then show ?thesis using False prefs' by (simp add: class_scan_steps flip: db'_def split: prod.split)
  qed (simp add: class_scan_steps flip: db'_def)
qed

lemma class_asked_stands: "v \<in> class_asked iso_text st now db \<Longrightarrow> value_key v \<in> class_standing st now db"
  unfolding class_asked_def class_standing_def by (elim imageE) (simp del: wanted_value.simps)

interpretation class_scan: filing_scan COURSE_CHANNEL False
  "\<lambda>(iso_text, skip_locked, st, now). scan_course_reminders iso_text skip_locked st now" "\<lambda>db. class_queue db" put_class_queue
  "\<lambda>(iso_text, skip_locked, st, now). skip_locked" "\<lambda>(iso_text, skip_locked, st, now). now"
  "\<lambda>(iso_text, skip_locked, st, now). class_standing st now" "\<lambda>(iso_text, skip_locked, st, now). class_asked iso_text st now"
  "\<lambda>(iso_text, skip_locked, st, now) db. phone_reached (class_queue db) now"
proof (unfold_locales, goal_cases)
  case (1 p filed db n db')
  then show ?case using class_scan_runs by (cases p) simp
next
  case (2 v p db)
  then show ?case using class_asked_stands by (cases p) simp
next
  case (6 db' js k db p)
  then show ?case by (cases p) (simp add: class_wanted_frame class_frame)
next
  case (7 p filed db r db' js k filed')
  then show ?case using class_scan_ends_again by (cases p) auto
qed (simp_all add: put_class_queue_def)


section \<open>The scan and the check before a send\<close>

lemma with_overrides_course: "r \<in> set (with_overrides os cs) \<Longrightarrow> fst r \<in> set cs"
proof (induction cs)
  case (Cons x cs)
  show ?case
  proof (cases "r \<in> set (with_overrides os cs)")
    case False
    then have "fst r = x" using Cons.prems by (cases "filter (\<lambda>y. ov_course y = cr_id x) os") (auto simp: with_overrides_def)
    then show ?thesis by simp
  qed (use Cons.IH in simp)
qed (simp add: with_overrides_def)

lemma class_rows_mem:
  assumes "(c, ov) \<in> set (class_rows st now db term_on)"
  shows "c \<in> set (courses (data (edits db))) \<and> cr_enrollment c = Enrolled"
  using assms by (auto simp: class_rows_def Let_def split: if_splits dest!: with_overrides_course)

text \<open>A scan that ends read every meeting it did not leave out.\<close>

lemma scan_reads_meeting:
  assumes run: "scan_course_reminders iso_text skip_locked st now filed db = Inr r"
    and c: "(c, ov) \<in> set (the_rows st now db)" "fst (class_prefs st db (cr_user c))" "has_phone (class_queue db) (cr_user c)"
    and m: "(t', period) \<in> set (class_meetings st (schedule_json (cr_info c)) (combine (cs_tz st) (local_day (cs_tz st) now) 0) (now + hours (cs_window_hours st)))"
      "meets_on db (term_days st now db) c (local_day (cs_tz st) t')"
  shows "\<exists>x. changed_meeting st (course_changes db) c t' period = Inr x"
proof -
  define rows where "rows = the_rows st now db"
  define chs where "chs = load_course_changes (course_changes db) (map (\<lambda>r. cr_semester (fst r)) rows) None"
  have o: "cr_user c \<in> set (class_owners st now db)" using c(1) by (auto simp: class_owners_def intro: rev_image_eqI)
  then have u: "cr_user c \<in> set (class_users skip_locked st now db)" by (simp add: class_users_def)
  then have ne: "class_users skip_locked st now db \<noteq> []" by auto
  obtain prefs where prefs: "course_prefs (edits db) (class_users skip_locked st now db) st = Inr prefs" using run ne by (auto simp: class_scan_steps split: sum.splits)
  obtain plans where plans: "plan_classes iso_text st now db prefs = Inr plans" using run ne prefs by (auto simp: class_scan_steps split: sum.splits)
  have p: "prefs (cr_user c) = class_prefs st db (cr_user c)" by (rule section_prefs_eq [OF prefs [unfolded course_prefs_section] u])
  have reach: "cr_user c \<in> set (class_reach st now db)" using o c(3) unfolding class_reach_def phones(2) by simp
  have "\<forall>x \<in> set rows. \<exists>es. plan_course iso_text st now db (term_days st now db) chs prefs (class_reach st now db) x = Inr es"
    unfolding traverse_total [symmetric] using plans by (intro exI [of _ plans]) (simp only: plan_classes_def chs_def rows_def)
  then have "\<exists>es. plan_course iso_text st now db (term_days st now db) chs prefs (class_reach st now db) (c, ov) = Inr es"
    by (rule bspec) (use c(1) in \<open>simp add: rows_def\<close>)
  moreover define f where "f = plan_meeting iso_text st now db (term_days st now db) chs (snd (prefs (cr_user c))) c ov"
  moreover define ms where "ms = class_meetings st (schedule_json (cr_info c)) (combine (cs_tz st) (local_day (cs_tz st) now) 0) (now + hours (cs_window_hours st))"
  moreover have "plan_course iso_text st now db (term_days st now db) chs prefs (class_reach st now db) (c, ov) = map_sum id concat (traverse f ms)"
    using c(2) reach unfolding p [symmetric] by (cases "prefs (cr_user c)") (simp add: plan_course_def f_def ms_def)
  ultimately have "\<exists>yss. traverse f ms = Inr yss" by (cases "traverse f ms") auto
  then have "\<exists>ys. f (t', period) = Inr ys" using m(1) traverse_total [of f ms] by (simp add: ms_def)
  moreover have "changed_meeting st chs c t' period = changed_meeting st (course_changes db) c t' period"
    unfolding chs_def by (rule changed_meeting_loaded) (use c(1) in \<open>auto simp: rows_def intro: rev_image_eqI\<close>)
  ultimately show ?thesis using m(2) by (auto simp: f_def plan_meeting_def split: sum.splits)
qed

lemma changed_meeting_no_course:
  assumes "cr_no c = None \<or> cr_no c = Some []"
  shows "changed_meeting st chs c t period = changed_meeting st [] c t period"
  using assms unfolding changed_meeting_def Let_def by auto

definition recheck_changes :: "class_db \<Rightarrow> course_row \<Rightarrow> course_change list" where
  "recheck_changes db c = (case cr_no c of None \<Rightarrow> [] | Some no \<Rightarrow> if no = [] then [] else load_course_changes (course_changes db) [cr_semester c] (Some no))"

lemma changed_meeting_recheck: "changed_meeting st (recheck_changes db c) c t period = changed_meeting st (course_changes db) c t period"
proof (cases "cr_no c = None \<or> cr_no c = Some []")
  case True
  then show ?thesis by (metis changed_meeting_no_course)
next
  case False
  then obtain no where "cr_no c = Some no" "no \<noteq> []" by auto
  then show ?thesis using changed_meeting_loaded [of c "[cr_semester c]" "Some no"] by (simp add: recheck_changes_def)
qed

lemma confirm_meeting_found:
  assumes "sorted_wrt (<) (map fst ms)" "(t', period) \<in> set ms" "changed_meeting st chs c t' period = Inr (Some (t, room))"
    and "\<And>t'' period'. (t'', period') \<in> set ms \<Longrightarrow> t'' < t' \<Longrightarrow> \<exists>x. changed_meeting st chs c t'' period' = Inr x" and "map_of p ''course_name'' \<noteq> None"
  shows "\<exists>body. confirm_meeting st chs c p t ms = Inr (Some (AList.update ''body'' (JStr body) p))"
  using assms(1,2,4)
proof (induction ms)
  case (Cons m ms)
  obtain t1 period1 where m: "m = (t1, period1)" by (cases m)
  show ?case
  proof (cases "m = (t', period)")
    case True
    then show ?thesis using assms(3,5) m by auto
  next
    case False
    then have i: "(t', period) \<in> set ms" using Cons.prems(2) by auto
    then have "t1 < t'" using Cons.prems(1) m by force
    then obtain x where x: "changed_meeting st chs c t1 period1 = Inr x" using Cons.prems(3) [of t1 period1] m by auto
    have "\<exists>body. confirm_meeting st chs c p t ms = Inr (Some (AList.update ''body'' (JStr body) p))"
      by (rule Cons.IH) (use Cons.prems i in auto)
    then show ?thesis using x m assms(5) by (auto split: option.split)
  qed
qed simp

lemma epoch_seconds_whole: "t mod seconds 1 = 0 \<Longrightarrow> seconds (epoch_seconds t) = t"
  by (auto simp: epoch_seconds_def seconds_def simp flip: minus_mult_right dest!: mod_0_imp_dvd elim!: dvdE)

lemma combine_whole: "tz mod seconds 1 = 0 \<Longrightarrow> s mod seconds 1 = 0 \<Longrightarrow> combine tz d s mod seconds 1 = 0"
  by (auto simp: combine_def duration_defs intro!: dvd_imp_mod_0 dvd_diff dvd_add dest!: mod_0_imp_dvd)

text \<open>The zone is whole seconds from UTC, no period starts at midnight, ids are unique and the window lies in the calendar.\<close>

definition plain_classes :: "class_settings \<Rightarrow> datetime \<Rightarrow> class_db \<Rightarrow> bool" where
  "plain_classes st now db \<longleftrightarrow> cs_tz st mod seconds 1 = 0 \<and> (\<forall>(period, raw) \<in> set (cs_period_times st). time_of_day raw \<noteq> Some 0) \<and>
     distinct (map cr_id (courses (data (edits db)))) \<and> MIN_DATETIME \<le> now \<and> now + hours (cs_window_hours st) + days 1 \<le> MAX_DATETIME"

text \<open>A class that is held starts on the day of its meeting, at a whole second.\<close>

lemma slot_on_time:
  assumes "slot_on (cs_tz st) (class_slots st schedule) d t = Some period"
  obtains s raw where "t = combine (cs_tz st) d s" "(period, raw) \<in> set (cs_period_times st)" "time_of_day raw = Some s"
proof -
  have "\<exists>w s. (w, s, period) \<in> set slots \<and> combine tz d s = t" if "slot_on tz slots d t = Some period" for tz slots
    using that
  proof (induction slots)
    case (Cons x slots)
    then show ?case by (cases x) (auto split: if_splits)
  qed simp
  then obtain w s where "(w, s, period) \<in> set (class_slots st schedule)" "combine (cs_tz st) d s = t" using assms by blast
  then show thesis using class_slots_range that by blast
qed

lemma held_times:
  assumes held: "class_held st now db c (t', period) t room" and plain: "plain_classes st now db"
  defines "tz \<equiv> cs_tz st" and "d \<equiv> local_day (cs_tz st) t'"
  shows "local_day tz t = d" "seconds (epoch_seconds t) = t" "combine tz d 0 < t'" "t < t' + days 1" "local_day tz now \<le> d"
proof -
  note H = held [unfolded class_held_def fst_conv snd_conv class_meetings_mem]
  have "slot_on tz (class_slots st (schedule_json (cr_info c))) d t' = Some period" using H by (simp add: tz_def d_def)
  then obtain s raw where s: "t' = combine tz d s" "(period, raw) \<in> set (cs_period_times st)" "time_of_day raw = Some s"
    unfolding tz_def by (rule slot_on_time)
  have z: "tz mod seconds 1 = 0" using plain by (simp add: plain_classes_def tz_def)
  have "s \<noteq> 0" using plain s(2,3) by (auto simp: plain_classes_def)
  then have sr: "0 < s" "s < days 1" "s mod seconds 1 = 0" using time_of_day_range [OF s(3)] by auto
  then show "combine tz d 0 < t'" by (simp add: s(1) combine_def)
  obtain e where e: "t = combine tz d e" "0 \<le> e" "e < days 1" "e mod seconds 1 = 0"
  proof (cases "t = t'")
    case True
    then show thesis using that [of s] s(1) sr by simp
  next
    case False
    obtain x where x: "t = combine tz d x" "\<exists>raw. time_of_day raw = Some x"
      using H False by (auto simp: changed_meeting_def Let_def d_def tz_def split: if_splits option.splits)
    then show thesis using that [of x] time_of_day_range by blast
  qed
  show "local_day tz t = d" using e local_day_combine by simp
  show "seconds (epoch_seconds t) = t" using epoch_seconds_whole combine_whole [OF z e(4)] e(1) by simp
  show "t < t' + days 1" using e(1,3) s(1) sr(1) by (simp add: combine_def)
  have "local_day tz (combine tz (local_day tz now) 0) = local_day tz now" by (rule local_day_combine) (simp_all add: duration_defs)
  moreover have "combine tz (local_day tz now) 0 \<le> t'" using H by (simp add: tz_def)
  ultimately show "local_day tz now \<le> d" using local_day_mono [of "combine tz (local_day tz now) 0" t' tz] by (simp add: d_def tz_def)
qed

lemma wanted_confirmed:
  assumes run: "scan_course_reminders iso_text skip_locked st now filed db = Inr r" and plain: "plain_classes st now db"
    and x: "(c, ov, t, room, offset, fire) \<in> class_wanted st now db"
    and p: "p = jv_payload (class_values iso_text st c ov t room offset fire)"
  shows "\<exists>body. recheck_class_reminder st db p = Inr (Some (AList.update ''body'' (JStr body) p))"
proof -
  define tz where "tz = cs_tz st"
  have c: "(c, ov) \<in> set (the_rows st now db)" "fst (class_prefs st db (cr_user c))" "has_phone (class_queue db) (cr_user c)" using x by (auto simp: class_wanted_def)
  obtain t' period where held: "class_held st now db c (t', period) t room" using x by (auto simp: class_wanted_def)
  note H = held [unfolded class_held_def fst_conv snd_conv class_meetings_mem]
  note T = held_times [OF held plain, folded tz_def]
  define midnight where "midnight = combine tz (local_day tz t) 0"
  define ms where "ms = class_meetings st (schedule_json (cr_info c)) midnight (midnight + days 1)"
  have mem: "c \<in> set (courses (data (edits db)))" "cr_enrollment c = Enrolled" using class_rows_mem [OF c(1)] by simp_all
  have "find (\<lambda>y. int (cr_id y) = int (cr_id c)) (courses (data (edits db))) = Some c"
  proof -
    have "distinct (map cr_id xs) \<Longrightarrow> c \<in> set xs \<Longrightarrow> find (\<lambda>y. cr_id y = cr_id c) xs = Some c" for xs by (induction xs) (auto intro: rev_image_eqI)
    then show ?thesis using plain mem(1) by (simp add: plain_classes_def)
  qed
  moreover have "MIN_DATETIME \<le> t" "t \<le> MAX_DATETIME" using plain H T(4) by (auto simp: plain_classes_def)
  moreover have "payload_get p ''user_course_id'' = JInt (int (cr_id c))" "payload_get p ''start_epoch'' = JInt (epoch_seconds t)" and n: "map_of p ''course_name'' \<noteq> None"
    by (simp_all add: p class_values_def payload_get_def)
  ultimately have "recheck_class_reminder st db p = confirm_meeting st (recheck_changes db c) c p t ms"
    using mem(2) T(2) by (simp add: recheck_class_reminder_def recheck_changes_def ms_def midnight_def tz_def Let_def not_less)
  moreover have "\<exists>body. confirm_meeting st (recheck_changes db c) c p t ms = Inr (Some (AList.update ''body'' (JStr body) p))"
  proof (rule confirm_meeting_found)
    show "sorted_wrt (<) (map fst ms)" unfolding ms_def by (rule class_meetings_sorted)
    show "(t', period) \<in> set ms" unfolding ms_def class_meetings_mem using H T(1,3) midnight_le(2) [of t' tz] by (simp add: midnight_def tz_def)
    show "changed_meeting st (recheck_changes db c) c t' period = Inr (Some (t, room))" using H by (simp add: changed_meeting_recheck)
    show "map_of p ''course_name'' \<noteq> None" by (rule n)
    fix t'' period' assume m: "(t'', period') \<in> set ms" "t'' < t'"
    have i: "midnight < t''" "slot_on tz (class_slots st (schedule_json (cr_info c))) (local_day tz t'') t'' = Some period'" using m(1) by (simp_all add: ms_def class_meetings_mem tz_def)
    have "local_day tz midnight = local_day tz t'" unfolding midnight_def T(1) by (rule local_day_combine) (simp_all add: duration_defs tz_def)
    then have d: "local_day tz t'' = local_day tz t'" using local_day_mono [of midnight t'' tz] local_day_mono [of t'' t' tz] i(1) m(2) by simp
    have "combine tz (local_day tz now) 0 \<le> midnight" using T(1,5) by (simp add: midnight_def combine_def duration_defs tz_def)
    then have "(t'', period') \<in> set (class_meetings st (schedule_json (cr_info c)) (combine (cs_tz st) (local_day (cs_tz st) now) 0) (now + hours (cs_window_hours st)))"
      unfolding class_meetings_mem using i m(2) H by (simp add: tz_def)
    moreover have "meets_on db (term_days st now db) c (local_day (cs_tz st) t'')" using H d by (simp add: tz_def)
    ultimately show "\<exists>x. changed_meeting st (recheck_changes db c) c t'' period' = Inr x"
      unfolding changed_meeting_recheck by (rule scan_reads_meeting [OF run c])
  qed
  ultimately show ?thesis by simp
qed

text \<open>
  C25. What the class scan files, the check before a send confirms: over what the scan left, the check finds the class of each job the scan
  added, starting when the job says, and at most words its body anew.
\<close>

theorem filed_class_confirmed:
  fixes st :: class_settings and now :: datetime
  assumes run: "scan_course_reminders iso_text skip_locked st now filed db = Inr (n, db')"
    and wf: "jobs_wf (class_queue db)" "one_active (class_queue db)" and plain: "plain_classes st now db"
    and j: "j \<in> set (jobs (class_queue db'))" "j_id j \<notin> job_ids (class_queue db)"
  shows "\<exists>body. recheck_class_reminder st db' (j_payload j) = Inr (Some (AList.update ''body'' (JStr body) (j_payload j)))"
proof -
  note A = class_scan.after [of "(iso_text, skip_locked, st, now)", unfolded prod.case, OF run wf]
  obtain v where v: "v \<in> class_asked iso_text st now db" "filed_from COURSE_CHANNEL filed [v] j" using A(9) [OF j] by blast
  obtain x where x: "x \<in> class_wanted st now db" "v = wanted_value iso_text st x" using v(1) by (auto simp: class_asked_def)
  obtain c ov t room offset fire where e: "x = (c, ov, t, room, offset, fire)" by (cases x)
  have "j_payload j = jv_payload (class_values iso_text st c ov t room offset fire)" using v(2) x(2) e by (auto elim!: filed_fromE)
  then have "\<exists>body. recheck_class_reminder st db (j_payload j) = Inr (Some (AList.update ''body'' (JStr body) (j_payload j)))"
    by (rule wanted_confirmed [OF run plain x(1) [unfolded e]])
  moreover have "courses (data (edits db')) = courses (data (edits db))" "course_changes db' = course_changes db" by (subst A(2), simp add: put_class_queue_def)+
  ultimately show ?thesis by (simp only: recheck_class_reminder_def)
qed

section \<open>Concrete cases\<close>

definition sample_class_settings :: class_settings where
  "sample_class_settings = \<lparr>cs_offsets = [1 / 2], cs_window_hours = 24, cs_tz = 0, cs_period_times = [(''1'', ''0:01'')]\<rparr>"

text \<open>A course on Thursdays, the weekday of day 0, and a phone.\<close>

definition sample_class :: course_row where
  "sample_class = \<lparr>cr_id = 3, cr_user = 7, cr_semester = ''1141'', cr_key = ''k'', cr_no = Some ''CS1'', cr_source = NtustPortal,
     cr_info = \<lparr>course_name = ''Logic'', course_name_en = None, moodle_id = None, credits = JNull, classroom = Some ''R1'', instructors = [],
       schedule_json = JObj [(''4'', JList [JStr ''1''])], classroom_map = JNull\<rparr>,
     cr_enrollment = Enrolled, cr_added_at = None, cr_fetched_at = None, cr_last_seen_at = None, cr_version = 1, cr_updated_by = None\<rparr>"

definition sample_classes :: class_db where
  "sample_classes = \<lparr>edits = sample_edits\<lparr>data := (data sample_edits)\<lparr>courses := [sample_class], queue := (queue (data sample_edits))
    \<lparr>devices := [\<lparr>pv_id = 2, pv_user = 7, pv_platform = ''ios'', pv_app_version = Some ''2.1.0'', pv_locale = None, bulletin_push_enabled = False,
       cloud_sync_enabled = True, sync_assignment_reminders = True, pv_deleted_at = None\<rparr>],
     tokens := [\<lparr>tk_id = 1, tk_device = 2, tk_provider = ''apns'', tk_kind = ''standard'', tk_hash = [], tk_value = [], tk_scope_key = [],
       tk_expires_at = None, tk_status = ''active'', tk_last_success_at = None, tk_last_failure_at = None, tk_last_failure_code = None\<rparr>]\<rparr>\<rparr>\<rparr>,
     skipped_dates = [], course_changes = []\<rparr>"

abbreviation sample_class_scan :: "class_db \<Rightarrow> string + (nat \<times> class_db)" where
  "sample_class_scan \<equiv> scan_course_reminders (\<lambda>t. []) (\<lambda>i. False) sample_class_settings 0 0"

lemma sample_classes_ok: "jobs_wf (class_queue sample_classes)" "one_active (class_queue sample_classes)" "plain_classes sample_class_settings 0 sample_classes"
proof -
  have j: "jobs (class_queue sample_classes) = []" by (simp add: sample_classes_def sample_edits_def sample_mirror_def)
  then show "jobs_wf (class_queue sample_classes)" "one_active (class_queue sample_classes)" by (simp_all add: jobs_wf_def one_active_def)
  have "time_of_day ''0:01'' = Some (minutes 1)" by code_simp
  then show "plain_classes sample_class_settings 0 sample_classes"
    by (simp add: plain_classes_def sample_class_settings_def sample_classes_def MIN_DATETIME_def MAX_DATETIME_def duration_defs)
qed

lemma sample_class_scan_runs:
  obtains db' j where "sample_class_scan sample_classes = Inr (1, db')" "j \<in> set (jobs (class_queue db'))" "j_id j \<notin> job_ids (class_queue sample_classes)"
    "payload_get (j_payload j) ''start_epoch'' = JInt 60"
proof -
  have "map_sum id (\<lambda>r. (fst r, map (\<lambda>j. payload_get (j_payload j) ''start_epoch'') (jobs (class_queue (snd r))))) (sample_class_scan sample_classes) = Inr (1, [JInt 60])" by code_simp
  then obtain db' where d: "sample_class_scan sample_classes = Inr (1, db')" "map (\<lambda>j. payload_get (j_payload j) ''start_epoch'') (jobs (class_queue db')) = [JInt 60]"
    by (cases "sample_class_scan sample_classes") auto
  moreover have "jobs (class_queue sample_classes) = []" by (simp add: sample_classes_def sample_edits_def sample_mirror_def)
  ultimately show thesis using that [of db' "hd (jobs (class_queue db'))"] by (cases "jobs (class_queue db')") (auto simp: job_ids_def)
qed


theorem filed_class_confirmed_witness:
  "\<exists>db' j. sample_class_scan sample_classes = Inr (1, db') \<and> j \<in> set (jobs (class_queue db')) \<and> payload_get (j_payload j) ''start_epoch'' = JInt 60 \<and>
    (\<exists>p. recheck_class_reminder sample_class_settings db' (j_payload j) = Inr (Some p))"
  by (rule sample_class_scan_runs) (use filed_class_confirmed [OF _ sample_classes_ok] in blast)

end
