(* ===== verification/Spec2Isabelle.thy ===== *)
theory Spec2Isabelle
  imports DeliveryRows CourseChoices MoodleClient UploadFacts ReminderFacts ClassFacts
begin

text \<open>
  A verification library of the TigerDuck backend, a FastAPI service over PostgreSQL that keeps a student's courses,
  assignments and settings in step over their devices (``TigerSync''), mirrors the school's Moodle for them and sends their push
  notifications. Source paths below are under \<^verbatim>\<open>src/\<close>.

  \<^bold>\<open>The parts and how they meet.\<close> A device signs in with a Moodle token (\<^verbatim>\<open>server/auth\<close>), which
  stores the token encrypted, gives it a refresh session and creates the user's sync jobs. Devices upload and edit the user's data
  (\<^verbatim>\<open>server/routes/sync\<close>): every edit carries a stamp, is merged per field (\<^verbatim>\<open>server/sync/merge.py\<close>) or per
  course (\<^verbatim>\<open>server/sync/membership.py\<close>), is appended to the user's change log (\<^verbatim>\<open>server/sync/changelog.py\<close>), from
  which the other devices pull, and queues a silent push that tells them to (\<^verbatim>\<open>server/push/sync_trigger.py\<close>). The sync worker
  (\<^verbatim>\<open>server/syncjobs\<close>) runs the jobs: it fetches the user's assignments and courses from Moodle and mirrors them into the same
  tables under the same log. The push pipeline (\<^verbatim>\<open>server/push/pipeline.py\<close>) claims due push jobs, asks Moodle once more whether
  the reminder still holds (\<^verbatim>\<open>server/push/presend.py\<close>) and delivers it to the user's tokens with retries.

  \<^bold>\<open>The model.\<close> A table is a list of rows (a \<^theory_text>\<open>record\<close> with the columns the code reads or writes), a transaction is one
  function from the database to an answer and the database, a raised error is a value of a sum type, and a time is a number of
  microseconds (\<open>datetime\<close>). Requests of one user that take the same row lock are serialised by the database; each model names the
  lock it rests on. Where transactions of several processes interleave, the model is a transition system (\<open>reaches\<close> of
  \<open>Prelude\<close>) whose steps are the transactions, and an invariant is proved through the locale \<open>invariant_system\<close>.

  \<^bold>\<open>The theories.\<close>
  \<^item> \<open>Prelude\<close>: types, Python's text functions, durations, rows with a primary key, transition systems, shared lemmas.
  \<^item> \<open>RateLimit\<close>: the sliding-window limiter of \<^verbatim>\<open>auth/rate_limit.py\<close>, refined by the exact list of attempts in the window; a login
    passes only while both its keys have room.
  \<^item> \<open>SyncMerge\<close>: the clock and the field merge of \<^verbatim>\<open>sync/merge.py\<close>. Edits with different stamps give the same fields in any
    order; an edit's stamp is clamped to the bounds the code names.
  \<^item> \<open>Changelog\<close>: \<^verbatim>\<open>sync/changelog.py\<close> and \<^verbatim>\<open>sync/retention.py\<close>. With transactions of many devices open at once, a client that has pulled
    up to a revision has missed nothing, a pull returns exactly the later changes, and a client whose changes were purged is told to
    start over.
  \<^item> \<open>AuthSessions\<close>, \<open>SessionRing\<close>, \<open>SessionSafety\<close>: refresh sessions (\<^verbatim>\<open>auth/service.py\<close>, \<^verbatim>\<open>auth/tokens.py\<close>,
    \<^verbatim>\<open>auth/dependencies.py\<close>). The sessions rotated from one token form a ring; over all requests, a rotated token is taken again only
    while no successor was used, the first use ends its rivals, a lost reply can be repeated, unused sessions are bounded.
  \<^item> \<open>SyncJobTables\<close>, \<open>Login\<close>: sign-in, credentials, sign-out, provisioning of sync jobs, retirement of devices.
  \<^item> \<open>PushTables\<close>, \<open>Terms\<close>, \<open>PushQueue\<close>, \<open>Presend\<close>, \<open>PushDelivery\<close>, \<open>DeliveryRows\<close>: the push
    pipeline. Claims take the most urgent due jobs, once; a guarded push goes only on a fresh verdict; a tick ends; a delivery that
    finished is never sent again; a crash books one attempt.
  \<^item> \<open>Membership\<close>, \<open>CourseUpload\<close>, \<open>CourseRegister\<close>, \<open>RosterRegister\<close>, \<open>CourseChoices\<close>: course
    membership (\<^verbatim>\<open>routes/sync/courses.py\<close>, \<^verbatim>\<open>routes/sync/uploads.py\<close>). The whole handlers refine a last-writer-wins register per
    course, so the choices converge in every order of arrival.
  \<^item> \<open>MoodleMirror\<close>, \<open>MirrorFacts\<close>: what a Moodle answer writes (\<^verbatim>\<open>syncjobs/assignments.py\<close>, \<^verbatim>\<open>courses.py\<close>,
    \<^verbatim>\<open>submissions.py\<close>). The table operations refine point updates of a map from Moodle's key to the row; after an answer the live
    rows are exactly the answer, and the same answer again is silent.
  \<^item> \<open>SyncWorker\<close>, \<open>WorkerSafety\<close>: the worker (\<^verbatim>\<open>syncjobs/executor.py\<close>, \<^verbatim>\<open>budget.py\<close>, \<^verbatim>\<open>availability.py\<close>,
    \<^verbatim>\<open>credentials.py\<close>, \<^verbatim>\<open>routes/sync_jobs.py\<close>). Over every interleaving a job has one run and a user one running job; a run that lost
    its job writes nothing more; every kind of failure leaves the job in a named state; requests toward Moodle keep their pace.
  \<^item> \<open>MoodleClient\<close>: how the webservice's answers are read (\<^verbatim>\<open>syncjobs/moodle_client.py\<close>). An answer that is no list writes
    nothing, a batch of probes answers what was readable in any order, the cache of user ids never shows.
  \<^item> \<open>UserEdits\<close>, \<open>EditFacts\<close>, \<open>UploadFacts\<close>: the device's other writes (\<^verbatim>\<open>routes/sync/assignments.py\<close>,
    \<^verbatim>\<open>routes/overrides.py\<close>, \<^verbatim>\<open>routes/holiday_overrides.py\<close>, \<^verbatim>\<open>routes/settings_docs.py\<close>). Marks converge and stop the reminders,
    settings documents lose no update, an upload keeps and reports.
  \<^item> \<open>PyFloat\<close>, \<open>Reminders\<close>, \<open>FilingScan\<close>, \<open>ReminderFacts\<close>: the scan that files the reminders of due
    assignments (\<^verbatim>\<open>push/reminders.py\<close>). It leaves exactly the reminders the tables ask for, a second scan is silent, what it files passes
    the check before a send; one malformed settings document stops it for every user. The locale \<open>filing_scan\<close> is the contract of
    such a scan.
  \<^item> \<open>ClassReminders\<close>, \<open>ClassFacts\<close>: the scan that files the reminders of classes (\<^verbatim>\<open>push/course_reminders.py\<close>) under
    the same contract, with the school's course changes (\<^verbatim>\<open>academic_calendar/changes.py\<close>) and the check before a send. The meetings it
    finds are the schedule's, in order, and the check confirms what it files.

  \<^bold>\<open>Bounds and fuel.\<close> The loop that drains the push queue has fuel; \<open>push_tick_ends\<close> proves that fuel above the tick's
  workload (pending jobs times their remaining rounds) is never exhausted. A delivery job runs at most \<open>MAX_ROUNDS\<close> rounds as in
  the code, a sync tick at most its batch size of claims; every other loop is structural recursion.

  \<^bold>\<open>Parameters.\<close> What is not under \<^verbatim>\<open>src/\<close> is an argument: PyJWT, the keyed hash and the cipher (\<open>crypto\<close>,
  \<open>auth_services\<close>, \<open>decrypt\<close>), what APNs, FCM and Moodle answer (\<open>push_env\<close>, \<open>run_env\<close>), the clock at each
  point, what other processes commit between two transactions (\<open>gap\<close>), a transaction that fails (\<open>db_crash\<close>), Python's
  Unicode tables (\<open>unicode\<close>) and its ISO dates. A theorem that relies on one of them says so in a hypothesis and has a witness.

  \<^bold>\<open>Not modelled.\<close> Serialisation of rows for responses, logging, metrics and the operator's log (\<^verbatim>\<open>log_sync\<close>) write nothing the
  modelled code reads. The portal (\<^verbatim>\<open>portal/\<close>) is an operator's web interface over the same tables; the bulletins (scraping, language-model
  calls, matching), the link checker, the TLS pins, the course catalogue and the dashboards are services of their own beside sync and
  push, whose core is I/O. Migrations are schema history. The manifest names the parts one by one.
\<close>

end
